(* ===== verification/Prelude.thy ===== *)
theory Prelude
  imports Main
begin

text \<open>
  Shared material of the development: the lemma collections, the effect type of a C++
  member function (a state transformer that returns a value or a thrown exception and
  keeps the state reached either way), its combinators, and the two relations on such
  programs that the component theories reason with: \<open>keeps I m\<close> (the program \<open>m\<close>
  preserves the predicate \<open>I\<close>, whether it returns or throws) and \<open>frame f m\<close> (the
  program never changes the view \<open>f\<close> of the state).
\<close>

named_theorems prog_simps "unfolding rules of the program combinators"
named_theorems keeps_intros "composition rules for preserved predicates"
named_theorems frame_intros "composition rules for unchanged views of the state"

section \<open>Programs: state passing with exceptions\<close>

type_synonym ('e, 's, 'a) prog = "'s \<Rightarrow> ('e + 'a) \<times> 's"

definition ret :: "'a \<Rightarrow> ('e, 's, 'a) prog" where
  "ret x s = (Inr x, s)"

definition throw :: "'e \<Rightarrow> ('e, 's, 'a) prog" where
  "throw e s = (Inl e, s)"

definition bnd :: "('e, 's, 'a) prog \<Rightarrow> ('a \<Rightarrow> ('e, 's, 'b) prog) \<Rightarrow> ('e, 's, 'b) prog" where
  "bnd m k s = (case m s of (Inl e, s') \<Rightarrow> (Inl e, s') | (Inr x, s') \<Rightarrow> k x s')"

definition seq :: "('e, 's, 'a) prog \<Rightarrow> ('e, 's, 'b) prog \<Rightarrow> ('e, 's, 'b) prog" where
  "seq m n = bnd m (\<lambda>_. n)"

text \<open>\<open>catch m h\<close>: run \<open>m\<close>; on a throw run the handler \<open>h\<close> from the state of the throw.\<close>

definition catch :: "('e, 's, 'a) prog \<Rightarrow> ('e \<Rightarrow> ('e, 's, 'a) prog) \<Rightarrow> ('e, 's, 'a) prog" where
  "catch m h s = (case m s of (Inl e, s') \<Rightarrow> h e s' | (Inr x, s') \<Rightarrow> (Inr x, s'))"

definition gets :: "('s \<Rightarrow> 'a) \<Rightarrow> ('e, 's, 'a) prog" where
  "gets f s = (Inr (f s), s)"

definition modify :: "('s \<Rightarrow> 's) \<Rightarrow> ('e, 's, unit) prog" where
  "modify f s = (Inr (), f s)"

text \<open>\<open>call f\<close> runs a call whose answer and effect on the state are given by \<open>f\<close>.\<close>

definition call :: "('s \<Rightarrow> 'a \<times> 's) \<Rightarrow> ('e, 's, 'a) prog" where
  "call f s = (Inr (fst (f s)), snd (f s))"

definition cond :: "('s \<Rightarrow> bool) \<Rightarrow> ('e, 's, 'a) prog \<Rightarrow> ('e, 's, 'a) prog \<Rightarrow> ('e, 's, 'a) prog" where
  "cond b m n s = (if b s then m s else n s)"

definition skip :: "('e, 's, unit) prog" where
  "skip = ret ()"

fun for_each :: "'a list \<Rightarrow> ('a \<Rightarrow> ('e, 's, unit) prog) \<Rightarrow> ('e, 's, unit) prog" where
  "for_each [] f = skip"
| "for_each (x # xs) f = seq (f x) (for_each xs f)"

lemmas [prog_simps] = ret_def throw_def bnd_def seq_def catch_def gets_def modify_def
  call_def cond_def skip_def

definition outcome :: "('e + 'a) \<times> 's \<Rightarrow> 'e + 'a" where
  "outcome = fst"

section \<open>Preserved predicates and unchanged views\<close>

definition keeps :: "('s \<Rightarrow> bool) \<Rightarrow> ('e, 's, 'a) prog \<Rightarrow> bool" where
  "keeps I m \<longleftrightarrow> (\<forall>s. I s \<longrightarrow> I (snd (m s)))"

definition frame :: "('s \<Rightarrow> 'v) \<Rightarrow> ('e, 's, 'a) prog \<Rightarrow> bool" where
  "frame f m \<longleftrightarrow> (\<forall>s. f (snd (m s)) = f s)"

lemma keepsI: "(\<And>s. I s \<Longrightarrow> I (snd (m s))) \<Longrightarrow> keeps I m"
  by (simp add: keeps_def)

lemma keepsD: "keeps I m \<Longrightarrow> I s \<Longrightarrow> I (snd (m s))"
  by (simp add: keeps_def)

lemma frameI: "(\<And>s. f (snd (m s)) = f s) \<Longrightarrow> frame f m"
  by (simp add: frame_def)

lemma frameD: "frame f m \<Longrightarrow> f (snd (m s)) = f s"
  by (simp add: frame_def)

lemma keeps_ret [keeps_intros]: "keeps I (ret x)"
  by (simp add: keeps_def ret_def)

lemma keeps_throw [keeps_intros]: "keeps I (throw e)"
  by (simp add: keeps_def throw_def)

lemma keeps_gets [keeps_intros]: "keeps I (gets f)"
  by (simp add: keeps_def gets_def)

lemma keeps_skip [keeps_intros]: "keeps I skip"
  by (simp add: keeps_def skip_def ret_def)

lemma keeps_bnd [keeps_intros]:
  "keeps I m \<Longrightarrow> (\<And>x. keeps I (k x)) \<Longrightarrow> keeps I (bnd m k)"
  by (auto simp: keeps_def bnd_def split: prod.splits sum.splits)

lemma keeps_seq [keeps_intros]: "keeps I m \<Longrightarrow> keeps I n \<Longrightarrow> keeps I (seq m n)"
  by (simp add: seq_def keeps_bnd)

lemma keeps_catch [keeps_intros]:
  "keeps I m \<Longrightarrow> (\<And>e. keeps I (h e)) \<Longrightarrow> keeps I (catch m h)"
  by (auto simp: keeps_def catch_def split: prod.splits sum.splits)

lemma keeps_cond [keeps_intros]: "keeps I m \<Longrightarrow> keeps I n \<Longrightarrow> keeps I (cond b m n)"
  by (simp add: keeps_def cond_def)

lemma keeps_if [keeps_intros]: "keeps I m \<Longrightarrow> keeps I n \<Longrightarrow> keeps I (if b then m else n)"
  by simp

lemma keeps_for_each [keeps_intros]: "(\<And>x. keeps I (f x)) \<Longrightarrow> keeps I (for_each xs f)"
  by (induction xs) (auto intro: keeps_intros)

lemma keeps_modify [keeps_intros]: "(\<And>s. I s \<Longrightarrow> I (u s)) \<Longrightarrow> keeps I (modify u)"
  by (simp add: keeps_def modify_def)

lemma keeps_call: "(\<And>s. I s \<Longrightarrow> I (snd (u s))) \<Longrightarrow> keeps I (call u)"
  by (simp add: keeps_def call_def)

lemma keeps_case_option [keeps_intros]:
  "keeps I a \<Longrightarrow> (\<And>x. keeps I (b x)) \<Longrightarrow> keeps I (case_option a b t)"
  by (cases t) simp_all

lemma keeps_case_prod [keeps_intros]: "(\<And>x y. keeps I (b x y)) \<Longrightarrow> keeps I (case_prod b t)"
  by (cases t) simp

lemma keeps_case_sum [keeps_intros]:
  "(\<And>x. keeps I (a x)) \<Longrightarrow> (\<And>x. keeps I (b x)) \<Longrightarrow> keeps I (case_sum a b t)"
  by (cases t) simp_all

lemma keeps_Let [keeps_intros]: "(\<And>x. keeps I (f x)) \<Longrightarrow> keeps I (Let v f)"
  by simp

lemma frame_ret [frame_intros]: "frame f (ret x)"
  by (simp add: frame_def ret_def)

lemma frame_throw [frame_intros]: "frame f (throw e)"
  by (simp add: frame_def throw_def)

lemma frame_gets [frame_intros]: "frame f (gets g)"
  by (simp add: frame_def gets_def)

lemma frame_skip [frame_intros]: "frame f skip"
  by (simp add: frame_def skip_def ret_def)

lemma frame_bnd [frame_intros]:
  "frame f m \<Longrightarrow> (\<And>x. frame f (k x)) \<Longrightarrow> frame f (bnd m k)"
  by (auto simp: frame_def bnd_def split: prod.splits sum.splits) (metis snd_conv)+

lemma frame_seq [frame_intros]: "frame f m \<Longrightarrow> frame f n \<Longrightarrow> frame f (seq m n)"
  by (simp add: seq_def frame_bnd)

lemma frame_catch [frame_intros]:
  "frame f m \<Longrightarrow> (\<And>e. frame f (h e)) \<Longrightarrow> frame f (catch m h)"
  by (auto simp: frame_def catch_def split: prod.splits sum.splits) (metis snd_conv)+

lemma frame_cond [frame_intros]: "frame f m \<Longrightarrow> frame f n \<Longrightarrow> frame f (cond b m n)"
  by (simp add: frame_def cond_def)

lemma frame_if [frame_intros]: "frame f m \<Longrightarrow> frame f n \<Longrightarrow> frame f (if b then m else n)"
  by simp

lemma frame_for_each [frame_intros]: "(\<And>x. frame f (g x)) \<Longrightarrow> frame f (for_each xs g)"
  by (induction xs) (auto intro: frame_intros)

lemma frame_modify: "(\<And>s. f (u s) = f s) \<Longrightarrow> frame f (modify u)"
  by (simp add: frame_def modify_def)

lemma frame_call: "(\<And>s. f (snd (u s)) = f s) \<Longrightarrow> frame f (call u)"
  by (simp add: frame_def call_def)

lemma keeps_frame: "frame f m \<Longrightarrow> keeps (\<lambda>s. P (f s)) m"
  by (simp add: frame_def keeps_def)

lemma bnd_assoc: "bnd (bnd m k) l = bnd m (\<lambda>x. bnd (k x) l)"
  by (rule ext) (simp add: bnd_def split: prod.splits sum.splits)

text \<open>One successful step of a program at a time.\<close>

lemma bndI: "m s = (Inr a, t) \<Longrightarrow> k a t = r \<Longrightarrow> bnd m k s = r"
  by (simp add: bnd_def)

lemma seqI: "m s = (Inr a, t) \<Longrightarrow> n t = r \<Longrightarrow> seq m n s = r"
  by (simp add: seq_def bnd_def)

lemma condI: "(c s \<Longrightarrow> m s = r) \<Longrightarrow> (\<not> c s \<Longrightarrow> n s = r) \<Longrightarrow> cond c m n s = r"
  by (simp add: cond_def)

lemma step_simps:
  "bnd (gets f) k s = k (f s) s"
  "seq (modify g) n s = n (g s)"
  "seq skip n s = n s"
  "bnd (ret a) k s = k a s"
  "seq (throw e) n s = (Inl e, s)"
  "bnd (throw e) k s = (Inl e, s)"
  by (simp_all add: bnd_def seq_def gets_def modify_def skip_def ret_def throw_def)

lemma snd_bnd_skip [simp]: "snd (bnd m (\<lambda>_. skip) s) = snd (m s)"
  by (simp add: bnd_def skip_def ret_def split: prod.splits sum.splits)

lemma fst_bnd_skip: "fst (bnd m (\<lambda>_. skip) s) = (case fst (m s) of Inl e \<Rightarrow> Inl e | Inr _ \<Rightarrow> Inr ())"
  by (simp add: bnd_def skip_def ret_def split: prod.splits sum.splits)

section \<open>Text\<close>

text \<open>A text between single or double quotes, as the messages and queries write it.\<close>

definition quoted :: "string \<Rightarrow> string" where
  "quoted s = CHR 0x27 # s @ [CHR 0x27]"

definition dquoted :: "string \<Rightarrow> string" where
  "dquoted s = CHR 0x22 # s @ [CHR 0x22]"

definition nl :: string where
  "nl = [CHR 0x0A]"

section \<open>Lists\<close>

lemma takeWhile_all: "(\<And>x. x \<in> set xs \<Longrightarrow> P x) \<Longrightarrow> takeWhile P xs = xs"
  by (induction xs) auto

lemma dropWhile_none: "(\<And>x. x \<in> set xs \<Longrightarrow> P x) \<Longrightarrow> dropWhile P xs = []"
  by (induction xs) auto

end
