(* ===== verification/Except.thy ===== *)
theory Except
  imports Prelude
begin

text \<open>
  The exception classes of \<^verbatim>\<open>include/pqxx/except.hxx\<close> and \<^verbatim>\<open>src/except.cxx\<close>, with the
  standard classes the sources throw. An exception object is its class, its message, the
  query text of an \<open>sql_error\<close> and the error position of a \<open>syntax_error\<close>; a
  \<^verbatim>\<open>catch\<close> clause tests the class through \<open>derives_from\<close>.
\<close>

section \<open>Classes\<close>

datatype exn_class =
    Std_exception | Std_runtime_error | Std_logic_error | Std_invalid_argument
  | Std_domain_error | Std_out_of_range | Std_overflow_error | Std_bad_alloc
  | Pqxx_exception
  | Failure | Broken_connection | Sql_error | In_doubt_error
  | Internal_error | Usage_error | Argument_error | Conversion_error | Range_error
  | Feature_not_supported | Data_exception
  | Integrity_constraint_violation | Restrict_violation | Not_null_violation
  | Foreign_key_violation | Unique_violation | Check_violation
  | Invalid_cursor_state | Invalid_sql_statement_name | Invalid_cursor_name
  | Syntax_error | Undefined_column | Undefined_function | Undefined_table
  | Insufficient_privilege | Insufficient_resources | Disk_full | Out_of_memory
  | Too_many_connections
  | Plpgsql_error | Plpgsql_raise | Plpgsql_no_data_found | Plpgsql_too_many_rows
  | Undefined_behaviour \<comment> \<open>not a class: marks a run to which C++ gives no meaning\<close>
  | Terminated \<comment> \<open>not a class: an exception left a function that may not throw\<close>
  | Diverged \<comment> \<open>not a class: a loop used up the steps the model grants it\<close>

text \<open>The direct bases of each class, in declaration order.\<close>

fun std_bases :: "exn_class \<Rightarrow> exn_class list" where
  "std_bases Std_runtime_error = [Std_exception]"
| "std_bases Std_logic_error = [Std_exception]"
| "std_bases Std_invalid_argument = [Std_logic_error]"
| "std_bases Std_domain_error = [Std_logic_error]"
| "std_bases Std_out_of_range = [Std_logic_error]"
| "std_bases Std_overflow_error = [Std_runtime_error]"
| "std_bases Std_bad_alloc = [Std_exception]"
| "std_bases _ = []"

fun general_bases :: "exn_class \<Rightarrow> exn_class list" where
  "general_bases Failure = [Pqxx_exception, Std_runtime_error]"
| "general_bases Broken_connection = [Failure]"
| "general_bases Sql_error = [Failure]"
| "general_bases In_doubt_error = [Failure]"
| "general_bases Internal_error = [Pqxx_exception, Std_logic_error]"
| "general_bases Usage_error = [Pqxx_exception, Std_logic_error]"
| "general_bases Argument_error = [Pqxx_exception, Std_invalid_argument]"
| "general_bases Conversion_error = [Pqxx_exception, Std_domain_error]"
| "general_bases Range_error = [Pqxx_exception, Std_out_of_range]"
| "general_bases _ = []"

fun sqlstate_bases :: "exn_class \<Rightarrow> exn_class list" where
  "sqlstate_bases Feature_not_supported = [Sql_error]"
| "sqlstate_bases Data_exception = [Sql_error]"
| "sqlstate_bases Integrity_constraint_violation = [Sql_error]"
| "sqlstate_bases Restrict_violation = [Integrity_constraint_violation]"
| "sqlstate_bases Not_null_violation = [Integrity_constraint_violation]"
| "sqlstate_bases Foreign_key_violation = [Integrity_constraint_violation]"
| "sqlstate_bases Unique_violation = [Integrity_constraint_violation]"
| "sqlstate_bases Check_violation = [Integrity_constraint_violation]"
| "sqlstate_bases Invalid_cursor_state = [Sql_error]"
| "sqlstate_bases Invalid_sql_statement_name = [Sql_error]"
| "sqlstate_bases Invalid_cursor_name = [Sql_error]"
| "sqlstate_bases Syntax_error = [Sql_error]"
| "sqlstate_bases Undefined_column = [Syntax_error]"
| "sqlstate_bases Undefined_function = [Syntax_error]"
| "sqlstate_bases Undefined_table = [Syntax_error]"
| "sqlstate_bases _ = []"

fun resource_bases :: "exn_class \<Rightarrow> exn_class list" where
  "resource_bases Insufficient_privilege = [Sql_error]"
| "resource_bases Insufficient_resources = [Sql_error]"
| "resource_bases Disk_full = [Insufficient_resources]"
| "resource_bases Out_of_memory = [Insufficient_resources]"
| "resource_bases Too_many_connections = [Broken_connection]"
| "resource_bases Plpgsql_error = [Sql_error]"
| "resource_bases Plpgsql_raise = [Plpgsql_error]"
| "resource_bases Plpgsql_no_data_found = [Plpgsql_error]"
| "resource_bases Plpgsql_too_many_rows = [Plpgsql_error]"
| "resource_bases _ = []"

definition bases :: "exn_class \<Rightarrow> exn_class list" where
  "bases c = std_bases c @ general_bases c @ sqlstate_bases c @ resource_bases c"

text \<open>Height in the hierarchy: every base is strictly lower, so the ancestors are found.\<close>

fun height :: "exn_class \<Rightarrow> nat" where
  "height Std_exception = 0" | "height Pqxx_exception = 0" | "height Undefined_behaviour = 0"
| "height Terminated = 0" | "height Diverged = 0"
| "height Std_runtime_error = 1" | "height Std_logic_error = 1" | "height Std_bad_alloc = 1"
| "height Std_invalid_argument = 2" | "height Std_domain_error = 2"
| "height Std_out_of_range = 2" | "height Std_overflow_error = 2"
| "height Failure = 3" | "height Internal_error = 3" | "height Usage_error = 3"
| "height Argument_error = 3" | "height Conversion_error = 3" | "height Range_error = 3"
| "height Broken_connection = 4" | "height Sql_error = 4" | "height In_doubt_error = 4"
| "height Integrity_constraint_violation = 5" | "height Syntax_error = 5"
| "height Insufficient_resources = 5" | "height Plpgsql_error = 5"
| "height Feature_not_supported = 5" | "height Data_exception = 5"
| "height Invalid_cursor_state = 5" | "height Invalid_sql_statement_name = 5"
| "height Invalid_cursor_name = 5" | "height Insufficient_privilege = 5"
| "height Too_many_connections = 5"
| "height _ = 6"

lemma bases_lower: "b \<in> set (bases c) \<Longrightarrow> height b < height c"
  by (cases c) (auto simp: bases_def)

function ancestors :: "exn_class \<Rightarrow> exn_class list" where
  "ancestors c = c # concat (map ancestors (bases c))"
  by auto
termination
  by (relation "measure height") (auto intro: bases_lower)

declare ancestors.simps [simp del]

text \<open>Would a handler \<^verbatim>\<open>catch (const d &)\<close> catch an exception of class \<open>c\<close>?\<close>

definition derives_from :: "exn_class \<Rightarrow> exn_class \<Rightarrow> bool" where
  "derives_from c d \<longleftrightarrow> d \<in> set (ancestors c)"

lemma derives_from_iff: "derives_from c d \<longleftrightarrow> c = d \<or> (\<exists>b \<in> set (bases c). derives_from b d)"
  by (subst derives_from_def, subst ancestors.simps) (auto simp: derives_from_def)

lemma derives_from_refl [simp]: "derives_from c c"
  by (subst derives_from_iff) simp

lemma derives_from_trans: "derives_from c d \<Longrightarrow> derives_from d e \<Longrightarrow> derives_from c e"
proof (induction c rule: ancestors.induct)
  case (1 c)
  show ?case
  proof (cases "c = d")
    case True
    with "1.prems" show ?thesis by simp
  next
    case False
    with "1.prems" obtain b where "b \<in> set (bases c)" "derives_from b d"
      using derives_from_iff [of c d] by blast
    with "1.IH" "1.prems" show ?thesis
      using derives_from_iff [of c e] by blast
  qed
qed

text \<open>The ancestors of every class, computed once, level by level.\<close>

lemma ancestors_level0:
    "ancestors Std_exception = [Std_exception]"
    "ancestors Pqxx_exception = [Pqxx_exception]"
    "ancestors Undefined_behaviour = [Undefined_behaviour]"
    "ancestors Terminated = [Terminated]"
  "ancestors Diverged = [Diverged]"
  by (subst ancestors.simps, simp add: bases_def)+

lemma ancestors_level1:
    "ancestors Std_runtime_error = [Std_runtime_error, Std_exception]"
    "ancestors Std_logic_error = [Std_logic_error, Std_exception]"
    "ancestors Std_bad_alloc = [Std_bad_alloc, Std_exception]"
  by (subst ancestors.simps, simp add: bases_def ancestors_level0)+

lemma ancestors_level2:
    "ancestors Std_invalid_argument = [Std_invalid_argument, Std_logic_error, Std_exception]"
    "ancestors Std_domain_error = [Std_domain_error, Std_logic_error, Std_exception]"
    "ancestors Std_out_of_range = [Std_out_of_range, Std_logic_error, Std_exception]"
    "ancestors Std_overflow_error = [Std_overflow_error, Std_runtime_error, Std_exception]"
    "ancestors Failure = [Failure, Pqxx_exception, Std_runtime_error, Std_exception]"
    "ancestors Internal_error = [Internal_error, Pqxx_exception, Std_logic_error,
     Std_exception]"
    "ancestors Usage_error = [Usage_error, Pqxx_exception, Std_logic_error, Std_exception]"
  by (subst ancestors.simps, simp add: bases_def ancestors_level0 ancestors_level1)+

lemma ancestors_level3:
    "ancestors Broken_connection = [Broken_connection, Failure, Pqxx_exception,
     Std_runtime_error, Std_exception]"
    "ancestors Sql_error = [Sql_error, Failure, Pqxx_exception, Std_runtime_error,
     Std_exception]"
    "ancestors In_doubt_error = [In_doubt_error, Failure, Pqxx_exception, Std_runtime_error,
     Std_exception]"
    "ancestors Argument_error = [Argument_error, Pqxx_exception, Std_invalid_argument,
     Std_logic_error, Std_exception]"
    "ancestors Conversion_error = [Conversion_error, Pqxx_exception, Std_domain_error,
     Std_logic_error, Std_exception]"
    "ancestors Range_error = [Range_error, Pqxx_exception, Std_out_of_range, Std_logic_error,
     Std_exception]"
  by (subst ancestors.simps, simp add: bases_def ancestors_level0 ancestors_level1 ancestors_level2)+

lemma ancestors_level4:
    "ancestors Feature_not_supported = [Feature_not_supported, Sql_error, Failure,
     Pqxx_exception, Std_runtime_error, Std_exception]"
    "ancestors Data_exception = [Data_exception, Sql_error, Failure, Pqxx_exception,
     Std_runtime_error, Std_exception]"
    "ancestors Integrity_constraint_violation = [Integrity_constraint_violation, Sql_error,
     Failure, Pqxx_exception, Std_runtime_error, Std_exception]"
    "ancestors Invalid_cursor_state = [Invalid_cursor_state, Sql_error, Failure, Pqxx_exception,
     Std_runtime_error, Std_exception]"
    "ancestors Invalid_sql_statement_name = [Invalid_sql_statement_name, Sql_error, Failure,
     Pqxx_exception, Std_runtime_error, Std_exception]"
    "ancestors Invalid_cursor_name = [Invalid_cursor_name, Sql_error, Failure, Pqxx_exception,
     Std_runtime_error, Std_exception]"
    "ancestors Syntax_error = [Syntax_error, Sql_error, Failure, Pqxx_exception,
     Std_runtime_error, Std_exception]"
    "ancestors Insufficient_privilege = [Insufficient_privilege, Sql_error, Failure,
     Pqxx_exception, Std_runtime_error, Std_exception]"
    "ancestors Insufficient_resources = [Insufficient_resources, Sql_error, Failure,
     Pqxx_exception, Std_runtime_error, Std_exception]"
    "ancestors Too_many_connections = [Too_many_connections, Broken_connection, Failure,
     Pqxx_exception, Std_runtime_error, Std_exception]"
    "ancestors Plpgsql_error = [Plpgsql_error, Sql_error, Failure, Pqxx_exception,
     Std_runtime_error, Std_exception]"
  by (subst ancestors.simps, simp add: bases_def ancestors_level0 ancestors_level1 ancestors_level2 ancestors_level3)+

lemma ancestors_level5:
    "ancestors Restrict_violation = [Restrict_violation, Integrity_constraint_violation,
     Sql_error, Failure, Pqxx_exception, Std_runtime_error, Std_exception]"
    "ancestors Not_null_violation = [Not_null_violation, Integrity_constraint_violation,
     Sql_error, Failure, Pqxx_exception, Std_runtime_error, Std_exception]"
    "ancestors Foreign_key_violation = [Foreign_key_violation, Integrity_constraint_violation,
     Sql_error, Failure, Pqxx_exception, Std_runtime_error, Std_exception]"
    "ancestors Unique_violation = [Unique_violation, Integrity_constraint_violation, Sql_error,
     Failure, Pqxx_exception, Std_runtime_error, Std_exception]"
    "ancestors Check_violation = [Check_violation, Integrity_constraint_violation, Sql_error,
     Failure, Pqxx_exception, Std_runtime_error, Std_exception]"
    "ancestors Undefined_column = [Undefined_column, Syntax_error, Sql_error, Failure,
     Pqxx_exception, Std_runtime_error, Std_exception]"
    "ancestors Undefined_function = [Undefined_function, Syntax_error, Sql_error, Failure,
     Pqxx_exception, Std_runtime_error, Std_exception]"
    "ancestors Undefined_table = [Undefined_table, Syntax_error, Sql_error, Failure,
     Pqxx_exception, Std_runtime_error, Std_exception]"
    "ancestors Disk_full = [Disk_full, Insufficient_resources, Sql_error, Failure,
     Pqxx_exception, Std_runtime_error, Std_exception]"
    "ancestors Out_of_memory = [Out_of_memory, Insufficient_resources, Sql_error, Failure,
     Pqxx_exception, Std_runtime_error, Std_exception]"
    "ancestors Plpgsql_raise = [Plpgsql_raise, Plpgsql_error, Sql_error, Failure,
     Pqxx_exception, Std_runtime_error, Std_exception]"
    "ancestors Plpgsql_no_data_found = [Plpgsql_no_data_found, Plpgsql_error, Sql_error,
     Failure, Pqxx_exception, Std_runtime_error, Std_exception]"
    "ancestors Plpgsql_too_many_rows = [Plpgsql_too_many_rows, Plpgsql_error, Sql_error,
     Failure, Pqxx_exception, Std_runtime_error, Std_exception]"
  by (subst ancestors.simps, simp add: bases_def ancestors_level0 ancestors_level1 ancestors_level2 ancestors_level3 ancestors_level4)+

lemmas derives_from_eval = derives_from_def ancestors_level0 ancestors_level1 ancestors_level2 ancestors_level3 ancestors_level4 ancestors_level5

section \<open>Exception objects and their constructors\<close>

datatype exn = Exn (cls: exn_class) (what: string) (exn_query: string) (error_position: int)

type_synonym ('s, 'a) cxx = "(exn, 's, 'a) prog"

definition plain :: "exn_class \<Rightarrow> string \<Rightarrow> exn" where
  "plain c msg = Exn c msg [] (-1)"

definition failure :: "string \<Rightarrow> exn" where
  "failure msg = plain Failure msg"

definition broken_connection_default :: exn where
  "broken_connection_default = plain Broken_connection ''Connection to database failed''"

definition broken_connection :: "string \<Rightarrow> exn" where
  "broken_connection msg = plain Broken_connection msg"

definition sql_error :: "string \<Rightarrow> string \<Rightarrow> exn" where
  "sql_error msg Q = Exn Sql_error msg Q (-1)"

definition in_doubt_error :: "string \<Rightarrow> exn" where
  "in_doubt_error msg = plain In_doubt_error msg"

definition internal_error :: "string \<Rightarrow> exn" where
  "internal_error msg = plain Internal_error (''libpqxx internal error: '' @ msg)"

definition usage_error :: "string \<Rightarrow> exn" where
  "usage_error msg = plain Usage_error msg"

definition argument_error :: "string \<Rightarrow> exn" where
  "argument_error msg = plain Argument_error msg"

definition conversion_error :: "string \<Rightarrow> exn" where
  "conversion_error msg = plain Conversion_error msg"

definition range_error :: "string \<Rightarrow> exn" where
  "range_error msg = plain Range_error msg"

definition undefined_behaviour :: exn where
  "undefined_behaviour = plain Undefined_behaviour []"

definition terminated :: exn where
  "terminated = plain Terminated []"

definition diverged :: exn where
  "diverged = plain Diverged []"

definition caught_as :: "exn_class \<Rightarrow> exn \<Rightarrow> bool" where
  "caught_as c e \<longleftrightarrow> derives_from (cls e) c"

text \<open>\<^verbatim>\<open>try { m } catch (const C &e) { h(e) }\<close>: other exceptions pass through.\<close>

definition catch_class :: "exn_class \<Rightarrow> ('s, 'a) cxx \<Rightarrow> (exn \<Rightarrow> ('s, 'a) cxx) \<Rightarrow> ('s, 'a) cxx" where
  "catch_class c m h = catch m (\<lambda>e. if caught_as c e then h e else throw e)"

text \<open>\<^verbatim>\<open>catch (...)\<close>: every exception, but never a run without meaning.\<close>

definition catch_all :: "('s, 'a) cxx \<Rightarrow> (exn \<Rightarrow> ('s, 'a) cxx) \<Rightarrow> ('s, 'a) cxx" where
  "catch_all m h = catch m (\<lambda>e. if cls e \<in> {Undefined_behaviour, Terminated, Diverged} then throw e else h e)"

abbreviation catch_std :: "('s, 'a) cxx \<Rightarrow> (exn \<Rightarrow> ('s, 'a) cxx) \<Rightarrow> ('s, 'a) cxx" where
  "catch_std \<equiv> catch_class Std_exception"

lemma keeps_catch_class [keeps_intros]:
  "keeps I m \<Longrightarrow> (\<And>e. keeps I (h e)) \<Longrightarrow> keeps I (catch_class c m h)"
  by (auto simp: catch_class_def intro!: keeps_intros)

lemma frame_catch_class [frame_intros]:
  "frame f m \<Longrightarrow> (\<And>e. frame f (h e)) \<Longrightarrow> frame f (catch_class c m h)"
  by (auto simp: catch_class_def intro!: frame_intros)

lemma keeps_catch_all [keeps_intros]:
  "keeps I m \<Longrightarrow> (\<And>e. keeps I (h e)) \<Longrightarrow> keeps I (catch_all m h)"
  by (auto simp: catch_all_def intro!: keeps_intros)

lemma frame_catch_all [frame_intros]:
  "frame f m \<Longrightarrow> (\<And>e. frame f (h e)) \<Longrightarrow> frame f (catch_all m h)"
  by (auto simp: catch_all_def intro!: frame_intros)

text \<open>
  A local object's destructor \<open>d\<close> after the rest of its block \<open>m\<close>, on every way out. An
  exception of \<open>d\<close> replaces a normal end; during the unwinding for another one it ends the
  program.
\<close>

definition with_cleanup :: "('s, 'a) cxx \<Rightarrow> ('s, unit) cxx \<Rightarrow> ('s, 'a) cxx" where
  "with_cleanup m d s =
     (case m s of (r, s') \<Rightarrow>
       (case d s' of
          (Inr _, s'') \<Rightarrow> (r, s'')
        | (Inl e, s'') \<Rightarrow> (case r of Inr _ \<Rightarrow> (Inl e, s'') | Inl _ \<Rightarrow> (Inl (plain Terminated []), s''))))"

lemma keeps_with_cleanup [keeps_intros]:
  "keeps I m \<Longrightarrow> keeps I d \<Longrightarrow> keeps I (with_cleanup m d)"
  by (auto simp: keeps_def with_cleanup_def split: prod.splits sum.splits)

lemma frame_with_cleanup [frame_intros]:
  "frame f m \<Longrightarrow> frame f d \<Longrightarrow> frame f (with_cleanup m d)"
  by (auto simp: frame_def with_cleanup_def split: prod.splits sum.splits) (metis snd_conv)+

lemmas exn_defs = plain_def failure_def broken_connection_default_def broken_connection_def
  sql_error_def in_doubt_error_def internal_error_def usage_error_def argument_error_def
  conversion_error_def range_error_def undefined_behaviour_def terminated_def diverged_def

lemma std_exception_classes:
  "c \<notin> {Pqxx_exception, Undefined_behaviour, Terminated, Diverged} \<Longrightarrow> derives_from c Std_exception"
  by (cases c) (simp_all add: derives_from_eval)

lemma uncaught_std [simp]:
  "\<not> caught_as Std_exception undefined_behaviour" "\<not> caught_as Std_exception terminated"
  "\<not> caught_as Std_exception diverged"
  by (simp_all add: caught_as_def exn_defs derives_from_eval)

lemma caught_std [simp]:
  "caught_as Std_exception (failure m)" "caught_as Std_exception (broken_connection m)"
  "caught_as Std_exception broken_connection_default"
  "caught_as Std_exception (sql_error m q)" "caught_as Std_exception (in_doubt_error m)"
  "caught_as Std_exception (internal_error m)" "caught_as Std_exception (usage_error m)"
  "caught_as Std_exception (argument_error m)" "caught_as Std_exception (range_error m)"
  by (simp_all add: caught_as_def exn_defs std_exception_classes)

end
