(* ===== verification/Strconv.thy ===== *)
theory Strconv
  imports Except
begin

text \<open>
  String conversion, \<^verbatim>\<open>src/strconv.cxx\<close> and \<^verbatim>\<open>include/pqxx/strconv.hxx\<close>. The C++ integer types
  are descriptors (\<open>inttype\<close>: width and signedness) with their limits; arithmetic on a value
  is performed the way C++ does it for that type (promotion to \<^verbatim>\<open>int\<close> and conversion back for
  the 16-bit types, modular for unsigned types, without meaning on signed overflow). Text is
  a list of characters; a C string is the prefix before its NUL.
\<close>

section \<open>C strings and characters\<close>

definition c_str :: "string \<Rightarrow> string" where
  "c_str s = takeWhile (\<lambda>c. c \<noteq> CHR 0x00) s"

text \<open>The value of a \<^verbatim>\<open>char\<close> used in arithmetic (\<^verbatim>\<open>char\<close> is signed on the supported platforms).\<close>

definition char_value :: "char \<Rightarrow> int" where
  "char_value c = (if of_char c < (128::int) then of_char c else of_char c - 256)"

definition isdigit :: "char \<Rightarrow> bool" where
  "isdigit c \<longleftrightarrow> 48 \<le> char_value c \<and> char_value c \<le> 57"

definition digit_to_number :: "char \<Rightarrow> int" where
  "digit_to_number c = char_value c - 48"

definition number_to_digit :: "int \<Rightarrow> char" where
  "number_to_digit i = char_of (i + 48)"

lemma isdigit_number: "isdigit c \<Longrightarrow> 0 \<le> digit_to_number c \<and> digit_to_number c \<le> 9"
  by (auto simp: isdigit_def digit_to_number_def)

lemma char_value_small: "0 \<le> i \<Longrightarrow> i < 128 \<Longrightarrow> char_value (char_of i) = (i::int)"
  by (simp add: char_value_def)

lemma number_digit: "0 \<le> i \<Longrightarrow> i \<le> 9 \<Longrightarrow> digit_to_number (number_to_digit i) = i"
  by (simp add: digit_to_number_def number_to_digit_def char_value_small)

lemma isdigit_number_to_digit: "0 \<le> i \<Longrightarrow> i \<le> 9 \<Longrightarrow> isdigit (number_to_digit i)"
  by (simp add: isdigit_def number_to_digit_def char_value_small)

section \<open>Integer types\<close>

record inttype =
  width :: nat
  signed :: bool

definition short_t :: inttype where "short_t = \<lparr>width = 16, signed = True\<rparr>"
definition ushort_t :: inttype where "ushort_t = \<lparr>width = 16, signed = False\<rparr>"
definition int_t :: inttype where "int_t = \<lparr>width = 32, signed = True\<rparr>"
definition uint_t :: inttype where "uint_t = \<lparr>width = 32, signed = False\<rparr>"
definition long_t :: inttype where "long_t = \<lparr>width = 64, signed = True\<rparr>"
definition ulong_t :: inttype where "ulong_t = \<lparr>width = 64, signed = False\<rparr>"

lemmas inttype_defs = short_t_def ushort_t_def int_t_def uint_t_def long_t_def ulong_t_def

definition tmin :: "inttype \<Rightarrow> int" where
  "tmin T = (if signed T then - (2 ^ (width T - 1)) else 0)"

definition tmax :: "inttype \<Rightarrow> int" where
  "tmax T = (if signed T then 2 ^ (width T - 1) - 1 else 2 ^ width T - 1)"

definition fits :: "inttype \<Rightarrow> int \<Rightarrow> bool" where
  "fits T x \<longleftrightarrow> tmin T \<le> x \<and> x \<le> tmax T"

text \<open>Conversion of an integer value to type \<open>T\<close>.\<close>

definition convert :: "inttype \<Rightarrow> int \<Rightarrow> int" where
  "convert T x = (if signed T then (x + 2 ^ (width T - 1)) mod 2 ^ width T - 2 ^ (width T - 1)
                  else x mod 2 ^ width T)"

text \<open>
  The value \<^verbatim>\<open>T(e)\<close> of an arithmetic expression \<open>e\<close> over operands of type \<open>T\<close>, given its
  mathematical value: types narrower than \<^verbatim>\<open>int\<close> compute in \<^verbatim>\<open>int\<close>.
\<close>

definition arith :: "inttype \<Rightarrow> int \<Rightarrow> exn + int" where
  "arith T x = (if width T < 32 then Inr (convert T x)
                else if signed T \<and> \<not> fits T x then Inl undefined_behaviour
                else Inr (convert T x))"

definition wide_enough :: "inttype \<Rightarrow> bool" where
  "wide_enough T \<longleftrightarrow> 8 \<le> width T"

lemma wide_enough_types [simp]:
  "wide_enough short_t" "wide_enough ushort_t" "wide_enough int_t" "wide_enough uint_t"
  "wide_enough long_t" "wide_enough ulong_t"
  by (simp_all add: wide_enough_def inttype_defs)

lemma convert_fits: "wide_enough T \<Longrightarrow> fits T x \<Longrightarrow> convert T x = x"
proof -
  assume w: "wide_enough T" and f: "fits T x"
  have p: "(2::int) ^ width T = 2 * 2 ^ (width T - 1)"
    using w by (simp add: wide_enough_def flip: power_Suc)
  show ?thesis
    using f by (auto simp: convert_def fits_def tmin_def tmax_def p)
qed

lemma arith_fits: "wide_enough T \<Longrightarrow> fits T x \<Longrightarrow> arith T x = Inr x"
  by (simp add: arith_def convert_fits)

lemma tmax_ge: "wide_enough T \<Longrightarrow> 127 \<le> tmax T"
proof -
  assume "wide_enough T"
  then have w: "7 \<le> width T - 1" "8 \<le> width T"
    by (auto simp: wide_enough_def)
  have "(2::int) ^ 7 \<le> 2 ^ (width T - 1)" "(2::int) ^ 8 \<le> 2 ^ width T"
    by (rule power_increasing [OF w(1)], simp, rule power_increasing [OF w(2)], simp)
  then show ?thesis by (auto simp: tmax_def)
qed

lemma tmax_less: "tmax T < 2 ^ width T"
proof (cases "signed T")
  case True
  then have "tmax T = 2 ^ (width T - 1) - 1" by (simp add: tmax_def)
  moreover have "(2::int) ^ (width T - 1) \<le> 2 ^ width T" by (rule power_increasing) auto
  ultimately show ?thesis by linarith
next
  case False
  then show ?thesis by (simp add: tmax_def)
qed

lemma tmin_le: "tmin T \<le> 0"
  by (simp add: tmin_def)

lemma tmin_signed: "signed T \<Longrightarrow> tmin T = - tmax T - 1"
  by (simp add: tmin_def tmax_def)

section \<open>Reading integers\<close>

definition report_overflow :: exn where
  "report_overflow = failure ''Could not convert string to integer: value out of range.''"

definition trunc_div :: "int \<Rightarrow> int \<Rightarrow> int" where
  "trunc_div a b = sgn a * sgn b * (\<bar>a\<bar> div \<bar>b\<bar>)"

definition check_before_adding_digit :: "inttype \<Rightarrow> int \<Rightarrow> exn + unit" where
  "check_before_adding_digit T n =
     (if signed T then if n < 0 \<and> trunc_div (tmin T) 10 > n then Inl report_overflow else Inr ()
      else Inr ())"

definition safe_multiply_by_ten :: "inttype \<Rightarrow> int \<Rightarrow> exn + int" where
  "safe_multiply_by_ten T n =
     (if n > 0 \<and> trunc_div (tmax T) n < 10 then Inl report_overflow
      else case check_before_adding_digit T n of Inl e \<Rightarrow> Inl e | Inr _ \<Rightarrow> arith T (n * 10))"

text \<open>\<^verbatim>\<open>safe_add_digit\<close>: defined in the source, where nothing calls it.\<close>

definition safe_add_digit :: "inttype \<Rightarrow> int \<Rightarrow> int \<Rightarrow> exn + int" where
  "safe_add_digit T n d =
     (if n > 0 \<and> n > tmax T - d then Inl report_overflow
      else if n < 0 \<and> n < tmin T - d then Inl report_overflow
      else arith T (n + d))"

definition absorb_digit :: "inttype \<Rightarrow> int \<Rightarrow> int \<Rightarrow> exn + int" where
  "absorb_digit T v d =
     (case safe_multiply_by_ten T v of Inl e \<Rightarrow> Inl e | Inr p \<Rightarrow> arith T (p + convert T d))"

text \<open>The digit loop: \<open>sg\<close> is 1 or -1; returns the value and the unread text.\<close>

fun absorb_digits :: "inttype \<Rightarrow> int \<Rightarrow> int \<Rightarrow> string \<Rightarrow> exn + int \<times> string" where
  "absorb_digits T sg result [] = Inr (result, [])"
| "absorb_digits T sg result (c # cs) =
     (if isdigit c then
        case absorb_digit T result (sg * digit_to_number c) of
          Inl e \<Rightarrow> Inl e | Inr r \<Rightarrow> absorb_digits T sg r cs
      else Inr (result, c # cs))"

definition check_end :: "string \<Rightarrow> exn + int \<times> string \<Rightarrow> exn + int" where
  "check_end Str r = (case r of Inl e \<Rightarrow> Inl e
     | Inr (v, rest) \<Rightarrow> if rest \<noteq> []
         then Inl (failure (''Unexpected text after integer: '' @ quoted Str))
         else Inr v)"

definition from_string_signed :: "inttype \<Rightarrow> string \<Rightarrow> exn + int" where
  "from_string_signed T Str =
     (case Str of
        c # cs \<Rightarrow>
          if \<not> isdigit c then
            if c \<noteq> CHR ''-''
            then Inl (failure (''Could not convert string to integer: '' @ quoted Str))
            else check_end Str (absorb_digits T (-1) 0 cs)
          else check_end Str (absorb_digits T 1 0 (c # cs))
      | [] \<Rightarrow> Inl (failure (''Could not convert string to integer: '' @ quoted Str)))"

definition from_string_unsigned :: "inttype \<Rightarrow> string \<Rightarrow> exn + int" where
  "from_string_unsigned T Str =
     (case Str of
        c # cs \<Rightarrow>
          if \<not> isdigit c then
            Inl (failure (''Could not convert string to unsigned integer: '' @ quoted Str))
          else check_end Str (absorb_digits T 1 0 (c # cs))
      | [] \<Rightarrow> Inl (failure
            (''Could not convert string to unsigned integer: '' @ quoted Str)))"

definition from_string_integer :: "inttype \<Rightarrow> string \<Rightarrow> exn + int" where
  "from_string_integer T Str =
     (if signed T then from_string_signed T Str else from_string_unsigned T Str)"

section \<open>Writing integers\<close>

text \<open>The buffer loop of \<^verbatim>\<open>to_string_unsigned\<close>, filling from the right.\<close>

fun digit_loop :: "int \<Rightarrow> string \<Rightarrow> string" where
  "digit_loop n acc =
     (if n > 0 then digit_loop (n div 10) (number_to_digit (n mod 10) # acc) else acc)"

declare digit_loop.simps [simp del]

definition to_string_unsigned :: "int \<Rightarrow> string" where
  "to_string_unsigned Obj = (if Obj = 0 then ''0'' else digit_loop Obj [])"

text \<open>What \<^verbatim>\<open>operator<<\<close> of the standard streams writes for an integer in the C locale.\<close>

fun decimal :: "int \<Rightarrow> string" where
  "decimal n = (if n < 10 then [number_to_digit n]
                else decimal (n div 10) @ [number_to_digit (n mod 10)])"

declare decimal.simps [simp del]

definition to_string_fallback :: "int \<Rightarrow> string" where
  "to_string_fallback Obj = (if Obj < 0 then CHR ''-'' # decimal (- Obj) else decimal Obj)"

definition to_string_signed :: "inttype \<Rightarrow> int \<Rightarrow> string" where
  "to_string_signed T Obj =
     (if Obj < 0 then
        if Obj \<noteq> tmin T then CHR ''-'' # to_string_unsigned (- Obj)
        else to_string_fallback Obj
      else to_string_unsigned Obj)"

definition to_string_integer :: "inttype \<Rightarrow> int \<Rightarrow> string" where
  "to_string_integer T Obj = (if signed T then to_string_signed T Obj else to_string_unsigned Obj)"

abbreviation to_string_int :: "int \<Rightarrow> string" where
  "to_string_int \<equiv> to_string_integer int_t"

abbreviation to_string_long :: "int \<Rightarrow> string" where
  "to_string_long \<equiv> to_string_integer long_t"

abbreviation to_string_ulong :: "int \<Rightarrow> string" where
  "to_string_ulong \<equiv> to_string_integer ulong_t"

section \<open>Booleans\<close>

definition from_string_bool :: "string \<Rightarrow> exn + bool" where
  "from_string_bool Str =
     (let bad = Inl (argument_error (''Failed conversion to bool: '' @ quoted Str)) in
      case Str of
        [] \<Rightarrow> Inr False
      | c # cs \<Rightarrow>
          if c \<in> {CHR ''f'', CHR ''F''} then
            (if cs = [] \<or> cs = ''alse'' \<or> cs = ''ALSE'' then Inr False else bad)
          else if c = CHR ''0'' then
            (case from_string_signed int_t Str of
               Inl e \<Rightarrow> Inl e
             | Inr I \<Rightarrow> if I = 0 \<or> I = 1 then Inr (I \<noteq> 0) else bad)
          else if c = CHR ''1'' then (if cs = [] then Inr True else bad)
          else if c \<in> {CHR ''t'', CHR ''T''} then
            (if cs = [] \<or> cs = ''rue'' \<or> cs = ''RUE'' then Inr True else bad)
          else bad)"

definition to_string_bool :: "bool \<Rightarrow> string" where
  "to_string_bool Obj = (if Obj then ''true'' else ''false'')"

section \<open>Floating point\<close>

text \<open>
  The floating-point type is a parameter: its special values, the tests for them and the
  stream reader and writer that the source leans on for every other value.
\<close>

record 'f floattype =
  quiet_NaN :: 'f
  infinity :: 'f
  neg_infinity :: 'f
  isnan :: "'f \<Rightarrow> bool"
  isinf :: "'f \<Rightarrow> bool"
  positive :: "'f \<Rightarrow> bool"
  stream_read :: "string \<Rightarrow> 'f option"
  stream_write :: "'f \<Rightarrow> string"

definition valid_infinity_string :: "string \<Rightarrow> bool" where
  "valid_infinity_string str \<longleftrightarrow>
     str = ''infinity'' \<or> str = ''Infinity'' \<or> str = ''INFINITY'' \<or> str = ''inf''"

definition from_string_float :: "'f floattype \<Rightarrow> string \<Rightarrow> exn + 'f" where
  "from_string_float F Str =
     (let result =
        (case Str of
           [] \<Rightarrow> stream_read F Str
         | c # cs \<Rightarrow>
             if c \<in> {CHR ''N'', CHR ''n''} then
               (case cs of
                  [a, n] \<Rightarrow> if a \<in> {CHR ''A'', CHR ''a''} \<and> n \<in> {CHR ''N'', CHR ''n''}
                            then Some (quiet_NaN F) else None
                | _ \<Rightarrow> None)
             else if c \<in> {CHR ''I'', CHR ''i''} then
               (if valid_infinity_string Str then Some (infinity F) else None)
             else if c = CHR ''-'' \<and> valid_infinity_string cs then Some (neg_infinity F)
             else stream_read F Str)
      in case result of
           None \<Rightarrow> Inl (failure (''Could not convert string to numeric value: '' @ quoted Str))
         | Some x \<Rightarrow> Inr x)"

definition to_string_float :: "'f floattype \<Rightarrow> 'f \<Rightarrow> string" where
  "to_string_float F Obj =
     (if isnan F Obj then ''nan''
      else if isinf F Obj then if positive F Obj then ''infinity'' else ''-infinity''
      else stream_write F Obj)"

section \<open>The value of a digit string\<close>

fun digits_value :: "int \<Rightarrow> string \<Rightarrow> int" where
  "digits_value v [] = v"
| "digits_value v (c # cs) = digits_value (10 * v + digit_to_number c) cs"

abbreviation all_digits :: "string \<Rightarrow> bool" where
  "all_digits ds \<equiv> list_all isdigit ds"

lemma digits_value_append: "digits_value v (xs @ ys) = digits_value (digits_value v xs) ys"
  by (induction xs arbitrary: v) auto

lemma digits_value_mono: "0 \<le> v \<Longrightarrow> all_digits ds \<Longrightarrow> v \<le> digits_value v ds"
proof (induction ds arbitrary: v)
  case (Cons c cs)
  then have d: "0 \<le> digit_to_number c" and cs: "all_digits cs"
    using isdigit_number by auto
  have "10 * v + digit_to_number c \<le> digits_value (10 * v + digit_to_number c) cs"
    using Cons.IH Cons.prems(1) d cs by simp
  then show ?case using Cons.prems(1) d by simp
qed simp

lemma digits_value_nonneg: "0 \<le> v \<Longrightarrow> all_digits ds \<Longrightarrow> 0 \<le> digits_value v ds"
  using digits_value_mono [of v ds] by simp

text \<open>The division test of the source is the comparison it stands for.\<close>

lemma div_less_ten: "0 < n \<Longrightarrow> 0 \<le> m \<Longrightarrow> (m div n < 10) = (m < 10 * (n::int))"
proof
  assume n: "0 < n" and m: "0 \<le> m" and lt: "m < 10 * n"
  show "m div n < 10"
  proof (rule ccontr)
    assume "\<not> m div n < 10"
    then have "n * 10 \<le> n * (m div n)" using n by (intro mult_left_mono) auto
    also have "\<dots> \<le> m" using n by (metis m mult.commute minus_mod_eq_mult_div
        pos_mod_sign diff_ge_0_iff_ge diff_le_eq le_add_same_cancel1 minus_mod_eq_div_mult)
    finally show False using lt by simp
  qed
next
  assume n: "0 < n" and m: "0 \<le> m" and lt: "m div n < 10"
  show "m < 10 * n"
  proof (rule ccontr)
    assume "\<not> m < 10 * n"
    then have "(10 * n) div n \<le> m div n" using n by (intro zdiv_mono1) auto
    then show False using lt n by simp
  qed
qed

section \<open>One digit\<close>

lemma convert_small: "wide_enough T \<Longrightarrow> 0 \<le> d \<Longrightarrow> d \<le> 9 \<Longrightarrow> convert T d = d"
  using tmax_ge [of T] tmin_le [of T] by (auto intro!: convert_fits simp: fits_def)

lemma convert_small_neg:
  "wide_enough T \<Longrightarrow> signed T \<Longrightarrow> 0 \<le> d \<Longrightarrow> d \<le> 9 \<Longrightarrow> convert T (- d) = - d"
  using tmax_ge [of T] tmin_signed [of T] by (auto intro!: convert_fits simp: fits_def)

lemma absorb_digit_pos:
  assumes "wide_enough T" "0 \<le> v" "0 \<le> d" "d \<le> 9"
  shows "absorb_digit T v d =
    (if tmax T < 10 * v then Inl report_overflow else arith T (10 * v + d))"
proof -
  have m: "0 \<le> tmax T" using tmax_ge [OF assms(1)] by simp
  have t: "v > 0 \<Longrightarrow> trunc_div (tmax T) v = tmax T div v"
    using m by (simp add: trunc_div_def sgn_if)
  have f: "10 * v \<le> tmax T \<Longrightarrow> arith T (v * 10) = Inr (10 * v)"
    using assms tmin_le [of T] by (subst arith_fits) (auto simp: fits_def)
  show ?thesis
    using assms m t f div_less_ten [of v "tmax T"]
    by (auto simp: absorb_digit_def safe_multiply_by_ten_def check_before_adding_digit_def
        convert_small)
qed

lemma absorb_digit_neg:
  assumes "wide_enough T" "signed T" "0 \<le> v" "0 \<le> d" "d \<le> 9"
  shows "absorb_digit T (- v) (- d) =
    (if 10 * v > - tmin T then Inl report_overflow else arith T (- (10 * v + d)))"
proof -
  have m: "tmin T < 0" using tmax_ge [OF assms(1)] tmin_signed [OF assms(2)] by simp
  have t: "trunc_div (tmin T) 10 = - (- tmin T div 10)"
    using m by (simp add: trunc_div_def sgn_if)
  have c: "(trunc_div (tmin T) 10 > - v) = (10 * v > - tmin T)"
    unfolding t by arith
  have f: "10 * v \<le> - tmin T \<Longrightarrow> arith T (- v * 10) = Inr (- (10 * v))"
    using assms tmax_ge [of T] by (subst arith_fits) (auto simp: fits_def)
  show ?thesis
    using assms m c f
    by (auto simp: absorb_digit_def safe_multiply_by_ten_def check_before_adding_digit_def
        convert_small_neg)
qed

section \<open>The digit loop on values in range\<close>

lemma absorb_digits_pos:
  assumes "wide_enough T" "0 \<le> v" "all_digits ds" "digits_value v ds \<le> tmax T"
  shows "absorb_digits T 1 v (ds @ rest) = absorb_digits T 1 (digits_value v ds) rest"
  using assms
proof (induction ds arbitrary: v)
  case (Cons c cs)
  let ?w = "10 * v + digit_to_number c"
  have c: "isdigit c" "0 \<le> digit_to_number c" "digit_to_number c \<le> 9" and cs: "all_digits cs"
    using Cons.prems(3) isdigit_number by auto
  have w: "0 \<le> ?w" "?w \<le> tmax T"
    using Cons.prems c cs digits_value_mono [of ?w cs] by auto
  have "absorb_digit T v (digit_to_number c) = Inr ?w"
    using absorb_digit_pos [OF Cons.prems(1,2) c(2,3)] w c tmin_le [of T]
    by (auto intro!: arith_fits Cons.prems(1) simp: fits_def)
  then show ?case
    using Cons.IH [OF Cons.prems(1) w(1) cs] Cons.prems(4) c by simp
qed simp

lemma absorb_digits_neg:
  assumes "wide_enough T" "signed T" "0 \<le> v" "all_digits ds" "digits_value v ds \<le> - tmin T"
  shows "absorb_digits T (-1) (- v) (ds @ rest) = absorb_digits T (-1) (- digits_value v ds) rest"
  using assms
proof (induction ds arbitrary: v)
  case (Cons c cs)
  let ?w = "10 * v + digit_to_number c"
  have c: "isdigit c" "0 \<le> digit_to_number c" "digit_to_number c \<le> 9" and cs: "all_digits cs"
    using Cons.prems(4) isdigit_number by auto
  have w: "0 \<le> ?w" "?w \<le> - tmin T"
    using Cons.prems c cs digits_value_mono [of ?w cs] by auto
  have "arith T (- ?w) = Inr (- ?w)"
    using w tmax_ge [OF Cons.prems(1)] by (intro arith_fits Cons.prems(1)) (auto simp: fits_def)
  then have "absorb_digit T (- v) (- digit_to_number c) = Inr (- ?w)"
    using absorb_digit_neg [OF Cons.prems(1-3) c(2,3)] w c by auto
  then show ?case
    using Cons.IH [OF Cons.prems(1,2) w(1) cs] Cons.prems(5) c by (simp add: algebra_simps)
qed simp

lemma all_digits_Cons: "all_digits ds \<Longrightarrow> ds \<noteq> [] \<Longrightarrow> \<exists>c cs. ds = c # cs \<and> isdigit c"
  by (cases ds) auto

lemma from_string_digits:
  assumes "wide_enough T" "all_digits ds" "ds \<noteq> []" "digits_value 0 ds \<le> tmax T"
  shows "from_string_integer T ds = Inr (digits_value 0 ds)"
  using all_digits_Cons [OF assms(2,3)] absorb_digits_pos [OF assms(1) _ assms(2,4), of "[]"]
  by (auto simp: from_string_integer_def from_string_signed_def from_string_unsigned_def
      check_end_def)

lemma minus_not_digit [simp]: "\<not> isdigit (CHR ''-'')"
  by (simp add: isdigit_def char_value_def)

lemma from_string_minus_digits:
  assumes "wide_enough T" "signed T" "all_digits ds" "digits_value 0 ds \<le> - tmin T"
  shows "from_string_integer T (CHR ''-'' # ds) = Inr (- digits_value 0 ds)"
  using absorb_digits_neg [OF assms(1,2) _ assms(3,4), of "[]"] assms(2)
  by (auto simp: from_string_integer_def from_string_signed_def check_end_def)

section \<open>The text of an integer\<close>

lemma decimal_digits: "0 \<le> n \<Longrightarrow> all_digits (decimal n) \<and> digits_value 0 (decimal n) = n"
proof (induction n rule: decimal.induct)
  case (1 n)
  show ?case
  proof (cases "n < 10")
    case True
    with "1.prems" show ?thesis
      by (simp add: decimal.simps [of n] number_digit isdigit_number_to_digit)
  next
    case False
    with "1.IH" "1.prems" show ?thesis
      by (simp add: decimal.simps [of n] number_digit isdigit_number_to_digit
          digits_value_append)
  qed
qed

lemma decimal_nonempty [simp]: "decimal n \<noteq> []"
  by (simp add: decimal.simps [of n])

lemma decimal_pos_step:
  "0 < n \<Longrightarrow> decimal n =
     (if n div 10 > 0 then decimal (n div 10) else []) @ [number_to_digit (n mod 10)]"
  by (subst decimal.simps) auto

lemma digit_loop_decimal: "0 < n \<Longrightarrow> digit_loop n acc = decimal n @ acc"
proof (induction n acc rule: digit_loop.induct)
  case (1 n acc)
  show ?case
  proof (cases "n div 10 > 0")
    case True
    with "1" show ?thesis by (simp add: digit_loop.simps [of n] decimal_pos_step [of n])
  next
    case False
    with "1.prems" show ?thesis
      by (simp add: digit_loop.simps [of n] digit_loop.simps [of 0]
          decimal_pos_step [of n])
  qed
qed

text \<open>The optimised printer writes what the stream would: the fast path is an equivalence.\<close>

lemma to_string_unsigned_decimal: "0 \<le> n \<Longrightarrow> to_string_unsigned n = decimal n"
  by (cases "n = 0")
    (simp_all add: to_string_unsigned_def digit_loop_decimal decimal.simps [of 0]
      number_to_digit_def char_of_def)

lemma to_string_signed_stream: "to_string_signed T n = to_string_fallback n"
  by (simp add: to_string_signed_def to_string_fallback_def to_string_unsigned_decimal)

lemma length_decimal: "0 \<le> n \<Longrightarrow> n < 10 ^ k \<Longrightarrow> 0 < k \<Longrightarrow> length (decimal n) \<le> k"
proof (induction k arbitrary: n)
  case (Suc k)
  show ?case
  proof (cases "n < 10")
    case True
    then show ?thesis by (simp add: decimal.simps [of n])
  next
    case False
    have lt: "n div 10 < 10 ^ k" using Suc.prems by simp
    have "0 < k"
    proof (rule ccontr)
      assume "\<not> 0 < k" with Suc.prems False show False by simp
    qed
    then have "length (decimal (n div 10)) \<le> k" using Suc.IH [of "n div 10"] lt Suc.prems by simp
    then show ?thesis using False by (simp add: decimal.simps [of n])
  qed
qed simp

section \<open>Whatever is accepted is in range\<close>

lemma convert_range: "wide_enough T \<Longrightarrow> fits T (convert T x)"
proof -
  assume w: "wide_enough T"
  have p: "(2::int) ^ width T = 2 * 2 ^ (width T - 1)"
    using w by (simp add: wide_enough_def flip: power_Suc)
  have "0 \<le> y mod 2 ^ width T \<and> y mod 2 ^ width T < 2 ^ width T" for y :: int
    by simp
  from this [of x] this [of "x + 2 ^ (width T - 1)"] show ?thesis
    by (auto simp: convert_def fits_def tmin_def tmax_def p)
qed

lemma arith_range: "wide_enough T \<Longrightarrow> arith T x = Inr y \<Longrightarrow> fits T y"
  by (auto simp: arith_def convert_range split: if_splits)

lemma absorb_digit_range: "wide_enough T \<Longrightarrow> absorb_digit T v d = Inr y \<Longrightarrow> fits T y"
  by (auto simp: absorb_digit_def arith_range split: sum.splits)

lemma absorb_digits_range:
  "wide_enough T \<Longrightarrow> fits T v \<Longrightarrow> absorb_digits T sg v cs = Inr (y, rest) \<Longrightarrow> fits T y"
  by (induction T sg v cs rule: absorb_digits.induct)
    (auto split: if_splits sum.splits dest: absorb_digit_range)

lemma absorb_digits_all:
  "absorb_digits T sg v cs = Inr (y, []) \<Longrightarrow> all_digits cs"
  by (induction T sg v cs rule: absorb_digits.induct) (auto split: if_splits sum.splits)

lemma from_string_integer_accepts:
  assumes "wide_enough T" "from_string_integer T Str = Inr y"
  shows "fits T y \<and> (\<exists>ds. all_digits ds \<and>
    (Str = ds \<and> ds \<noteq> [] \<or> signed T \<and> Str = CHR ''-'' # ds))"
proof -
  have z: "fits T 0" using tmax_ge [OF assms(1)] tmin_le [of T] by (simp add: fits_def)
  obtain c cs where Str: "Str = c # cs"
    using assms(2) by (cases Str)
      (auto simp: from_string_integer_def from_string_signed_def from_string_unsigned_def
        split: if_splits)
  from assms(2) Str consider
      (digits) "isdigit c" "absorb_digits T 1 0 (c # cs) = Inr (y, [])"
    | (minus) "signed T" "c = CHR ''-''" "absorb_digits T (-1) 0 cs = Inr (y, [])"
    by (auto simp: from_string_integer_def from_string_signed_def from_string_unsigned_def
        check_end_def split: if_splits sum.splits)
  then show ?thesis
  proof cases
    case digits
    then show ?thesis
      using Str absorb_digits_range [OF assms(1) z digits(2)] absorb_digits_all [OF digits(2)]
      by blast
  next
    case minus
    then show ?thesis
      using Str absorb_digits_range [OF assms(1) z minus(3)] absorb_digits_all [OF minus(3)] minus
      by blast
  qed
qed

section \<open>The last digit is added unchecked\<close>

text \<open>
  \<^verbatim>\<open>absorb_digit\<close> guards the multiplication and not the addition: a number whose last digit
  alone leaves the range is not reported. An unsigned type wraps around, \<^verbatim>\<open>short\<close> wraps to the
  other sign, and for the wider signed types the addition has no meaning.
\<close>

lemma absorb_digits_snoc:
  assumes "wide_enough T" "all_digits ps" "isdigit c"
    and "10 * digits_value 0 ps \<le> tmax T"
  shows "absorb_digits T 1 0 (ps @ [c]) =
    (case arith T (digits_value 0 (ps @ [c])) of Inl e \<Rightarrow> Inl e | Inr r \<Rightarrow> Inr (r, []))"
proof -
  let ?v = "digits_value 0 ps"
  have v: "0 \<le> ?v" "?v \<le> tmax T"
    using digits_value_nonneg [of 0 ps] assms(2,4) by auto
  have "absorb_digits T 1 0 (ps @ [c]) = absorb_digits T 1 ?v [c]"
    using absorb_digits_pos [OF assms(1) _ assms(2) v(2)] by simp
  then show ?thesis
    using assms(3,4) v absorb_digit_pos [OF assms(1) v(1), of "digit_to_number c"]
      isdigit_number [OF assms(3)]
    by (simp add: digits_value_append split: sum.split)
qed

lemma from_string_unsigned_snoc:
  assumes "wide_enough T" "\<not> signed T" "all_digits ps" "isdigit c"
    and "10 * digits_value 0 ps \<le> tmax T"
  shows "from_string_integer T (ps @ [c]) = Inr (digits_value 0 (ps @ [c]) mod 2 ^ width T)"
proof -
  have "absorb_digits T 1 0 (ps @ [c]) =
      Inr (digits_value 0 (ps @ [c]) mod 2 ^ width T, [])"
    using absorb_digits_snoc [OF assms(1,3,4,5)] assms(2) by (auto simp: arith_def convert_def)
  moreover obtain d ds where "ps @ [c] = d # ds" "isdigit d"
    using all_digits_Cons [of "ps @ [c]"] assms(3,4) by auto
  ultimately show ?thesis
    using assms(2) by (auto simp: from_string_integer_def from_string_unsigned_def check_end_def)
qed

lemma from_string_signed_snoc:
  assumes "wide_enough T" "signed T" "all_digits ps" "isdigit c"
    and "10 * digits_value 0 ps \<le> tmax T"
  shows "from_string_integer T (ps @ [c]) = arith T (digits_value 0 (ps @ [c]))"
proof -
  note r = absorb_digits_snoc [OF assms(1,3,4,5)]
  obtain d ds where "ps @ [c] = d # ds" "isdigit d"
    using all_digits_Cons [of "ps @ [c]"] assms(3,4) by auto
  with r assms(2) show ?thesis
    by (auto simp: from_string_integer_def from_string_signed_def check_end_def
        split: sum.splits)
qed

lemma mod_pos_less_double: "m \<le> x \<Longrightarrow> x < 2 * m \<Longrightarrow> x mod m = x - (m::int)"
  using mod_pos_pos_trivial [of "x - m" m] by (simp add: mod_diff_right_eq minus_mod_self2)

lemma integer_text_read_back:
  assumes "wide_enough T" "fits T x"
  shows "from_string_integer T (to_string_integer T x) = Inr x"
proof (cases "x < 0")
  case False
  then have "to_string_integer T x = decimal x"
    by (simp add: to_string_integer_def to_string_signed_def to_string_unsigned_decimal)
  then show ?thesis
    using from_string_digits [OF assms(1), of "decimal x"] decimal_digits [of x] False assms(2)
    by (simp add: fits_def)
next
  case True
  then have s: "signed T" using assms(2) by (auto simp: fits_def tmin_def split: if_splits)
  have "to_string_integer T x = CHR ''-'' # decimal (- x)"
    using True s by (simp add: to_string_integer_def to_string_signed_stream to_string_fallback_def)
  then show ?thesis
    using from_string_minus_digits [OF assms(1) s, of "decimal (- x)"] decimal_digits [of "- x"]
      True assms(2)
    by (simp add: fits_def)
qed

section \<open>Properties\<close>

text \<open>
  C12: printing an integer of any of the library's integer types and reading the text back gives
  the integer, for every value of the type, the least one (which cannot be negated) included.
\<close>

theorem integer_text_roundtrip:
  assumes "wide_enough T" "fits T x"
  shows "from_string_integer T (to_string_integer T x) = Inr x"
  using assms by (rule integer_text_read_back)

theorem integer_text_roundtrip_witness:
  "from_string_integer int_t (to_string_integer int_t (-2147483648)) = Inr (-2147483648)"
  by (rule integer_text_roundtrip) (simp, simp add: fits_def tmin_def tmax_def int_t_def)



text \<open>
  C35: a decimal number of an unsigned type whose last digit alone takes it out of range is not
  reported as an overflow: the reader returns it modulo two to the width.
\<close>

theorem unsigned_last_digit_wraps:
  assumes "wide_enough T" "\<not> signed T" "all_digits ps" "isdigit c"
    and "10 * digits_value 0 ps \<le> tmax T" "tmax T < digits_value 0 (ps @ [c])"
  shows "from_string_integer T (ps @ [c]) = Inr (digits_value 0 (ps @ [c]) - 2 ^ width T)"
proof -
  have "0 \<le> digit_to_number c" "digit_to_number c \<le> 9" using isdigit_number [OF assms(4)] by auto
  then have "digits_value 0 (ps @ [c]) \<le> tmax T + 9"
    using assms(5) by (simp add: digits_value_append)
  moreover have "tmax T = 2 ^ width T - 1" "127 \<le> tmax T"
    using tmax_ge [OF assms(1)] assms(2) by (auto simp: tmax_def)
  ultimately have "digits_value 0 (ps @ [c]) mod 2 ^ width T = digits_value 0 (ps @ [c]) - 2 ^ width T"
    using assms(6) by (subst mod_pos_less_double) auto
  then show ?thesis using from_string_unsigned_snoc [OF assms(1-5)] by simp
qed

theorem unsigned_last_digit_wraps_witness:
  "from_string_integer uint_t (''429496729'' @ [CHR ''6'']) =
     Inr (digits_value 0 (''429496729'' @ [CHR ''6'']) - 2 ^ width uint_t)"
  by (rule unsigned_last_digit_wraps) (simp, code_simp+)

text \<open>
  The buffer of the unsigned printer is large enough: the text of any value of a type of
  \<open>k\<close> bytes has at most \<open>4 * k\<close> characters, the buffer's size less its terminator.
\<close>

theorem unsigned_text_fits_buffer:
  assumes "0 < k" "width T = 8 * k" "0 \<le> x" "fits T x"
  shows "length (to_string_unsigned x) \<le> 4 * k"
proof -
  have "x < 2 ^ (8 * k)" using assms tmax_less [of T] by (simp add: fits_def)
  also have "(2::int) ^ (8 * k) = (2 ^ 8) ^ k" by (rule power_mult)
  also have "(2 ^ 8) ^ k \<le> ((10::int) ^ 4) ^ k" by (intro power_mono) simp_all
  also have "\<dots> = 10 ^ (4 * k)" by (rule power_mult [symmetric])
  finally have "x < 10 ^ (4 * k)" .
  then show ?thesis
    using length_decimal [of x "4 * k"] assms by (simp add: to_string_unsigned_decimal)
qed

theorem unsigned_text_fits_buffer_witness:
  "length (to_string_unsigned 18446744073709551615) \<le> 4 * 8"
  by (rule unsigned_text_fits_buffer [where T = ulong_t])
    (simp_all add: ulong_t_def fits_def tmin_def tmax_def)

text \<open>
  A boolean written by the library is read back, and the two texts PostgreSQL itself sends
  are read as what they mean.
\<close>

theorem bool_text_roundtrip:
  "from_string_bool (to_string_bool b) = Inr b \<and> from_string_bool ''t'' = Inr True \<and>
   from_string_bool ''f'' = Inr False"
  by (cases b) (simp_all add: from_string_bool_def to_string_bool_def)

end
