(* ===== verification/Util.thy ===== *)
theory Util
  imports Strconv
begin

text \<open>
  The generic parts of \<^verbatim>\<open>include/pqxx/util.hxx\<close> and \<^verbatim>\<open>src/util.cxx\<close>: named objects, the
  \<open>unique\<close> slot that admits one guest at a time, separated lists and the ring-shaped
  reference counter that the library falls back to without shared pointers.
\<close>

section \<open>Separated lists\<close>

fun separated_list :: "string \<Rightarrow> string list \<Rightarrow> string" where
  "separated_list sep [] = []"
| "separated_list sep [x] = x"
| "separated_list sep (x # y # ys) = x @ sep @ separated_list sep (y # ys)"

lemma separated_list_Cons:
  "separated_list sep (x # xs) = x @ concat (map (\<lambda>y. sep @ y) xs)"
  by (induction xs arbitrary: x) auto

section \<open>Named objects\<close>

text \<open>
  An object that registers itself is identified by its address (\<open>addr\<close>); its class and
  instance names serve the messages.
\<close>

record namedclass =
  addr :: nat
  classname :: string
  name :: string

definition description :: "('a) namedclass_scheme \<Rightarrow> string" where
  "description g = classname g @ (if name g \<noteq> [] then '' '' @ quoted (name g) else [])"

section \<open>The unique slot\<close>

definition same_object :: "('a) namedclass_scheme \<Rightarrow> ('a) namedclass_scheme \<Rightarrow> bool" where
  "same_object g h \<longleftrightarrow> addr g = addr h"

definition CheckUniqueRegistration ::
  "('a) namedclass_scheme option \<Rightarrow> ('a) namedclass_scheme option \<Rightarrow> exn + unit" where
  "CheckUniqueRegistration New Old =
     (case New of
        None \<Rightarrow> Inl (internal_error ''NULL pointer registered'')
      | Some g \<Rightarrow>
          (case Old of
             None \<Rightarrow> Inr ()
           | Some h \<Rightarrow>
               if same_object h g then Inl (usage_error (''Started twice: '' @ description g))
               else Inl (usage_error (''Started '' @ description g @ '' while '' @
                      description h @ '' still active''))))"

definition CheckUniqueUnregistration ::
  "('a) namedclass_scheme option \<Rightarrow> ('a) namedclass_scheme option \<Rightarrow> exn + unit" where
  "CheckUniqueUnregistration New Old =
     (case (New, Old) of
        (None, None) \<Rightarrow> Inr ()
      | (None, Some h) \<Rightarrow> Inl (usage_error (''Expected to close '' @ description h @
                             '', but got NULL pointer instead''))
      | (Some g, None) \<Rightarrow> Inl (usage_error (''Closed while not open: '' @ description g))
      | (Some g, Some h) \<Rightarrow>
          if same_object g h then Inr ()
          else Inl (usage_error (''Closed '' @ description g @ ''; expected to close '' @
                 description h)))"

text \<open>\<open>unique\<close>'s state is its guest pointer; each operation returns the new pointer.\<close>

definition unique_Register ::
  "('a) namedclass_scheme option \<Rightarrow> ('a) namedclass_scheme option
     \<Rightarrow> exn + ('a) namedclass_scheme option" where
  "unique_Register G m_Guest =
     (case CheckUniqueRegistration G m_Guest of Inl e \<Rightarrow> Inl e | Inr _ \<Rightarrow> Inr G)"

definition unique_Unregister ::
  "('a) namedclass_scheme option \<Rightarrow> ('a) namedclass_scheme option
     \<Rightarrow> exn + ('a) namedclass_scheme option" where
  "unique_Unregister G m_Guest =
     (case CheckUniqueUnregistration G m_Guest of Inl e \<Rightarrow> Inl e | Inr _ \<Rightarrow> Inr None)"

subsection \<open>What a slot promises\<close>

text \<open>
  The contract the transaction and connection classes rely on: registration succeeds on an
  empty slot only, and only the registered guest can free it. Runs of requests by several
  guests then hold the slot exclusively.
\<close>

datatype 'g slot_op = Reg 'g | Unreg 'g

locale exclusive_slot =
  fixes reg :: "'g \<Rightarrow> 'q \<Rightarrow> exn + 'q"
    and unreg :: "'g \<Rightarrow> 'q \<Rightarrow> exn + 'q"
    and holder :: "'q \<Rightarrow> 'g option"
    and same :: "'g \<Rightarrow> 'g \<Rightarrow> bool"
  assumes reg_free: "holder q = None \<Longrightarrow> \<exists>q'. reg g q = Inr q' \<and> holder q' = Some g"
    and reg_held: "holder q = Some h \<Longrightarrow> \<exists>e. reg g q = Inl e \<and> caught_as Usage_error e"
    and unreg_holder: "holder q = Some h \<Longrightarrow> same g h \<Longrightarrow> \<exists>q'. unreg g q = Inr q' \<and> holder q' = None"
    and unreg_other:
      "holder q = None \<or> (\<exists>h. holder q = Some h \<and> \<not> same g h) \<Longrightarrow>
       \<exists>e. unreg g q = Inl e \<and> caught_as Usage_error e"
begin

definition slot_step :: "'g slot_op \<Rightarrow> 'q \<Rightarrow> 'q" where
  "slot_step a q = (case a of
      Reg g \<Rightarrow> (case reg g q of Inl _ \<Rightarrow> q | Inr q' \<Rightarrow> q')
    | Unreg g \<Rightarrow> (case unreg g q of Inl _ \<Rightarrow> q | Inr q' \<Rightarrow> q'))"

lemma held_until_unreg:
  assumes "holder q = Some h" and "\<And>g. a = Unreg g \<Longrightarrow> \<not> same g h"
  shows "holder (slot_step a q) = Some h"
proof (cases a)
  case (Reg g)
  obtain e where "reg g q = Inl e" using reg_held [OF assms(1), of g] by blast
  with Reg assms(1) show ?thesis by (simp add: slot_step_def)
next
  case (Unreg g)
  then have "\<not> same g h" using assms(2) by blast
  then obtain e where "unreg g q = Inl e" using unreg_other [of q g] assms(1) by blast
  with Unreg assms(1) show ?thesis by (simp add: slot_step_def)
qed

lemma held_through_run:
  assumes "holder q = Some h" and "\<And>g. Unreg g \<in> set ops \<Longrightarrow> \<not> same g h"
  shows "holder (fold slot_step ops q) = Some h"
  using assms
proof (induction ops arbitrary: q)
  case (Cons a ops)
  have "holder (slot_step a q) = Some h"
    by (rule held_until_unreg) (use Cons.prems in auto)
  then show ?case using Cons.IH Cons.prems(2) by simp
qed simp

end

lemma CheckUniqueRegistration_None [simp]: "CheckUniqueRegistration (Some g) None = Inr ()"
  by (simp add: CheckUniqueRegistration_def)

interpretation unique_slot: exclusive_slot
  "\<lambda>g. unique_Register (Some g)" "\<lambda>g. unique_Unregister (Some g)" "\<lambda>q. q" same_object
  by unfold_locales
    (auto simp: unique_Register_def unique_Unregister_def CheckUniqueRegistration_def
      CheckUniqueUnregistration_def caught_as_def exn_defs split: option.splits)

section \<open>The ring of references\<close>

text \<open>
  \<^verbatim>\<open>refcount\<close>: every holder of a shared object is a node of a doubly linked ring. The store
  maps a node to its left and right neighbour.
\<close>

record ring =
  m_l :: "nat \<Rightarrow> nat"
  m_r :: "nat \<Rightarrow> nat"

text \<open>The constructor links a node to itself.\<close>

definition refcount_new :: "nat \<Rightarrow> ring \<Rightarrow> ring" where
  "refcount_new this s = s\<lparr>m_l := (m_l s)(this := this), m_r := (m_r s)(this := this)\<rparr>"

definition refcount_makeref :: "nat \<Rightarrow> nat \<Rightarrow> ring \<Rightarrow> ring" where
  "refcount_makeref this rhs s =
     (let s1 = s\<lparr>m_l := (m_l s)(this := rhs)\<rparr>;
          s2 = s1\<lparr>m_r := (m_r s1)(this := m_r s1 rhs)\<rparr>;
          s3 = s2\<lparr>m_l := (m_l s2)(m_r s2 this := this)\<rparr>
      in s3\<lparr>m_r := (m_r s3)(m_l s3 this := this)\<rparr>)"

definition refcount_loseref :: "nat \<Rightarrow> ring \<Rightarrow> bool \<times> ring" where
  "refcount_loseref this s =
     (let result = (m_l s this = this);
          s1 = s\<lparr>m_l := (m_l s)(m_r s this := m_l s this)\<rparr>;
          s2 = s1\<lparr>m_r := (m_r s1)(m_l s1 this := m_r s1 this)\<rparr>;
          s3 = s2\<lparr>m_r := (m_r s2)(this := this)\<rparr>
      in (result, s3\<lparr>m_l := (m_l s3)(this := this)\<rparr>))"

text \<open>The links agree: going right and then left leads back, and the other way round.\<close>

definition ring_wf :: "ring \<Rightarrow> bool" where
  "ring_wf s \<longleftrightarrow> (\<forall>x. m_l s (m_r s x) = x \<and> m_r s (m_l s x) = x)"

definition alone :: "ring \<Rightarrow> nat \<Rightarrow> bool" where
  "alone s x \<longleftrightarrow> m_l s x = x \<and> m_r s x = x"

lemma ring_wfD: "ring_wf s \<Longrightarrow> m_l s (m_r s x) = x" "ring_wf s \<Longrightarrow> m_r s (m_l s x) = x"
  by (simp_all add: ring_wf_def)

lemma ring_inj: "ring_wf s \<Longrightarrow> m_r s x = m_r s y \<Longrightarrow> x = y" "ring_wf s \<Longrightarrow> m_l s x = m_l s y \<Longrightarrow> x = y"
  by (metis ring_wfD)+

lemma alone_iff: "ring_wf s \<Longrightarrow> alone s x \<longleftrightarrow> m_l s x = x"
  by (metis alone_def ring_wfD(2))

lemma makeref_eq:
  assumes "ring_wf s" "alone s this" "this \<noteq> rhs"
  shows "refcount_makeref this rhs s =
    s\<lparr>m_l := (m_l s)(this := rhs, m_r s rhs := this), m_r := (m_r s)(this := m_r s rhs, rhs := this)\<rparr>"
proof -
  have "m_r s rhs \<noteq> this"
    using assms by (metis alone_def ring_wfD(1))
  then show ?thesis by (simp add: refcount_makeref_def Let_def)
qed

lemma makeref_wf:
  assumes "ring_wf s" "alone s this" "this \<noteq> rhs"
  shows "ring_wf (refcount_makeref this rhs s)"
proof -
  have th: "m_l s this = this" "m_r s this = this" using assms(2) by (simp_all add: alone_def)
  have r: "m_r s x = this \<longleftrightarrow> x = this" "m_l s x = this \<longleftrightarrow> x = this" for x
    using th ring_wfD [OF assms(1)] by metis+
  have rr: "m_r s x = m_r s rhs \<longleftrightarrow> x = rhs" "m_l s x = rhs \<longleftrightarrow> x = m_r s rhs" for x
    using ring_wfD [OF assms(1)] by metis+
  show ?thesis
    unfolding makeref_eq [OF assms] ring_wf_def
    using assms(3) th r rr ring_wfD [OF assms(1)] by simp metis
qed

lemma loseref_eq:
  assumes "ring_wf s"
  shows "refcount_loseref this s =
    (alone s this,
     s\<lparr>m_l := (m_l s)(m_r s this := m_l s this, this := this),
       m_r := (m_r s)(m_l s this := m_r s this, this := this)\<rparr>)"
proof (cases "m_r s this = this")
  case True
  then have "m_l s this = this" using assms by (metis ring_wfD(1))
  with True show ?thesis
    by (simp add: refcount_loseref_def Let_def alone_def fun_upd_idem)
next
  case False
  then have "m_l s this \<noteq> this" using assms by (metis ring_wfD(2))
  with False show ?thesis
    by (simp add: refcount_loseref_def Let_def alone_def)
qed

lemma loseref_wf:
  assumes "ring_wf s"
  shows "ring_wf (snd (refcount_loseref this s))"
proof -
  have rr: "m_r s x = m_r s y \<longleftrightarrow> x = y" "m_l s x = m_l s y \<longleftrightarrow> x = y"
    "m_r s x = y \<longleftrightarrow> x = m_l s y" for x y
    using ring_wfD [OF assms] by metis+
  show ?thesis
    unfolding loseref_eq [OF assms] ring_wf_def snd_conv
    using rr ring_wfD [OF assms] by auto metis
qed

lemma loseref_alone: "ring_wf s \<Longrightarrow> alone (snd (refcount_loseref this s)) this"
  by (simp add: loseref_eq alone_def)

text \<open>
  The ring a node is on: the nodes met going right. The object is released by \<^verbatim>\<open>loseref\<close>
  exactly when the ring has no other node.
\<close>

inductive on_ring :: "ring \<Rightarrow> nat \<Rightarrow> nat \<Rightarrow> bool" for s where
  here: "on_ring s x x"
| right: "on_ring s x y \<Longrightarrow> on_ring s x (m_r s y)"

lemma alone_on_ring: "alone s x \<Longrightarrow> on_ring s x y \<Longrightarrow> y = x"
  by (rotate_tac, induction rule: on_ring.induct) (auto simp: alone_def)

text \<open>
  Giving up a reference reports that the object must be freed exactly when no other holder
  is on the ring, leaves the holder alone and every remaining link consistent.
\<close>

theorem loseref_releases_last:
  assumes "ring_wf s"
  shows "fst (refcount_loseref this s) = (\<forall>y. on_ring s this y = (y = this)) \<and>
    ring_wf (snd (refcount_loseref this s)) \<and> alone (snd (refcount_loseref this s)) this"
proof -
  have "alone s this = (\<forall>y. on_ring s this y = (y = this))"
  proof
    assume "alone s this"
    then show "\<forall>y. on_ring s this y = (y = this)"
      by (auto dest: alone_on_ring intro: on_ring.here)
  next
    assume "\<forall>y. on_ring s this y = (y = this)"
    then have "m_r s this = this" using on_ring.right [OF on_ring.here] by blast
    then show "alone s this" using assms by (metis alone_def ring_wfD(1))
  qed
  then show ?thesis using loseref_eq loseref_wf loseref_alone assms by simp
qed

theorem loseref_releases_last_witness:
  "fst (refcount_loseref 0 \<lparr>m_l = id, m_r = id\<rparr>) =
      (\<forall>y. on_ring \<lparr>m_l = id, m_r = id\<rparr> 0 y = (y = 0)) \<and>
   ring_wf (snd (refcount_loseref 0 \<lparr>m_l = id, m_r = id\<rparr>)) \<and>
   alone (snd (refcount_loseref 0 \<lparr>m_l = id, m_r = id\<rparr>)) 0"
  by (rule loseref_releases_last) (simp add: ring_wf_def)

end
