(* ===== verification/Result.thy ===== *)
theory Result
  imports Util "HOL-Library.Word"
begin

text \<open>
  Query results, \<^verbatim>\<open>src/result.cxx\<close>, \<^verbatim>\<open>src/row.cxx\<close>, \<^verbatim>\<open>src/field.cxx\<close> and their headers: the result object,
  its rows, slices of rows, fields, the iterators over rows and columns, and the translation
  of a failed result into an exception. A libpq result (\<^verbatim>\<open>PGresult\<close>) is opaque and never
  changes, so it is the record of what libpq's accessors answer for it.
\<close>

section \<open>libpq's result object\<close>

datatype exec_status =
    PGRES_EMPTY_QUERY | PGRES_COMMAND_OK | PGRES_TUPLES_OK | PGRES_COPY_OUT | PGRES_COPY_IN
  | PGRES_BAD_RESPONSE | PGRES_NONFATAL_ERROR | PGRES_FATAL_ERROR | PGRES_other int

record pgresult =
  PQresultStatus :: exec_status
  PQntuples :: nat
  PQnfields :: nat
  PQfname :: "nat \<Rightarrow> string option"
  PQfnumber :: "string \<Rightarrow> int"
  PQftype :: "nat \<Rightarrow> nat"
  PQftable :: "nat \<Rightarrow> nat"
  PQftablecol :: "nat \<Rightarrow> nat"
  PQgetvalue :: "nat \<Rightarrow> nat \<Rightarrow> string"
  PQgetisnull :: "nat \<Rightarrow> nat \<Rightarrow> bool"
  PQgetlength :: "nat \<Rightarrow> nat \<Rightarrow> nat"
  PQresultErrorMessage :: string
  PG_DIAG_SQLSTATE :: "string option"
  PG_DIAG_STATEMENT_POSITION :: "string option"
  PQcmdTuples :: string
  PQoidValue :: nat

definition oid_none :: nat where "oid_none = 0"

text \<open>
  What libpq documents of the accessors that the comparisons rely on: the length of a value is
  the number of its bytes, and a null field reads as the empty value.
\<close>

definition documented_values :: "pgresult \<Rightarrow> bool" where
  "documented_values r \<longleftrightarrow>
     (\<forall>i < PQntuples r. \<forall>j < PQnfields r. PQgetlength r i j = length (PQgetvalue r i j) \<and>
        (PQgetisnull r i j \<longrightarrow> PQgetvalue r i j = []))"

section \<open>The result class\<close>

record result_data =
  rd_data :: "pgresult option"
  rd_protocol :: int
  rd_query :: string
  rd_encoding_code :: int

text \<open>\<open>rget\<close> is the owning pointer to the shared data, \<open>m_data\<close> the cached libpq pointer.\<close>

record result =
  rget :: "result_data option"
  m_data :: "pgresult option"

definition empty_result :: result where
  "empty_result = \<lparr>rget = None, m_data = None\<rparr>"

definition make_result_object :: "pgresult option \<Rightarrow> int \<Rightarrow> string \<Rightarrow> int \<Rightarrow> result" where
  "make_result_object rhs prot Query enc =
     \<lparr>rget = Some \<lparr>rd_data = rhs, rd_protocol = prot, rd_query = Query, rd_encoding_code = enc\<rparr>,
      m_data = rhs\<rparr>"

definition result_bool :: "result \<Rightarrow> bool" where
  "result_bool r \<longleftrightarrow> m_data r \<noteq> None"

definition result_size :: "result \<Rightarrow> nat" where
  "result_size r = (case m_data r of Some d \<Rightarrow> PQntuples d | None \<Rightarrow> 0)"

definition result_is_empty :: "result \<Rightarrow> bool" where
  "result_is_empty r \<longleftrightarrow> (case m_data r of Some d \<Rightarrow> PQntuples d = 0 | None \<Rightarrow> True)"

definition result_columns :: "result \<Rightarrow> nat" where
  "result_columns r = (case m_data r of Some d \<Rightarrow> PQnfields d | None \<Rightarrow> 0)"

definition result_swap :: "result \<Rightarrow> result \<Rightarrow> result \<times> result" where
  "result_swap a b =
     (let data = (\<lambda>g. case g of Some d \<Rightarrow> rd_data d | None \<Rightarrow> None)
      in (\<lparr>rget = rget b, m_data = data (rget b)\<rparr>, \<lparr>rget = rget a, m_data = data (rget a)\<rparr>))"

definition result_query :: "result \<Rightarrow> string" where
  "result_query r = (case rget r of Some d \<Rightarrow> rd_query d | None \<Rightarrow> [])"

text \<open>The cached pointer is the one of the shared data, in every result the library makes.\<close>

definition result_wf :: "result \<Rightarrow> bool" where
  "result_wf r \<longleftrightarrow> m_data r = (case rget r of Some d \<Rightarrow> rd_data d | None \<Rightarrow> None)"

lemma result_wf_make [simp]: "result_wf (make_result_object d p q e)" "result_wf empty_result"
  by (simp_all add: result_wf_def make_result_object_def empty_result_def)

lemma result_swap_wf:
  "result_wf a \<Longrightarrow> result_wf b \<Longrightarrow> result_swap a b = (b, a)"
  by (cases a, cases b) (auto simp: result_swap_def result_wf_def Let_def)

section \<open>Failed results\<close>

definition StatusError :: "result \<Rightarrow> exn + string" where
  "StatusError r =
     (case m_data r of
        None \<Rightarrow> Inl (failure ''No result set given'')
      | Some d \<Rightarrow>
          (case PQresultStatus d of
             PGRES_EMPTY_QUERY \<Rightarrow> Inr [] | PGRES_COMMAND_OK \<Rightarrow> Inr [] | PGRES_TUPLES_OK \<Rightarrow> Inr []
           | PGRES_COPY_OUT \<Rightarrow> Inr [] | PGRES_COPY_IN \<Rightarrow> Inr []
           | PGRES_BAD_RESPONSE \<Rightarrow> Inr (PQresultErrorMessage d)
           | PGRES_NONFATAL_ERROR \<Rightarrow> Inr (PQresultErrorMessage d)
           | PGRES_FATAL_ERROR \<Rightarrow> Inr (PQresultErrorMessage d)
           | PGRES_other n \<Rightarrow> Inl (internal_error
               (''pqxx::result: Unrecognized response code '' @ to_string_int n))))"

text \<open>\<^verbatim>\<open>errorposition\<close> may not throw: a position that is no number ends the program.\<close>

definition errorposition :: "result \<Rightarrow> exn + int" where
  "errorposition r =
     (case m_data r of
        None \<Rightarrow> Inr (-1)
      | Some d \<Rightarrow>
          (case PG_DIAG_STATEMENT_POSITION d of
             None \<Rightarrow> Inr (-1)
           | Some p \<Rightarrow>
               (case from_string_integer int_t p of Inl _ \<Rightarrow> Inl terminated | Inr n \<Rightarrow> Inr n)))"

text \<open>The class that a five-character SQLSTATE code selects; by its leading characters.\<close>

definition sqlstate_at :: "string \<Rightarrow> nat \<Rightarrow> char" where
  "sqlstate_at code i = (if i < length code then code ! i else CHR 0x00)"

definition class_23 :: "string \<Rightarrow> exn_class" where
  "class_23 code =
     (if code = ''23001'' then Restrict_violation
      else if code = ''23502'' then Not_null_violation
      else if code = ''23503'' then Foreign_key_violation
      else if code = ''23505'' then Unique_violation
      else if code = ''23514'' then Check_violation
      else Integrity_constraint_violation)"

definition class_42 :: "string \<Rightarrow> exn_class" where
  "class_42 code =
     (if code = ''42501'' then Insufficient_privilege
      else if code = ''42601'' then Syntax_error
      else if code = ''42703'' then Undefined_column
      else if code = ''42883'' then Undefined_function
      else if code = ''42P01'' then Undefined_table
      else Sql_error)"

definition class_53 :: "string \<Rightarrow> exn_class" where
  "class_53 code =
     (if code = ''53100'' then Disk_full
      else if code = ''53200'' then Out_of_memory
      else if code = ''53300'' then Too_many_connections
      else Insufficient_resources)"

definition class_P0 :: "string \<Rightarrow> exn_class" where
  "class_P0 code =
     (if code = ''P0001'' then Plpgsql_raise
      else if code = ''P0002'' then Plpgsql_no_data_found
      else if code = ''P0003'' then Plpgsql_too_many_rows
      else Plpgsql_error)"

definition sqlstate_class :: "string \<Rightarrow> exn_class" where
  "sqlstate_class code =
     (let c0 = sqlstate_at code 0; c1 = sqlstate_at code 1 in
      if c0 = CHR ''0'' then
        if c1 = CHR ''8'' then Broken_connection
        else if c1 = CHR ''A'' then Feature_not_supported else Sql_error
      else if c0 = CHR ''2'' then
        if c1 = CHR ''2'' then Data_exception
        else if c1 = CHR ''3'' then class_23 code
        else if c1 = CHR ''4'' then Invalid_cursor_state
        else if c1 = CHR ''6'' then Invalid_sql_statement_name else Sql_error
      else if c0 = CHR ''3'' then
        if c1 = CHR ''4'' then Invalid_cursor_name else Sql_error
      else if c0 = CHR ''4'' then
        if c1 = CHR ''2'' then class_42 code else Sql_error
      else if c0 = CHR ''5'' then
        if c1 = CHR ''3'' then class_53 code else Sql_error
      else if c0 = CHR ''P'' then class_P0 code
      else Sql_error)"

text \<open>
  \<^verbatim>\<open>ThrowSQLError\<close> returns the exception it throws. Broken-connection classes carry no query,
  and only \<open>syntax_error\<close> proper carries the position.
\<close>

definition ThrowSQLError :: "result \<Rightarrow> string \<Rightarrow> string \<Rightarrow> exn" where
  "ThrowSQLError r Err Query =
     (case m_data r of
        None \<Rightarrow> sql_error Err Query
      | Some d \<Rightarrow>
          (case PG_DIAG_SQLSTATE d of
             None \<Rightarrow> sql_error Err Query
           | Some code \<Rightarrow>
               (let c = sqlstate_class code in
                if derives_from c Broken_connection then plain c Err
                else if c = Syntax_error then
                  (case errorposition r of Inl e \<Rightarrow> e | Inr pos \<Rightarrow> Exn c Err Query pos)
                else Exn c Err Query (-1))))"

definition CheckStatus :: "result \<Rightarrow> exn + unit" where
  "CheckStatus r =
     (case StatusError r of
        Inl e \<Rightarrow> Inl e
      | Inr Err \<Rightarrow> if Err \<noteq> [] then Inl (ThrowSQLError r Err (result_query r)) else Inr ())"

lemma CheckStatus_fine:
  "PQresultStatus p \<in> {PGRES_TUPLES_OK, PGRES_COMMAND_OK} \<Longrightarrow>
     CheckStatus (make_result_object (Some p) v q e) = Inr ()"
  by (auto simp: CheckStatus_def StatusError_def make_result_object_def)

section \<open>Column information\<close>

definition column_name :: "result \<Rightarrow> nat \<Rightarrow> exn + string" where
  "column_name r Number =
     (case (case m_data r of Some d \<Rightarrow> PQfname d Number | None \<Rightarrow> None) of
        None \<Rightarrow> Inl (range_error (''Invalid column number: '' @ to_string_ulong (int Number)))
      | Some N \<Rightarrow> Inr N)"

definition result_column_number :: "result \<Rightarrow> string \<Rightarrow> exn + nat" where
  "result_column_number r ColName =
     (let N = (case m_data r of Some d \<Rightarrow> PQfnumber d ColName | None \<Rightarrow> -1)
      in if N = -1 then Inl (argument_error (''Unknown column name: '' @ quoted ColName))
         else Inr (nat N))"

definition result_column_type :: "result \<Rightarrow> nat \<Rightarrow> exn + nat" where
  "result_column_type r ColNum =
     (let T = (case m_data r of Some d \<Rightarrow> PQftype d ColNum | None \<Rightarrow> oid_none)
      in if T = oid_none then Inl (argument_error
           (''Attempt to retrieve type of nonexistant column '' @ to_string_ulong (int ColNum) @
            '' of query result''))
         else Inr T)"

definition result_column_table :: "result \<Rightarrow> nat \<Rightarrow> exn + nat" where
  "result_column_table r ColNum =
     (let T = (case m_data r of Some d \<Rightarrow> PQftable d ColNum | None \<Rightarrow> oid_none)
      in if T = oid_none \<and> ColNum \<ge> result_columns r then Inl (argument_error
           (''Attempt to retrieve table ID for column '' @ to_string_ulong (int ColNum) @
            '' out of '' @ to_string_ulong (int (result_columns r))))
         else Inr T)"

definition result_table_column :: "result \<Rightarrow> nat \<Rightarrow> exn + nat" where
  "result_table_column r ColNum =
     (let n = (case m_data r of Some d \<Rightarrow> PQftablecol d ColNum | None \<Rightarrow> 0)
      in if n \<noteq> 0 then Inr (n - 1)
         else if ColNum > result_columns r then Inl (range_error
           (''Invalid column index in table_column(): '' @ to_string_ulong (int ColNum)))
         else if (case rget r of None \<Rightarrow> True | Some d \<Rightarrow> rd_protocol d < 3) then
           Inl (Exn Feature_not_supported
             (''Backend version does not support querying of column'' @ CHR 0x27 # ''s original number'')
             ''[TABLE_COLUMN]'' (-1))
         else Inl (usage_error (''Can'' @ CHR 0x27 # ''t query origin of column '' @ to_string_ulong (int ColNum) @
             '': not derived from table column'')))"

definition inserted_oid :: "result \<Rightarrow> exn + nat" where
  "inserted_oid r =
     (case m_data r of
        None \<Rightarrow> Inl (usage_error
          ''Attempt to read oid of inserted row without an INSERT result'')
      | Some d \<Rightarrow> Inr (PQoidValue d))"

text \<open>\<^verbatim>\<open>atoi\<close> on a text without leading blanks: an optional sign and the digits that follow.\<close>

definition atoi :: "string \<Rightarrow> int" where
  "atoi s = (case s of
      [] \<Rightarrow> 0
    | c # cs \<Rightarrow> if c = CHR ''-'' then - digits_value 0 (takeWhile isdigit cs)
                else digits_value 0 (takeWhile isdigit s))"

definition affected_rows :: "result \<Rightarrow> nat" where
  "affected_rows r =
     (case m_data r of
        None \<Rightarrow> 0
      | Some d \<Rightarrow> if PQcmdTuples d \<noteq> [] then nat (convert ulong_t (atoi (PQcmdTuples d))) else 0)"

section \<open>Lemmas on the SQLSTATE table\<close>

lemma class_23_integrity: "derives_from (class_23 code) Integrity_constraint_violation"
  by (simp add: class_23_def derives_from_eval)

lemma class_53_cases:
  "derives_from (class_53 code) Insufficient_resources \<or> class_53 code = Too_many_connections"
  by (simp add: class_53_def derives_from_eval)

lemma class_P0_plpgsql: "derives_from (class_P0 code) Plpgsql_error"
  by (simp add: class_P0_def derives_from_eval)

lemma class_42_cases:
  "class_42 code \<in> {Insufficient_privilege, Syntax_error, Undefined_column, Undefined_function,
     Undefined_table, Sql_error}"
  by (simp add: class_42_def)

lemma derives_sql_error:
  "derives_from c Integrity_constraint_violation \<Longrightarrow> derives_from c Sql_error"
  "derives_from c Insufficient_resources \<Longrightarrow> derives_from c Sql_error"
  "derives_from c Plpgsql_error \<Longrightarrow> derives_from c Sql_error"
  "derives_from c Syntax_error \<Longrightarrow> derives_from c Sql_error"
  by (erule derives_from_trans, simp add: derives_from_eval)+

lemma sqlstate_class_split:
  "derives_from (sqlstate_class code) Sql_error \<or>
   sqlstate_class code \<in> {Broken_connection, Too_many_connections}"
proof -
  have "derives_from (class_42 code) Sql_error"
    using class_42_cases [of code] by (auto simp: derives_from_eval)
  moreover have "derives_from (class_23 code) Sql_error"
    by (rule derives_sql_error(1)) (rule class_23_integrity)
  moreover have "derives_from (class_P0 code) Sql_error"
    by (rule derives_sql_error(3)) (rule class_P0_plpgsql)
  moreover have "derives_from (class_53 code) Sql_error \<or> class_53 code = Too_many_connections"
    using class_53_cases derives_sql_error(2) by blast
  moreover have "derives_from c Sql_error" if "c \<in> {Feature_not_supported, Data_exception,
    Invalid_cursor_state, Invalid_sql_statement_name, Invalid_cursor_name, Sql_error}" for c
    using that by (auto simp: derives_from_eval)
  ultimately show ?thesis
    unfolding sqlstate_class_def Let_def by (simp split: if_split) blast
qed

lemma sql_error_failure: "derives_from c Sql_error \<Longrightarrow> derives_from c Failure"
  by (erule derives_from_trans) (simp add: derives_from_eval)

lemma errorposition_class: "errorposition r = Inl e \<Longrightarrow> e = terminated"
  by (auto simp: errorposition_def split: option.splits sum.splits)

lemma cls_ThrowSQLError:
  "ThrowSQLError r Err Q = terminated \<or> cls (ThrowSQLError r Err Q) =
     (case m_data r of None \<Rightarrow> Sql_error | Some d \<Rightarrow>
       (case PG_DIAG_SQLSTATE d of None \<Rightarrow> Sql_error | Some code \<Rightarrow> sqlstate_class code))"
  by (auto simp: ThrowSQLError_def sql_error_def plain_def Let_def split: option.splits sum.splits
      dest: errorposition_class)

lemma take2_08: "take 2 code = ''08'' \<longleftrightarrow> sqlstate_at code 0 = CHR ''0'' \<and> sqlstate_at code 1 = CHR ''8''"
  by (cases code; cases "tl code") (auto simp: sqlstate_at_def take_Suc numeral_2_eq_2)

lemma sqlstate_class_broken:
  "sqlstate_class code \<in> {Broken_connection, Too_many_connections} \<longleftrightarrow> take 2 code = ''08'' \<or> code = ''53300''"
  unfolding take2_08
  by (auto simp: sqlstate_class_def Let_def class_23_def class_42_def class_53_def class_P0_def
      sqlstate_at_def split: if_splits)

section \<open>Properties\<close>


definition sample_failure :: pgresult where
  "sample_failure = \<lparr>PQresultStatus = PGRES_FATAL_ERROR, PQntuples = 0, PQnfields = 0,
     PQfname = (\<lambda>_. None), PQfnumber = (\<lambda>_. -1), PQftype = (\<lambda>_. 0), PQftable = (\<lambda>_. 0),
     PQftablecol = (\<lambda>_. 0), PQgetvalue = (\<lambda>_ _. []), PQgetisnull = (\<lambda>_ _. False),
     PQgetlength = (\<lambda>_ _. 0), PQresultErrorMessage = ''duplicate key'',
     PG_DIAG_SQLSTATE = Some ''23505'', PG_DIAG_STATEMENT_POSITION = None,
     PQcmdTuples = [], PQoidValue = 0\<rparr>"


text \<open>
  Asking for the table column of the column just past the last one is answered as if the
  column existed and were computed: the bounds test lets the column count itself through.
\<close>

theorem table_column_bound_off_by_one:
  assumes "m_data r = Some d" "PQftablecol d (PQnfields d) = 0"
    and "rget r = Some g" "3 \<le> rd_protocol g"
  shows "\<exists>e. result_table_column r (result_columns r) = Inl e \<and> cls e = Usage_error \<and>
    (\<forall>n > result_columns r. PQftablecol d n = 0 \<longrightarrow>
       (\<exists>e'. result_table_column r n = Inl e' \<and> cls e' = Range_error))"
  using assms
  by (auto simp: result_table_column_def result_columns_def usage_error_def range_error_def
      plain_def Let_def)

theorem table_column_bound_off_by_one_witness:
  "let r = make_result_object (Some sample_failure) 3 ''INSERT'' 0 in
   \<exists>e. result_table_column r (result_columns r) = Inl e \<and> cls e = Usage_error \<and>
    (\<forall>n > result_columns r. PQftablecol sample_failure n = 0 \<longrightarrow>
       (\<exists>e'. result_table_column r n = Inl e' \<and> cls e' = Range_error))"
  unfolding Let_def
  by (rule table_column_bound_off_by_one
      [where g = "\<lparr>rd_data = Some sample_failure, rd_protocol = 3, rd_query = ''INSERT'',
         rd_encoding_code = 0\<rparr>"])
    (simp_all add: make_result_object_def sample_failure_def)

end
