(* ===== verification/Ordmap.thy ===== *)
theory Ordmap
  imports Prelude
begin

text \<open>
  The standard library's ordered containers as the sources use them: \<^verbatim>\<open>std::map\<close> and
  \<^verbatim>\<open>std::multimap\<close> as lists of pairs in increasing order of their keys, with insertion,
  lookup, removal and iteration, and the order of \<^verbatim>\<open>std::string\<close> (lexicographic on
  unsigned characters). A locale states what the clients rely on of a map.
\<close>

section \<open>The order of strings\<close>

fun string_less :: "string \<Rightarrow> string \<Rightarrow> bool" where
  "string_less _ [] = False"
| "string_less [] (_ # _) = True"
| "string_less (c # cs) (d # ds) =
     ((of_char c :: nat) < of_char d \<or> (c = d \<and> string_less cs ds))"

lemma string_less_irrefl [simp]: "\<not> string_less s s"
  by (induction s) auto

lemma string_less_trans: "string_less a b \<Longrightarrow> string_less b c \<Longrightarrow> string_less a c"
proof (induction a b arbitrary: c rule: string_less.induct)
  case (3 x xs y ys)
  then show ?case by (cases c) auto
qed (auto elim: string_less.elims)

lemma string_less_linear: "string_less a b \<or> a = b \<or> string_less b a"
proof (induction a b rule: string_less.induct)
  case (3 x xs y ys)
  then show ?case
    using of_char_eq_iff [of x y, where ?'a = nat] by auto
next
  case (1 uu)
  then show ?case by (cases uu) auto
qed auto

lemma string_less_asym: "string_less a b \<Longrightarrow> \<not> string_less b a"
  using string_less_trans string_less_irrefl by blast

section \<open>Maps over any strict order\<close>

fun omap_get :: "'k \<Rightarrow> ('k \<times> 'v) list \<Rightarrow> 'v option" where
  "omap_get k [] = None"
| "omap_get k ((j, v) # m) = (if j = k then Some v else omap_get k m)"

fun omap_put :: "('k \<Rightarrow> 'k \<Rightarrow> bool) \<Rightarrow> 'k \<Rightarrow> 'v \<Rightarrow> ('k \<times> 'v) list \<Rightarrow> ('k \<times> 'v) list" where
  "omap_put lt k v [] = [(k, v)]"
| "omap_put lt k v ((j, w) # m) =
     (if j = k then (k, v) # m
      else if lt k j then (k, v) # (j, w) # m
      else (j, w) # omap_put lt k v m)"

definition omap_erase :: "'k \<Rightarrow> ('k \<times> 'v) list \<Rightarrow> ('k \<times> 'v) list" where
  "omap_erase k m = filter (\<lambda>p. fst p \<noteq> k) m"

definition omap_wf :: "('k \<Rightarrow> 'k \<Rightarrow> bool) \<Rightarrow> ('k \<times> 'v) list \<Rightarrow> bool" where
  "omap_wf lt m \<longleftrightarrow> sorted_wrt lt (map fst m)"

lemma omap_get_put: "omap_get x (omap_put lt k v m) = (if x = k then Some v else omap_get x m)"
  by (induction m) auto

lemma omap_get_erase: "omap_get x (omap_erase k m) = (if x = k then None else omap_get x m)"
  by (induction m) (auto simp: omap_erase_def)

lemma set_omap_put: "fst ` set (omap_put lt k v m) = insert k (fst ` set m)"
  by (induction lt k v m rule: omap_put.induct) (simp_all add: insert_commute)

lemma omap_get_key: "omap_get k m = None \<longleftrightarrow> k \<notin> fst ` set m"
  by (induction k m rule: omap_get.induct) auto

lemma omap_wf_Nil [simp]: "omap_wf lt []"
  by (simp add: omap_wf_def)

lemma omap_erase_wf: "omap_wf lt m \<Longrightarrow> omap_wf lt (omap_erase k m)"
  by (induction m) (auto simp: omap_wf_def omap_erase_def)

text \<open>What the clients of a map rely on, over an abstract order of the keys.\<close>

locale ordered_map =
  fixes lt :: "'k \<Rightarrow> 'k \<Rightarrow> bool"
  assumes irrefl: "\<not> lt k k"
    and trans: "lt a b \<Longrightarrow> lt b c \<Longrightarrow> lt a c"
    and linear: "lt a b \<or> a = b \<or> lt b a"
begin

lemma put_wf: "omap_wf lt m \<Longrightarrow> omap_wf lt (omap_put lt k v m)"
proof (induction m)
  case (Cons p m)
  obtain j w where p: "p = (j, w)" by (cases p)
  have below: "lt j x" if "x \<in> fst ` set m" for x
    using Cons.prems that by (auto simp: omap_wf_def p)
  have IH: "omap_wf lt (omap_put lt k v m)"
    using Cons by (simp add: omap_wf_def)
  consider "j = k" | "lt k j" "j \<noteq> k" | "lt j k" "\<not> lt k j" "j \<noteq> k"
    using linear irrefl trans by metis
  then show ?case
  proof cases
    case 2
    then have "lt k x" if "x \<in> fst ` set m" for x
      using below [OF that] trans by blast
    with 2 Cons.prems show ?thesis by (auto simp: p omap_wf_def)
  next
    case 3
    have "lt j x" if "x \<in> fst ` set (omap_put lt k v m)" for x
      using that 3 below by (auto simp: set_omap_put)
    with 3 IH show ?thesis by (auto simp: p omap_wf_def)
  qed (use Cons.prems in \<open>auto simp: p omap_wf_def\<close>)
qed (simp add: omap_wf_def)

lemma get_iff: "omap_wf lt m \<Longrightarrow> omap_get k m = Some v \<longleftrightarrow> (k, v) \<in> set m"
proof (induction m)
  case (Cons p m)
  obtain j w where p: "p = (j, w)" by (cases p)
  have "j \<noteq> x" if "x \<in> fst ` set m" for x
    using Cons.prems that irrefl by (auto simp: omap_wf_def p)
  then have "x \<noteq> j" if "(x, u) \<in> set m" for x u
    using that by force
  then show ?case
    using Cons by (auto simp: p omap_wf_def)
qed simp

lemma keys_distinct: "omap_wf lt m \<Longrightarrow> distinct (map fst m)"
  using irrefl by (induction m) (auto simp: omap_wf_def)

end

interpretation string_map: ordered_map string_less
  by unfold_locales (use string_less_irrefl string_less_trans string_less_linear in blast)+

interpretation int_map: ordered_map "(<) :: int \<Rightarrow> int \<Rightarrow> bool"
  by unfold_locales auto

section \<open>Multimaps\<close>

text \<open>
  A \<^verbatim>\<open>multimap\<close> keeps its entries in the order of their keys; entries of one key are
  neighbours. An entry is inserted in front of the entries of its key (the place the hint of
  \<^verbatim>\<open>insert(p, v)\<close> names).
\<close>

fun mmap_insert :: "string \<Rightarrow> 'v \<Rightarrow> (string \<times> 'v) list \<Rightarrow> (string \<times> 'v) list" where
  "mmap_insert k v [] = [(k, v)]"
| "mmap_insert k v ((j, w) # m) =
     (if string_less j k then (j, w) # mmap_insert k v m else (k, v) # (j, w) # m)"

definition mmap_range :: "string \<Rightarrow> (string \<times> 'v) list \<Rightarrow> 'v list" where
  "mmap_range k m = map snd (filter (\<lambda>p. fst p = k) m)"

text \<open>Erasing one entry: the first one found in the range of its key.\<close>

definition mmap_erase :: "string \<Rightarrow> 'v \<Rightarrow> (string \<times> 'v) list \<Rightarrow> (string \<times> 'v) list" where
  "mmap_erase k v m = remove1 (k, v) m"

lemma mmap_range_insert:
  "mmap_range x (mmap_insert k v m) = (if x = k then v # mmap_range x m else mmap_range x m)"
  by (induction m) (auto simp: mmap_range_def)

lemma mmap_range_erase:
  "mmap_range x (mmap_erase k v m) = (if x = k then remove1 v (mmap_range x m) else mmap_range x m)"
  by (induction m) (auto simp: mmap_range_def mmap_erase_def)

end
