(* ===== verification/Libpq.thy ===== *)
theory Libpq
  imports Result Ordmap
begin

text \<open>
  What the connection classes use of libpq, of the operating system and of the application:
  the parameter of the model. The functions act on a state of type \<open>'w\<close> that the model never
  looks into (sockets, the server, libpq's own structures); the record names each function by
  its libpq name. The last three are the application's: its error handlers, its notification
  receivers, and the number of rounds a loop is followed for whose end depends on the server.
\<close>

datatype conn_status = CONNECTION_OK | CONNECTION_BAD | CONNECTION_other

datatype poll_status =
    PGRES_POLLING_FAILED | PGRES_POLLING_READING | PGRES_POLLING_WRITING | PGRES_POLLING_OK
  | PGRES_POLLING_ACTIVE

record notify =
  relname :: string
  extra :: string
  be_pid :: int

text \<open>A connection handle: a pointer to libpq's \<^verbatim>\<open>PGconn\<close>, or null.\<close>

type_synonym handle = "nat option"

text \<open>The parameters of a statement as libpq takes them: values (or null), lengths, formats.\<close>

type_synonym params = "string option list \<times> int list \<times> int list"

record 'w env =
  PQstatus :: "handle \<Rightarrow> 'w \<Rightarrow> conn_status"
  PQerrorMessage :: "handle \<Rightarrow> 'w \<Rightarrow> string"
  PQprotocolVersion :: "handle \<Rightarrow> 'w \<Rightarrow> int"
  PQserverVersion :: "handle \<Rightarrow> 'w \<Rightarrow> int"
  PQbackendPID :: "handle \<Rightarrow> 'w \<Rightarrow> int"
  PQdb :: "handle \<Rightarrow> 'w \<Rightarrow> string"
  PQuser :: "handle \<Rightarrow> 'w \<Rightarrow> string"
  PQhost :: "handle \<Rightarrow> 'w \<Rightarrow> string"
  PQport :: "handle \<Rightarrow> 'w \<Rightarrow> string"
  PQsocket :: "handle \<Rightarrow> 'w \<Rightarrow> int"
  PQclientEncoding :: "handle \<Rightarrow> 'w \<Rightarrow> int"
  PQconnectdb :: "string \<Rightarrow> 'w \<Rightarrow> handle \<times> 'w"
  PQconnectStart :: "string \<Rightarrow> 'w \<Rightarrow> handle \<times> 'w"
  PQconnectPoll :: "handle \<Rightarrow> 'w \<Rightarrow> poll_status \<times> 'w"
  PQfinish :: "handle \<Rightarrow> 'w \<Rightarrow> 'w"
  PQreset :: "handle \<Rightarrow> 'w \<Rightarrow> 'w"
  PQexec :: "handle \<Rightarrow> string \<Rightarrow> 'w \<Rightarrow> pgresult option \<times> 'w"
  PQexecParams :: "handle \<Rightarrow> string \<Rightarrow> nat \<Rightarrow> params \<Rightarrow> 'w \<Rightarrow> pgresult option \<times> 'w"
  PQprepare :: "handle \<Rightarrow> string \<Rightarrow> string \<Rightarrow> 'w \<Rightarrow> pgresult option \<times> 'w"
  PQexecPrepared :: "handle \<Rightarrow> string \<Rightarrow> nat \<Rightarrow> params \<Rightarrow> 'w \<Rightarrow> pgresult option \<times> 'w"
  PQsendQuery :: "handle \<Rightarrow> string \<Rightarrow> 'w \<Rightarrow> bool \<times> 'w"
  PQgetResult :: "handle \<Rightarrow> 'w \<Rightarrow> pgresult option \<times> 'w"
  PQconsumeInput :: "handle \<Rightarrow> 'w \<Rightarrow> bool \<times> 'w"
  PQisBusy :: "handle \<Rightarrow> 'w \<Rightarrow> bool"
  PQnotifies :: "handle \<Rightarrow> 'w \<Rightarrow> notify option \<times> 'w"
  PQgetCopyData :: "handle \<Rightarrow> 'w \<Rightarrow> (int \<times> string option) \<times> 'w"
  PQputCopyData :: "handle \<Rightarrow> string \<Rightarrow> 'w \<Rightarrow> int \<times> 'w"
  PQputCopyEnd :: "handle \<Rightarrow> 'w \<Rightarrow> int \<times> 'w"
  PQendcopy :: "handle \<Rightarrow> 'w \<Rightarrow> 'w"
  PQgetCancel :: "handle \<Rightarrow> 'w \<Rightarrow> bool"
  PQcancel :: "handle \<Rightarrow> 'w \<Rightarrow> string option \<times> 'w"
  PQescapeStringConn :: "handle \<Rightarrow> string \<Rightarrow> 'w \<Rightarrow> string \<times> bool"
  PQescapeByteaConn :: "handle \<Rightarrow> string \<Rightarrow> 'w \<Rightarrow> string option"
  PQunescapeBytea :: "string \<Rightarrow> string"
  PQescapeIdentifier :: "handle \<Rightarrow> string \<Rightarrow> 'w \<Rightarrow> string option"
  poll_fd :: "int \<Rightarrow> bool \<Rightarrow> (int \<times> int) option \<Rightarrow> 'w \<Rightarrow> 'w"
  on_notice :: "nat \<Rightarrow> string \<Rightarrow> bool"
  on_notification :: "nat \<Rightarrow> string \<Rightarrow> int \<Rightarrow> exn option"
  rounds :: nat

end
