(* ===== verification/Row.thy ===== *)
theory Row
  imports Result
begin

text \<open>
  Rows, slices of rows, fields and the iterators over them: \<^verbatim>\<open>src/row.cxx\<close>, \<^verbatim>\<open>src/field.cxx\<close>,
  the iterators of \<^verbatim>\<open>src/result.cxx\<close> and their headers. Row numbers are \<^verbatim>\<open>size_t\<close> (64 bits)
  and column numbers \<^verbatim>\<open>unsigned int\<close> (32 bits), and both wrap around. A row refers to its
  result through a pointer; a result never changes, so the row carries the result itself, and
  the comparisons' shortcut for an object compared with itself changes nothing.
\<close>

section \<open>Rows and fields\<close>

record row =
  m_Home :: result
  m_Index :: "64 word"
  m_Begin :: "32 word"
  m_End :: "32 word"

record field =
  m_col :: "32 word"
  m_home :: result
  m_row :: "64 word"

definition make_row :: "result \<Rightarrow> 64 word \<Rightarrow> row" where
  "make_row r i = \<lparr>m_Home = r, m_Index = i, m_Begin = 0, m_End = of_nat (result_columns r)\<rparr>"

definition make_field :: "row \<Rightarrow> 32 word \<Rightarrow> field" where
  "make_field R C = \<lparr>m_col = C, m_home = m_Home R, m_row = m_Index R\<rparr>"

definition GetValue :: "result \<Rightarrow> 64 word \<Rightarrow> 32 word \<Rightarrow> string" where
  "GetValue r Row Col = (case m_data r of Some d \<Rightarrow> PQgetvalue d (unat Row) (unat Col) | None \<Rightarrow> [])"

definition GetIsNull :: "result \<Rightarrow> 64 word \<Rightarrow> 32 word \<Rightarrow> bool" where
  "GetIsNull r Row Col = (case m_data r of Some d \<Rightarrow> PQgetisnull d (unat Row) (unat Col) | None \<Rightarrow> True)"

definition GetLength :: "result \<Rightarrow> 64 word \<Rightarrow> 32 word \<Rightarrow> nat" where
  "GetLength r Row Col = (case m_data r of Some d \<Rightarrow> PQgetlength d (unat Row) (unat Col) | None \<Rightarrow> 0)"

definition field_c_str :: "field \<Rightarrow> string" where
  "field_c_str f = GetValue (m_home f) (m_row f) (m_col f)"

definition field_is_null :: "field \<Rightarrow> bool" where
  "field_is_null f = GetIsNull (m_home f) (m_row f) (m_col f)"

definition field_size :: "field \<Rightarrow> nat" where
  "field_size f = GetLength (m_home f) (m_row f) (m_col f)"

definition field_equal :: "field \<Rightarrow> field \<Rightarrow> bool" where
  "field_equal a b \<longleftrightarrow>
     field_is_null a = field_is_null b \<and> field_size a = field_size b \<and>
     list_all (\<lambda>i. field_c_str a ! i = field_c_str b ! i) [0..<field_size a]"

definition field_name :: "field \<Rightarrow> exn + string" where
  "field_name f = column_name (m_home f) (unat (m_col f))"

definition field_type :: "field \<Rightarrow> exn + nat" where
  "field_type f = result_column_type (m_home f) (unat (m_col f))"

definition field_table :: "field \<Rightarrow> exn + nat" where
  "field_table f = result_column_table (m_home f) (unat (m_col f))"

definition field_table_column :: "field \<Rightarrow> exn + nat" where
  "field_table_column f = result_table_column (m_home f) (unat (m_col f))"

text \<open>
  Conversions to another type: \<open>conv\<close> is the type's \<^verbatim>\<open>from_string\<close>, \<open>nullv\<close> the answer of
  its \<^verbatim>\<open>null()\<close>. \<open>to\<close> returns nothing when it leaves the object alone.
\<close>

definition field_to :: "(string \<Rightarrow> exn + 'a) \<Rightarrow> field \<Rightarrow> exn + 'a option" where
  "field_to conv f =
     (let bytes = field_c_str f in
      if (bytes = [] \<or> hd bytes = CHR 0x00) \<and> field_is_null f then Inr None
      else (case conv bytes of Inl e \<Rightarrow> Inl e | Inr v \<Rightarrow> Inr (Some v)))"

definition field_to_default :: "(string \<Rightarrow> exn + 'a) \<Rightarrow> 'a \<Rightarrow> field \<Rightarrow> exn + bool \<times> 'a" where
  "field_to_default conv Default f =
     (case field_to conv f of
        Inl e \<Rightarrow> Inl e | Inr None \<Rightarrow> Inr (False, Default) | Inr (Some v) \<Rightarrow> Inr (True, v))"

definition field_as_default :: "(string \<Rightarrow> exn + 'a) \<Rightarrow> 'a \<Rightarrow> field \<Rightarrow> exn + 'a" where
  "field_as_default conv Default f =
     (case field_to_default conv Default f of Inl e \<Rightarrow> Inl e | Inr (_, v) \<Rightarrow> Inr v)"

definition field_as :: "(string \<Rightarrow> exn + 'a) \<Rightarrow> (exn + 'a) \<Rightarrow> field \<Rightarrow> exn + 'a" where
  "field_as conv nullv f =
     (case field_to conv f of Inl e \<Rightarrow> Inl e | Inr None \<Rightarrow> nullv | Inr (Some v) \<Rightarrow> Inr v)"

text \<open>The specialisation of \<open>to\<close> for strings takes the bytes the length announces.\<close>

definition field_to_string :: "field \<Rightarrow> string option" where
  "field_to_string f =
     (let bytes = field_c_str f in
      if (bytes = [] \<or> hd bytes = CHR 0x00) \<and> field_is_null f then None
      else Some (take (field_size f) bytes))"

definition throw_null_conversion :: "string \<Rightarrow> exn" where
  "throw_null_conversion t = conversion_error (''Attempt to convert null to '' @ t)"

subsection \<open>Operations on rows\<close>

definition row_size :: "row \<Rightarrow> 32 word" where
  "row_size r = m_End r - m_Begin r"

definition row_is_empty :: "row \<Rightarrow> bool" where
  "row_is_empty r \<longleftrightarrow> m_Begin r = m_End r"

definition row_front :: "row \<Rightarrow> field" where
  "row_front r = make_field r (m_Begin r)"

definition row_back :: "row \<Rightarrow> field" where
  "row_back r = make_field r (m_End r - 1)"

definition row_nth :: "row \<Rightarrow> 32 word \<Rightarrow> field" where
  "row_nth r i = make_field r (m_Begin r + i)"

definition row_at :: "row \<Rightarrow> 32 word \<Rightarrow> exn + field" where
  "row_at r i = (if i \<ge> row_size r then Inl (range_error ''Invalid field number'')
                 else Inr (row_nth r i))"

definition row_equal :: "row \<Rightarrow> row \<Rightarrow> bool" where
  "row_equal a b \<longleftrightarrow> row_size a = row_size b \<and>
     list_all (\<lambda>i. field_equal (row_nth a (of_nat i)) (row_nth b (of_nat i))) [0..<unat (row_size a)]"

definition row_swap :: "row \<Rightarrow> row \<Rightarrow> row \<times> row" where
  "row_swap a b =
     (let h = m_Home a; i = m_Index a; bg = m_Begin a; e = m_End a in
      (a\<lparr>m_Home := m_Home b, m_Index := m_Index b, m_Begin := m_Begin b, m_End := m_End b\<rparr>,
       b\<lparr>m_Home := h, m_Index := i, m_Begin := bg, m_End := e\<rparr>))"

definition row_slice :: "row \<Rightarrow> 32 word \<Rightarrow> 32 word \<Rightarrow> exn + row" where
  "row_slice r Begin End =
     (if Begin > End \<or> End > row_size r then Inl (range_error ''Invalid field range'')
      else Inr (r\<lparr>m_Begin := m_Begin r + Begin, m_End := m_Begin r + End\<rparr>))"

text \<open>The search of a slice for a column whose name is \<open>Adapted\<close>.\<close>

fun find_column :: "result \<Rightarrow> string \<Rightarrow> nat list \<Rightarrow> exn + nat option" where
  "find_column r Adapted [] = Inr None"
| "find_column r Adapted (i # is) =
     (case column_name r i of
        Inl e \<Rightarrow> Inl e
      | Inr N \<Rightarrow> if Adapted = N then Inr (Some i) else find_column r Adapted is)"

definition row_column_number :: "row \<Rightarrow> string \<Rightarrow> exn + nat" where
  "row_column_number R ColName =
     (case result_column_number (m_Home R) ColName of
        Inl e \<Rightarrow> Inl e
      | Inr n \<Rightarrow>
          if n \<ge> unat (m_End R) then result_column_number empty_result ColName
          else if n \<ge> unat (m_Begin R) then Inr (n - unat (m_Begin R))
          else (case column_name (m_Home R) n of
                  Inl e \<Rightarrow> Inl e
                | Inr Adapted \<Rightarrow>
                    (case find_column (m_Home R) Adapted [unat (m_Begin R)..<unat (m_End R)] of
                       Inl e \<Rightarrow> Inl e
                     | Inr (Some i) \<Rightarrow> Inr (i - unat (m_Begin R))
                     | Inr None \<Rightarrow> result_column_number empty_result ColName)))"

definition row_at_name :: "row \<Rightarrow> string \<Rightarrow> exn + field" where
  "row_at_name R f =
     (case row_column_number R f of Inl e \<Rightarrow> Inl e | Inr n \<Rightarrow> Inr (make_field R (m_Begin R + of_nat n)))"

definition row_column_type :: "row \<Rightarrow> 32 word \<Rightarrow> exn + nat" where
  "row_column_type R ColNum = result_column_type (m_Home R) (unat (m_Begin R + ColNum))"

definition row_column_table :: "row \<Rightarrow> 32 word \<Rightarrow> exn + nat" where
  "row_column_table R ColNum = result_column_table (m_Home R) (unat (m_Begin R + ColNum))"

definition row_table_column :: "row \<Rightarrow> 32 word \<Rightarrow> exn + nat" where
  "row_table_column R ColNum = result_table_column (m_Home R) (unat (m_Begin R + ColNum))"

subsection \<open>Rows of a result\<close>

definition result_nth :: "result \<Rightarrow> 64 word \<Rightarrow> row" where
  "result_nth r i = make_row r i"

definition result_at :: "result \<Rightarrow> 64 word \<Rightarrow> exn + row" where
  "result_at r i = (if unat i \<ge> result_size r then Inl (range_error ''Row number out of range'')
                    else Inr (result_nth r i))"

definition result_front :: "result \<Rightarrow> row" where
  "result_front r = make_row r 0"

definition result_back :: "result \<Rightarrow> row" where
  "result_back r = make_row r (of_nat (result_size r) - 1)"

definition result_equal :: "result \<Rightarrow> result \<Rightarrow> bool" where
  "result_equal a b \<longleftrightarrow> result_size b = result_size a \<and>
     list_all (\<lambda>i. row_equal (result_nth a (of_nat i)) (result_nth b (of_nat i))) [0..<result_size a]"

section \<open>Iterators\<close>

text \<open>
  A \<^verbatim>\<open>const_result_iterator\<close> is a row whose number moves, a \<^verbatim>\<open>const_row_iterator\<close> a field
  whose column moves. Their reverse iterators are the same objects moved one position down,
  with the operations exchanged.
\<close>

definition result_begin :: "result \<Rightarrow> row" where
  "result_begin r = make_row r 0"

definition result_end :: "result \<Rightarrow> row" where
  "result_end r = make_row r (of_nat (result_size r))"

definition rit_inc :: "row \<Rightarrow> row" where
  "rit_inc i = i\<lparr>m_Index := m_Index i + 1\<rparr>"

definition rit_dec :: "row \<Rightarrow> row" where
  "rit_dec i = i\<lparr>m_Index := m_Index i - 1\<rparr>"

definition rit_advance :: "64 word \<Rightarrow> row \<Rightarrow> row" where
  "rit_advance n i = i\<lparr>m_Index := m_Index i + n\<rparr>"

definition rit_retreat :: "64 word \<Rightarrow> row \<Rightarrow> row" where
  "rit_retreat n i = i\<lparr>m_Index := m_Index i - n\<rparr>"

text \<open>The binary operators build a fresh full-width row of the same result.\<close>

definition rit_plus :: "row \<Rightarrow> 64 word \<Rightarrow> row" where
  "rit_plus i n = make_row (m_Home i) (m_Index i + n)"

definition rit_minus :: "row \<Rightarrow> 64 word \<Rightarrow> row" where
  "rit_minus i n = make_row (m_Home i) (m_Index i - n)"

definition rit_difference :: "row \<Rightarrow> row \<Rightarrow> int" where
  "rit_difference i j = sint (m_Index i - m_Index j)"

definition rit_equal :: "row \<Rightarrow> row \<Rightarrow> bool" where
  "rit_equal i j \<longleftrightarrow> m_Index i = m_Index j"

definition rit_less :: "row \<Rightarrow> row \<Rightarrow> bool" where
  "rit_less i j \<longleftrightarrow> m_Index i < m_Index j"

definition result_rbegin :: "result \<Rightarrow> row" where
  "result_rbegin r = rit_dec (result_end r)"

definition result_rend :: "result \<Rightarrow> row" where
  "result_rend r = rit_dec (result_begin r)"

definition rev_rit_base :: "row \<Rightarrow> row" where
  "rev_rit_base i = rit_inc i"

definition rev_rit_plus :: "row \<Rightarrow> 64 word \<Rightarrow> row" where
  "rev_rit_plus i n = rit_dec (rit_minus (rev_rit_base i) n)"

definition rev_rit_minus :: "row \<Rightarrow> 64 word \<Rightarrow> row" where
  "rev_rit_minus i n = rit_dec (rit_plus (rev_rit_base i) n)"

definition rev_rit_less :: "row \<Rightarrow> row \<Rightarrow> bool" where
  "rev_rit_less i j \<longleftrightarrow> rit_less j i"

definition row_begin :: "row \<Rightarrow> field" where
  "row_begin r = make_field r (m_Begin r)"

definition row_end :: "row \<Rightarrow> field" where
  "row_end r = make_field r (m_End r)"

definition cit_inc :: "field \<Rightarrow> field" where
  "cit_inc i = i\<lparr>m_col := m_col i + 1\<rparr>"

definition cit_dec :: "field \<Rightarrow> field" where
  "cit_dec i = i\<lparr>m_col := m_col i - 1\<rparr>"

definition cit_advance :: "32 word \<Rightarrow> field \<Rightarrow> field" where
  "cit_advance n i = i\<lparr>m_col := m_col i + n\<rparr>"

definition cit_retreat :: "32 word \<Rightarrow> field \<Rightarrow> field" where
  "cit_retreat n i = i\<lparr>m_col := m_col i - n\<rparr>"

definition cit_plus :: "field \<Rightarrow> 32 word \<Rightarrow> field" where
  "cit_plus i n = make_field (make_row (m_home i) (m_row i)) (m_col i + n)"

definition cit_minus :: "field \<Rightarrow> 32 word \<Rightarrow> field" where
  "cit_minus i n = make_field (make_row (m_home i) (m_row i)) (m_col i - n)"

definition cit_difference :: "field \<Rightarrow> field \<Rightarrow> int" where
  "cit_difference i j = sint (m_col i - m_col j)"

definition cit_less :: "field \<Rightarrow> field \<Rightarrow> bool" where
  "cit_less i j \<longleftrightarrow> m_col i < m_col j"

definition row_rbegin :: "row \<Rightarrow> field" where
  "row_rbegin r = cit_dec (row_end r)"

definition row_rend :: "row \<Rightarrow> field" where
  "row_rend r = cit_dec (row_begin r)"

definition rev_cit_plus :: "field \<Rightarrow> 32 word \<Rightarrow> field" where
  "rev_cit_plus i n = cit_dec (cit_minus (cit_inc i) n)"

definition rev_cit_less :: "field \<Rightarrow> field \<Rightarrow> bool" where
  "rev_cit_less i j \<longleftrightarrow> cit_less j i"

text \<open>A postfix operator answers the old iterator beside the moved one.\<close>

definition rit_post_inc :: "row \<Rightarrow> row \<times> row" where
  "rit_post_inc i = (i, i\<lparr>m_Index := m_Index i + 1\<rparr>)"

definition rit_post_dec :: "row \<Rightarrow> row \<times> row" where
  "rit_post_dec i = (i, i\<lparr>m_Index := m_Index i - 1\<rparr>)"

definition rit_less_eq :: "row \<Rightarrow> row \<Rightarrow> bool" where
  "rit_less_eq i j \<longleftrightarrow> m_Index i \<le> m_Index j"

definition cit_post_inc :: "field \<Rightarrow> field \<times> field" where
  "cit_post_inc i = (i, i\<lparr>m_col := m_col i + 1\<rparr>)"

definition cit_post_dec :: "field \<Rightarrow> field \<times> field" where
  "cit_post_dec i = (i, i\<lparr>m_col := m_col i - 1\<rparr>)"

definition cit_equal :: "field \<Rightarrow> field \<Rightarrow> bool" where
  "cit_equal i j \<longleftrightarrow> m_col i = m_col j"

definition cit_less_eq :: "field \<Rightarrow> field \<Rightarrow> bool" where
  "cit_less_eq i j \<longleftrightarrow> m_col i \<le> m_col j"

text \<open>A reverse iterator is made from an iterator one step further, and its steps are exchanged.\<close>

definition rev_rit_new :: "row \<Rightarrow> row" where
  "rev_rit_new i = rit_dec i"

definition rev_rit_inc :: "row \<Rightarrow> row" where
  "rev_rit_inc i = rit_dec i"

definition rev_rit_dec :: "row \<Rightarrow> row" where
  "rev_rit_dec i = rit_inc i"

definition rev_rit_post_inc :: "row \<Rightarrow> row \<times> row" where
  "rev_rit_post_inc i = (i, rit_dec i)"

definition rev_rit_post_dec :: "row \<Rightarrow> row \<times> row" where
  "rev_rit_post_dec i = (i, rit_inc i)"

definition rev_rit_advance :: "64 word \<Rightarrow> row \<Rightarrow> row" where
  "rev_rit_advance n i = rit_retreat n i"

definition rev_rit_retreat :: "64 word \<Rightarrow> row \<Rightarrow> row" where
  "rev_rit_retreat n i = rit_advance n i"

definition rev_rit_difference :: "row \<Rightarrow> row \<Rightarrow> int" where
  "rev_rit_difference i j = rit_difference j i"

definition rev_rit_equal :: "row \<Rightarrow> row \<Rightarrow> bool" where
  "rev_rit_equal i j \<longleftrightarrow> rit_equal i j"

definition rev_rit_less_eq :: "row \<Rightarrow> row \<Rightarrow> bool" where
  "rev_rit_less_eq i j \<longleftrightarrow> rit_less_eq j i"

definition rev_cit_new :: "field \<Rightarrow> field" where
  "rev_cit_new i = cit_dec i"

definition rev_cit_base :: "field \<Rightarrow> field" where
  "rev_cit_base i = cit_inc i"

definition rev_cit_inc :: "field \<Rightarrow> field" where
  "rev_cit_inc i = cit_dec i"

definition rev_cit_dec :: "field \<Rightarrow> field" where
  "rev_cit_dec i = cit_inc i"

definition rev_cit_post_inc :: "field \<Rightarrow> field \<times> field" where
  "rev_cit_post_inc i = (i, rev_cit_inc i)"

definition rev_cit_post_dec :: "field \<Rightarrow> field \<times> field" where
  "rev_cit_post_dec i = (i, rev_cit_dec i)"

definition rev_cit_advance :: "32 word \<Rightarrow> field \<Rightarrow> field" where
  "rev_cit_advance n i = cit_retreat n i"

definition rev_cit_retreat :: "32 word \<Rightarrow> field \<Rightarrow> field" where
  "rev_cit_retreat n i = cit_advance n i"

definition rev_cit_minus :: "field \<Rightarrow> 32 word \<Rightarrow> field" where
  "rev_cit_minus i n = rev_cit_new (cit_plus (rev_cit_base i) n)"

definition rev_cit_difference :: "field \<Rightarrow> field \<Rightarrow> int" where
  "rev_cit_difference i j = cit_difference j i"

definition rev_cit_equal :: "field \<Rightarrow> field \<Rightarrow> bool" where
  "rev_cit_equal i j \<longleftrightarrow> cit_equal i j"

definition rev_cit_less_eq :: "field \<Rightarrow> field \<Rightarrow> bool" where
  "rev_cit_less_eq i j \<longleftrightarrow> cit_less_eq j i"

subsection \<open>The iterator contract\<close>

text \<open>
  What a reverse iterator relies on of the iterator it wraps: a position that counts with
  wrap-around, and a comparison of positions.
\<close>

locale wrapping_iterator =
  fixes pos :: "'i \<Rightarrow> 'n::len word"
    and inc :: "'i \<Rightarrow> 'i"
    and dec :: "'i \<Rightarrow> 'i"
    and minus_by :: "'i \<Rightarrow> 'n word \<Rightarrow> 'i"
    and less_it :: "'i \<Rightarrow> 'i \<Rightarrow> bool"
  assumes pos_inc: "pos (inc i) = pos i + 1"
    and pos_dec: "pos (dec i) = pos i - 1"
    and pos_minus: "pos (minus_by i n) = pos i - n"
    and less_pos: "less_it i j \<longleftrightarrow> pos i < pos j"
begin

lemma base_of_reverse: "pos (inc (dec i)) = pos i"
  by (simp add: pos_inc pos_dec)

lemma reverse_step: "pos (dec (minus_by (inc (dec e)) n)) = pos e - n - 1"
  by (simp add: pos_inc pos_dec pos_minus)

lemma reverse_visits:
  assumes "pos e = of_nat k" "n < k"
  shows "pos (dec (minus_by (inc (dec e)) (of_nat n))) = of_nat (k - 1 - n)"
proof -
  have k: "k = (k - 1 - n) + n + 1"
    using assms(2) by simp
  have "(of_nat k :: 'n word) = of_nat (k - 1 - n) + of_nat n + 1"
    by (subst k) (simp only: of_nat_add of_nat_1)
  then show ?thesis
    unfolding reverse_step assms(1) by simp
qed

lemma reverse_reaches_end:
  assumes "pos b = 0" "pos e = of_nat k" "k < 2 ^ LENGTH('n)" "n \<le> k"
  shows "pos (dec (minus_by (inc (dec e)) (of_nat n))) = pos (dec b) \<longleftrightarrow> n = k"
proof -
  have "unat (of_nat n :: 'n word) = n" "unat (of_nat k :: 'n word) = k"
    using assms(3,4) by (simp_all add: unat_of_nat)
  then have "of_nat n = (of_nat k :: 'n word) \<longleftrightarrow> n = k"
    by metis
  then show ?thesis
    unfolding reverse_step unfolding pos_dec assms(1,2) by auto
qed

text \<open>A loop that steps a reverse iterator sees the places from the last to the first, each once.\<close>

lemma steps_backwards:
  assumes "pos e = of_nat k" "n \<le> k"
  shows "map (\<lambda>j. pos ((dec ^^ j) (dec e))) [0..<n] = map (\<lambda>j. of_nat (k - 1 - j)) [0..<n]"
proof -
  have "pos ((dec ^^ j) (dec e)) = pos e - of_nat (Suc j)" for j
    by (induction j) (simp_all add: pos_dec)
  then show ?thesis using assms by (auto simp: of_nat_diff diff_Suc_eq_diff_pred [symmetric] simp del: of_nat_Suc)
qed

lemma reverse_end_never_after:
  assumes "pos b = 0"
  shows "\<not> less_it (dec b) i"
proof -
  have "pos (dec b) = - 1"
    by (simp add: pos_dec assms)
  then show ?thesis
    unfolding less_pos by (simp add: not_less)
qed

end

interpretation rows: wrapping_iterator m_Index rit_inc rit_dec rit_minus rit_less
  by unfold_locales (simp_all add: rit_inc_def rit_dec_def rit_minus_def make_row_def rit_less_def)

interpretation columns: wrapping_iterator m_col cit_inc cit_dec cit_minus cit_less
  by unfold_locales (simp_all add: cit_inc_def cit_dec_def cit_minus_def make_field_def cit_less_def)

text \<open>The reverse iterators' own steps are the ones that undo each other, and their order is the other one.\<close>

lemma reverse_steps_undo:
  "rev_rit_inc (rev_rit_dec i) = i" "rev_rit_dec (rev_rit_inc i) = i"
  "rev_cit_inc (rev_cit_dec c) = c" "rev_cit_dec (rev_cit_inc c) = c"
  "rev_rit_retreat n (rev_rit_advance n i) = i" "rev_cit_retreat m (rev_cit_advance m c) = c"
  "rev_rit_base (rev_rit_new i) = i" "rev_cit_base (rev_cit_new c) = c"
  by (simp_all add: rev_rit_inc_def rev_rit_dec_def rev_cit_inc_def rev_cit_dec_def rev_rit_retreat_def
      rev_rit_advance_def rev_cit_retreat_def rev_cit_advance_def rev_rit_base_def rev_rit_new_def rev_cit_base_def
      rev_cit_new_def rit_inc_def rit_dec_def cit_inc_def cit_dec_def rit_advance_def rit_retreat_def
      cit_advance_def cit_retreat_def)

lemma rows_walked_backwards:
  assumes "n \<le> result_size r"
  shows "map (\<lambda>j. m_Index ((rev_rit_inc ^^ j) (result_rbegin r))) [0..<n] = map (\<lambda>j. of_nat (result_size r - 1 - j)) [0..<n]"
proof -
  have "rev_rit_inc = rit_dec" by (simp add: rev_rit_inc_def fun_eq_iff)
  then show ?thesis
    using rows.steps_backwards [of "result_end r" "result_size r" n] assms
    by (simp add: result_rbegin_def result_end_def make_row_def)
qed

section \<open>Lemmas\<close>

subsection \<open>Well-formed rows\<close>

text \<open>
  A result as libpq makes them: row and column counts are \<^verbatim>\<open>int\<close> values. A well-formed row
  is a window into the columns of its result.
\<close>

definition result_bounded :: "result \<Rightarrow> bool" where
  "result_bounded r \<longleftrightarrow> result_size r < 2 ^ 31 \<and> result_columns r < 2 ^ 31"

definition row_wf :: "row \<Rightarrow> bool" where
  "row_wf R \<longleftrightarrow> result_bounded (m_Home R) \<and> m_Begin R \<le> m_End R \<and>
     unat (m_End R) \<le> result_columns (m_Home R)"

lemma row_wf_make [simp]: "result_bounded r \<Longrightarrow> row_wf (make_row r i)"
  by (simp add: row_wf_def make_row_def result_bounded_def unat_of_nat)

lemma row_size_unat: "m_Begin R \<le> m_End R \<Longrightarrow> unat (row_size R) = unat (m_End R) - unat (m_Begin R)"
  by (simp add: row_size_def unat_sub)

lemma unat_window:
  assumes "b \<le> (e :: 32 word)" "i \<le> e - b"
  shows "unat (b + i) = unat b + unat i" "unat b + unat i \<le> unat e"
proof -
  have i: "unat i \<le> unat e - unat b"
    using assms by (simp add: word_le_nat_alt unat_sub)
  then show le: "unat b + unat i \<le> unat e"
    using assms(1) by (simp add: word_le_nat_alt)
  then have "unat b + unat i < 2 ^ 32"
    using unsigned_less [of e, where ?'a = nat] by simp
  then show "unat (b + i) = unat b + unat i"
    by (simp add: unat_add_lem [THEN iffD1])
qed

lemma row_slice_wf:
  assumes "row_wf R" "row_slice R b e = Inr S"
  shows "row_wf S" and "row_size S = e - b" and "m_Home S = m_Home R"
    and "m_Begin S = m_Begin R + b" and "m_Index S = m_Index R"
proof -
  from assms have w: "m_Begin R \<le> m_End R" "unat (m_End R) \<le> result_columns (m_Home R)"
      "result_bounded (m_Home R)"
    and be: "b \<le> e" "e \<le> m_End R - m_Begin R"
    and S: "S = R\<lparr>m_Begin := m_Begin R + b, m_End := m_Begin R + e\<rparr>"
    by (auto simp: row_wf_def row_slice_def row_size_def split: if_splits)
  note ue = unat_window [OF w(1) be(2)]
  have ub: "unat (m_Begin R + b) = unat (m_Begin R) + unat b"
    by (rule unat_window(1) [OF w(1)]) (use be in simp)
  show "row_wf S"
    using w be ue ub by (simp add: row_wf_def S word_le_nat_alt)
  show "row_size S = e - b"
    by (simp add: S row_size_def)
  show "m_Home S = m_Home R" "m_Begin S = m_Begin R + b" "m_Index S = m_Index R"
    by (simp_all add: S)
qed

lemma make_row_simps [simp]:
  "m_Home (make_row r i) = r" "m_Index (make_row r i) = i" "m_Begin (make_row r i) = 0"
  "m_End (make_row r i) = of_nat (result_columns r)" "row_size (make_row r i) = of_nat (result_columns r)"
  by (simp_all add: make_row_def row_size_def)

subsection \<open>The table a result holds\<close>

definition cell :: "result \<Rightarrow> nat \<Rightarrow> nat \<Rightarrow> string option" where
  "cell r i j = (case m_data r of None \<Rightarrow> None | Some d \<Rightarrow>
     if PQgetisnull d i j then None else Some (PQgetvalue d i j))"

definition table :: "result \<Rightarrow> string option list list" where
  "table r = map (\<lambda>i. map (cell r i) [0..<result_columns r]) [0..<result_size r]"

definition documented_result :: "result \<Rightarrow> bool" where
  "documented_result r \<longleftrightarrow> result_bounded r \<and>
     (case m_data r of Some d \<Rightarrow> documented_values d | None \<Rightarrow> True)"

lemma list_all_nth_eq:
  assumes "length xs = length ys"
  shows "list_all (\<lambda>i. xs ! i = ys ! i) [0..<length xs] \<longleftrightarrow> xs = ys"
  using assms by (subst list_eq_iff_nth_eq) (simp add: list_all_iff Ball_def)

lemma field_equal_cell:
  assumes "documented_result a" "documented_result b"
    and "i < result_size a" "j < result_columns a" "i < result_size b" "j < result_columns b"
  shows "field_equal (row_nth (result_nth a (of_nat i)) (of_nat j))
                     (row_nth (result_nth b (of_nat i)) (of_nat j)) \<longleftrightarrow> cell a i j = cell b i j"
proof -
  obtain p q where p: "m_data a = Some p" "m_data b = Some q"
    using assms(3,5) by (cases "m_data a"; cases "m_data b") (auto simp: result_size_def)
  have doc: "documented_values p" "documented_values q"
    using assms(1,2) p by (auto simp: documented_result_def)
  have bd: "i < PQntuples p" "j < PQnfields p" "i < PQntuples q" "j < PQnfields q"
    using assms(3-6) p by (auto simp: result_size_def result_columns_def)
  have u: "unat (of_nat i :: 64 word) = i" "unat (of_nat j :: 32 word) = j"
    using assms(1,3,4) by (auto simp: unat_of_nat documented_result_def result_bounded_def)
  note d = doc [unfolded documented_values_def, rule_format]
  have len: "PQgetlength p i j = length (PQgetvalue p i j)" "PQgetlength q i j = length (PQgetvalue q i j)"
    and nulls: "PQgetisnull p i j \<Longrightarrow> PQgetvalue p i j = []" "PQgetisnull q i j \<Longrightarrow> PQgetvalue q i j = []"
    using d bd by auto
  define F where "F r = row_nth (result_nth r (of_nat i)) (of_nat j)" for r
  have n: "field_is_null (F a) = PQgetisnull p i j" "field_is_null (F b) = PQgetisnull q i j"
    by (simp_all add: F_def field_is_null_def GetIsNull_def p u row_nth_def make_field_def result_nth_def)
  have s: "field_size (F a) = length (PQgetvalue p i j)" "field_size (F b) = length (PQgetvalue q i j)"
    by (simp_all add: F_def field_size_def GetLength_def p u row_nth_def make_field_def
        result_nth_def len)
  have c: "field_c_str (F a) = PQgetvalue p i j" "field_c_str (F b) = PQgetvalue q i j"
    by (simp_all add: F_def field_c_str_def GetValue_def p u row_nth_def make_field_def result_nth_def)
  have "field_equal (F a) (F b) \<longleftrightarrow>
      PQgetisnull p i j = PQgetisnull q i j \<and> PQgetvalue p i j = PQgetvalue q i j"
    unfolding field_equal_def n s c
    using list_all_nth_eq [of "PQgetvalue p i j" "PQgetvalue q i j"] by auto
  also have "\<dots> \<longleftrightarrow> cell a i j = cell b i j"
    using nulls by (auto simp: cell_def p)
  finally show ?thesis
    by (simp add: F_def)
qed

lemma row_equal_cells:
  assumes "documented_result a" "documented_result b" "i < result_size a" "i < result_size b"
  shows "row_equal (result_nth a (of_nat i)) (result_nth b (of_nat i)) \<longleftrightarrow>
    map (cell a i) [0..<result_columns a] = map (cell b i) [0..<result_columns b]"
proof -
  have u: "unat (of_nat (result_columns a) :: 32 word) = result_columns a"
    "unat (of_nat (result_columns b) :: 32 word) = result_columns b"
    using assms(1,2) by (auto simp: unat_of_nat documented_result_def result_bounded_def)
  have w: "(of_nat (result_columns a) :: 32 word) = of_nat (result_columns b) \<longleftrightarrow>
      result_columns a = result_columns b"
    using u by metis
  have sz: "row_size (result_nth r k) = of_nat (result_columns r)" for r k
    by (simp add: result_nth_def)
  show ?thesis
  proof (cases "result_columns a = result_columns b")
    case True
    then show ?thesis
      using field_equal_cell [OF assms(1,2)] assms(3,4)
      by (auto simp: row_equal_def sz u list_all_iff)
  next
    case False
    then have "map (cell a i) [0..<result_columns a] \<noteq> map (cell b i) [0..<result_columns b]"
      by (metis length_map length_upt diff_zero)
    with False show ?thesis
      by (simp add: row_equal_def sz w)
  qed
qed

section \<open>Properties\<close>

text \<open>
  C27: two results compare equal exactly when the tables they hold are the same, row by row
  and field by field, with nulls equal to nulls and different from empty values (an empty
  result equals any other empty result, whatever its columns).
\<close>

theorem result_equal_iff_same_table:
  assumes "documented_result a" "documented_result b"
  shows "result_equal a b \<longleftrightarrow> table a = table b"
proof (cases "result_size a = result_size b")
  case True
  then show ?thesis
    using row_equal_cells [OF assms] by (auto simp: result_equal_def table_def list_all_iff)
next
  case False
  then have "table a \<noteq> table b"
    by (metis table_def length_map length_upt diff_zero)
  with False show ?thesis
    by (simp add: result_equal_def)
qed

definition sample_rows :: "string option list list \<Rightarrow> nat \<Rightarrow> pgresult" where
  "sample_rows rows cols = \<lparr>PQresultStatus = PGRES_TUPLES_OK, PQntuples = length rows, PQnfields = cols,
     PQfname = (\<lambda>j. if j < cols then Some (CHR ''c'' # decimal (int j)) else None),
     PQfnumber = (\<lambda>n. if n = ''c0'' then 0 else if n = ''c1'' then 1 else -1),
     PQftype = (\<lambda>_. 25), PQftable = (\<lambda>_. 0), PQftablecol = (\<lambda>_. 0),
     PQgetvalue = (\<lambda>i j. case rows ! i ! j of None \<Rightarrow> [] | Some v \<Rightarrow> v),
     PQgetisnull = (\<lambda>i j. rows ! i ! j = None),
     PQgetlength = (\<lambda>i j. case rows ! i ! j of None \<Rightarrow> 0 | Some v \<Rightarrow> length v),
     PQresultErrorMessage = [], PG_DIAG_SQLSTATE = None, PG_DIAG_STATEMENT_POSITION = None,
     PQcmdTuples = [], PQoidValue = 0\<rparr>"

definition sample_result :: "string option list list \<Rightarrow> nat \<Rightarrow> result" where
  "sample_result rows cols = make_result_object (Some (sample_rows rows cols)) 3 ''SELECT'' 0"

lemma sample_result_documented:
  "length rows < 2 ^ 31 \<Longrightarrow> cols < 2 ^ 31 \<Longrightarrow> documented_result (sample_result rows cols)"
  by (auto simp: documented_result_def result_bounded_def result_size_def result_columns_def
      sample_result_def make_result_object_def sample_rows_def documented_values_def
      split: option.splits)

theorem result_equal_iff_same_table_witness:
  "\<not> result_equal (sample_result [[Some ''x'', None]] 2) (sample_result [[Some ''x'', Some []]] 2)"
proof -
  have "table (sample_result [[Some ''x'', None]] 2) \<noteq> table (sample_result [[Some ''x'', Some []]] 2)"
    by (simp add: table_def cell_def sample_result_def make_result_object_def sample_rows_def
        result_size_def result_columns_def numeral_2_eq_2)
  then show ?thesis
    by (subst result_equal_iff_same_table) (simp_all add: sample_result_documented)
qed

text \<open>
  A slice shows exactly the requested window of its row: it has the requested width,
  every field in it is the field of the original row at the shifted position, access past
  its width is refused, and a slice of a slice is a slice.
\<close>

theorem slice_is_window:
  assumes "row_wf R" "row_slice R b e = Inr S"
  shows "row_size S = e - b \<and>
    (\<forall>i. row_at S i = (if i < e - b then row_at R (b + i) else Inl (range_error ''Invalid field number''))) \<and>
    (\<forall>b' e'. b' \<le> e' \<and> e' \<le> e - b \<longrightarrow> row_slice S b' e' = row_slice R (b + b') (b + e'))"
proof -
  note s = row_slice_wf [OF assms]
  from assms(2) have be: "b \<le> e" "e \<le> row_size R" and S: "S = R\<lparr>m_Begin := m_Begin R + b, m_End := m_Begin R + e\<rparr>"
    by (auto simp: row_slice_def split: if_splits)
  have sum: "unat (b + i) = unat b + unat i" "unat b + unat i \<le> unat e" if "i \<le> e - b" for i
    using unat_window [OF be(1) that] .
  have inside: "b + i < row_size R" if "i < e - b" for i
  proof -
    have "unat i < unat e - unat b"
      using that be(1) by (simp add: word_less_nat_alt unat_sub)
    then have "unat (b + i) < unat e"
      using sum(1) [of i] that by simp
    with be(2) show ?thesis
      by (simp add: word_less_nat_alt word_le_nat_alt)
  qed
  have fields: "row_nth S i = row_nth R (b + i)" for i
    by (simp add: row_nth_def make_field_def S add.assoc)
  have at: "row_at S i = (if i < e - b then row_at R (b + i) else Inl (range_error ''Invalid field number''))" for i
    using inside [of i] fields [of i] by (auto simp: row_at_def s(2) not_le)
  have nest: "row_slice S b' e' = row_slice R (b + b') (b + e')" if "b' \<le> e'" "e' \<le> e - b" for b' e'
  proof -
    have le: "b + b' \<le> b + e'" "b + e' \<le> row_size R"
      using sum [of b'] sum [of e'] that be by (simp_all add: word_le_nat_alt)
    then show ?thesis
      using that by (simp add: row_slice_def s(2) [unfolded S] not_less not_le S add.assoc leD)
  qed
  show ?thesis
    using s(2) at nest by blast
qed

theorem slice_is_window_witness:
  "\<exists>S. row_slice (result_nth (sample_result [[Some ''x'', None]] 2) 0) 1 2 = Inr S \<and>
     row_at S 0 = row_at (result_nth (sample_result [[Some ''x'', None]] 2) 0) 1"
proof -
  let ?R = "result_nth (sample_result [[Some ''x'', None]] 2) 0"
  have wf: "row_wf ?R"
    by (simp add: result_nth_def result_bounded_def sample_result_def make_result_object_def
        sample_rows_def result_size_def result_columns_def)
  have c: "result_columns (sample_result [[Some ''x'', None]] 2) = 2"
    by (simp add: result_columns_def sample_result_def make_result_object_def sample_rows_def)
  obtain S where S: "row_slice ?R 1 2 = Inr S"
    by (simp add: row_slice_def result_nth_def c)
  have "row_at S 0 = row_at ?R (1 + 0)"
    using slice_is_window [OF wf S] by simp
  with S show ?thesis
    by simp
qed

text \<open>
  Walking a result backwards visits exactly its rows, last to first: \<open>n\<close> steps from
  \<^verbatim>\<open>rbegin()\<close> reach row \<open>size - 1 - n\<close>, and \<^verbatim>\<open>rend()\<close> is reached after exactly \<open>size\<close> steps.
  But a loop that tests \<^verbatim>\<open>it < rend()\<close> never runs: the end position wraps to the largest
  number, so no position is before it in the reverse order.
\<close>

theorem reverse_walk:
  assumes "result_bounded r"
  shows "(\<forall>n < result_size r.
       m_Index (rev_rit_plus (result_rbegin r) (of_nat n)) = of_nat (result_size r - 1 - n)) \<and>
    (\<forall>n \<le> result_size r.
       rit_equal (rev_rit_plus (result_rbegin r) (of_nat n)) (result_rend r) \<longleftrightarrow> n = result_size r) \<and>
    (\<forall>i. \<not> rev_rit_less i (result_rend r))"
proof -
  have b: "m_Index (result_begin r) = 0" "m_Index (result_end r) = of_nat (result_size r)"
    by (simp_all add: result_begin_def result_end_def)
  have sz: "result_size r < 2 ^ LENGTH(64)"
    using assms by (simp add: result_bounded_def)
  show ?thesis
    unfolding rev_rit_plus_def rev_rit_base_def result_rbegin_def result_rend_def rit_equal_def
      rev_rit_less_def
    using rows.reverse_visits [OF b(2)] rows.reverse_reaches_end [OF b sz]
      rows.reverse_end_never_after [OF b(1)] by blast
qed

theorem reverse_walk_witness:
  "m_Index (rev_rit_plus (result_rbegin (sample_result [[None], [None]] 1)) (of_nat 1)) = 0"
proof -
  have r: "result_bounded (sample_result [[None], [None]] 1)"
    "result_size (sample_result [[None], [None]] 1) = 2"
    by (simp_all add: result_bounded_def result_size_def result_columns_def sample_result_def
        make_result_object_def sample_rows_def)
  show ?thesis
    using conjunct1 [OF reverse_walk [OF r(1)], rule_format, of 1] r(2) by simp
qed

text \<open>
  The same for the columns of a row or slice: walking backwards visits its fields from
  the last to the first, and the comparison with \<^verbatim>\<open>rend()\<close> is never true when the row
  starts at the first column.
\<close>

theorem reverse_columns:
  assumes "m_Begin R = 0"
  shows "(\<forall>n < unat (m_End R).
       m_col (rev_cit_plus (row_rbegin R) (of_nat n)) = of_nat (unat (m_End R) - 1 - n)) \<and>
    (\<forall>i. \<not> rev_cit_less i (row_rend R))"
proof -
  have b: "m_col (row_begin R) = 0" "m_col (row_end R) = of_nat (unat (m_End R))"
    by (simp_all add: row_begin_def row_end_def make_field_def assms)
  show ?thesis
    unfolding rev_cit_plus_def row_rbegin_def row_rend_def rev_cit_less_def
    using columns.reverse_visits [OF b(2)] columns.reverse_end_never_after [OF b(1)] by blast
qed

theorem reverse_columns_witness:
  "m_col (rev_cit_plus (row_rbegin (make_row (sample_result [] 2) 0)) (of_nat 1)) = 0"
proof -
  have "result_columns (sample_result [] 2) = 2"
    by (simp add: result_columns_def sample_result_def make_result_object_def sample_rows_def)
  then show ?thesis
    using conjunct1 [OF reverse_columns [of "make_row (sample_result [] 2) 0"], rule_format, of 1]
    by simp
qed

lemma find_column_sound:
  "find_column r N xs = Inr (Some i) \<Longrightarrow> i \<in> set xs \<and> column_name r i = Inr N"
  by (induction xs) (auto split: sum.splits if_splits)

lemma empty_result_column_number: "\<exists>e. result_column_number empty_result c = Inl e"
  by (simp add: result_column_number_def empty_result_def)

text \<open>
  A column number found by name in a slice is a column of that slice, and the column
  carries the same name as the one libpq finds for the request in the whole result, even
  when that one lies before the slice.
\<close>

theorem slice_column_number:
  assumes "row_column_number R ColName = Inr n"
  shows "unat (m_Begin R) + n < unat (m_End R) \<and>
    (\<exists>k. result_column_number (m_Home R) ColName = Inr k \<and>
       (unat (m_Begin R) + n = k \<or>
        column_name (m_Home R) (unat (m_Begin R) + n) = column_name (m_Home R) k))"
proof -
  obtain e where none: "result_column_number empty_result ColName = Inl e"
    using empty_result_column_number by blast
  obtain k where k: "result_column_number (m_Home R) ColName = Inr k" and lt: "k < unat (m_End R)"
    using assms none by (auto simp: row_column_number_def split: sum.splits if_splits)
  show ?thesis
  proof (cases "k \<ge> unat (m_Begin R)")
    case True
    with assms k lt have "n = k - unat (m_Begin R)"
      by (simp add: row_column_number_def)
    with True k lt show ?thesis
      by simp
  next
    case False
    with assms k lt none obtain N i where N: "column_name (m_Home R) k = Inr N"
      and i: "find_column (m_Home R) N [unat (m_Begin R)..<unat (m_End R)] = Inr (Some i)"
      and n: "n = i - unat (m_Begin R)"
      by (auto simp: row_column_number_def split: sum.splits option.splits)
    from find_column_sound [OF i] n k N show ?thesis
      by auto
  qed
qed

theorem slice_column_number_witness:
  "let R = (make_row (sample_result [] 2) 0)\<lparr>m_Begin := 1\<rparr> in
   unat (m_Begin R) + 0 < unat (m_End R) \<and>
    (\<exists>k. result_column_number (m_Home R) ''c1'' = Inr k \<and>
       (unat (m_Begin R) + 0 = k \<or>
        column_name (m_Home R) (unat (m_Begin R) + 0) = column_name (m_Home R) k))"
  unfolding Let_def
  by (rule slice_column_number)
    (simp add: row_column_number_def result_column_number_def result_columns_def sample_result_def
      make_result_object_def sample_rows_def)

end
