(* ===== verification/Connection.thy ===== *)
theory Connection
  imports Libpq Row
begin

text \<open>
  The connection: \<^verbatim>\<open>src/connection_base.cxx\<close>, the connection policies of \<^verbatim>\<open>src/connection.cxx\<close>,
  error handlers and notification receivers. The state is the object's members plus the world
  behind libpq, a log of the notices given to error handlers and one of the notifications
  given to receivers. Every operation is a program over any state that extends it, so that the
  transaction classes, which hold a reference to their connection, run the same operations.
\<close>

section \<open>State\<close>

datatype policy = Connect_direct | Connect_lazy | Connect_async | Connect_null

datatype capability =
    cap_prepared_statements | cap_create_table_with_oids | cap_nested_transactions
  | cap_cursor_scroll | cap_cursor_with_hold | cap_cursor_update | cap_cursor_fetch_0
  | cap_read_only_transactions | cap_statement_varargs | cap_prepare_unnamed_statement
  | cap_parameterized_statements | cap_notify_payload | cap_table_column

record prepared_def =
  definition_text :: string
  registered :: bool

record 'w conn =
  world :: 'w
  m_policy :: policy
  m_options :: string
  m_connecting :: bool
  m_Conn :: handle
  m_Trans :: "namedclass option"
  m_errorhandlers :: "nat list"
  m_homed_handlers :: "nat list"
  m_receivers :: "(string \<times> nat) list"
  m_Vars :: "(string \<times> string) list"
  m_prepared :: "(string \<times> prepared_def) list"
  m_serverversion :: int
  m_reactivation_avoidance :: int
  m_unique_id :: int
  m_Completed :: bool
  m_inhibit_reactivation :: bool
  m_caps :: "capability list"
  m_verbosity :: int
  notices :: "(nat \<times> string) list"
  deliveries :: "(nat \<times> string \<times> int) list"

type_synonym ('w, 'z, 'a) cprog = "(('w, 'z) conn_scheme, 'a) cxx"

definition connection_base :: "'w \<Rightarrow> policy \<Rightarrow> string \<Rightarrow> 'w conn" where
  "connection_base w pol opts = \<lparr>world = w, m_policy = pol, m_options = opts, m_connecting = False,
     m_Conn = None, m_Trans = None, m_errorhandlers = [], m_homed_handlers = [], m_receivers = [],
     m_Vars = [], m_prepared = [], m_serverversion = 0, m_reactivation_avoidance = 0,
     m_unique_id = 0, m_Completed = False, m_inhibit_reactivation = False, m_caps = [],
     m_verbosity = 1, notices = [], deliveries = []\<rparr>"

text \<open>A call that acts on the world only.\<close>

definition wcall :: "('w \<Rightarrow> 'a \<times> 'w) \<Rightarrow> ('w, 'z, 'a) cprog" where
  "wcall f = call (\<lambda>s. (fst (f (world s)), s\<lparr>world := snd (f (world s))\<rparr>))"

definition wstep :: "('w \<Rightarrow> 'w) \<Rightarrow> ('w, 'z, unit) cprog" where
  "wstep f = modify (\<lambda>s. s\<lparr>world := f (world s)\<rparr>)"

section \<open>Notices\<close>

text \<open>Handlers are asked newest first, until one answers that the message is dealt with.\<close>

fun offer_notice :: "'w env \<Rightarrow> string \<Rightarrow> nat list \<Rightarrow> ('w, 'z, unit) cprog" where
  "offer_notice env msg [] = skip"
| "offer_notice env msg (h # hs) =
     seq (modify (\<lambda>s. s\<lparr>notices := notices s @ [(h, msg)]\<rparr>))
         (if on_notice env h msg then offer_notice env msg hs else skip)"

definition process_notice_raw :: "'w env \<Rightarrow> string \<Rightarrow> ('w, 'z, unit) cprog" where
  "process_notice_raw env msg =
     (if c_str msg = [] then skip
      else bnd (gets m_errorhandlers) (\<lambda>hs. offer_notice env (c_str msg) (rev hs)))"

definition process_notice :: "'w env \<Rightarrow> string \<Rightarrow> ('w, 'z, unit) cprog" where
  "process_notice env msg =
     (let m = c_str msg in
      if m = [] then skip
      else if last m = CHR 0x0A then process_notice_raw env m
      else process_notice_raw env (m @ nl))"

definition process_notice_string :: "'w env \<Rightarrow> string \<Rightarrow> ('w, 'z, unit) cprog" where
  "process_notice_string env msg =
     (if msg = [] then throw undefined_behaviour
      else if last msg = CHR 0x0A then process_notice_raw env msg
      else process_notice_raw env (msg @ nl))"

definition register_errorhandler :: "nat \<Rightarrow> ('w, 'z, unit) cprog" where
  "register_errorhandler h = modify (\<lambda>s. s\<lparr>m_errorhandlers := m_errorhandlers s @ [h]\<rparr>)"

definition unregister_errorhandler :: "nat \<Rightarrow> ('w, 'z, unit) cprog" where
  "unregister_errorhandler h = modify (\<lambda>s. s\<lparr>m_errorhandlers := removeAll h (m_errorhandlers s)\<rparr>)"

definition get_errorhandlers :: "('w, 'z, nat list) cprog" where
  "get_errorhandlers = gets m_errorhandlers"

definition errorhandler_new :: "nat \<Rightarrow> ('w, 'z, unit) cprog" where
  "errorhandler_new h =
     seq (modify (\<lambda>s. s\<lparr>m_homed_handlers := h # m_homed_handlers s\<rparr>)) (register_errorhandler h)"

definition errorhandler_unregister :: "nat \<Rightarrow> ('w, 'z, unit) cprog" where
  "errorhandler_unregister h =
     cond (\<lambda>s. h \<in> set (m_homed_handlers s))
       (seq (modify (\<lambda>s. s\<lparr>m_homed_handlers := removeAll h (m_homed_handlers s)\<rparr>))
            (unregister_errorhandler h))
       skip"

section \<open>Waiting\<close>

definition socket_of :: "'w env \<Rightarrow> handle \<Rightarrow> 'w \<Rightarrow> int" where
  "socket_of env c w = (if c \<noteq> None then PQsocket env c w else -1)"

definition wait_fd :: "'w env \<Rightarrow> int \<Rightarrow> bool \<Rightarrow> (int \<times> int) option \<Rightarrow> ('w, 'z, unit) cprog" where
  "wait_fd env fd forwrite tv =
     (if fd < 0 then throw broken_connection_default else wstep (poll_fd env fd forwrite tv))"

definition wait_read_handle ::
  "'w env \<Rightarrow> handle \<Rightarrow> (int \<times> int) option \<Rightarrow> ('w, 'z, unit) cprog" where
  "wait_read_handle env c tv =
     bnd (gets (\<lambda>s. socket_of env c (world s))) (\<lambda>fd. wait_fd env fd False tv)"

definition wait_write_handle :: "'w env \<Rightarrow> handle \<Rightarrow> ('w, 'z, unit) cprog" where
  "wait_write_handle env c =
     bnd (gets (\<lambda>s. socket_of env c (world s))) (\<lambda>fd. wait_fd env fd True None)"

section \<open>Connection policies\<close>

definition bad_alloc :: exn where
  "bad_alloc = plain Std_bad_alloc ''std::bad_alloc''"

definition normalconnect :: "'w env \<Rightarrow> handle \<Rightarrow> ('w, 'z, handle) cprog" where
  "normalconnect env orig =
     (if orig \<noteq> None then ret orig
      else bnd (gets m_options) (\<lambda>opts. bnd (wcall (PQconnectdb env opts)) (\<lambda>c.
        if c = None then throw bad_alloc
        else bnd (gets world) (\<lambda>w.
          if PQstatus env c w \<noteq> CONNECTION_OK then
            seq (wstep (PQfinish env c)) (throw (broken_connection (PQerrorMessage env c w)))
          else ret c))))"

definition do_dropconnect :: "'w env \<Rightarrow> handle \<Rightarrow> ('w, 'z, handle) cprog" where
  "do_dropconnect env orig = bnd (gets m_policy) (\<lambda>p.
     if p = Connect_async then seq (modify (\<lambda>s. s\<lparr>m_connecting := False\<rparr>)) (ret orig) else ret orig)"

definition do_disconnect :: "'w env \<Rightarrow> handle \<Rightarrow> ('w, 'z, handle) cprog" where
  "do_disconnect env orig = bnd (do_dropconnect env orig) (\<lambda>c.
     if c \<noteq> None then seq (wstep (PQfinish env c)) (ret None) else ret None)"

definition direct_startconnect :: "'w env \<Rightarrow> handle \<Rightarrow> ('w, 'z, handle) cprog" where
  "direct_startconnect env orig =
     (if orig \<noteq> None then ret orig
      else bnd (normalconnect env orig) (\<lambda>c. bnd (gets world) (\<lambda>w.
        if PQstatus env c w \<noteq> CONNECTION_OK then
          seq (bnd (do_disconnect env c) (\<lambda>_. skip)) (throw (broken_connection (PQerrorMessage env c w)))
        else ret c)))"

definition async_startconnect :: "'w env \<Rightarrow> handle \<Rightarrow> ('w, 'z, handle) cprog" where
  "async_startconnect env orig =
     (if orig \<noteq> None then ret orig
      else seq (modify (\<lambda>s. s\<lparr>m_connecting := False\<rparr>))
        (bnd (gets m_options) (\<lambda>opts. bnd (wcall (PQconnectStart env opts)) (\<lambda>c.
          if c = None then throw bad_alloc
          else bnd (gets world) (\<lambda>w.
            if PQstatus env c w = CONNECTION_BAD then
              seq (bnd (do_dropconnect env c) (\<lambda>_. skip)) (throw (broken_connection (PQerrorMessage env c w)))
            else seq (modify (\<lambda>s. s\<lparr>m_connecting := True\<rparr>)) (ret c))))))"

text \<open>
  The polling loop of the asynchronous policy, for at most \<open>n\<close> rounds. A failure of a
  connection attempt made by this very call reads the message of the handle it has just freed.
\<close>

fun poll_loop ::
  "'w env \<Rightarrow> bool \<Rightarrow> nat \<Rightarrow> handle \<Rightarrow> poll_status \<Rightarrow> ('w, 'z, handle) cprog" where
  "poll_loop env makenew 0 orig st = throw diverged"
| "poll_loop env makenew (Suc n) orig st =
     seq (case st of
            PGRES_POLLING_FAILED \<Rightarrow>
              if makenew then seq (bnd (do_disconnect env orig) (\<lambda>_. skip)) (throw undefined_behaviour)
              else bnd (gets world) (\<lambda>w. throw (broken_connection (PQerrorMessage env orig w)))
          | PGRES_POLLING_READING \<Rightarrow> wait_read_handle env orig None
          | PGRES_POLLING_WRITING \<Rightarrow> wait_write_handle env orig
          | PGRES_POLLING_OK \<Rightarrow> skip
          | PGRES_POLLING_ACTIVE \<Rightarrow> skip)
       (bnd (wcall (PQconnectPoll env orig)) (\<lambda>st'.
          if st' = PGRES_POLLING_OK then ret orig else poll_loop env makenew n orig st'))"

definition async_completeconnect :: "'w env \<Rightarrow> handle \<Rightarrow> ('w, 'z, handle) cprog" where
  "async_completeconnect env orig =
     (let makenew = (orig = None) in
      bnd (if makenew then async_startconnect env orig else ret orig) (\<lambda>c.
        bnd (gets m_connecting) (\<lambda>connecting.
          if \<not> connecting then ret c
          else seq (modify (\<lambda>s. s\<lparr>m_connecting := False\<rparr>))
                 (poll_loop env makenew (rounds env) c PGRES_POLLING_WRITING))))"

definition do_startconnect :: "'w env \<Rightarrow> handle \<Rightarrow> ('w, 'z, handle) cprog" where
  "do_startconnect env orig = bnd (gets m_policy) (\<lambda>p.
     case p of Connect_direct \<Rightarrow> direct_startconnect env orig
             | Connect_async \<Rightarrow> async_startconnect env orig
             | _ \<Rightarrow> ret orig)"

definition do_completeconnect :: "'w env \<Rightarrow> handle \<Rightarrow> ('w, 'z, handle) cprog" where
  "do_completeconnect env orig = bnd (gets m_policy) (\<lambda>p.
     case p of Connect_lazy \<Rightarrow> normalconnect env orig
             | Connect_async \<Rightarrow> async_completeconnect env orig
             | _ \<Rightarrow> ret orig)"

definition is_ready :: "('w, 'z) conn_scheme \<Rightarrow> handle \<Rightarrow> bool" where
  "is_ready s h \<longleftrightarrow> h \<noteq> None \<and> (m_policy s = Connect_async \<longrightarrow> \<not> m_connecting s)"

section \<open>Status and disconnection\<close>

text \<open>The assignment \<^verbatim>\<open>m_Conn = f(m_Conn)\<close>; it does not happen when \<open>f\<close> throws.\<close>

definition update_Conn :: "(handle \<Rightarrow> ('w, 'z, handle) cprog) \<Rightarrow> ('w, 'z, unit) cprog" where
  "update_Conn f = bnd (gets m_Conn) (\<lambda>c. bnd (f c) (\<lambda>c'. modify (\<lambda>s. s\<lparr>m_Conn := c'\<rparr>)))"

definition Status :: "'w env \<Rightarrow> ('w, 'z) conn_scheme \<Rightarrow> conn_status" where
  "Status env s = PQstatus env (m_Conn s) (world s)"

definition ErrMsg :: "'w env \<Rightarrow> ('w, 'z) conn_scheme \<Rightarrow> string" where
  "ErrMsg env s = (if m_Conn s \<noteq> None then PQerrorMessage env (m_Conn s) (world s)
                   else ''No connection to database'')"

definition is_open :: "'w env \<Rightarrow> ('w, 'z) conn_scheme \<Rightarrow> bool" where
  "is_open env s \<longleftrightarrow> m_Conn s \<noteq> None \<and> m_Completed s \<and> Status env s = CONNECTION_OK"

definition backendpid :: "'w env \<Rightarrow> ('w, 'z) conn_scheme \<Rightarrow> int" where
  "backendpid env s = (if m_Conn s \<noteq> None then PQbackendPID env (m_Conn s) (world s) else 0)"

definition sock :: "'w env \<Rightarrow> ('w, 'z) conn_scheme \<Rightarrow> int" where
  "sock env s = socket_of env (m_Conn s) (world s)"

definition protocol_version :: "'w env \<Rightarrow> ('w, 'z) conn_scheme \<Rightarrow> int" where
  "protocol_version env s =
     (if m_Conn s \<noteq> None then PQprotocolVersion env (m_Conn s) (world s) else 0)"

definition supports :: "capability \<Rightarrow> ('w, 'z) conn_scheme \<Rightarrow> bool" where
  "supports c s \<longleftrightarrow> c \<in> set (m_caps s)"

definition clearcaps :: "('w, 'z, unit) cprog" where
  "clearcaps = modify (\<lambda>s. s\<lparr>m_caps := []\<rparr>)"

definition disconnect :: "'w env \<Rightarrow> ('w, 'z, unit) cprog" where
  "disconnect env = seq clearcaps (update_Conn (do_disconnect env))"

definition inhibit_reactivation :: "bool \<Rightarrow> ('w, 'z, unit) cprog" where
  "inhibit_reactivation b = modify (\<lambda>s. s\<lparr>m_inhibit_reactivation := b\<rparr>)"

definition simulate_failure :: "'w env \<Rightarrow> ('w, 'z, unit) cprog" where
  "simulate_failure env =
     cond (\<lambda>s. m_Conn s \<noteq> None)
       (seq (update_Conn (do_disconnect env)) (inhibit_reactivation True)) skip"

definition deactivate :: "'w env \<Rightarrow> ('w, 'z, unit) cprog" where
  "deactivate env =
     cond (\<lambda>s. m_Conn s = None) skip
       (bnd (gets m_Trans) (\<lambda>t. case t of
          Some g \<Rightarrow> throw (usage_error (''Attempt to deactivate connection while '' @
                      description g @ '' still open''))
        | None \<Rightarrow>
            cond (\<lambda>s. m_reactivation_avoidance s \<noteq> 0)
              (process_notice env (''Attempt to deactivate connection while it is in a state '' @
                 ''that cannot be fully recovered later (ignoring)''))
              (seq (modify (\<lambda>s. s\<lparr>m_Completed := False\<rparr>)) (update_Conn (do_disconnect env)))))"

definition add_reactivation_avoidance_count :: "int \<Rightarrow> ('w, 'z, unit) cprog" where
  "add_reactivation_avoidance_count n =
     modify (\<lambda>s. s\<lparr>m_reactivation_avoidance := m_reactivation_avoidance s + n\<rparr>)"

definition set_verbosity :: "int \<Rightarrow> ('w, 'z, unit) cprog" where
  "set_verbosity v = modify (\<lambda>s. s\<lparr>m_verbosity := v\<rparr>)"

section \<open>Activation\<close>

definition read_capabilities :: "'w env \<Rightarrow> ('w, 'z, unit) cprog" where
  "read_capabilities env =
     seq (modify (\<lambda>s. s\<lparr>m_serverversion := PQserverVersion env (m_Conn s) (world s)\<rparr>))
     (seq (cond (\<lambda>s. m_serverversion s \<le> 90000)
             (throw (Exn Feature_not_supported ''Unsupported server version; 9.0 is the minimum.'' [] (-1)))
             skip)
     (seq (bnd (gets (protocol_version env)) (\<lambda>v.
             if v = 0 then throw broken_connection_default
             else if v = 1 \<or> v = 2 then throw (Exn Feature_not_supported
               ''Unsupported frontend/backend protocol version; 3.0 is the minimum.'' [] (-1))
             else skip))
          (modify (\<lambda>s. s\<lparr>m_caps :=
             [cap_prepared_statements, cap_statement_varargs, cap_prepare_unnamed_statement,
              cap_cursor_scroll, cap_cursor_with_hold, cap_cursor_fetch_0, cap_nested_transactions,
              cap_create_table_with_oids, cap_read_only_transactions, cap_notify_payload,
              cap_table_column, cap_parameterized_statements]\<rparr>))))"

text \<open>The statements that bring a fresh backend back to the state of the old one.\<close>

fun listen_commands :: "string \<Rightarrow> (string \<times> nat) list \<Rightarrow> string" where
  "listen_commands Last [] = []"
| "listen_commands Last ((c, T) # rs) =
     (if c \<noteq> Last then ''LISTEN '' @ dquoted c @ ''; '' @ listen_commands c rs
      else listen_commands Last rs)"

definition set_commands :: "(string \<times> string) list \<Rightarrow> string" where
  "set_commands vars = concat (map (\<lambda>(k, v). ''SET '' @ k @ ''='' @ v @ ''; '') vars)"

definition restore_query :: "('w, 'z) conn_scheme \<Rightarrow> string" where
  "restore_query s = listen_commands [] (m_receivers s) @ set_commands (m_Vars s)"

text \<open>
  A result object asks for the client encoding, which activates the connection; \<open>act\<close> is that
  activation. \<open>SetupState\<close> makes result objects and is part of \<open>activate\<close>: the recursion is
  followed to a depth given by \<open>activate_to\<close>.
\<close>

definition encoding_code :: "('w, 'z, unit) cprog \<Rightarrow> 'w env \<Rightarrow> ('w, 'z, int) cprog" where
  "encoding_code act env = bnd act (\<lambda>_. gets (\<lambda>s. PQclientEncoding env (m_Conn s) (world s)))"

definition make_result_with ::
  "('w, 'z, unit) cprog \<Rightarrow> 'w env \<Rightarrow> pgresult option \<Rightarrow> string \<Rightarrow> ('w, 'z, result) cprog" where
  "make_result_with act env rhs query =
     bnd (gets (protocol_version env)) (\<lambda>prot.
     bnd (encoding_code act env) (\<lambda>enc. ret (make_result_object rhs prot query enc)))"

fun drain_results ::
  "('w, 'z, unit) cprog \<Rightarrow> 'w env \<Rightarrow> nat \<Rightarrow> ('w, 'z, unit) cprog" where
  "drain_results act env 0 = throw diverged"
| "drain_results act env (Suc n) =
     bnd (bnd (gets m_Conn) (\<lambda>c. wcall (PQgetResult env c))) (\<lambda>p.
     bnd (make_result_with act env p ''[RECONNECT]'') (\<lambda>r.
       if result_bool r then drain_results act env n else skip))"

definition SetupState :: "('w, 'z, unit) cprog \<Rightarrow> 'w env \<Rightarrow> ('w, 'z, unit) cprog" where
  "SetupState act env =
     seq (cond (\<lambda>s. m_Conn s = None) (throw (internal_error ''SetupState() on no connection'')) skip)
     (seq (cond (\<lambda>s. Status env s \<noteq> CONNECTION_OK)
             (bnd (gets (ErrMsg env)) (\<lambda>Msg.
                seq (update_Conn (do_disconnect env)) (throw (failure Msg))))
             skip)
     (seq (read_capabilities env)
     (seq (modify (\<lambda>s. s\<lparr>m_prepared := map (\<lambda>(k, p). (k, p\<lparr>registered := False\<rparr>)) (m_prepared s)\<rparr>))
     (seq (cond (\<lambda>s. m_receivers s \<noteq> [] \<or> m_Vars s \<noteq> [])
             (bnd (gets restore_query) (\<lambda>q. bnd (gets m_Conn) (\<lambda>c.
                seq (bnd (wcall (PQsendQuery env c q)) (\<lambda>_. skip)) (drain_results act env (rounds env)))))
             skip)
     (seq (modify (\<lambda>s. s\<lparr>m_Completed := True\<rparr>))
          (cond (\<lambda>s. \<not> is_open env s) (throw broken_connection_default) skip))))))"

definition activate_with :: "('w, 'z, unit) cprog \<Rightarrow> 'w env \<Rightarrow> ('w, 'z, unit) cprog" where
  "activate_with act env =
     cond (is_open env) skip
      (cond m_inhibit_reactivation
         (throw (broken_connection
            (''Could not reactivate connection; '' @ ''reactivation is inhibited'')))
      (cond (\<lambda>s. m_reactivation_avoidance s \<noteq> 0) skip
        (catch
          (seq (update_Conn (do_startconnect env))
          (seq (update_Conn (do_completeconnect env))
          (seq (modify (\<lambda>s. s\<lparr>m_Completed := True\<rparr>))
          (seq (cond (\<lambda>s. \<not> is_open env s) (throw broken_connection_default) skip)
               (SetupState act env)))))
          (\<lambda>e. if caught_as Broken_connection e then
                 seq (disconnect env)
                 (seq (modify (\<lambda>s. s\<lparr>m_Completed := False\<rparr>)) (throw (broken_connection (what e))))
               else if caught_as Std_exception e then
                 seq (modify (\<lambda>s. s\<lparr>m_Completed := False\<rparr>)) (throw e)
               else throw e))))"

fun activate_to :: "nat \<Rightarrow> 'w env \<Rightarrow> ('w, 'z, unit) cprog" where
  "activate_to 0 env = throw diverged"
| "activate_to (Suc n) env = activate_with (activate_to n env) env"

definition activate :: "'w env \<Rightarrow> ('w, 'z, unit) cprog" where
  "activate env = activate_to (rounds env) env"

definition make_result :: "'w env \<Rightarrow> pgresult option \<Rightarrow> string \<Rightarrow> ('w, 'z, result) cprog" where
  "make_result env = make_result_with (activate env) env"

definition init :: "'w env \<Rightarrow> ('w, 'z, unit) cprog" where
  "init env = seq (update_Conn (do_startconnect env))
     (cond (\<lambda>s. is_ready s (m_Conn s)) (activate env) skip)"

definition Reset :: "'w env \<Rightarrow> ('w, 'z, unit) cprog" where
  "Reset env =
     cond m_inhibit_reactivation
       (throw (broken_connection (''Could not reset connection: '' @ ''reactivation is inhibited'')))
     (cond (\<lambda>s. m_reactivation_avoidance s \<noteq> 0) skip
       (seq (update_Conn (do_dropconnect env))
       (seq (modify (\<lambda>s. s\<lparr>m_Completed := False\<rparr>))
            (cond (\<lambda>s. m_Conn s \<noteq> None)
               (seq (bnd (gets m_Conn) (\<lambda>c. wstep (PQreset env c))) (SetupState (activate env) env))
               (activate env)))))"

section \<open>Queries\<close>

definition lift_exn :: "exn + 'a \<Rightarrow> ('w, 'z, 'a) cprog" where
  "lift_exn r = (case r of Inl e \<Rightarrow> throw e | Inr x \<Rightarrow> ret x)"

definition check_result :: "'w env \<Rightarrow> result \<Rightarrow> ('w, 'z, unit) cprog" where
  "check_result env R =
     seq (cond (\<lambda>s. \<not> is_open env s) (throw broken_connection_default) skip)
     (seq (if result_bool R then skip else bnd (gets (ErrMsg env)) (\<lambda>m. throw (failure m)))
          (lift_exn (CheckStatus R)))"

definition consume_input :: "'w env \<Rightarrow> ('w, 'z, bool) cprog" where
  "consume_input env = bnd (gets m_Conn) (\<lambda>c. wcall (PQconsumeInput env c))"

definition is_busy :: "'w env \<Rightarrow> ('w, 'z) conn_scheme \<Rightarrow> bool" where
  "is_busy env s = PQisBusy env (m_Conn s) (world s)"

text \<open>One notification is offered to every receiver on its channel.\<close>

fun call_receivers :: "'w env \<Rightarrow> notify \<Rightarrow> nat list \<Rightarrow> ('w, 'z, unit) cprog" where
  "call_receivers env N [] = skip"
| "call_receivers env N (T # Ts) =
     seq (modify (\<lambda>s. s\<lparr>deliveries := deliveries s @ [(T, extra N, be_pid N)]\<rparr>))
     (seq (case on_notification env T (extra N) (be_pid N) of
             None \<Rightarrow> skip
           | Some e \<Rightarrow>
               if caught_as Std_exception e then
                 process_notice_string env (''Exception in notification receiver '' @
                   quoted (relname N) @ '': '' @ what e @ nl)
               else throw e)
          (call_receivers env N Ts))"

fun deliver_notifs :: "'w env \<Rightarrow> nat \<Rightarrow> int \<Rightarrow> ('w, 'z, int) cprog" where
  "deliver_notifs env 0 k = throw diverged"
| "deliver_notifs env (Suc n) k =
     bnd (bnd (gets m_Conn) (\<lambda>c. wcall (PQnotifies env c))) (\<lambda>N.
       case N of
         None \<Rightarrow> ret k
       | Some N \<Rightarrow>
           seq (bnd (gets (\<lambda>s. mmap_range (relname N) (m_receivers s))) (call_receivers env N))
               (deliver_notifs env n (k + 1)))"

definition get_notifs :: "'w env \<Rightarrow> ('w, 'z, int) cprog" where
  "get_notifs env =
     cond (\<lambda>s. \<not> is_open env s) (ret 0)
      (bnd (consume_input env) (\<lambda>ok.
        if \<not> ok then throw broken_connection_default
        else cond (\<lambda>s. m_Trans s \<noteq> None) (ret 0) (deliver_notifs env (rounds env) 0)))"

text \<open>The retry loop of \<open>Exec\<close>, on the result of the first attempt.\<close>

fun exec_retry :: "'w env \<Rightarrow> string \<Rightarrow> nat \<Rightarrow> result \<Rightarrow> ('w, 'z, result) cprog" where
  "exec_retry env Query 0 R = ret R"
| "exec_retry env Query (Suc n) R =
     cond (\<lambda>s. \<not> result_bool R \<and> \<not> is_open env s)
       (seq (Reset env)
            (cond (is_open env)
               (bnd (bnd (gets m_Conn) (\<lambda>c. wcall (PQexec env c Query))) (\<lambda>p.
                bnd (make_result env p Query) (exec_retry env Query n)))
               (exec_retry env Query n R)))
       (ret R)"

definition run_query :: "'w env \<Rightarrow> string \<Rightarrow> ('w, 'z, result) cprog" where
  "run_query env Query =
     bnd (bnd (gets m_Conn) (\<lambda>c. wcall (PQexec env c Query))) (\<lambda>p. make_result env p Query)"

definition Exec :: "'w env \<Rightarrow> string \<Rightarrow> int \<Rightarrow> ('w, 'z, result) cprog" where
  "Exec env Query Retries =
     seq (activate env)
       (bnd (bnd (run_query env Query) (exec_retry env Query (nat Retries))) (\<lambda>R.
         seq (check_result env R) (bnd (get_notifs env) (\<lambda>_. ret R))))"

section \<open>Variables, receivers, prepared statements\<close>

definition RawSetVar :: "'w env \<Rightarrow> string \<Rightarrow> string \<Rightarrow> ('w, 'z, unit) cprog" where
  "RawSetVar env Var Value =
     bnd (Exec env (''SET '' @ Var @ ''='' @ Value) 0) (\<lambda>_. skip)"

text \<open>The first field of the first row, read as a string with the empty string for null.\<close>

definition first_cell :: "result \<Rightarrow> exn + string" where
  "first_cell R =
     (case result_at R 0 of
        Inl e \<Rightarrow> Inl e
      | Inr r \<Rightarrow>
          (case row_at r 0 of
             Inl e \<Rightarrow> Inl e
           | Inr f \<Rightarrow> Inr (case field_to_string f of None \<Rightarrow> [] | Some v \<Rightarrow> v)))"

definition RawGetVar :: "'w env \<Rightarrow> string \<Rightarrow> ('w, 'z, string) cprog" where
  "RawGetVar env Var =
     bnd (gets (\<lambda>s. omap_get Var (m_Vars s))) (\<lambda>v.
       case v of
         Some x \<Rightarrow> ret x
       | None \<Rightarrow> bnd (Exec env (''SHOW '' @ Var) 0) (\<lambda>R. lift_exn (first_cell R)))"

definition AddVariables :: "(string \<times> string) list \<Rightarrow> ('w, 'z, unit) cprog" where
  "AddVariables Vars =
     modify (\<lambda>s. s\<lparr>m_Vars := fold (\<lambda>(k, v). omap_put string_less k v) Vars (m_Vars s)\<rparr>)"

text \<open>\<open>set_variable\<close> and \<open>get_variable\<close> outside a transaction.\<close>

definition session_set_variable :: "'w env \<Rightarrow> string \<Rightarrow> string \<Rightarrow> ('w, 'z, unit) cprog" where
  "session_set_variable env Var Value =
     seq (cond (is_open env) (RawSetVar env Var Value) skip)
         (modify (\<lambda>s. s\<lparr>m_Vars := omap_put string_less Var Value (m_Vars s)\<rparr>))"

text \<open>A receiver is an address and the channel it listens on.\<close>

definition add_receiver :: "'w env \<Rightarrow> string \<Rightarrow> nat option \<Rightarrow> ('w, 'z, unit) cprog" where
  "add_receiver env channel T =
     (case T of
        None \<Rightarrow> throw (argument_error ''Null receiver registered'')
      | Some a \<Rightarrow>
          seq (cond (\<lambda>s. mmap_range channel (m_receivers s) = [])
                 (let LQ = ''LISTEN '' @ dquoted channel in
                  cond (is_open env)
                    (catch_class Broken_connection
                       (bnd (run_query env LQ) (check_result env))
                       (\<lambda>_. skip))
                    skip)
                 skip)
              (modify (\<lambda>s. s\<lparr>m_receivers := mmap_insert channel a (m_receivers s)\<rparr>)))"

definition remove_receiver :: "'w env \<Rightarrow> string \<Rightarrow> nat option \<Rightarrow> ('w, 'z, unit) cprog" where
  "remove_receiver env channel T =
     (case T of
        None \<Rightarrow> skip
      | Some a \<Rightarrow>
          catch_std
            (bnd (gets (\<lambda>s. mmap_range channel (m_receivers s))) (\<lambda>R.
               if a \<notin> set R then
                 process_notice_string env (''Attempt to remove unknown receiver '' @ quoted channel)
               else bnd (gets (\<lambda>s. m_Conn s \<noteq> None \<and> length R = 1)) (\<lambda>gone.
                 seq (modify (\<lambda>s. s\<lparr>m_receivers := mmap_erase channel a (m_receivers s)\<rparr>))
                     (if gone then bnd (Exec env (''UNLISTEN '' @ dquoted channel) 0) (\<lambda>_. skip)
                      else skip))))
            (\<lambda>e. process_notice env (what e)))"

definition prepare :: "string \<Rightarrow> string \<Rightarrow> ('w, 'z, unit) cprog" where
  "prepare nm text =
     bnd (gets (\<lambda>s. omap_get nm (m_prepared s))) (\<lambda>i.
       case i of
         Some p \<Rightarrow>
           if text \<noteq> definition_text p then
             if nm \<noteq> [] then throw (argument_error
               (''Inconsistent redefinition of prepared statement '' @ nm))
             else modify (\<lambda>s. s\<lparr>m_prepared := omap_put string_less nm
                    \<lparr>definition_text = text, registered = False\<rparr> (m_prepared s)\<rparr>)
           else skip
       | None \<Rightarrow> modify (\<lambda>s. s\<lparr>m_prepared := omap_put string_less nm
                   \<lparr>definition_text = text, registered = False\<rparr> (m_prepared s)\<rparr>))"

definition unprepare :: "'w env \<Rightarrow> string \<Rightarrow> ('w, 'z, unit) cprog" where
  "unprepare env nm =
     bnd (gets (\<lambda>s. omap_get nm (m_prepared s))) (\<lambda>i.
       case i of
         None \<Rightarrow> skip
       | Some p \<Rightarrow>
           seq (if registered p then bnd (Exec env (''DEALLOCATE '' @ dquoted nm) 0) (\<lambda>_. skip)
                else skip)
               (modify (\<lambda>s. s\<lparr>m_prepared := omap_erase nm (m_prepared s)\<rparr>)))"

definition find_prepared :: "string \<Rightarrow> ('w, 'z, prepared_def) cprog" where
  "find_prepared statement =
     bnd (gets (\<lambda>s. omap_get statement (m_prepared s))) (\<lambda>i.
       case i of
         None \<Rightarrow> throw (argument_error (''Unknown prepared statement '' @ quoted statement))
       | Some p \<Rightarrow> ret p)"

definition register_prepared :: "'w env \<Rightarrow> string \<Rightarrow> ('w, 'z, unit) cprog" where
  "register_prepared env nm =
     seq (activate env)
     (seq (cond (\<lambda>s. protocol_version env s < 3)
             (throw (Exn Feature_not_supported
               ''Prepared statements in libpqxx require a newer server version.'' [] (-1)))
             skip)
     (bnd (find_prepared nm) (\<lambda>p.
        if registered p then skip
        else
          bnd (bnd (gets m_Conn) (\<lambda>c. wcall (PQprepare env c nm (definition_text p)))) (\<lambda>q.
          bnd (make_result env q (''[PREPARE '' @ nm @ '']'')) (\<lambda>r.
          seq (check_result env r)
            (modify (\<lambda>s. s\<lparr>m_prepared := omap_put string_less nm
               (p\<lparr>registered := nm \<noteq> []\<rparr>) (m_prepared s)\<rparr>)))))))"

definition prepared_exec :: "'w env \<Rightarrow> string \<Rightarrow> nat \<Rightarrow> params \<Rightarrow> ('w, 'z, result) cprog" where
  "prepared_exec env statement nparams ps =
     seq (register_prepared env statement)
     (seq (activate env)
       (bnd (bnd (gets m_Conn) (\<lambda>c. wcall (PQexecPrepared env c statement nparams ps))) (\<lambda>q.
        bnd (make_result env q statement) (\<lambda>r.
        seq (check_result env r) (bnd (get_notifs env) (\<lambda>_. ret r))))))"

definition prepared_exists :: "string \<Rightarrow> ('w, 'z) conn_scheme \<Rightarrow> bool" where
  "prepared_exists statement s \<longleftrightarrow> omap_get statement (m_prepared s) \<noteq> None"

definition parameterized_exec :: "'w env \<Rightarrow> string \<Rightarrow> nat \<Rightarrow> params \<Rightarrow> ('w, 'z, result) cprog" where
  "parameterized_exec env query nparams ps =
     bnd (bnd (gets m_Conn) (\<lambda>c. wcall (PQexecParams env c query nparams ps))) (\<lambda>q.
     bnd (make_result env q query) (\<lambda>r.
     seq (check_result env r) (bnd (get_notifs env) (\<lambda>_. ret r))))"

section \<open>Transactions, copying, pipelining\<close>

definition RegisterTransaction :: "namedclass \<Rightarrow> ('w, 'z, unit) cprog" where
  "RegisterTransaction T =
     bnd (gets m_Trans) (\<lambda>g. bnd (lift_exn (unique_Register (Some T) g)) (\<lambda>g'.
       modify (\<lambda>s. s\<lparr>m_Trans := g'\<rparr>)))"

definition UnregisterTransaction :: "'w env \<Rightarrow> namedclass \<Rightarrow> ('w, 'z, unit) cprog" where
  "UnregisterTransaction env T =
     catch_std
       (bnd (gets m_Trans) (\<lambda>g. bnd (lift_exn (unique_Unregister (Some T) g)) (\<lambda>g'.
          modify (\<lambda>s. s\<lparr>m_Trans := g'\<rparr>))))
       (\<lambda>e. process_notice env (what e))"

fun drain_checked :: "'w env \<Rightarrow> nat \<Rightarrow> ('w, 'z, unit) cprog" where
  "drain_checked env 0 = throw diverged"
| "drain_checked env (Suc n) =
     bnd (bnd (gets m_Conn) (\<lambda>c. wcall (PQgetResult env c))) (\<lambda>p.
     bnd (make_result env p ''[END COPY]'') (\<lambda>R.
       if result_bool R then seq (check_result env R) (drain_checked env n) else skip))"

text \<open>The line read, or nothing at the end of the table.\<close>

definition ReadCopyLine :: "'w env \<Rightarrow> ('w, 'z, string option) cprog" where
  "ReadCopyLine env =
     cond (\<lambda>s. \<not> is_open env s) (throw (internal_error ''ReadCopyLine() without connection''))
      (bnd (bnd (gets m_Conn) (\<lambda>c. wcall (PQgetCopyData env c))) (\<lambda>(code, Buf).
        if code = -2 then bnd (gets (ErrMsg env)) (\<lambda>m.
          throw (failure (''Reading of table data failed: '' @ m)))
        else if code = -1 then seq (drain_checked env (rounds env)) (ret None)
        else if code = 0 then throw (internal_error ''table read inexplicably went asynchronous'')
        else ret (Some (case Buf of None \<Rightarrow> [] | Some b \<Rightarrow> b))))"

definition WriteCopyLine :: "'w env \<Rightarrow> string \<Rightarrow> ('w, 'z, unit) cprog" where
  "WriteCopyLine env Line =
     cond (\<lambda>s. \<not> is_open env s) (throw (internal_error ''WriteCopyLine() without connection''))
      (bnd (bnd (gets m_Conn) (\<lambda>c. wcall (PQputCopyData env c (Line @ nl)))) (\<lambda>code.
        if code \<le> 0 then bnd (gets (ErrMsg env)) (\<lambda>m.
          seq (bnd (gets m_Conn) (\<lambda>c. wstep (PQendcopy env c)))
              (throw (failure (''Error writing to table: '' @ m))))
        else skip))"

definition EndCopyWrite :: "'w env \<Rightarrow> ('w, 'z, unit) cprog" where
  "EndCopyWrite env =
     bnd (bnd (gets m_Conn) (\<lambda>c. wcall (PQputCopyEnd env c))) (\<lambda>Res.
       if Res = -1 then bnd (gets (ErrMsg env)) (\<lambda>m. throw (failure (''Write to table failed: '' @ m)))
       else if Res = 0 then throw (internal_error ''table write is inexplicably asynchronous'')
       else if Res = 1 then
         bnd (bnd (gets m_Conn) (\<lambda>c. wcall (PQgetResult env c))) (\<lambda>p.
         bnd (make_result env p ''[END COPY]'') (check_result env))
       else throw (internal_error (''unexpected result '' @ to_string_int Res @ '' '' @
              ''from PQputCopyEnd()'')))"

definition start_exec :: "'w env \<Rightarrow> string \<Rightarrow> ('w, 'z, unit) cprog" where
  "start_exec env Q =
     seq (activate env)
       (bnd (bnd (gets m_Conn) (\<lambda>c. wcall (PQsendQuery env c Q))) (\<lambda>ok.
          if ok then skip else bnd (gets (ErrMsg env)) (\<lambda>m. throw (failure m))))"

definition get_result :: "'w env \<Rightarrow> ('w, 'z, pgresult option) cprog" where
  "get_result env =
     cond (\<lambda>s. m_Conn s = None) (throw broken_connection_default)
       (bnd (gets m_Conn) (\<lambda>c. wcall (PQgetResult env c)))"

text \<open>\<open>cancel_query\<close>: \<open>PQcancel\<close> answers with a message when it fails.\<close>

definition cancel_query :: "'w env \<Rightarrow> ('w, 'z, unit) cprog" where
  "cancel_query env =
     bnd (gets m_Conn) (\<lambda>c.
       if c = None then skip
       else cond (\<lambda>s. \<not> PQgetCancel env c (world s)) (throw bad_alloc)
         (bnd (wcall (PQcancel env c)) (\<lambda>r.
         case r of None \<Rightarrow> skip | Some msg \<Rightarrow> throw (sql_error msg []))))"

definition close_connection :: "'w env \<Rightarrow> ('w, 'z, unit) cprog" where
  "close_connection env =
     seq (modify (\<lambda>s. s\<lparr>m_Completed := False\<rparr>))
     (seq (inhibit_reactivation False)
     (seq (modify (\<lambda>s. s\<lparr>m_reactivation_avoidance := 0\<rparr>))
       (catch_all
         (seq (bnd (gets m_Trans) (\<lambda>t. case t of
                 None \<Rightarrow> skip
               | Some g \<Rightarrow> process_notice_string env
                   (''Closing connection while '' @ description g @ '' still open'')))
         (seq (cond (\<lambda>s. m_receivers s \<noteq> [])
                (seq (process_notice env ''Closing connection with outstanding receivers.'')
                     (modify (\<lambda>s. s\<lparr>m_receivers := []\<rparr>)))
                skip)
         (seq (bnd (gets m_errorhandlers) (\<lambda>old.
                 seq (modify (\<lambda>s. s\<lparr>m_errorhandlers := []\<rparr>))
                     (for_each (rev old) errorhandler_unregister)))
              (update_Conn (do_disconnect env)))))
         (\<lambda>e. skip))))"

definition adorn_name :: "string \<Rightarrow> ('w, 'z, string) cprog" where
  "adorn_name n =
     seq (modify (\<lambda>s. s\<lparr>m_unique_id := m_unique_id s + 1\<rparr>))
       (bnd (gets m_unique_id) (\<lambda>i. let ident = to_string_int i in
          ret (if n = [] then CHR ''x'' # ident else n @ ''_'' @ ident)))"

text \<open>Facts about the database that is, or would be, connected to.\<close>

definition ask_handle :: "'w env \<Rightarrow> (handle \<Rightarrow> 'w \<Rightarrow> string) \<Rightarrow> ('w, 'z, string) cprog" where
  "ask_handle env f =
     seq (cond (\<lambda>s. m_Conn s = None) (activate env) skip) (gets (\<lambda>s. f (m_Conn s) (world s)))"

definition dbname :: "'w env \<Rightarrow> ('w, 'z, string) cprog" where
  "dbname env = ask_handle env (PQdb env)"

definition username :: "'w env \<Rightarrow> ('w, 'z, string) cprog" where
  "username env = ask_handle env (PQuser env)"

definition hostname :: "'w env \<Rightarrow> ('w, 'z, string) cprog" where
  "hostname env = ask_handle env (PQhost env)"

definition port :: "'w env \<Rightarrow> ('w, 'z, string) cprog" where
  "port env = ask_handle env (PQport env)"

section \<open>Escaping and quoting\<close>

definition esc :: "'w env \<Rightarrow> string \<Rightarrow> ('w, 'z, string) cprog" where
  "esc env str =
     seq (cond (\<lambda>s. m_Conn s = None) (activate env) skip)
       (bnd (gets (\<lambda>s. PQescapeStringConn env (m_Conn s) str (world s))) (\<lambda>(buf, err).
          if err then bnd (gets (ErrMsg env)) (\<lambda>m. throw (argument_error m)) else ret (c_str buf)))"

definition esc_raw :: "'w env \<Rightarrow> string \<Rightarrow> ('w, 'z, string) cprog" where
  "esc_raw env str =
     seq (activate env)
       (bnd (gets (\<lambda>s. PQescapeByteaConn env (m_Conn s) str (world s))) (\<lambda>buf.
          case buf of None \<Rightarrow> throw bad_alloc | Some b \<Rightarrow> ret (c_str b)))"

definition quote_raw :: "'w env \<Rightarrow> string \<Rightarrow> ('w, 'z, string) cprog" where
  "quote_raw env str = bnd (esc_raw env str) (\<lambda>b. ret (quoted b @ ''::bytea''))"

definition quote_name :: "'w env \<Rightarrow> string \<Rightarrow> ('w, 'z, string) cprog" where
  "quote_name env identifier =
     seq (activate env)
       (bnd (gets (\<lambda>s. PQescapeIdentifier env (m_Conn s) identifier (world s))) (\<lambda>buf.
          case buf of
            None \<Rightarrow> bnd (gets (ErrMsg env)) (\<lambda>m. throw (failure m))
          | Some b \<Rightarrow> ret (c_str b)))"

definition quote :: "'w env \<Rightarrow> string option \<Rightarrow> ('w, 'z, string) cprog" where
  "quote env t = (case t of
     None \<Rightarrow> ret ''NULL''
   | Some v \<Rightarrow> bnd (esc env v) (\<lambda>e. ret (quoted e)))"

section \<open>Waiting for notifications; exemption from reactivation avoidance\<close>

definition await_notification :: "'w env \<Rightarrow> (int \<times> int) option \<Rightarrow> ('w, 'z, int) cprog" where
  "await_notification env timeout =
     seq (activate env)
       (bnd (get_notifs env) (\<lambda>notifs.
          if notifs = 0 then
            seq (bnd (gets m_Conn) (\<lambda>c. wait_read_handle env c timeout)) (get_notifs env)
          else ret notifs))"

record exemption =
  m_count :: int
  m_open :: bool

definition exemption_new :: "'w env \<Rightarrow> ('w, 'z, exemption) cprog" where
  "exemption_new env =
     bnd (gets (\<lambda>s. \<lparr>m_count = m_reactivation_avoidance s, m_open = is_open env s\<rparr>)) (\<lambda>x.
       seq (modify (\<lambda>s. s\<lparr>m_reactivation_avoidance := 0\<rparr>)) (ret x))"

definition exemption_close_connection :: "exemption \<Rightarrow> exemption" where
  "exemption_close_connection x = x\<lparr>m_open := False\<rparr>"

definition exemption_delete :: "'w env \<Rightarrow> exemption \<Rightarrow> ('w, 'z, unit) cprog" where
  "exemption_delete env x =
     seq (if m_count x \<noteq> 0 \<and> \<not> m_open x then deactivate env else skip)
         (add_reactivation_avoidance_count (m_count x))"

end
