(* ===== verification/Connection_Facts.thy ===== *)
theory Connection_Facts
  imports Connection
begin

text \<open>
  What the operations of a connection promise to the classes built on it. The lemmas named
  \<open>calm\<close> say, for every operation but the registration of transactions, that it leaves alone
  the registered transaction and the state of the objects built on the connection, and that
  it delivers no notification while a transaction is registered.
\<close>

section \<open>Operations leave their clients alone\<close>

definition calm ::
  "namedclass option \<Rightarrow> 'z \<Rightarrow> (nat \<times> string \<times> int) list \<Rightarrow> ('w, 'z) conn_scheme \<Rightarrow> bool" where
  "calm g x d s \<longleftrightarrow> m_Trans s = g \<and> conn.more s = x \<and> (g \<noteq> None \<longrightarrow> deliveries s = d)"

lemma calm_wcall [keeps_intros]: "keeps (calm g x d) (wcall f)"
  unfolding wcall_def by (intro keeps_call) (simp add: calm_def)

lemma calm_wstep [keeps_intros]: "keeps (calm g x d) (wstep f)"
  unfolding wstep_def by (intro keeps_intros) (simp add: calm_def)

lemma calm_offer_notice [keeps_intros]: "keeps (calm g x d) (offer_notice env msg hs)"
  by (induction hs) (auto intro!: keeps_intros simp: calm_def [abs_def])

lemma calm_process_notice_raw [keeps_intros]: "keeps (calm g x d) (process_notice_raw env msg)"
  unfolding process_notice_raw_def by (intro keeps_intros)

lemma calm_process_notice [keeps_intros]: "keeps (calm g x d) (process_notice env msg)"
  unfolding process_notice_def by (intro keeps_intros)

lemma calm_process_notice_string [keeps_intros]:
  "keeps (calm g x d) (process_notice_string env msg)"
  unfolding process_notice_string_def by (intro keeps_intros)

lemma calm_wait [keeps_intros]:
  "keeps (calm g x d) (wait_fd env fd wr tv)" "keeps (calm g x d) (wait_read_handle env c tv)"
  "keeps (calm g x d) (wait_write_handle env c)"
  unfolding wait_read_handle_def wait_write_handle_def wait_fd_def by (intro keeps_intros)+

lemma calm_normalconnect [keeps_intros]: "keeps (calm g x d) (normalconnect env c)"
  unfolding normalconnect_def by (intro keeps_intros)

lemma calm_do_dropconnect [keeps_intros]: "keeps (calm g x d) (do_dropconnect env c)"
  unfolding do_dropconnect_def by (intro keeps_intros) (simp add: calm_def)

lemma calm_do_disconnect [keeps_intros]: "keeps (calm g x d) (do_disconnect env c)"
  unfolding do_disconnect_def by (intro keeps_intros)

lemma calm_direct [keeps_intros]: "keeps (calm g x d) (direct_startconnect env c)"
  unfolding direct_startconnect_def by (intro keeps_intros)

lemma calm_async_start [keeps_intros]: "keeps (calm g x d) (async_startconnect env c)"
  unfolding async_startconnect_def by (intro keeps_intros) (simp_all add: calm_def)

lemma calm_poll_loop [keeps_intros]: "keeps (calm g x d) (poll_loop env mk n c st)"
proof (induction n arbitrary: st)
  case (Suc n)
  show ?case
    by (cases st; simp split del: if_split; intro keeps_intros Suc)
qed (simp add: keeps_throw)

lemma calm_async_complete [keeps_intros]: "keeps (calm g x d) (async_completeconnect env c)"
  unfolding async_completeconnect_def by (intro keeps_intros) (simp add: calm_def)

lemma calm_do_startconnect [keeps_intros]: "keeps (calm g x d) (do_startconnect env c)"
proof -
  have "keeps (calm g x d) (case p of Connect_direct \<Rightarrow> direct_startconnect env c
             | Connect_async \<Rightarrow> async_startconnect env c | _ \<Rightarrow> ret c)" for p
    by (cases p) (simp_all add: keeps_ret calm_direct calm_async_start)
  then show ?thesis
    unfolding do_startconnect_def by (intro keeps_intros)
qed

lemma calm_do_completeconnect [keeps_intros]: "keeps (calm g x d) (do_completeconnect env c)"
proof -
  have "keeps (calm g x d) (case p of Connect_lazy \<Rightarrow> normalconnect env c
             | Connect_async \<Rightarrow> async_completeconnect env c | _ \<Rightarrow> ret c)" for p
    by (cases p) (simp_all add: keeps_ret calm_normalconnect calm_async_complete)
  then show ?thesis
    unfolding do_completeconnect_def by (intro keeps_intros)
qed

lemma calm_update_Conn [keeps_intros]:
  "(\<And>c. keeps (calm g x d) (f c)) \<Longrightarrow> keeps (calm g x d) (update_Conn f)"
  unfolding update_Conn_def by (intro keeps_intros) (auto simp: calm_def)

lemma calm_disconnect [keeps_intros]: "keeps (calm g x d) (disconnect env)"
  unfolding disconnect_def clearcaps_def by (intro keeps_intros) (simp add: calm_def)

lemma calm_inhibit [keeps_intros]: "keeps (calm g x d) (inhibit_reactivation b)"
  unfolding inhibit_reactivation_def by (intro keeps_intros) (simp add: calm_def)

lemma calm_add_count [keeps_intros]: "keeps (calm g x d) (add_reactivation_avoidance_count n)"
  unfolding add_reactivation_avoidance_count_def by (intro keeps_intros) (simp add: calm_def)

lemma calm_deactivate [keeps_intros]: "keeps (calm g x d) (deactivate env)"
  unfolding deactivate_def by (intro keeps_intros) (simp add: calm_def)

lemma calm_read_capabilities [keeps_intros]: "keeps (calm g x d) (read_capabilities env)"
  unfolding read_capabilities_def by (intro keeps_intros) (simp_all add: calm_def)

lemma calm_make_result_with [keeps_intros]:
  "keeps (calm g x d) act \<Longrightarrow> keeps (calm g x d) (make_result_with act env p q)"
  unfolding make_result_with_def encoding_code_def by (intro keeps_intros)

lemma calm_drain_results [keeps_intros]:
  "keeps (calm g x d) act \<Longrightarrow> keeps (calm g x d) (drain_results act env n)"
  by (induction n) (simp_all, (intro keeps_intros | assumption)+)

lemma calm_SetupState [keeps_intros]:
  "keeps (calm g x d) act \<Longrightarrow> keeps (calm g x d) (SetupState act env)"
  unfolding SetupState_def by (intro keeps_intros) (simp_all add: calm_def)

lemma calm_activate_with [keeps_intros]:
  "keeps (calm g x d) act \<Longrightarrow> keeps (calm g x d) (activate_with act env)"
  unfolding activate_with_def by (intro keeps_intros) (simp_all add: calm_def)

lemma calm_activate_to [keeps_intros]: "keeps (calm g x d) (activate_to n env)"
  by (induction n) (simp_all add: keeps_throw calm_activate_with)

lemma calm_activate [keeps_intros]: "keeps (calm g x d) (activate env)"
  unfolding activate_def by (intro keeps_intros)

lemma calm_make_result [keeps_intros]: "keeps (calm g x d) (make_result env p q)"
  unfolding make_result_def by (intro keeps_intros)

lemma calm_Reset [keeps_intros]: "keeps (calm g x d) (Reset env)"
  unfolding Reset_def by (intro keeps_intros) (simp add: calm_def)

lemma calm_lift_exn [keeps_intros]: "keeps (calm g x d) (lift_exn r)"
  unfolding lift_exn_def by (intro keeps_intros)

lemma calm_check_result [keeps_intros]: "keeps (calm g x d) (check_result env R)"
  unfolding check_result_def by (intro keeps_intros)

lemma calm_consume_input [keeps_intros]: "keeps (calm g x d) (consume_input env)"
  unfolding consume_input_def by (intro keeps_intros)


lemma calm_call_receivers: "keeps (calm None x d) (call_receivers env N Ts)"
proof (induction Ts)
  case (Cons T Ts)
  show ?case
    unfolding call_receivers.simps by (intro keeps_intros Cons.IH) (simp add: calm_def)
qed (simp add: keeps_skip)

lemma calm_deliver_notifs: "keeps (calm None x d) (deliver_notifs env n k)"
proof (induction n arbitrary: k)
  case (Suc n)
  show ?case
    unfolding deliver_notifs.simps by (intro keeps_intros calm_call_receivers Suc.IH)
qed (simp add: keeps_throw)

lemma calm_get_notifs [keeps_intros]: "keeps (calm g x d) (get_notifs env)"
proof (cases g)
  case None
  then show ?thesis
    unfolding get_notifs_def by (auto intro!: keeps_intros calm_deliver_notifs)
next
  case (Some h)
  have "keeps (calm g x d) (cond (\<lambda>s. m_Trans s \<noteq> None) (ret 0) m)" for m :: "('a, 'b, int) cprog"
    using Some by (auto simp: keeps_def cond_def ret_def calm_def)
  note guard = this
  show ?thesis
    unfolding get_notifs_def
    by (rule guard keeps_cond keeps_ret keeps_bnd calm_consume_input keeps_if keeps_throw)+
qed

lemma calm_run_query [keeps_intros]: "keeps (calm g x d) (run_query env Q)"
  unfolding run_query_def by (intro keeps_intros)

lemma calm_exec_retry [keeps_intros]: "keeps (calm g x d) (exec_retry env Q n R)"
  by (induction n arbitrary: R) (simp_all, (intro keeps_intros | assumption)+)

lemma calm_Exec [keeps_intros]: "keeps (calm g x d) (Exec env Q n)"
  unfolding Exec_def by (intro keeps_intros)

lemma calm_RawSetVar [keeps_intros]: "keeps (calm g x d) (RawSetVar env k v)"
  unfolding RawSetVar_def by (intro keeps_intros)

lemma calm_RawGetVar [keeps_intros]: "keeps (calm g x d) (RawGetVar env k)"
  unfolding RawGetVar_def by (intro keeps_intros)

lemma calm_AddVariables [keeps_intros]: "keeps (calm g x d) (AddVariables vs)"
  unfolding AddVariables_def by (intro keeps_intros) (simp add: calm_def)

lemma calm_session_set_variable [keeps_intros]: "keeps (calm g x d) (session_set_variable env k v)"
  unfolding session_set_variable_def by (intro keeps_intros) (simp add: calm_def)

lemma calm_receivers [keeps_intros]:
  "keeps (calm g x d) (add_receiver env c T)" "keeps (calm g x d) (remove_receiver env c T)"
  unfolding add_receiver_def remove_receiver_def by (intro keeps_intros; simp add: calm_def)+

lemma calm_prepare [keeps_intros]: "keeps (calm g x d) (prepare nm text)"
  unfolding prepare_def by (intro keeps_intros) (simp_all add: calm_def)

lemma calm_unprepare [keeps_intros]: "keeps (calm g x d) (unprepare env nm)"
  unfolding unprepare_def by (intro keeps_intros) (simp_all add: calm_def)

lemma calm_register_prepared [keeps_intros]: "keeps (calm g x d) (register_prepared env nm)"
  unfolding register_prepared_def find_prepared_def by (intro keeps_intros) (simp_all add: calm_def)

lemma calm_prepared_exec [keeps_intros]: "keeps (calm g x d) (prepared_exec env nm n ps)"
  unfolding prepared_exec_def by (intro keeps_intros)

lemma calm_parameterized_exec [keeps_intros]: "keeps (calm g x d) (parameterized_exec env q n ps)"
  unfolding parameterized_exec_def by (intro keeps_intros)

lemma calm_drain_checked [keeps_intros]: "keeps (calm g x d) (drain_checked env n)"
  by (induction n) (simp_all, (intro keeps_intros | assumption)+)

lemma calm_copy [keeps_intros]:
  "keeps (calm g x d) (ReadCopyLine env)" "keeps (calm g x d) (WriteCopyLine env l)"
  "keeps (calm g x d) (EndCopyWrite env)"
  unfolding ReadCopyLine_def WriteCopyLine_def EndCopyWrite_def by (intro keeps_intros)+

lemma calm_pipelining [keeps_intros]:
  "keeps (calm g x d) (start_exec env q)" "keeps (calm g x d) (get_result env)"
  "keeps (calm g x d) (cancel_query env)"
  unfolding start_exec_def get_result_def cancel_query_def by (intro keeps_intros)+

lemma calm_naming [keeps_intros]:
  "keeps (calm g x d) (adorn_name n)" "keeps (calm g x d) (esc env t)" "keeps (calm g x d) (esc_raw env t)"
  "keeps (calm g x d) (quote_raw env t)" "keeps (calm g x d) (quote_name env t)"
  "keeps (calm g x d) (quote env u)"
  unfolding adorn_name_def esc_def esc_raw_def quote_raw_def quote_name_def quote_def
  by (intro keeps_intros; simp add: calm_def)+

lemma calm_asked_handle [keeps_intros]:
  "keeps (calm g x d) (dbname env)" "keeps (calm g x d) (username env)"
  "keeps (calm g x d) (hostname env)" "keeps (calm g x d) (port env)"
  unfolding dbname_def username_def hostname_def port_def ask_handle_def by (intro keeps_intros)+

lemma calm_await [keeps_intros]: "keeps (calm g x d) (await_notification env tv)"
  unfolding await_notification_def by (intro keeps_intros)

lemma calm_exemption [keeps_intros]:
  "keeps (calm g x d) (exemption_new env)" "keeps (calm g x d) (exemption_delete env y)"
  unfolding exemption_new_def exemption_delete_def by (intro keeps_intros; simp add: calm_def)+

text \<open>What a calm operation means for its client.\<close>

lemma calmD:
  assumes "\<And>g x d. keeps (calm g x d) m"
  shows "m_Trans (snd (m s)) = m_Trans s" "conn.more (snd (m s)) = conn.more s"
    "m_Trans s \<noteq> None \<Longrightarrow> deliveries (snd (m s)) = deliveries s"
  using keepsD [OF assms [of "m_Trans s" "conn.more s" "deliveries s"], of s]
  by (simp_all add: calm_def)

lemmas Exec_calm = calmD [of "Exec env Q n" for env Q n, OF calm_Exec]

section \<open>A connection that may not be replaced\<close>

definition pinned :: "handle \<Rightarrow> int \<Rightarrow> ('w, 'z) conn_scheme \<Rightarrow> bool" where
  "pinned c a s \<longleftrightarrow> a \<noteq> 0 \<and> m_Conn s = c \<and> m_reactivation_avoidance s = a"

lemma pinned_activate_with [keeps_intros]: "keeps (pinned c a) (activate_with act env)"
  by (simp add: keeps_def activate_with_def cond_def skip_def ret_def throw_def pinned_def)

lemma pinned_activate [keeps_intros]: "keeps (pinned c a) (activate env)"
  unfolding activate_def
  by (cases "rounds env") (simp_all add: keeps_throw pinned_activate_with)

lemma pinned_wcall [keeps_intros]: "keeps (pinned c a) (wcall f)"
  unfolding wcall_def by (intro keeps_call) (simp add: pinned_def)

lemma pinned_make_result [keeps_intros]: "keeps (pinned c a) (make_result env p q)"
  unfolding make_result_def make_result_with_def encoding_code_def by (intro keeps_intros)

lemma pinned_Reset [keeps_intros]: "keeps (pinned c a) (Reset env)"
  by (simp add: keeps_def Reset_def cond_def skip_def ret_def throw_def pinned_def)

lemma pinned_lift_exn [keeps_intros]: "keeps (pinned c a) (lift_exn r)"
  unfolding lift_exn_def by (intro keeps_intros)

lemma pinned_check_result [keeps_intros]: "keeps (pinned c a) (check_result env R)"
  unfolding check_result_def by (intro keeps_intros)

lemma pinned_offer_notice [keeps_intros]: "keeps (pinned c a) (offer_notice env msg hs)"
  by (induction hs) (auto intro!: keeps_intros simp: pinned_def [abs_def])

lemma pinned_notices [keeps_intros]: "keeps (pinned c a) (process_notice_string env msg)"
  unfolding process_notice_string_def process_notice_raw_def by (intro keeps_intros)

lemma pinned_call_receivers [keeps_intros]: "keeps (pinned c a) (call_receivers env N Ts)"
proof (induction Ts)
  case (Cons T Ts)
  show ?case
    unfolding call_receivers.simps by (intro keeps_intros Cons.IH) (simp add: pinned_def)
qed (simp add: keeps_skip)

lemma pinned_deliver_notifs [keeps_intros]: "keeps (pinned c a) (deliver_notifs env n k)"
proof (induction n arbitrary: k)
  case (Suc n)
  show ?case
    unfolding deliver_notifs.simps by (intro keeps_intros Suc.IH)
qed (simp add: keeps_throw)

lemma pinned_get_notifs [keeps_intros]: "keeps (pinned c a) (get_notifs env)"
  unfolding get_notifs_def consume_input_def by (intro keeps_intros)

lemma pinned_run_query [keeps_intros]: "keeps (pinned c a) (run_query env Q)"
  unfolding run_query_def by (intro keeps_intros)

lemma pinned_exec_retry [keeps_intros]: "keeps (pinned c a) (exec_retry env Q n R)"
  by (induction n arbitrary: R) (simp_all, (intro keeps_intros | assumption)+)

lemma pinned_Exec [keeps_intros]: "keeps (pinned c a) (Exec env Q n)"
  unfolding Exec_def by (intro keeps_intros)

section \<open>The behaviour of single operations\<close>

lemma activate_open: "is_open env s \<Longrightarrow> 0 < rounds env \<Longrightarrow> activate env s = (Inr (), s)"
  by (cases "rounds env") (simp_all add: activate_def activate_with_def cond_def skip_def ret_def)

lemma make_result_open:
  "is_open env s \<Longrightarrow> 0 < rounds env \<Longrightarrow>
   make_result env p q s = (Inr (make_result_object p (protocol_version env s) q
     (PQclientEncoding env (m_Conn s) (world s))), s)"
  by (simp add: make_result_def make_result_with_def encoding_code_def bnd_def gets_def ret_def
      activate_open)

lemma exec_retry_done: "result_bool R \<or> is_open env s \<Longrightarrow> exec_retry env Q n R s = (Inr R, s)"
  by (cases n) (auto simp: cond_def ret_def)

lemma get_notifs_in_transaction:
  "is_open env s \<Longrightarrow> m_Trans s \<noteq> None \<Longrightarrow> PQconsumeInput env (m_Conn s) (world s) = (True, w) \<Longrightarrow>
   get_notifs env s = (Inr 0, s\<lparr>world := w\<rparr>)"
  by (simp add: get_notifs_def cond_def consume_input_def bnd_def gets_def wcall_def call_def ret_def)

lemma is_open_world: "is_open env (s\<lparr>world := w\<rparr>) \<longleftrightarrow>
    m_Conn s \<noteq> None \<and> m_Completed s \<and> PQstatus env (m_Conn s) w = CONNECTION_OK"
  by (simp add: is_open_def Status_def)

text \<open>The handlers asked about a message: the newest ones up to the first that takes it.\<close>

fun asked :: "(nat \<Rightarrow> bool) \<Rightarrow> nat list \<Rightarrow> nat list" where
  "asked pass [] = []"
| "asked pass (h # hs) = h # (if pass h then asked pass hs else [])"

lemma offer_notice_asked:
  "offer_notice env msg hs s =
     (Inr (), s\<lparr>notices := notices s @ map (\<lambda>h. (h, msg)) (asked (\<lambda>h. on_notice env h msg) hs)\<rparr>)"
  by (induction hs arbitrary: s) (auto simp: prog_simps)

text \<open>The notifications waiting in libpq, as a queue that \<open>PQnotifies\<close> empties.\<close>

definition notify_queue :: "'w env \<Rightarrow> ('w \<Rightarrow> notify list) \<Rightarrow> bool" where
  "notify_queue env pending \<longleftrightarrow> (\<forall>c w.
     (pending w = [] \<longrightarrow> fst (PQnotifies env c w) = None) \<and>
     (\<forall>N Ns. pending w = N # Ns \<longrightarrow>
        fst (PQnotifies env c w) = Some N \<and> pending (snd (PQnotifies env c w)) = Ns))"

definition deliveries_of :: "(string \<times> nat) list \<Rightarrow> notify \<Rightarrow> (nat \<times> string \<times> int) list" where
  "deliveries_of rs N = map (\<lambda>T. (T, extra N, be_pid N)) (mmap_range (relname N) rs)"

lemma call_receivers_quiet:
  "(\<And>T a b. on_notification env T a b = None) \<Longrightarrow> call_receivers env N Ts s =
     (Inr (), s\<lparr>deliveries := deliveries s @ map (\<lambda>T. (T, extra N, be_pid N)) Ts\<rparr>)"
  by (induction Ts arbitrary: s) (simp_all add: prog_simps)

lemma deliver_notifs_all:
  assumes "notify_queue env pending" "\<And>T a b. on_notification env T a b = None"
    and "length (pending (world s)) < n"
  shows "\<exists>w. deliver_notifs env n k s = (Inr (k + int (length (pending (world s)))),
    s\<lparr>world := w, deliveries := deliveries s @ concat (map (deliveries_of (m_receivers s)) (pending (world s)))\<rparr>)"
  using assms(3)
proof (induction n arbitrary: s k)
  case (Suc n)
  let ?w = "snd (PQnotifies env (m_Conn s) (world s))"
  show ?case
  proof (cases "pending (world s)")
    case Nil
    then have "fst (PQnotifies env (m_Conn s) (world s)) = None"
      using assms(1) by (simp add: notify_queue_def)
    then show ?thesis
      by (intro exI [of _ ?w]) (simp add: Nil bnd_def gets_def wcall_def call_def ret_def)
  next
    case (Cons N Ns)
    then have N: "fst (PQnotifies env (m_Conn s) (world s)) = Some N" and Ns: "pending ?w = Ns"
      using assms(1) by (simp_all add: notify_queue_def)
    let ?s = "s\<lparr>world := ?w, deliveries := deliveries s @ deliveries_of (m_receivers s) N\<rparr>"
    obtain w where "deliver_notifs env n (k + 1) ?s = (Inr (k + 1 + int (length Ns)),
        ?s\<lparr>world := w, deliveries := deliveries ?s @ concat (map (deliveries_of (m_receivers s)) Ns)\<rparr>)"
      using Suc.IH [of ?s "k + 1"] Suc.prems Cons Ns by auto
    then show ?thesis
      by (intro exI [of _ w])
        (simp add: Cons N bnd_def seq_def gets_def wcall_def call_def
          call_receivers_quiet [OF assms(2)] deliveries_of_def [symmetric])
  qed
qed simp

section \<open>A concrete environment\<close>

text \<open>
  A libpq on which every call succeeds with nothing to report; the witnesses below change the
  functions they are about.
\<close>

definition quiet_env :: "'w env" where
  "quiet_env = \<lparr>PQstatus = (\<lambda>_ _. CONNECTION_OK), PQerrorMessage = (\<lambda>_ _. ''no error''),
     PQprotocolVersion = (\<lambda>_ _. 3), PQserverVersion = (\<lambda>_ _. 90600), PQbackendPID = (\<lambda>_ _. 4711),
     PQdb = (\<lambda>_ _. ''db''), PQuser = (\<lambda>_ _. ''me''), PQhost = (\<lambda>_ _. ''localhost''),
     PQport = (\<lambda>_ _. ''5432''), PQsocket = (\<lambda>_ _. 5), PQclientEncoding = (\<lambda>_ _. 6), PQconnectdb = (\<lambda>_ w. (Some 1, w)),
     PQconnectStart = (\<lambda>_ w. (Some 1, w)), PQconnectPoll = (\<lambda>_ w. (PGRES_POLLING_OK, w)),
     PQfinish = (\<lambda>_ w. w), PQreset = (\<lambda>_ w. w), PQexec = (\<lambda>_ _ w. (Some (sample_rows [] 0), w)),
     PQexecParams = (\<lambda>_ _ _ _ w. (Some (sample_rows [] 0), w)),
     PQprepare = (\<lambda>_ _ _ w. (Some (sample_rows [] 0), w)),
     PQexecPrepared = (\<lambda>_ _ _ _ w. (Some (sample_rows [] 0), w)),
     PQsendQuery = (\<lambda>_ _ w. (True, w)), PQgetResult = (\<lambda>_ w. (None, w)),
     PQconsumeInput = (\<lambda>_ w. (True, w)), PQisBusy = (\<lambda>_ _. False), PQnotifies = (\<lambda>_ w. (None, w)),
     PQgetCopyData = (\<lambda>_ w. ((-1, None), w)), PQputCopyData = (\<lambda>_ _ w. (1, w)),
     PQputCopyEnd = (\<lambda>_ w. (1, w)), PQendcopy = (\<lambda>_ w. w), PQgetCancel = (\<lambda>_ _. True),
     PQcancel = (\<lambda>_ w. (None, w)), PQescapeStringConn = (\<lambda>_ t _. (t, False)),
     PQescapeByteaConn = (\<lambda>_ t _. Some t), PQunescapeBytea = (\<lambda>t. t),
     PQescapeIdentifier = (\<lambda>_ t _. Some (dquoted t)), poll_fd = (\<lambda>_ _ _ w. w),
     on_notice = (\<lambda>_ _. True), on_notification = (\<lambda>_ _ _. None), rounds = 5\<rparr>"

definition open_conn :: "'w \<Rightarrow> 'w conn" where
  "open_conn w = (connection_base w Connect_direct [])\<lparr>m_Conn := Some 1, m_Completed := True\<rparr>"

lemma open_conn_open [simp]: "is_open (quiet_env\<lparr>PQexec := x, on_notice := y, PQnotifies := z\<rparr>) (open_conn w)"
  by (simp add: is_open_def Status_def open_conn_def connection_base_def quiet_env_def)

section \<open>Properties\<close>

text \<open>
  While a transaction is registered on a connection no query, prepared or not, delivers
  a notification to a receiver, however it ends, and none of them touches the registration.
\<close>

theorem no_delivery_in_transaction:
  assumes "m_Trans s \<noteq> None"
  shows "deliveries (snd (Exec env Q n s)) = deliveries s \<and>
    deliveries (snd (prepared_exec env nm k ps s)) = deliveries s \<and>
    deliveries (snd (parameterized_exec env Q k ps s)) = deliveries s \<and>
    deliveries (snd (get_notifs env s)) = deliveries s \<and>
    m_Trans (snd (Exec env Q n s)) = m_Trans s"
  using calmD(3) [OF calm_Exec assms] calmD(3) [OF calm_prepared_exec assms]
    calmD(3) [OF calm_parameterized_exec assms] calmD(3) [OF calm_get_notifs assms]
    calmD(1) [OF calm_Exec] by blast

theorem no_delivery_in_transaction_witness:
  "let s = (open_conn [\<lparr>relname = ''c'', extra = [], be_pid = 7\<rparr>])
        \<lparr>m_receivers := [(''c'', 3)], m_Trans := Some \<lparr>addr = 1, classname = ''t'', name = []\<rparr>\<rparr>;
       env = quiet_env\<lparr>PQnotifies := \<lambda>_ w. (case w of [] \<Rightarrow> (None, []) | N # Ns \<Rightarrow> (Some N, Ns))\<rparr>
   in deliveries (snd (get_notifs env s)) = deliveries s"
  unfolding Let_def by (rule conjunct1 [OF conjunct2 [OF conjunct2 [OF conjunct2
    [OF no_delivery_in_transaction]]]]) simp

text \<open>
  C19: outside transactions every notification that waits in libpq is delivered exactly once
  to each receiver on its channel, in the order of arrival, and the answer counts the
  notifications; \<open>rounds\<close> above the length of the queue is enough for the loop to end.
\<close>

theorem notifications_delivered_once:
  assumes "is_open env s" "m_Trans s = None" "PQconsumeInput env (m_Conn s) (world s) = (True, w)"
    and "notify_queue env pending" "\<And>T a b. on_notification env T a b = None"
    and "length (pending w) < rounds env"
  shows "fst (get_notifs env s) = Inr (int (length (pending w))) \<and>
    deliveries (snd (get_notifs env s)) =
      deliveries s @ concat (map (deliveries_of (m_receivers s)) (pending w))"
proof -
  obtain w' where "deliver_notifs env (rounds env) 0 (s\<lparr>world := w\<rparr>) =
      (Inr (int (length (pending w))), s\<lparr>world := w', deliveries := deliveries s @
         concat (map (deliveries_of (m_receivers s)) (pending w))\<rparr>)"
    using deliver_notifs_all [OF assms(4,5), of "s\<lparr>world := w\<rparr>" "rounds env" 0] assms(6) by auto
  then show ?thesis
    using assms(1-3)
    by (simp add: get_notifs_def cond_def consume_input_def bnd_def gets_def wcall_def call_def)
qed

theorem notifications_delivered_once_witness:
  "let N = \<lparr>relname = ''c'', extra = ''hi'', be_pid = 7\<rparr>;
       s = (open_conn [N, N])\<lparr>m_receivers := [(''b'', 2), (''c'', 3), (''c'', 4)]\<rparr>;
       env = quiet_env\<lparr>PQnotifies := \<lambda>_ w. (case w of [] \<Rightarrow> (None, []) | N # Ns \<Rightarrow> (Some N, Ns))\<rparr>
   in fst (get_notifs env s) = Inr 2 \<and>
      deliveries (snd (get_notifs env s)) =
        [(3, ''hi'', 7), (4, ''hi'', 7), (3, ''hi'', 7), (4, ''hi'', 7)]"
proof -
  let ?N = "\<lparr>relname = ''c'', extra = ''hi'', be_pid = 7\<rparr>"
  let ?s = "(open_conn [?N, ?N])\<lparr>m_receivers := [(''b'', 2), (''c'', 3), (''c'', 4)]\<rparr>"
  let ?env = "quiet_env\<lparr>PQnotifies := \<lambda>_ w. (case w of [] \<Rightarrow> (None, []) | N # Ns \<Rightarrow> (Some N, Ns))\<rparr>"
  have "fst (get_notifs ?env ?s) = Inr (int (length [?N, ?N])) \<and>
    deliveries (snd (get_notifs ?env ?s)) =
      deliveries ?s @ concat (map (deliveries_of (m_receivers ?s)) [?N, ?N])"
    by (rule notifications_delivered_once [where pending = "\<lambda>w. w"])
      (simp_all add: is_open_def Status_def open_conn_def connection_base_def quiet_env_def
        notify_queue_def)
  then show ?thesis
    unfolding Let_def
    by (simp add: deliveries_of_def mmap_range_def open_conn_def connection_base_def)
qed



lemma Exec_answered:
  assumes "is_open env s" "m_Trans s \<noteq> None" "0 < rounds env"
    and "PQexec env (m_Conn s) Q (world s) = (Some p, w)" "PQstatus env (m_Conn s) w = CONNECTION_OK"
    and "PQconsumeInput env (m_Conn s) w = (True, w')"
    and "R = make_result_object (Some p) (PQprotocolVersion env (m_Conn s) w) Q
           (PQclientEncoding env (m_Conn s) w)"
  shows "Exec env Q n s =
    (case CheckStatus R of
       Inl e \<Rightarrow> (Inl e, s\<lparr>world := w\<rparr>)
     | Inr _ \<Rightarrow> (Inr R, s\<lparr>world := w'\<rparr>))"
proof -
  let ?s = "s\<lparr>world := w\<rparr>"
  have c: "m_Conn s \<noteq> None" and o: "is_open env ?s"
    using assms(1,5) by (auto simp: is_open_def Status_def)
  have "run_query env Q s = (Inr R, ?s)"
    using assms(3,4,7) c o
    by (simp add: run_query_def bnd_def gets_def wcall_def call_def make_result_open protocol_version_def)
  moreover have "result_bool R"
    by (simp add: assms(7) result_bool_def make_result_object_def)
  moreover have "get_notifs env ?s = (Inr 0, s\<lparr>world := w'\<rparr>)"
    using get_notifs_in_transaction [of env ?s w'] o assms(2,6) by simp
  ultimately show ?thesis
    using assms(1,3) o
    by (simp add: Exec_def seq_def bnd_def activate_open exec_retry_done check_result_def cond_def
        skip_def ret_def lift_exn_def throw_def split: sum.splits)
qed

lemma activate_inhibited:
  "\<not> is_open env s \<Longrightarrow> m_inhibit_reactivation s \<Longrightarrow> 0 < rounds env \<Longrightarrow>
   activate env s = (Inl (broken_connection
     (''Could not reactivate connection; '' @ ''reactivation is inhibited'')), s)"
  by (cases "rounds env") (simp_all add: activate_def activate_with_def cond_def throw_def)

lemma Exec_inhibited:
  "\<not> is_open env s \<Longrightarrow> m_inhibit_reactivation s \<Longrightarrow> 0 < rounds env \<Longrightarrow>
   Exec env Q n s = (Inl (broken_connection
     (''Could not reactivate connection; '' @ ''reactivation is inhibited'')), s)"
  by (cases "rounds env") (simp_all add: Exec_def seq_def bnd_def activate_def activate_with_def cond_def
      throw_def)



text \<open>
  A notice reaches the error handlers newest first, up to and including the first one
  that declares it handled, and always ends in a newline.
\<close>

theorem notice_reaches_newest_first:
  assumes "c_str msg \<noteq> []"
  shows "\<exists>m. last m = CHR 0x0A \<and> (m = c_str msg \<or> m = c_str msg @ nl) \<and>
    process_notice env msg s = (Inr (), s\<lparr>notices := notices s @
      map (\<lambda>h. (h, m)) (asked (\<lambda>h. on_notice env h m) (rev (m_errorhandlers s)))\<rparr>)"
proof -
  let ?m = "if last (c_str msg) = CHR 0x0A then c_str msg else c_str msg @ nl"
  have nz: "\<forall>x \<in> set (c_str msg). x \<noteq> CHR 0x00"
    by (auto simp: c_str_def dest: set_takeWhileD)
  have "c_str ?m = ?m"
    using nz by (auto simp: c_str_def nl_def intro!: takeWhile_all)
  then have "process_notice env msg s = (Inr (), s\<lparr>notices := notices s @
      map (\<lambda>h. (h, ?m)) (asked (\<lambda>h. on_notice env h ?m) (rev (m_errorhandlers s)))\<rparr>)"
    using assms
    by (auto simp: process_notice_def process_notice_raw_def Let_def bnd_def gets_def
        offer_notice_asked nl_def)
  then show ?thesis
    by (intro exI [of _ ?m]) (auto simp: nl_def)
qed

theorem notice_reaches_newest_first_witness:
  "\<exists>m. last m = CHR 0x0A \<and> (m = c_str ''hi'' \<or> m = c_str ''hi'' @ nl) \<and>
    process_notice (quiet_env\<lparr>on_notice := \<lambda>h _. h = 3\<rparr>) ''hi''
      ((open_conn ())\<lparr>m_errorhandlers := [1, 2, 3]\<rparr>) = (Inr (), (open_conn ())
        \<lparr>m_errorhandlers := [1, 2, 3], notices := [(3, m), (2, m)]\<rparr>)"
  using notice_reaches_newest_first [of "''hi''" "quiet_env\<lparr>on_notice := \<lambda>h _. h = 3\<rparr>"
      "(open_conn ())\<lparr>m_errorhandlers := [1, 2, 3]\<rparr>"]
  by (simp add: c_str_def open_conn_def connection_base_def)

text \<open>
  A prepared statement keeps one definition under its name: preparing it again with the
  same text changes nothing, a different text is refused for a named statement and replaces
  the nameless one, which is then defined afresh with the backend.
\<close>

theorem prepare_keeps_one_definition:
  assumes "omap_get nm (m_prepared s) = Some p"
  shows "prepare nm text s =
    (if text = definition_text p then (Inr (), s)
     else if nm \<noteq> [] then
       (Inl (argument_error (''Inconsistent redefinition of prepared statement '' @ nm)), s)
     else (Inr (), snd (prepare nm text s))) \<and>
    omap_get nm (m_prepared (snd (prepare nm text s))) =
      (if text \<noteq> definition_text p \<and> nm = [] then Some \<lparr>definition_text = text, registered = False\<rparr>
       else Some p) \<and>
    (\<forall>other. other \<noteq> nm \<longrightarrow>
       omap_get other (m_prepared (snd (prepare nm text s))) = omap_get other (m_prepared s))"
  using assms
  by (auto simp: prepare_def bnd_def gets_def modify_def throw_def skip_def ret_def omap_get_put)

theorem prepare_keeps_one_definition_witness:
  "let s = (open_conn ())\<lparr>m_prepared := [(''q'', \<lparr>definition_text = ''SELECT 1'', registered = True\<rparr>)]\<rparr>
   in prepare ''q'' ''SELECT 1'' s = (Inr (), s)"
proof -
  let ?s = "(open_conn ())\<lparr>m_prepared := [(''q'', \<lparr>definition_text = ''SELECT 1'', registered = True\<rparr>)]\<rparr>"
  have "omap_get ''q'' (m_prepared ?s) = Some \<lparr>definition_text = ''SELECT 1'', registered = True\<rparr>"
    by simp
  from prepare_keeps_one_definition [OF this, of "''SELECT 1''"] show ?thesis
    by simp
qed

lemma listen_commands_once:
  "listen_commands Last rs = concat (map (\<lambda>c. ''LISTEN '' @ dquoted c @ ''; '')
     (remdups_adj (dropWhile (\<lambda>c. c = Last) (map fst rs))))"
  by (induction Last rs rule: listen_commands.induct) (auto simp: remdups_adj_Cons')

text \<open>
  After a reconnection each channel with a receiver is listened to exactly once, however
  many receivers wait on it, and every session variable is set again.
\<close>

theorem listen_once_per_channel:
  assumes "[] \<notin> fst ` set (m_receivers s)"
  shows "restore_query s =
    concat (map (\<lambda>c. ''LISTEN '' @ dquoted c @ ''; '') (remdups_adj (map fst (m_receivers s)))) @
    concat (map (\<lambda>(k, v). ''SET '' @ k @ ''='' @ v @ ''; '') (m_Vars s))"
proof -
  have "dropWhile (\<lambda>c. c = []) (map fst (m_receivers s)) = map fst (m_receivers s)"
    using assms by (cases "m_receivers s") auto
  then show ?thesis
    using listen_commands_once [of "[]" "m_receivers s"] by (simp add: restore_query_def set_commands_def)
qed

theorem listen_once_per_channel_witness:
  "restore_query ((open_conn ())\<lparr>m_receivers := [(''a'', 1), (''a'', 2), (''b'', 3)]\<rparr>) =
    ''LISTEN '' @ dquoted ''a'' @ ''; LISTEN '' @ dquoted ''b'' @ ''; ''"
  by (subst listen_once_per_channel) (simp_all add: open_conn_def connection_base_def)

end
