(* ===== verification/Transaction.thy ===== *)
theory Transaction
  imports Connection_Facts
begin

text \<open>
  The transaction classes: \<^verbatim>\<open>transaction_base\<close>, \<^verbatim>\<open>dbtransaction\<close>, \<^verbatim>\<open>basic_transaction\<close>,
  \<^verbatim>\<open>nontransaction\<close> and \<^verbatim>\<open>subtransaction\<close> (\<^verbatim>\<open>src/transaction_base.cxx\<close> and the files of the
  same names). The state is a connection together with the members of one transaction object
  on it. The virtual functions of a concrete class are parameters of the base class's
  operations; the locale \<open>transaction_hooks\<close> states what those rely on of them.
\<close>

section \<open>State\<close>

datatype status = st_nascent | st_active | st_aborted | st_committed | st_in_doubt

record 'w tx = "'w conn" +
  this_trans :: namedclass
  tx_avoidance :: int
  m_Focus :: "namedclass option"
  m_Status :: status
  m_Registered :: bool
  tx_Vars :: "(string \<times> string) list"
  m_PendingError :: string
  m_StartCmd :: string
  parent_avoidance :: int

type_synonym ('w, 'z, 'a) tprog = "(('w, 'z) tx_scheme, 'a) cxx"

definition set_Status :: "status \<Rightarrow> ('w, 'z, unit) tprog" where
  "set_Status st = modify (\<lambda>s. s\<lparr>m_Status := st\<rparr>)"

abbreviation tx_description :: "('w, 'z) tx_scheme \<Rightarrow> string" where
  "tx_description s \<equiv> description (this_trans s)"

section \<open>Pending errors and the focus\<close>

text \<open>The message is cleared before the exception that should carry it is made from it.\<close>

definition CheckPendingError :: "('w, 'z, unit) tprog" where
  "CheckPendingError =
     cond (\<lambda>s. m_PendingError s \<noteq> [])
       (seq (modify (\<lambda>s. s\<lparr>m_PendingError := []\<rparr>))
            (bnd (gets m_PendingError) (\<lambda>m. throw (failure m))))
       skip"

definition RegisterPendingError :: "string \<Rightarrow> ('w, 'z, unit) tprog" where
  "RegisterPendingError Err =
     modify (\<lambda>s. if m_PendingError s = [] \<and> Err \<noteq> [] then s\<lparr>m_PendingError := Err\<rparr> else s)"

definition RegisterFocus :: "namedclass \<Rightarrow> ('w, 'z, unit) tprog" where
  "RegisterFocus S =
     bnd (gets m_Focus) (\<lambda>g. bnd (lift_exn (unique_Register (Some S) g)) (\<lambda>g'.
       modify (\<lambda>s. s\<lparr>m_Focus := g'\<rparr>)))"

definition UnregisterFocus :: "'w env \<Rightarrow> namedclass \<Rightarrow> ('w, 'z, unit) tprog" where
  "UnregisterFocus env S =
     catch_std
       (bnd (gets m_Focus) (\<lambda>g. bnd (lift_exn (unique_Unregister (Some S) g)) (\<lambda>g'.
          modify (\<lambda>s. s\<lparr>m_Focus := g'\<rparr>))))
       (\<lambda>e. process_notice_string env (what e @ nl))"

section \<open>Ending a transaction\<close>

definition reactivation_avoidance_clear :: "('w, 'z, unit) tprog" where
  "reactivation_avoidance_clear = modify (\<lambda>s. s\<lparr>tx_avoidance := 0\<rparr>)"

definition End_head :: "'w env \<Rightarrow> ('w, 'z, unit) tprog" where
  "End_head env =
     seq (catch_std CheckPendingError (\<lambda>e. process_notice env (what e)))
         (cond m_Registered
            (seq (modify (\<lambda>s. s\<lparr>m_Registered := False\<rparr>))
                 (bnd (gets this_trans) (UnregisterTransaction env)))
            skip)"

definition End_guard :: "'w env \<Rightarrow> ('w, 'z, unit) tprog \<Rightarrow> ('w, 'z, unit) tprog" where
  "End_guard env body =
     catch_std body (\<lambda>e. catch_std (process_notice env (what e)) (\<lambda>_. skip))"

text \<open>\<open>End\<close> on a transaction that is not active any more: the call that \<open>abort\<close> ends with.\<close>

definition End_closed :: "'w env \<Rightarrow> ('w, 'z, unit) tprog" where
  "End_closed env = End_guard env (End_head env)"

definition abort :: "'w env \<Rightarrow> ('w, 'z, unit) tprog \<Rightarrow> ('w, 'z, unit) tprog" where
  "abort env do_abort =
     bnd (gets m_Status) (\<lambda>st.
       case st of
         st_nascent \<Rightarrow> seq (set_Status st_aborted) (End_closed env)
       | st_active \<Rightarrow>
           seq (catch_std do_abort (\<lambda>_. skip)) (seq (set_Status st_aborted) (End_closed env))
       | st_aborted \<Rightarrow> skip
       | st_committed \<Rightarrow> bnd (gets tx_description) (\<lambda>d.
           throw (usage_error (''Attempt to abort previously committed '' @ d)))
       | st_in_doubt \<Rightarrow> bnd (gets tx_description) (\<lambda>d.
           process_notice_string env (''Warning: '' @ d @
             '' aborted after going into indeterminate state; it may have been executed anyway.'' @ nl)))"

definition End :: "'w env \<Rightarrow> ('w, 'z, unit) tprog \<Rightarrow> ('w, 'z, unit) tprog" where
  "End env do_abort =
     End_guard env
       (seq (End_head env)
         (cond (\<lambda>s. m_Status s \<noteq> st_active) skip
           (seq (bnd (gets (\<lambda>s. (tx_description s, m_Focus s))) (\<lambda>(d, f).
                   case f of
                     None \<Rightarrow> skip
                   | Some g \<Rightarrow> process_notice_string env
                       (''Closing '' @ d @ ''  with '' @ description g @ '' still open'' @ nl)))
           (seq (catch_std (abort env do_abort) (\<lambda>e. process_notice env (what e)))
           (seq (bnd (gets tx_avoidance) add_reactivation_avoidance_count)
                reactivation_avoidance_clear)))))"

section \<open>Construction and destruction\<close>

definition new_tx :: "'w conn \<Rightarrow> namedclass \<Rightarrow> string \<Rightarrow> 'w tx" where
  "new_tx c this start = conn.extend c
     \<lparr>this_trans = this, tx_avoidance = 0, m_Focus = None, m_Status = st_nascent,
      m_Registered = False, tx_Vars = [], m_PendingError = [], m_StartCmd = start,
      parent_avoidance = 0\<rparr>"

definition transaction_base_init :: "bool \<Rightarrow> ('w, 'z, unit) tprog" where
  "transaction_base_init direct =
     (if direct then
        seq (bnd (gets this_trans) RegisterTransaction) (modify (\<lambda>s. s\<lparr>m_Registered := True\<rparr>))
      else skip)"

definition transaction_base_delete :: "'w env \<Rightarrow> ('w, 'z, unit) tprog" where
  "transaction_base_delete env =
     catch_std
       (seq reactivation_avoidance_clear
       (seq (cond (\<lambda>s. m_PendingError s \<noteq> [])
              (bnd (gets m_PendingError) (\<lambda>m.
                 process_notice_string env (''UNPROCESSED ERROR: '' @ m @ nl)))
              skip)
            (cond m_Registered
              (bnd (gets this_trans) (\<lambda>g.
                 seq (process_notice_string env (description g @ '' was never closed properly!'' @ nl))
                     (UnregisterTransaction env g)))
              skip)))
       (\<lambda>e. catch_std (process_notice_string env (what e @ nl)) (\<lambda>_. process_notice env (what e)))"

section \<open>Beginning, executing, committing\<close>

definition Begin ::
  "'w env \<Rightarrow> ('w, 'z, unit) tprog \<Rightarrow> ('w, 'z, unit) tprog \<Rightarrow> ('w, 'z, unit) tprog" where
  "Begin env do_begin do_abort =
     cond (\<lambda>s. m_Status s \<noteq> st_nascent)
       (throw (internal_error (''pqxx::transaction: '' @ ''Begin() called while not in nascent state'')))
       (catch_std
          (bnd (get_notifs env) (\<lambda>_. seq do_begin (set_Status st_active)))
          (\<lambda>e. seq (End env do_abort) (throw e)))"

definition tx_activate ::
  "'w env \<Rightarrow> ('w, 'z, unit) tprog \<Rightarrow> ('w, 'z, unit) tprog \<Rightarrow> ('w, 'z, unit) tprog" where
  "tx_activate env do_begin do_abort =
     bnd (gets m_Status) (\<lambda>st.
       case st of
         st_nascent \<Rightarrow> Begin env do_begin do_abort
       | st_active \<Rightarrow> skip
       | _ \<Rightarrow> bnd (gets tx_description) (\<lambda>d.
           throw (usage_error (''Attempt to activate '' @ d @ '' which is already closed''))))"

definition DirectExec :: "'w env \<Rightarrow> string \<Rightarrow> int \<Rightarrow> ('w, 'z, result) tprog" where
  "DirectExec env C Retries = seq CheckPendingError (Exec env C Retries)"

record ('w, 'z) hooks =
  do_begin :: "('w, 'z, unit) tprog"
  do_exec :: "string \<Rightarrow> ('w, 'z, result) tprog"
  do_commit :: "('w, 'z, unit) tprog"
  do_abort :: "('w, 'z, unit) tprog"

definition exec :: "'w env \<Rightarrow> ('w, 'z) hooks \<Rightarrow> string \<Rightarrow> string \<Rightarrow> ('w, 'z, result) tprog" where
  "exec env h Query Desc =
     (let N = (if Desc = [] then [] else quoted Desc @ '' '') in
      seq CheckPendingError
      (seq (bnd (gets (\<lambda>s. (tx_description s, m_Focus s))) (\<lambda>(d, f).
              case f of
                None \<Rightarrow> skip
              | Some g \<Rightarrow> throw (usage_error (''Attempt to execute query '' @ N @ ''on '' @ d @
                  '' with '' @ description g @ '' still open''))))
      (seq (catch_class Usage_error (tx_activate env (do_begin h) (do_abort h))
              (\<lambda>e. throw (usage_error (''Error executing query '' @ N @ ''.  '' @ what e))))
           (do_exec h Query))))"

definition commit :: "'w env \<Rightarrow> ('w, 'z) hooks \<Rightarrow> ('w, 'z, unit) tprog" where
  "commit env h =
     seq CheckPendingError
     (bnd (gets (\<lambda>s. (m_Status s, tx_description s))) (\<lambda>(st, d).
       case st of
         st_nascent \<Rightarrow> skip
       | st_aborted \<Rightarrow> throw (usage_error (''Attempt to commit previously aborted '' @ d))
       | st_committed \<Rightarrow> process_notice_string env (d @ '' committed more than once'' @ nl)
       | st_in_doubt \<Rightarrow> throw (in_doubt_error
           (d @ '' committed again while in an indeterminate state''))
       | st_active \<Rightarrow>
           seq (bnd (gets m_Focus) (\<lambda>f. case f of
                  None \<Rightarrow> skip
                | Some g \<Rightarrow> throw (failure (''Attempt to commit '' @ d @ '' with '' @
                    description g @ '' still open''))))
           (seq (cond (\<lambda>s. \<not> is_open env s)
                  (throw (broken_connection (''Broken connection to backend; '' @
                     ''cannot complete transaction''))) skip)
           (seq (catch (seq (do_commit h) (set_Status st_committed))
                  (\<lambda>e. if caught_as In_doubt_error e then seq (set_Status st_in_doubt) (throw e)
                       else if caught_as Std_exception e then seq (set_Status st_aborted) (throw e)
                       else throw e))
           (seq (bnd (gets tx_Vars) AddVariables)
                (End env (do_abort h)))))))"

section \<open>Variables, prepared and parameterized statements, copying\<close>

definition tx_set_variable :: "'w env \<Rightarrow> string \<Rightarrow> string \<Rightarrow> ('w, 'z, unit) tprog" where
  "tx_set_variable env Var Value =
     seq (RawSetVar env Var Value)
         (modify (\<lambda>s. s\<lparr>tx_Vars := omap_put string_less Var Value (tx_Vars s)\<rparr>))"

definition tx_get_variable :: "'w env \<Rightarrow> string \<Rightarrow> ('w, 'z, string) tprog" where
  "tx_get_variable env Var =
     bnd (gets (\<lambda>s. omap_get Var (tx_Vars s))) (\<lambda>i.
       case i of Some v \<Rightarrow> ret v | None \<Rightarrow> RawGetVar env Var)"

text \<open>\<open>connection_base::set_variable\<close> and \<open>get_variable\<close>, with the registered transaction.\<close>

definition set_variable :: "'w env \<Rightarrow> string \<Rightarrow> string \<Rightarrow> ('w, 'z, unit) tprog" where
  "set_variable env Var Value =
     cond (\<lambda>s. m_Trans s \<noteq> None) (tx_set_variable env Var Value) (session_set_variable env Var Value)"

definition get_variable :: "'w env \<Rightarrow> string \<Rightarrow> ('w, 'z, string) tprog" where
  "get_variable env Var =
     cond (\<lambda>s. m_Trans s \<noteq> None) (tx_get_variable env Var) (RawGetVar env Var)"

text \<open>
  The parameters of a prepared or parameterized statement: the values given, which of the
  positions are not null, and which are binary (\<^verbatim>\<open>src/statement_parameters.cxx\<close>).
\<close>

record statement_parameters =
  m_values :: "string list"
  m_nonnull :: "bool list"
  m_binary :: "bool list"

definition no_parameters :: statement_parameters where
  "no_parameters = \<lparr>m_values = [], m_nonnull = [], m_binary = []\<rparr>"

definition add_checked_param :: "string \<Rightarrow> bool \<Rightarrow> bool \<Rightarrow> statement_parameters \<Rightarrow> statement_parameters" where
  "add_checked_param v nonnull binary p =
     p\<lparr>m_nonnull := m_nonnull p @ [nonnull],
       m_values := (if nonnull then m_values p @ [v] else m_values p),
       m_binary := m_binary p @ [binary]\<rparr>"

text \<open>The arrays carry one closing entry; \<open>int\<close> lengths wrap at 32 bits.\<close>

fun marshall_from ::
  "string list \<Rightarrow> bool list \<Rightarrow> (string option \<times> int) list" where
  "marshall_from vs [] = []"
| "marshall_from (v # vs) (True # ns) =
     (Some (c_str v), convert int_t (int (length v))) # marshall_from vs ns"
| "marshall_from [] (True # ns) = (None, 0) # marshall_from [] ns"
| "marshall_from vs (False # ns) = (None, 0) # marshall_from vs ns"

definition marshall :: "statement_parameters \<Rightarrow> nat \<times> params" where
  "marshall p =
     (let vl = marshall_from (m_values p) (m_nonnull p) in
      (length (m_nonnull p),
       (map fst vl @ [None], map snd vl @ [0], map (\<lambda>b. if b then 1 else 0) (m_binary p) @ [0])))"

definition prepared_exists_for :: "string \<Rightarrow> ('w, 'z) tx_scheme \<Rightarrow> bool" where
  "prepared_exists_for statement s = prepared_exists statement s"

definition prepared ::
  "'w env \<Rightarrow> ('w, 'z) hooks \<Rightarrow> string \<Rightarrow> ('w, 'z, unit) tprog" where
  "prepared env h statement =
     catch_class Usage_error (tx_activate env (do_begin h) (do_abort h))
       (\<lambda>e. throw (usage_error (''Error executing prepared statement '' @ statement @ ''.  '' @ what e)))"

definition invocation_exec ::
  "'w env \<Rightarrow> string \<Rightarrow> statement_parameters \<Rightarrow> ('w, 'z, result) tprog" where
  "invocation_exec env statement p =
     (let (elts, ps) = marshall p in prepared_exec env statement elts ps)"

definition parameterized_invocation_exec ::
  "'w env \<Rightarrow> string \<Rightarrow> statement_parameters \<Rightarrow> ('w, 'z, result) tprog" where
  "parameterized_invocation_exec env query p =
     (let (elements, ps) = marshall p in parameterized_exec env query elements ps)"

definition MakeCopyString :: "string \<Rightarrow> string \<Rightarrow> string" where
  "MakeCopyString Table Columns =
     ''COPY '' @ Table @ '' '' @ (if Columns \<noteq> [] then ''('' @ Columns @ '') '' else [])"

definition BeginCopyRead ::
  "'w env \<Rightarrow> ('w, 'z) hooks \<Rightarrow> string \<Rightarrow> string \<Rightarrow> ('w, 'z, unit) tprog" where
  "BeginCopyRead env h Table Columns =
     bnd (exec env h (MakeCopyString Table Columns @ ''TO STDOUT'') []) (\<lambda>_. skip)"

definition BeginCopyWrite ::
  "'w env \<Rightarrow> ('w, 'z) hooks \<Rightarrow> string \<Rightarrow> string \<Rightarrow> ('w, 'z, unit) tprog" where
  "BeginCopyWrite env h Table Columns =
     bnd (exec env h (MakeCopyString Table Columns @ ''FROM STDIN'') []) (\<lambda>_. skip)"

section \<open>The concrete classes\<close>

datatype isolation_level = Read_committed | Repeatable_read | Serializable
datatype readwrite_policy = Read_only | Read_write

definition isolation_name :: "isolation_level \<Rightarrow> string" where
  "isolation_name l = (case l of Read_committed \<Rightarrow> ''READ COMMITTED''
     | Repeatable_read \<Rightarrow> ''REPEATABLE READ'' | Serializable \<Rightarrow> ''SERIALIZABLE'')"

definition sql_begin_work :: string where "sql_begin_work = ''BEGIN''"
definition sql_commit_work :: string where "sql_commit_work = ''COMMIT''"
definition sql_rollback_work :: string where "sql_rollback_work = ''ROLLBACK''"

definition generate_set_transaction :: "readwrite_policy \<Rightarrow> string \<Rightarrow> string" where
  "generate_set_transaction rw IsolationString =
     (let args = (if IsolationString \<noteq> [] \<and> IsolationString \<noteq> isolation_name Read_committed
                  then '' ISOLATION LEVEL '' @ IsolationString else []) @
                 (if rw \<noteq> Read_write then '' READ ONLY'' else [])
      in if args = [] then sql_begin_work else sql_begin_work @ ''; SET TRANSACTION'' @ args)"

definition fullname :: "string \<Rightarrow> string \<Rightarrow> string" where
  "fullname ttype isolation = ttype @ ''<'' @ isolation @ ''>''"

definition db_begin :: "'w env \<Rightarrow> ('w, 'z, unit) tprog" where
  "db_begin env =
     bnd (gets (\<lambda>s. (m_StartCmd s, m_reactivation_avoidance s))) (\<lambda>(cmd, avoidance).
       bnd (DirectExec env cmd (if avoidance \<noteq> 0 then 0 else 2)) (\<lambda>_. skip))"

definition db_exec :: "'w env \<Rightarrow> ('w, 'z, unit) tprog \<Rightarrow> string \<Rightarrow> ('w, 'z, result) tprog" where
  "db_exec env abort_hook Query =
     catch_std (DirectExec env Query 0)
       (\<lambda>e. seq (catch_std (abort env abort_hook) (\<lambda>_. skip)) (throw e))"

definition db_abort :: "'w env \<Rightarrow> ('w, 'z, unit) tprog" where
  "db_abort env =
     seq reactivation_avoidance_clear (bnd (DirectExec env sql_rollback_work 0) (\<lambda>_. skip))"

definition basic_commit :: "'w env \<Rightarrow> ('w, 'z, unit) tprog" where
  "basic_commit env =
     catch_std (bnd (DirectExec env sql_commit_work 0) (\<lambda>_. skip))
       (\<lambda>e. cond (\<lambda>s. \<not> is_open env s)
          (seq (process_notice_string env (what e @ nl))
             (bnd (gets (\<lambda>s. name (this_trans s))) (\<lambda>n.
               let Msg = ''WARNING: Connection lost while committing transaction '' @ quoted n @
                     ''. There is no way to tell whether the transaction succeeded '' @
                     ''or was aborted except to check manually.''
               in seq (process_notice_string env (Msg @ nl)) (throw (in_doubt_error Msg)))))
          (throw e))"

definition basic_hooks :: "'w env \<Rightarrow> ('w, 'z) hooks" where
  "basic_hooks env = \<lparr>do_begin = db_begin env, do_exec = db_exec env (db_abort env),
     do_commit = basic_commit env, do_abort = db_abort env\<rparr>"

definition non_hooks :: "'w env \<Rightarrow> ('w, 'z) hooks" where
  "non_hooks env = \<lparr>do_begin = skip, do_exec = (\<lambda>Q. DirectExec env Q 0), do_commit = skip,
     do_abort = skip\<rparr>"

definition sub_begin :: "'w env \<Rightarrow> ('w, 'z, unit) tprog" where
  "sub_begin env =
     bnd (gets (\<lambda>s. name (this_trans s))) (\<lambda>n.
       bnd (DirectExec env (''SAVEPOINT '' @ dquoted n) 0) (\<lambda>_. skip))"

definition sub_commit :: "'w env \<Rightarrow> ('w, 'z, unit) tprog" where
  "sub_commit env =
     bnd (gets (\<lambda>s. (tx_avoidance s, name (this_trans s)))) (\<lambda>(ra, n).
       seq (modify (\<lambda>s. s\<lparr>tx_avoidance := 0\<rparr>))
       (seq (bnd (DirectExec env (''RELEASE SAVEPOINT '' @ dquoted n) 0) (\<lambda>_. skip))
            (modify (\<lambda>s. s\<lparr>parent_avoidance := parent_avoidance s + ra\<rparr>))))"

definition sub_abort :: "'w env \<Rightarrow> ('w, 'z, unit) tprog" where
  "sub_abort env =
     bnd (gets (\<lambda>s. name (this_trans s))) (\<lambda>n.
       bnd (DirectExec env (''ROLLBACK TO SAVEPOINT '' @ dquoted n) 0) (\<lambda>_. skip))"

definition sub_hooks :: "'w env \<Rightarrow> ('w, 'z) hooks" where
  "sub_hooks env = \<lparr>do_begin = sub_begin env, do_exec = db_exec env (sub_abort env),
     do_commit = sub_commit env, do_abort = sub_abort env\<rparr>"

text \<open>
  Construction of the classes users name; the object starts out from \<open>new_tx\<close>. When the
  constructor's \<open>Begin\<close> throws, the base class part that was already built is destroyed.
\<close>

definition transaction_new :: "'w env \<Rightarrow> ('w, 'z, unit) tprog" where
  "transaction_new env =
     seq (transaction_base_init True)
       (catch_all (Begin env (db_begin env) (db_abort env))
          (\<lambda>e. seq (transaction_base_delete env) (throw e)))"

definition nontransaction_new :: "'w env \<Rightarrow> ('w, 'z, unit) tprog" where
  "nontransaction_new env =
     seq (transaction_base_init True)
       (catch_all (Begin env skip skip) (\<lambda>e. seq (transaction_base_delete env) (throw e)))"

definition subtransaction_new :: "'w env \<Rightarrow> string \<Rightarrow> ('w, 'z, unit) tprog" where
  "subtransaction_new env nm =
     seq (bnd (adorn_name nm) (\<lambda>n.
            modify (\<lambda>s. s\<lparr>this_trans := (this_trans s)\<lparr>classname := ''subtransaction'', name := n\<rparr>\<rparr>)))
         (transaction_base_init False)"

definition transaction_delete :: "'w env \<Rightarrow> ('w, 'z) hooks \<Rightarrow> ('w, 'z, unit) tprog" where
  "transaction_delete env h = seq (End env (do_abort h)) (transaction_base_delete env)"

end
