(* ===== verification/Transaction_Facts.thy ===== *)
theory Transaction_Facts
  imports Transaction
begin

text \<open>
  The life of a transaction: which states its operations reach, what each operation does in
  each state, and what the concrete classes add. \<open>transaction_hooks\<close> is the contract between
  \<^verbatim>\<open>transaction_base\<close> and the classes derived from it.
\<close>

section \<open>Operations of the connection leave the transaction object alone\<close>

lemma keeps_case_status [keeps_intros]:
  "keeps I a \<Longrightarrow> keeps I b \<Longrightarrow> keeps I c \<Longrightarrow> keeps I d \<Longrightarrow> keeps I e \<Longrightarrow>
   keeps I (case st of st_nascent \<Rightarrow> a | st_active \<Rightarrow> b | st_aborted \<Rightarrow> c | st_committed \<Rightarrow> d
     | st_in_doubt \<Rightarrow> e)"
  by (cases st) simp_all

lemma tx_fields_more:
  "conn.more s' = conn.more s \<Longrightarrow>
   this_trans s' = this_trans s \<and> tx_avoidance s' = tx_avoidance s \<and> m_Focus s' = m_Focus s \<and>
   m_Status s' = m_Status s \<and> m_Registered s' = m_Registered s \<and> tx_Vars s' = tx_Vars s \<and>
   m_PendingError s' = m_PendingError s \<and> m_StartCmd s' = m_StartCmd s \<and>
   parent_avoidance s' = parent_avoidance s \<and> tx.more s' = tx.more s"
  by (cases s; cases s') simp

definition status_in :: "status set \<Rightarrow> ('w, 'z) tx_scheme \<Rightarrow> bool" where
  "status_in X s \<longleftrightarrow> m_Status s \<in> X"

text \<open>What the base class expects the hooks and its connection to leave alone.\<close>

definition lifecycle ::
  "('w, 'z) tx_scheme \<Rightarrow> status \<times> bool \<times> namedclass \<times> namedclass option \<times> namedclass option \<times>
     (string \<times> string) list" where
  "lifecycle s = (m_Status s, m_Registered s, this_trans s, m_Trans s, m_Focus s, tx_Vars s)"

lemma calm_lifecycle:
  fixes m :: "('w, 'z, 'a) tprog"
  assumes "\<And>g x d. keeps (calm g x d) m"
  shows "frame lifecycle m"
proof (rule frameI)
  fix s :: "('w, 'z) tx_scheme"
  have "conn.more (snd (m s)) = conn.more s" "m_Trans (snd (m s)) = m_Trans s"
    using calmD(1,2) [OF assms] by blast+
  then show "lifecycle (snd (m s)) = lifecycle s"
    using tx_fields_more [of "snd (m s)" s] by (simp add: lifecycle_def)
qed

lemma lifecycle_status: "frame lifecycle m \<Longrightarrow> keeps (status_in X) m"
  by (auto simp: frame_def keeps_def lifecycle_def status_in_def)

lemma lifecycle_Exec [frame_intros]: "frame lifecycle (Exec env Q n)"
  by (rule calm_lifecycle) (rule calm_Exec)

lemma lifecycle_get_notifs [frame_intros]: "frame lifecycle (get_notifs env)"
  by (rule calm_lifecycle) (rule calm_get_notifs)

lemma lifecycle_notices [frame_intros]:
  "frame lifecycle (process_notice env m)" "frame lifecycle (process_notice_string env m)"
  by (rule calm_lifecycle, intro keeps_intros)+

lemma lifecycle_pending [frame_intros]:
  "frame lifecycle CheckPendingError" "frame lifecycle (RegisterPendingError e)"
  unfolding CheckPendingError_def RegisterPendingError_def
  by (intro frame_intros frame_modify; simp add: lifecycle_def)+

lemma lifecycle_DirectExec [frame_intros]: "frame lifecycle (DirectExec env Q n)"
  unfolding DirectExec_def by (intro frame_intros)

lemma lifecycle_avoidance [frame_intros]: "frame lifecycle reactivation_avoidance_clear"
  unfolding reactivation_avoidance_clear_def by (intro frame_modify) (simp add: lifecycle_def)

lemma status_frames [keeps_intros]:
  "keeps (status_in X) CheckPendingError" "keeps (status_in X) (DirectExec env Q n)"
  "keeps (status_in X) (process_notice env m)" "keeps (status_in X) (process_notice_string env m)"
  "keeps (status_in X) (get_notifs env)" "keeps (status_in X) reactivation_avoidance_clear"
  by (rule lifecycle_status, intro frame_intros)+

lemma status_calm:
  fixes m :: "('w, 'z, 'a) tprog"
  assumes "\<And>g x d. keeps (calm g x d) m"
  shows "keeps (status_in X) m"
  by (rule lifecycle_status [OF calm_lifecycle [OF assms]])

lemma status_conn [keeps_intros]:
  "keeps (status_in X) (add_reactivation_avoidance_count n)" "keeps (status_in X) (AddVariables vs)"
  by (rule status_calm, intro keeps_intros)+

lemma status_Unregister [keeps_intros]: "keeps (status_in X) (UnregisterTransaction env g)"
  unfolding UnregisterTransaction_def lift_exn_def
  by (intro keeps_intros) (simp add: status_in_def)

lemma status_set [keeps_intros]: "st \<in> X \<Longrightarrow> keeps (status_in X) (set_Status st)"
  unfolding set_Status_def by (intro keeps_intros) (simp add: status_in_def)

lemma status_End_head [keeps_intros]: "keeps (status_in X) (End_head env)"
  unfolding End_head_def by (intro keeps_intros) (simp add: status_in_def)

lemma status_End_guard [keeps_intros]:
  "keeps (status_in X) body \<Longrightarrow> keeps (status_in X) (End_guard env body)"
  unfolding End_guard_def by (intro keeps_intros)

section \<open>How an operation ends\<close>

lemma process_notice_returns:
  "\<exists>n. process_notice env m s = (Inr (), s\<lparr>notices := n\<rparr>)"
  by (auto simp: process_notice_def process_notice_raw_def Let_def bnd_def gets_def skip_def ret_def
      offer_notice_asked intro: exI [of _ "notices s"])

lemma process_notice_string_returns:
  "m \<noteq> [] \<Longrightarrow> \<exists>n. process_notice_string env m s = (Inr (), s\<lparr>notices := n\<rparr>)"
  by (auto simp: process_notice_string_def process_notice_raw_def bnd_def gets_def skip_def ret_def
      offer_notice_asked intro: exI [of _ "notices s"])

definition is_guest :: "('w, 'z) tx_scheme \<Rightarrow> bool" where
  "is_guest s \<longleftrightarrow> (\<exists>h. m_Trans s = Some h \<and> same_object (this_trans s) h)"

lemma is_guest_updates [simp]:
  "is_guest (s\<lparr>m_Status := st\<rparr>) = is_guest s" "is_guest (s\<lparr>m_Vars := v\<rparr>) = is_guest s"
  "is_guest (s\<lparr>notices := n\<rparr>) = is_guest s" "is_guest (s\<lparr>world := w\<rparr>) = is_guest s"
  by (simp_all add: is_guest_def)

lemma UnregisterTransaction_returns:
  "\<exists>n. UnregisterTransaction env (this_trans s) s =
     (Inr (), s\<lparr>notices := n, m_Trans := (if is_guest s then None else m_Trans s)\<rparr>)"
proof (cases "unique_Unregister (Some (this_trans s)) (m_Trans s)")
  case (Inr g)
  then have "is_guest s" "g = None"
    by (auto simp: unique_Unregister_def CheckUniqueUnregistration_def is_guest_def
        split: option.splits sum.splits if_splits)
  then show ?thesis
    using Inr by (intro exI [of _ "notices s"])
      (simp add: UnregisterTransaction_def catch_class_def catch_def bnd_def gets_def lift_exn_def
        ret_def modify_def)
next
  case (Inl e)
  then have e: "caught_as Std_exception e" and g: "\<not> is_guest s"
    by (auto simp: unique_Unregister_def CheckUniqueUnregistration_def is_guest_def
        split: option.splits sum.splits if_splits)
  obtain n where "process_notice env (what e) s = (Inr (), s\<lparr>notices := n\<rparr>)"
    using process_notice_returns by blast
  then show ?thesis
    using Inl e g by (intro exI [of _ n])
      (simp add: UnregisterTransaction_def catch_class_def catch_def bnd_def gets_def lift_exn_def
        throw_def)
qed

definition closed :: "('w, 'z) tx_scheme \<Rightarrow> ('w, 'z) tx_scheme \<Rightarrow> bool" where
  "closed s s' \<longleftrightarrow> (\<exists>n. s' = s\<lparr>notices := n, m_PendingError := [], m_Registered := False,
     m_Trans := (if m_Registered s \<and> is_guest s then None else m_Trans s)\<rparr>)"

lemma same_pending: "m_PendingError s = [] \<Longrightarrow> s\<lparr>m_PendingError := [], notices := notices s\<rparr> = s"
  by (cases s) simp

lemma CheckPendingError_cases:
  "CheckPendingError s =
     (if m_PendingError s = [] then (Inr (), s)
      else (Inl (failure []), s\<lparr>m_PendingError := []\<rparr>))"
  by (simp add: CheckPendingError_def cond_def skip_def ret_def seq_def bnd_def modify_def gets_def
      throw_def)

lemma pending_reported:
  "\<exists>n. catch_std CheckPendingError (\<lambda>e. process_notice env (what e)) s =
     (Inr (), s\<lparr>m_PendingError := [], notices := n\<rparr>)"
proof (cases "m_PendingError s = []")
  case True
  then show ?thesis
    by (intro exI [of _ "notices s"])
      (simp add: catch_class_def catch_def CheckPendingError_cases same_pending)
next
  case False
  then show ?thesis
    using process_notice_returns [of env "what (failure [])" "s\<lparr>m_PendingError := []\<rparr>"]
    by (simp add: catch_class_def catch_def CheckPendingError_cases)
qed

lemma same_unregistered:
  "\<not> m_Registered s \<Longrightarrow> s\<lparr>m_Registered := False, m_Trans := m_Trans s\<rparr> = s"
  by (cases s) simp

lemma End_head_returns: "\<exists>s'. End_head env s = (Inr (), s') \<and> closed s s'"
proof -
  obtain n where n: "catch_std CheckPendingError (\<lambda>e. process_notice env (what e)) s =
      (Inr (), s\<lparr>m_PendingError := [], notices := n\<rparr>)"
    using pending_reported by blast
  let ?s = "s\<lparr>m_PendingError := [], notices := n\<rparr>"
  show ?thesis
  proof (cases "m_Registered s")
    case True
    obtain k where "UnregisterTransaction env (this_trans (?s\<lparr>m_Registered := False\<rparr>)) (?s\<lparr>m_Registered := False\<rparr>) =
        (Inr (), ?s\<lparr>m_Registered := False, notices := k,
          m_Trans := (if is_guest (?s\<lparr>m_Registered := False\<rparr>) then None else m_Trans s)\<rparr>)"
      using UnregisterTransaction_returns [of env "?s\<lparr>m_Registered := False\<rparr>"]
      by (auto cong: if_cong)
    moreover have "is_guest (?s\<lparr>m_Registered := False\<rparr>) = is_guest s"
      by (simp add: is_guest_def)
    ultimately show ?thesis
      using True by (auto simp: End_head_def seq_def bnd_def n cond_def modify_def gets_def closed_def
          intro!: exI [of _ k])
  next
    case False
    then have "End_head env s = (Inr (), ?s)"
      by (simp add: End_head_def seq_def bnd_def n cond_def skip_def ret_def)
    moreover have "closed s ?s"
      unfolding closed_def using False by (intro exI [of _ n]) (cases s; simp)
    ultimately show ?thesis by blast
  qed
qed

lemma End_closed_returns: "\<exists>s'. End_closed env s = (Inr (), s') \<and> closed s s'"
  using End_head_returns [of env s]
  by (auto simp: End_closed_def End_guard_def catch_class_def catch_def)

lemma closed_fields:
  "closed s s' \<Longrightarrow> m_Status s' = m_Status s \<and> \<not> m_Registered s' \<and> m_PendingError s' = [] \<and>
     m_Focus s' = m_Focus s \<and> this_trans s' = this_trans s \<and> world s' = world s \<and> m_Conn s' = m_Conn s \<and>
     m_Trans s' = (if m_Registered s \<and> is_guest s then None else m_Trans s) \<and>
     m_Vars s' = m_Vars s \<and> tx_Vars s' = tx_Vars s \<and> tx_avoidance s' = tx_avoidance s \<and>
     m_reactivation_avoidance s' = m_reactivation_avoidance s"
  by (auto simp: closed_def)

text \<open>A transaction that is not active is only unregistered by \<open>End\<close>.\<close>

lemma End_not_active:
  assumes "m_Status s \<noteq> st_active"
  shows "End env ab s = End_closed env s"
proof -
  obtain s' where "End_head env s = (Inr (), s')" "closed s s'"
    using End_head_returns by blast
  then show ?thesis
    using assms closed_fields [of s s']
    by (simp add: End_def End_closed_def End_guard_def catch_class_def catch_def seq_def bnd_def
        cond_def skip_def ret_def)
qed

section \<open>The contract of the hooks\<close>

locale transaction_hooks =
  fixes env :: "'w env" and h :: "('w, 'z) hooks"
  assumes begin_frame: "frame lifecycle (do_begin h)"
    and commit_frame: "frame lifecycle (do_commit h)"
    and abort_frame: "frame lifecycle (do_abort h)"
    and exec_moves: "st_aborted \<in> X \<Longrightarrow> keeps (status_in X) (do_exec h Q)"
begin

lemma hook_status:
  "keeps (status_in X) (do_begin h)" "keeps (status_in X) (do_commit h)"
  "keeps (status_in X) (do_abort h)"
  by (rule lifecycle_status, rule begin_frame commit_frame abort_frame)+

lemma abort_status: "st_aborted \<in> X \<Longrightarrow> keeps (status_in X) (abort env (do_abort h))"
  unfolding abort_def End_closed_def by (intro keeps_intros hook_status)

lemma End_status: "st_aborted \<in> X \<Longrightarrow> keeps (status_in X) (End env (do_abort h))"
  unfolding End_def by (intro keeps_intros abort_status)

lemma Begin_status:
  "st_aborted \<in> X \<Longrightarrow> st_active \<in> X \<Longrightarrow> keeps (status_in X) (Begin env (do_begin h) (do_abort h))"
  unfolding Begin_def by (intro keeps_intros End_status hook_status)

lemma tx_activate_status:
  "st_aborted \<in> X \<Longrightarrow> st_active \<in> X \<Longrightarrow>
   keeps (status_in X) (tx_activate env (do_begin h) (do_abort h))"
  unfolding tx_activate_def by (intro keeps_intros Begin_status)

lemma exec_status:
  "st_aborted \<in> X \<Longrightarrow> st_active \<in> X \<Longrightarrow> keeps (status_in X) (exec env h Q D)"
  unfolding exec_def by (intro keeps_intros tx_activate_status exec_moves)

lemma commit_status:
  "st_aborted \<in> X \<Longrightarrow> st_committed \<in> X \<Longrightarrow> st_in_doubt \<in> X \<Longrightarrow> keeps (status_in X) (commit env h)"
  unfolding commit_def by (intro keeps_intros hook_status End_status)

end

section \<open>The state machine\<close>

text \<open>The steps of the life cycle that \<^verbatim>\<open>transaction_base.hxx\<close> describes.\<close>

inductive advance :: "status \<Rightarrow> status \<Rightarrow> bool" where
  begun: "advance st_nascent st_active"
| given_up: "advance st_nascent st_aborted"
| aborting: "advance st_active st_aborted"
| committing: "advance st_active st_committed"
| doubting: "advance st_active st_in_doubt"

inductive_cases advance_from_closed:
  "advance st_aborted st" "advance st_committed st" "advance st_in_doubt st"

inductive_simps advance_from: "advance st_nascent st" "advance st_active st"

lemma closed_absorbing:
  assumes "advance\<^sup>*\<^sup>* st st'" "st \<in> {st_aborted, st_committed, st_in_doubt}"
  shows "st' = st"
  using assms by (induction rule: rtranclp_induct) (auto elim: advance_from_closed)

text \<open>The calls a user makes on a transaction; an exception does not end the object.\<close>

datatype call = Call_exec string string | Call_activate | Call_commit | Call_abort | Call_end

definition perform_call :: "'w env \<Rightarrow> ('w, 'z) hooks \<Rightarrow> call \<Rightarrow> ('w, 'z, unit) tprog" where
  "perform_call env h c = (case c of
     Call_exec Q D \<Rightarrow> bnd (exec env h Q D) (\<lambda>_. skip)
   | Call_activate \<Rightarrow> tx_activate env (do_begin h) (do_abort h)
   | Call_commit \<Rightarrow> commit env h
   | Call_abort \<Rightarrow> abort env (do_abort h)
   | Call_end \<Rightarrow> End env (do_abort h))"

definition after_calls ::
  "'w env \<Rightarrow> ('w, 'z) hooks \<Rightarrow> call list \<Rightarrow> ('w, 'z) tx_scheme \<Rightarrow> ('w, 'z) tx_scheme" where
  "after_calls env h cs s = fold (\<lambda>c s. snd (perform_call env h c s)) cs s"

definition over :: "status set" where
  "over = {st_aborted, st_committed, st_in_doubt}"

text \<open>On a closed transaction every call leaves the state as it is.\<close>

lemma closed_calls:
  assumes "m_Status s \<in> over"
  shows "m_Status (snd (perform_call env h c s)) = m_Status s"
proof -
  let ?I = "status_in {m_Status s}"
  have pend: "m_Status (snd (CheckPendingError s)) = m_Status s"
    by (simp add: CheckPendingError_cases)
  have notice: "m_Status (snd (process_notice_string env m s')) = m_Status s'" for m s'
    using keepsD [OF status_frames(4), of "{m_Status s'}" s' env m] by (simp add: status_in_def)
  have endd: "m_Status (snd (End env ab s)) = m_Status s" for ab
    using assms End_not_active [of s env ab] End_closed_returns [of env s] closed_fields
    by (fastforce simp: over_def)
  have act: "\<exists>e. tx_activate env b a s' = (Inl e, s')" if "m_Status s' \<in> over" for a b s'
    using that by (auto simp: tx_activate_def over_def bnd_def gets_def throw_def)
  have ex: "m_Status (snd (exec env h Q D s)) = m_Status s" for Q D
  proof (cases "m_PendingError s = [] \<and> m_Focus s = None")
    case True
    obtain e where "tx_activate env (do_begin h) (do_abort h) s = (Inl e, s)"
      using act [OF assms] by blast
    with True show ?thesis
      by (simp add: exec_def Let_def seq_def bnd_def gets_def CheckPendingError_cases skip_def ret_def
          catch_class_def catch_def throw_def)
  next
    case False
    then show ?thesis
      by (auto simp: exec_def Let_def seq_def bnd_def gets_def CheckPendingError_cases skip_def ret_def
          throw_def)
  qed
  have com: "m_Status (snd (commit env h s)) = m_Status s"
    using assms notice [of _ s]
    by (auto simp: commit_def over_def seq_def bnd_def gets_def CheckPendingError_cases throw_def)
  have ab: "m_Status (snd (abort env x s)) = m_Status s" for x
    using assms notice [of _ s]
    by (auto simp: abort_def over_def bnd_def gets_def throw_def skip_def ret_def)
  show ?thesis
    using endd ex com ab act [OF assms, of "do_begin h" "do_abort h"] ex
    by (cases c) (auto simp: perform_call_def)
qed

context transaction_hooks
begin

lemma call_advances: "advance\<^sup>*\<^sup>* (m_Status s) (m_Status (snd (perform_call env h c s)))"
proof (cases "m_Status s \<in> over")
  case True
  then show ?thesis by (simp add: closed_calls)
next
  case False
  define X where "X = (if m_Status s = st_nascent then {st_nascent, st_active, st_aborted}
    else {st_active, st_aborted, st_committed, st_in_doubt})"
  have st: "m_Status s = st_nascent \<or> m_Status s = st_active"
    using False by (cases "m_Status s") (simp_all add: over_def)
  have in_X: "m_Status s \<in> X" "st_aborted \<in> X" "st_active \<in> X"
    using st by (auto simp: X_def)
  have steps: "advance\<^sup>*\<^sup>* (m_Status s) st'" if "st' \<in> X" for st'
    using that st by (auto simp: X_def split: if_splits intro: advance.intros)
  show ?thesis
  proof (cases "c = Call_commit \<and> m_Status s = st_nascent")
    case True
    then show ?thesis
      by (auto simp: perform_call_def commit_def seq_def bnd_def gets_def
          CheckPendingError_cases skip_def ret_def)
  next
    case False
    have com: "keeps (status_in X) (commit env h)" if "c = Call_commit"
      using False st that by (intro commit_status) (auto simp: X_def)
    have "keeps (status_in X) (perform_call env h c)"
      using in_X com
      by (cases c) (simp_all add: perform_call_def keeps_bnd exec_status keeps_skip
          tx_activate_status abort_status End_status)
    then have "m_Status (snd (perform_call env h c s)) \<in> X"
      using keepsD in_X(1) by (fastforce simp: status_in_def)
    then show ?thesis
      by (rule steps)
  qed
qed

lemma calls_advance: "advance\<^sup>*\<^sup>* (m_Status s) (m_Status (after_calls env h cs s))"
  unfolding after_calls_def
proof (induction cs arbitrary: s)
  case (Cons c cs)
  show ?case
    using rtranclp_trans [OF call_advances [of s c] Cons.IH] by simp
qed simp

end

section \<open>The concrete classes keep the contract\<close>

lemma db_exec_moves:
  assumes "frame lifecycle ab" "st_aborted \<in> X"
  shows "keeps (status_in X) (db_exec env ab Q)"
  unfolding db_exec_def abort_def End_closed_def
  by (intro keeps_intros lifecycle_status [OF assms(1)] assms(2))

lemma lifecycle_parent [frame_intros]:
  "frame lifecycle (modify (\<lambda>s. s\<lparr>tx_avoidance := a\<rparr>))"
  "frame lifecycle (modify (\<lambda>s. s\<lparr>parent_avoidance := parent_avoidance s + n\<rparr>))"
  by (intro frame_modify; simp add: lifecycle_def)+

lemma frame_case_prod [frame_intros]: "(\<And>x y. frame f (b x y)) \<Longrightarrow> frame f (case_prod b t)"
  by (cases t) simp

lemma frame_Let [frame_intros]: "(\<And>x. frame f (k x)) \<Longrightarrow> frame f (Let v k)"
  by simp

lemma lifecycle_db [frame_intros]:
  "frame lifecycle (db_begin env)" "frame lifecycle (db_abort env)" "frame lifecycle (basic_commit env)"
  unfolding db_begin_def db_abort_def basic_commit_def by (intro frame_intros)+

lemma lifecycle_sub [frame_intros]:
  "frame lifecycle (sub_begin env)" "frame lifecycle (sub_commit env)" "frame lifecycle (sub_abort env)"
  unfolding sub_begin_def sub_commit_def sub_abort_def by (intro frame_intros)+

interpretation basic: transaction_hooks env "basic_hooks env" for env
  by unfold_locales (simp_all add: basic_hooks_def lifecycle_db db_exec_moves)

interpretation non: transaction_hooks env "non_hooks env" for env
  by unfold_locales (simp_all add: non_hooks_def frame_skip status_frames)

interpretation sub: transaction_hooks env "sub_hooks env" for env
  by unfold_locales (simp_all add: sub_hooks_def lifecycle_sub db_exec_moves)

lemma commit_outcome:
  assumes "m_Status s = st_active" "m_PendingError s = []" "m_Focus s = None" "is_open env s"
  shows "(\<exists>s1. do_commit h s = (Inr (), s1) \<and> (\<exists>s'. commit env h s = (Inr (), s') \<and>
      closed (s1\<lparr>m_Status := st_committed,
        m_Vars := fold (\<lambda>(k, v). omap_put string_less k v) (tx_Vars s1) (m_Vars s1)\<rparr>) s')) \<or>
    (\<exists>e s1. do_commit h s = (Inl e, s1) \<and> commit env h s = (Inl e,
       if caught_as In_doubt_error e then s1\<lparr>m_Status := st_in_doubt\<rparr>
       else if caught_as Std_exception e then s1\<lparr>m_Status := st_aborted\<rparr> else s1))"
proof (cases "do_commit h s")
  case (Pair r s1)
  have head: "commit env h s =
     seq (catch (seq (do_commit h) (set_Status st_committed))
            (\<lambda>e. if caught_as In_doubt_error e then seq (set_Status st_in_doubt) (throw e)
                 else if caught_as Std_exception e then seq (set_Status st_aborted) (throw e)
                 else throw e))
       (seq (bnd (gets tx_Vars) AddVariables) (End env (do_abort h))) s"
    using assms
    by (simp add: commit_def seq_def bnd_def gets_def CheckPendingError_cases skip_def ret_def cond_def)
  show ?thesis
  proof (cases r)
    case (Inl e)
    then show ?thesis
      using Pair head
      by (auto simp: seq_def bnd_def catch_def set_Status_def modify_def throw_def)
  next
    case (Inr u)
    let ?s2 = "s1\<lparr>m_Status := st_committed,
        m_Vars := fold (\<lambda>(k, v). omap_put string_less k v) (tx_Vars s1) (m_Vars s1)\<rparr>"
    obtain s' where s': "End_closed env ?s2 = (Inr (), s')" "closed ?s2 s'"
      using End_closed_returns by blast
    have "commit env h s = End env (do_abort h) ?s2"
      using Pair Inr head
      by (simp add: seq_def bnd_def catch_def set_Status_def modify_def gets_def AddVariables_def)
    then have "commit env h s = (Inr (), s')"
      using s' End_not_active [of ?s2 env "do_abort h"] by simp
    with Pair Inr s' show ?thesis by auto
  qed
qed

section \<open>Properties\<close>

text \<open>
  C1: whatever calls a program makes on a transaction, in whatever order and with whatever
  failures, its status only moves along the documented life cycle; in particular a committed,
  aborted or in-doubt transaction stays what it is. For plain transactions,
  nontransactions and subtransactions.
\<close>

theorem status_follows_life_cycle:
  "advance\<^sup>*\<^sup>* (m_Status s) (m_Status (after_calls env (basic_hooks env) cs s)) \<and>
   advance\<^sup>*\<^sup>* (m_Status s) (m_Status (after_calls env (non_hooks env) cs s)) \<and>
   advance\<^sup>*\<^sup>* (m_Status s) (m_Status (after_calls env (sub_hooks env) cs s))"
  by (intro conjI basic.calls_advance non.calls_advance sub.calls_advance)

text \<open>
  C17: committing an active transaction with no pending error, no open focus and a live
  connection has exactly the outcomes its commit hook decides: success commits, unregisters
  the transaction and hands its variables to the session; an in-doubt failure leaves the
  transaction in doubt; any other failure leaves it aborted; the exception is passed on.
\<close>

theorem commit_of_active_transaction:
  assumes "m_Status s = st_active" "m_PendingError s = []" "m_Focus s = None" "is_open env s"
  shows "(\<exists>s1. do_commit h s = (Inr (), s1) \<and> (\<exists>s'. commit env h s = (Inr (), s') \<and>
      closed (s1\<lparr>m_Status := st_committed,
        m_Vars := fold (\<lambda>(k, v). omap_put string_less k v) (tx_Vars s1) (m_Vars s1)\<rparr>) s')) \<or>
    (\<exists>e s1. do_commit h s = (Inl e, s1) \<and> commit env h s = (Inl e,
       if caught_as In_doubt_error e then s1\<lparr>m_Status := st_in_doubt\<rparr>
       else if caught_as Std_exception e then s1\<lparr>m_Status := st_aborted\<rparr> else s1))"
  by (rule commit_outcome [OF assms])

definition sample_tx :: "'w \<Rightarrow> status \<Rightarrow> 'w tx" where
  "sample_tx w st = (new_tx ((open_conn w)\<lparr>m_Trans := Some \<lparr>addr = 1, classname = ''work'', name = []\<rparr>\<rparr>)
     \<lparr>addr = 1, classname = ''work'', name = []\<rparr> ''BEGIN'')\<lparr>m_Status := st, m_Registered := True\<rparr>"

lemma sample_tx_simps [simp]:
  "m_Status (sample_tx w st) = st" "m_PendingError (sample_tx w st) = []"
  "m_Focus (sample_tx w st) = None" "is_open quiet_env (sample_tx w st)"
  "m_Registered (sample_tx w st)" "is_guest (sample_tx w st)" "m_Trans (sample_tx w st) \<noteq> None"
  "world (sample_tx w st) = w" "m_Conn (sample_tx w st) = Some 1" "tx_avoidance (sample_tx w st) = 0"
  by (simp_all add: sample_tx_def new_tx_def conn.extend_def open_conn_def connection_base_def is_open_def
      Status_def quiet_env_def is_guest_def same_object_def)

theorem commit_of_active_transaction_witness:
  "\<exists>s'. commit quiet_env (non_hooks quiet_env) (sample_tx () st_active) = (Inr (), s') \<and>
     m_Status s' = st_committed \<and> m_Trans s' = None"
proof -
  let ?s = "sample_tx () st_active"
  have "do_commit (non_hooks quiet_env) ?s = (Inr (), ?s)"
    by (simp add: non_hooks_def skip_def ret_def)
  moreover have "(\<exists>s1. do_commit (non_hooks quiet_env) ?s = (Inr (), s1) \<and>
     (\<exists>s'. commit quiet_env (non_hooks quiet_env) ?s = (Inr (), s') \<and>
      closed (s1\<lparr>m_Status := st_committed,
        m_Vars := fold (\<lambda>(k, v). omap_put string_less k v) (tx_Vars s1) (m_Vars s1)\<rparr>) s')) \<or>
    (\<exists>e s1. do_commit (non_hooks quiet_env) ?s = (Inl e, s1) \<and>
      commit quiet_env (non_hooks quiet_env) ?s = (Inl e,
       if caught_as In_doubt_error e then s1\<lparr>m_Status := st_in_doubt\<rparr>
       else if caught_as Std_exception e then s1\<lparr>m_Status := st_aborted\<rparr> else s1))"
    by (rule commit_of_active_transaction) simp_all
  ultimately obtain s' where "commit quiet_env (non_hooks quiet_env) ?s = (Inr (), s')"
    "closed (?s\<lparr>m_Status := st_committed,
        m_Vars := fold (\<lambda>(k, v). omap_put string_less k v) (tx_Vars ?s) (m_Vars ?s)\<rparr>) s'"
    by auto
  then show ?thesis
    using closed_fields [of "?s\<lparr>m_Status := st_committed,
        m_Vars := fold (\<lambda>(k, v). omap_put string_less k v) (tx_Vars ?s) (m_Vars ?s)\<rparr>" s'] by auto
qed

lemma same_notices [simp]: "s\<lparr>notices := notices s\<rparr> = s"
  by (cases s) simp

text \<open>
  In every other situation a commit does nothing or refuses: it never reaches the
  backend, and the transaction object stays as it is (a second commit only leaves a notice).
\<close>

theorem commit_refused:
  assumes "m_PendingError s = []"
    and "m_Status s \<noteq> st_active \<or> m_Focus s \<noteq> None \<or> \<not> is_open env s"
  shows "\<exists>n. snd (commit env h s) = s\<lparr>notices := n\<rparr> \<and>
    (case m_Status s of
       st_nascent \<Rightarrow> fst (commit env h s) = Inr ()
     | st_committed \<Rightarrow> fst (commit env h s) = Inr ()
     | st_aborted \<Rightarrow> \<exists>e. fst (commit env h s) = Inl e \<and> cls e = Usage_error
     | st_in_doubt \<Rightarrow> \<exists>e. fst (commit env h s) = Inl e \<and> cls e = In_doubt_error
     | st_active \<Rightarrow> \<exists>e. fst (commit env h s) = Inl e \<and>
         cls e = (if m_Focus s \<noteq> None then Failure else Broken_connection))"
proof (cases "m_Status s")
  case st_committed
  obtain n where "process_notice_string env (tx_description s @ '' committed more than once'' @ nl) s =
      (Inr (), s\<lparr>notices := n\<rparr>)"
    using process_notice_string_returns [of "tx_description s @ '' committed more than once'' @ nl" env s]
    by auto
  with st_committed assms show ?thesis
    by (intro exI [of _ n])
      (simp add: commit_def seq_def bnd_def gets_def CheckPendingError_cases)
next
  case st_active
  have "commit env h s = (Inl (if m_Focus s \<noteq> None then failure (''Attempt to commit '' @
           tx_description s @ '' with '' @ description (the (m_Focus s)) @ '' still open'')
         else broken_connection (''Broken connection to backend; '' @ ''cannot complete transaction'')), s)"
    using assms st_active
    by (auto simp: commit_def seq_def bnd_def gets_def CheckPendingError_cases skip_def ret_def cond_def
        throw_def)
  with st_active show ?thesis
    by (intro exI [of _ "notices s"]) (simp add: failure_def broken_connection_def plain_def)
qed (use assms(1) in \<open>simp_all add: commit_def seq_def bnd_def gets_def CheckPendingError_cases skip_def
       ret_def throw_def usage_error_def in_doubt_error_def plain_def exI [of _ "notices s"]\<close>)

theorem commit_refused_witness:
  "\<exists>e. fst (commit quiet_env (basic_hooks quiet_env) (sample_tx () st_in_doubt)) = Inl e \<and>
     cls e = In_doubt_error"
  using commit_refused [of "sample_tx () st_in_doubt" quiet_env "basic_hooks quiet_env"] by simp

text \<open>
  C28: aborting an active transaction always succeeds, whatever the abort hook raises of the
  standard exceptions: it ends aborted and unregistered, and aborting it again does nothing.
\<close>

theorem abort_of_active_transaction:
  assumes "m_Status s = st_active" "frame lifecycle ab" "is_guest s"
    and "\<And>e. fst (ab s) = Inl e \<Longrightarrow> caught_as Std_exception e"
  shows "\<exists>s'. abort env ab s = (Inr (), s') \<and> m_Status s' = st_aborted \<and> \<not> m_Registered s' \<and>
    (m_Registered s \<longrightarrow> m_Trans s' = None) \<and> abort env ab s' = (Inr (), s')"
proof -
  have swallow: "catch_std ab (\<lambda>_. skip) s = (Inr (), snd (ab s))"
    using assms(4) by (auto simp: catch_class_def catch_def skip_def ret_def split: prod.splits sum.splits)
  let ?s1 = "(snd (ab s))\<lparr>m_Status := st_aborted\<rparr>"
  obtain s' where s': "End_closed env ?s1 = (Inr (), s')" "closed ?s1 s'"
    using End_closed_returns by blast
  have "abort env ab s = (Inr (), s')"
    using assms(1) swallow s'(1)
    by (simp add: abort_def bnd_def gets_def seq_def set_Status_def modify_def)
  moreover have "lifecycle (snd (ab s)) = lifecycle s"
    by (rule frameD [OF assms(2)])
  moreover have "m_Status s' = st_aborted"
    using closed_fields [OF s'(2)] by simp
  moreover have "abort env ab s' = (Inr (), s')"
    using calculation(3) by (simp add: abort_def bnd_def gets_def skip_def ret_def)
  ultimately show ?thesis
    using closed_fields [OF s'(2)] assms(3) by (auto simp: lifecycle_def is_guest_def)
qed

theorem abort_of_active_transaction_witness:
  "\<exists>s'. abort quiet_env skip (sample_tx () st_active) = (Inr (), s') \<and> m_Status s' = st_aborted \<and>
     \<not> m_Registered s' \<and> (m_Registered (sample_tx () st_active) \<longrightarrow> m_Trans s' = None) \<and>
     abort quiet_env skip s' = (Inr (), s')"
  by (rule abort_of_active_transaction) (simp_all add: skip_def frame_ret, simp add: ret_def)

text \<open>
  C31: a query that fails in a database transaction takes the transaction down: when the call
  ends with an ordinary exception it is the query's own, and the transaction is aborted.
\<close>

theorem failed_query_aborts:
  assumes "m_Status s = st_active" "frame lifecycle ab"
    and "fst (db_exec env ab Q s) = Inl e" "caught_as Std_exception e"
  shows "fst (DirectExec env Q 0 s) = Inl e \<and> m_Status (snd (db_exec env ab Q s)) = st_aborted"
proof (cases "DirectExec env Q 0 s")
  case (Pair r s1)
  have st: "m_Status s1 = st_active"
    using frameD [OF lifecycle_DirectExec, of env Q 0 s] assms(1) Pair by (simp add: lifecycle_def)
  show ?thesis
  proof (cases r)
    case (Inr R)
    with Pair assms(3) show ?thesis
      by (simp add: db_exec_def catch_class_def catch_def)
  next
    case (Inl e1)
    show ?thesis
    proof (cases "caught_as Std_exception e1")
      case False
      with Pair Inl assms(3,4) show ?thesis
        by (simp add: db_exec_def catch_class_def catch_def throw_def)
    next
      case True
      obtain ra s2 where ab: "ab s1 = (ra, s2)" by (cases "ab s1")
      obtain s3 where s3: "End_closed env (s2\<lparr>m_Status := st_aborted\<rparr>) = (Inr (), s3)"
          "closed (s2\<lparr>m_Status := st_aborted\<rparr>) s3"
        using End_closed_returns by blast
      have "m_Status s3 = st_aborted"
        using closed_fields [OF s3(2)] by simp
      with Pair Inl True ab s3(1) st assms(3,4) show ?thesis
        by (auto simp: db_exec_def catch_class_def catch_def seq_def bnd_def throw_def abort_def gets_def
            set_Status_def modify_def skip_def ret_def split: sum.splits if_splits)
    qed
  qed
qed

theorem failed_query_aborts_witness:
  "let s = (sample_tx () st_active)\<lparr>m_PendingError := ''lost''\<rparr> in
   fst (DirectExec quiet_env ''SELECT 1'' 0 s) = Inl (failure []) \<and>
   m_Status (snd (db_exec quiet_env skip ''SELECT 1'' s)) = st_aborted"
proof -
  let ?s = "(sample_tx () st_active)\<lparr>m_PendingError := ''lost''\<rparr>"
  have d: "DirectExec quiet_env ''SELECT 1'' 0 ?s = (Inl (failure []), ?s\<lparr>m_PendingError := []\<rparr>)"
    by (simp add: DirectExec_def seq_def bnd_def CheckPendingError_cases)
  obtain s' where s': "End_closed quiet_env (?s\<lparr>m_PendingError := [], m_Status := st_aborted\<rparr>) = (Inr (), s')"
    using End_closed_returns by blast
  have "fst (db_exec quiet_env skip ''SELECT 1'' ?s) = Inl (failure [])"
    using s' by (simp add: db_exec_def catch_class_def catch_def d seq_def bnd_def throw_def abort_def
        gets_def skip_def ret_def set_Status_def modify_def)
  then show ?thesis
    unfolding Let_def by (intro failed_query_aborts) (simp_all add: frame_skip)
qed

text \<open>
  An error that an open stream or pipeline left behind is reported once, but its message
  is lost: the next call on the transaction raises a \<open>failure\<close> with an empty message,
  whatever the registered error said, and the one after that knows nothing of it.
\<close>

theorem pending_error_message_lost:
  assumes "m_PendingError s \<noteq> []"
  shows "exec env h Q D s = (Inl (failure []), s\<lparr>m_PendingError := []\<rparr>) \<and>
    commit env h s = (Inl (failure []), s\<lparr>m_PendingError := []\<rparr>) \<and>
    DirectExec env Q n s = (Inl (failure []), s\<lparr>m_PendingError := []\<rparr>)"
  using assms
  by (simp add: exec_def Let_def commit_def DirectExec_def seq_def bnd_def CheckPendingError_cases)

theorem pending_error_message_lost_witness:
  "let s = snd (RegisterPendingError ''disk full'' (sample_tx () st_active)) in
   commit quiet_env (basic_hooks quiet_env) s = (Inl (failure []), s\<lparr>m_PendingError := []\<rparr>)"
  unfolding Let_def
  by (rule conjunct1 [OF conjunct2 [OF pending_error_message_lost]])
    (simp add: RegisterPendingError_def modify_def)



text \<open>
  A parameterized statement runs without starting its transaction: unlike a plain or a
  prepared one it leaves a transaction that has not begun in that state.
\<close>

theorem parameterized_does_not_begin:
  "m_Status (snd (parameterized_invocation_exec env Q p s)) = m_Status s"
proof -
  have "frame lifecycle (parameterized_exec env Q k ps)" for k ps
    by (rule calm_lifecycle) (rule calm_parameterized_exec)
  then have "frame lifecycle (parameterized_invocation_exec env Q p)"
    unfolding parameterized_invocation_exec_def by (intro frame_intros)
  from frameD [OF this, of s] show ?thesis
    by (simp add: lifecycle_def)
qed

definition given_parameters :: "(string \<times> bool \<times> bool) list \<Rightarrow> statement_parameters" where
  "given_parameters ps = fold (\<lambda>(v, nn, bin). add_checked_param v nn bin) ps no_parameters"

lemma given_parameters_fields:
  "m_nonnull (fold (\<lambda>(v, nn, bin). add_checked_param v nn bin) ps p) = m_nonnull p @ map (fst \<circ> snd) ps"
  "m_values (fold (\<lambda>(v, nn, bin). add_checked_param v nn bin) ps p) =
     m_values p @ map fst (filter (fst \<circ> snd) ps)"
  "m_binary (fold (\<lambda>(v, nn, bin). add_checked_param v nn bin) ps p) = m_binary p @ map (snd \<circ> snd) ps"
  by (induction ps arbitrary: p) (auto simp: add_checked_param_def)

lemma marshall_from_given:
  "marshall_from (map fst (filter (fst \<circ> snd) ps)) (map (fst \<circ> snd) ps) =
     map (\<lambda>(v, nn, bin). if nn then (Some (c_str v), convert int_t (int (length v))) else (None, 0)) ps"
proof (induction ps)
  case (Cons p ps)
  obtain v nn bin where "p = (v, nn, bin)" by (cases p)
  with Cons show ?case by (cases nn) simp_all
qed simp

text \<open>
  The parameters of a statement reach libpq one for one and in order: each position has
  its value and length, or null, and its format, followed by one closing entry.
\<close>

theorem parameters_marshalled_in_order:
  "marshall (given_parameters ps) = (length ps,
     map (\<lambda>(v, nn, bin). if nn then Some (c_str v) else None) ps @ [None],
     map (\<lambda>(v, nn, bin). if nn then convert int_t (int (length v)) else 0) ps @ [0],
     map (\<lambda>(v, nn, bin). if bin then 1 else 0) ps @ [0])"
  by (auto simp: marshall_def given_parameters_def given_parameters_fields no_parameters_def Let_def
      marshall_from_given intro!: map_cong)

text \<open>
  Committing a subtransaction hands its count of reconnection-blocking resources over to
  its parent; a failed commit loses the count instead of keeping it.
\<close>

theorem subtransaction_hands_over_avoidance:
  "parent_avoidance (snd (sub_commit env s)) =
     parent_avoidance s + (case fst (sub_commit env s) of Inr _ \<Rightarrow> tx_avoidance s | Inl _ \<Rightarrow> 0) \<and>
   tx_avoidance (snd (sub_commit env s)) = 0"
proof -
  let ?s = "s\<lparr>tx_avoidance := 0\<rparr>" and ?q = "''RELEASE SAVEPOINT '' @ dquoted (name (this_trans s))"
  obtain r s1 where r: "DirectExec env ?q 0 ?s = (r, s1)"
    by (cases "DirectExec env ?q 0 ?s")
  have "frame (\<lambda>s. (tx_avoidance s, parent_avoidance s)) CheckPendingError"
    by (intro frameI) (simp add: CheckPendingError_cases)
  moreover have "frame (\<lambda>s. (tx_avoidance s, parent_avoidance s)) (Exec env ?q 0)"
    using tx_fields_more calmD(2) [OF calm_Exec] by (intro frameI) blast
  ultimately have "tx_avoidance s1 = 0 \<and> parent_avoidance s1 = parent_avoidance s"
    using frameD [OF frame_seq, of "\<lambda>s. (tx_avoidance s, parent_avoidance s)" CheckPendingError
        "Exec env ?q 0" ?s] r by (simp add: DirectExec_def)
  then show ?thesis
    using r by (cases r) (simp_all add: sub_commit_def bnd_def gets_def seq_def modify_def skip_def ret_def)
qed

end
