(* ===== verification/Robust.thy ===== *)
theory Robust
  imports Transaction_Facts
begin

text \<open>
  \<^verbatim>\<open>basic_robusttransaction\<close> (\<^verbatim>\<open>src/robusttransaction.cxx\<close>): a transaction that leaves a record
  in a log table before it begins and deletes it as part of its work, so that after a
  connection lost during the commit the record tells what happened. The pauses between two
  polls of the old backend are not modelled.
\<close>

section \<open>State\<close>

record 'w robust = "'w tx" +
  m_record_id :: int
  m_xid :: string
  m_LogTable :: string
  m_sequence :: string
  m_backendpid :: int

type_synonym ('w, 'z, 'a) rprog = "(('w, 'z) robust_scheme, 'a) cxx"

definition robust_init :: "string \<Rightarrow> ('w, 'z, unit) rprog" where
  "robust_init table_name =
     modify (\<lambda>s. let t = (if table_name = [] then ''pqxx_robusttransaction_log'' else table_name) in
       s\<lparr>m_record_id := 0, m_xid := [], m_LogTable := t, m_sequence := t @ ''_seq'', m_backendpid := -1\<rparr>)"

text \<open>\<^verbatim>\<open>R[0][0]\<close> has no meaning on a result without rows or columns.\<close>

definition first_field :: "result \<Rightarrow> exn + field" where
  "first_field R =
     (if result_size R = 0 \<or> result_columns R = 0 then Inl undefined_behaviour
      else Inr (row_nth (result_nth R 0) 0))"

definition read_first :: "(string \<Rightarrow> exn + 'a) \<Rightarrow> result \<Rightarrow> exn + 'a option" where
  "read_first conv R = (case first_field R of Inl e \<Rightarrow> Inl e | Inr f \<Rightarrow> field_to conv f)"

definition run :: "'w env \<Rightarrow> string \<Rightarrow> int \<Rightarrow> ('w, 'z, unit) tprog" where
  "run env Q n = bnd (DirectExec env Q n) (\<lambda>_. skip)"

section \<open>The transaction record\<close>

definition CreateLogTable :: "'w env \<Rightarrow> ('w, 'z, unit) rprog" where
  "CreateLogTable env =
     bnd (gets (\<lambda>s. (m_LogTable s, m_sequence s))) (\<lambda>(t, q).
       seq (catch_std
              (run env (''CREATE TABLE '' @ dquoted t @ '' (id INTEGER NOT NULL, username VARCHAR(256), '' @
                 ''transaction_id xid, name VARCHAR(256), date TIMESTAMP NOT NULL)'') 1)
              (\<lambda>e. process_notice_string env (''Could not create transaction log table: '' @ what e)))
           (catch_std (run env (''CREATE SEQUENCE '' @ q) 0)
              (\<lambda>e. process_notice_string env (''Could not create transaction log sequence: '' @ what e))))"

definition CreateTransactionRecord :: "'w env \<Rightarrow> ('w, 'z, unit) rprog" where
  "CreateTransactionRecord env =
     bnd (gets (\<lambda>s. (m_LogTable s, m_sequence s, name (this_trans s)))) (\<lambda>(t, q, nm).
       seq (run env (''DELETE FROM '' @ t @ '' WHERE date < CURRENT_TIMESTAMP - '' @ quoted ''30 days'' @
              ''::interval'') 0)
       (seq (bnd (quote env (Some q)) (\<lambda>qq. bnd (DirectExec env (''SELECT nextval('' @ qq @ '')'') 0) (\<lambda>R.
              bnd (lift_exn (read_first (from_string_integer ulong_t) R)) (\<lambda>v.
                modify (\<lambda>s. s\<lparr>m_record_id := (case v of None \<Rightarrow> m_record_id s | Some i \<Rightarrow> i)\<rparr>)))))
       (bnd (gets m_record_id) (\<lambda>i.
        bnd (bnd (username env) (\<lambda>u. quote env (Some u))) (\<lambda>u.
        bnd (if nm = [] then ret ''NULL'' else quote env (Some nm)) (\<lambda>n.
          run env (''INSERT INTO '' @ dquoted t @ '' (id, username, name, date) VALUES ('' @
            to_string_ulong i @ '', '' @ u @ '', '' @ n @ '', CURRENT_TIMESTAMP)'') 0))))))"

definition sql_delete :: "('w, 'z) robust_scheme \<Rightarrow> string" where
  "sql_delete s = ''DELETE FROM '' @ dquoted (m_LogTable s) @ '' WHERE id = '' @ to_string_ulong (m_record_id s)"

definition DeleteTransactionRecord :: "'w env \<Rightarrow> ('w, 'z, unit) rprog" where
  "DeleteTransactionRecord env =
     cond (\<lambda>s. m_record_id s = 0) skip
       (seq (catch_std
               (bnd (gets sql_delete) (\<lambda>Del. bnd (exemption_new env) (\<lambda>E.
                  with_cleanup (seq (run env Del 20) (modify (\<lambda>s. s\<lparr>m_record_id := 0\<rparr>)))
                    (exemption_delete env E))))
               (\<lambda>_. skip))
            (cond (\<lambda>s. m_record_id s \<noteq> 0)
               (catch_std
                  (bnd (gets (\<lambda>s. (m_record_id s, name (this_trans s)))) (\<lambda>(i, nm).
                     process_notice_string env (''WARNING: '' @
                       ''Failed to delete obsolete transaction record with id '' @ to_string_ulong i @
                       '' ('' @ quoted nm @ ''). Please delete it manually.  Thank you.'' @ nl)))
                  (\<lambda>_. skip))
               skip))"

definition robust_abort :: "'w env \<Rightarrow> ('w, 'z, unit) rprog" where
  "robust_abort env = seq (db_abort env) (DeleteTransactionRecord env)"

section \<open>Beginning\<close>

definition robust_begin :: "'w env \<Rightarrow> ('w, 'z, unit) rprog" where
  "robust_begin env =
     seq (catch_std (CreateTransactionRecord env)
            (\<lambda>_. seq (catch_std (db_abort env) (\<lambda>_. skip))
                 (seq (CreateLogTable env)
                 (seq (db_begin env)
                 (seq (modify (\<lambda>s. s\<lparr>m_backendpid := backendpid env s\<rparr>))
                      (CreateTransactionRecord env))))))
     (seq (db_begin env)
     (seq (bnd (gets sql_delete) (\<lambda>Del. run env Del 0))
          (cond (\<lambda>s. m_serverversion s \<ge> 80300)
             (bnd (DirectExec env ''SELECT txid_current()'' 0) (\<lambda>R.
                bnd (lift_exn (first_field R)) (\<lambda>f.
                  modify (\<lambda>s. s\<lparr>m_xid := (case field_to_string f of None \<Rightarrow> m_xid s | Some x \<Rightarrow> x)\<rparr>))))
             skip)))"

section \<open>Finding out what happened\<close>

definition ask_old_backend :: "'w env \<Rightarrow> bool \<Rightarrow> ('w, 'z, bool) rprog" where
  "ask_old_backend env hold =
     cond (\<lambda>s. m_serverversion s > 80300)
       (bnd (gets m_xid) (\<lambda>x.
          bnd (DirectExec env (''SELECT '' @ x @ '' >= txid_snapshot_xmin(txid_current_snapshot())'') 0) (\<lambda>R.
          bnd (lift_exn (read_first from_string_bool R)) (\<lambda>v.
            ret (case v of None \<Rightarrow> hold | Some b \<Rightarrow> b)))))
       (bnd (gets m_backendpid) (\<lambda>p.
          bnd (DirectExec env (''SELECT current_query FROM pq_stat_activity WHERE procpid = '' @
                 to_string_int p) 0) (\<lambda>R.
            ret (\<not> result_is_empty R))))"

fun wait_for_old_backend :: "'w env \<Rightarrow> nat \<Rightarrow> bool \<Rightarrow> ('w, 'z, bool) rprog" where
  "wait_for_old_backend env 0 hold = ret hold"
| "wait_for_old_backend env (Suc c) hold =
     (if \<not> hold then ret hold
      else bnd (ask_old_backend env hold) (wait_for_old_backend env c))"

definition CheckTransactionRecord :: "'w env \<Rightarrow> ('w, 'z, bool) rprog" where
  "CheckTransactionRecord env =
     bnd (wait_for_old_backend env 20 True) (\<lambda>hold.
       if hold then throw (in_doubt_error ''Old backend process stays alive too long to wait for.'')
       else bnd (gets (\<lambda>s. (m_LogTable s, m_record_id s))) (\<lambda>(t, i).
         bnd (username env) (\<lambda>u.
         bnd (DirectExec env (''SELECT id FROM '' @ dquoted t @ '' WHERE id = '' @ to_string_ulong i @
                '' AND user = '' @ u) 20) (\<lambda>R.
           ret (\<not> result_is_empty R)))))"

definition doubt_message :: "('w, 'z) robust_scheme \<Rightarrow> string" where
  "doubt_message s = ''WARNING: Connection lost while committing transaction '' @
     quoted (name (this_trans s)) @ '' (id '' @ to_string_ulong (m_record_id s) @ '', transaction_id '' @
     m_xid s @ ''). Please check for this record in the '' @ quoted (m_LogTable s) @
     '' table.  If the record exists, the transaction was executed. If not, then it wasn'' @
     [CHR 0x27] @ ''t.'' @ nl"

text \<open>What is told when the record cannot be checked.\<close>

definition report_doubt :: "'w env \<Rightarrow> exn \<Rightarrow> ('w, 'z, bool) rprog" where
  "report_doubt env f = bnd (gets doubt_message) (\<lambda>Msg.
     seq (process_notice_string env Msg)
     (seq (process_notice env (''Could not verify existence of transaction record '' @
             ''because of the following error:'' @ nl))
     (seq (process_notice_string env (what f @ nl))
          (throw (in_doubt_error Msg)))))"

definition robust_commit :: "'w env \<Rightarrow> ('w, 'z, unit) rprog" where
  "robust_commit env =
     cond (\<lambda>s. m_record_id s = 0)
       (bnd (gets (\<lambda>s. name (this_trans s))) (\<lambda>n.
          throw (internal_error (''transaction '' @ quoted n @ '' has no ID''))))
     (seq (catch_all (run env ''SET CONSTRAINTS ALL IMMEDIATE'' 0)
             (\<lambda>e. seq (robust_abort env) (throw e)))
     (bnd (catch_all
             (seq (run env sql_commit_work 0)
             (seq (modify (\<lambda>s. s\<lparr>m_record_id := 0\<rparr>)) (ret True)))
             (\<lambda>e. if caught_as Broken_connection e then ret False
                  else cond (is_open env) (seq (robust_abort env) (throw e)) (ret False)))
       (\<lambda>done.
          if done then skip
          else bnd (catch_std (CheckTransactionRecord env) (report_doubt env))
                 (\<lambda>exists.
                    if exists then seq (robust_abort env)
                      (throw (broken_connection ''Connection lost while committing.''))
                    else skip))))"

definition robust_hooks :: "'w env \<Rightarrow> ('w, ('z) robust_ext) hooks" where
  "robust_hooks env = \<lparr>do_begin = robust_begin env, do_exec = db_exec env (robust_abort env),
     do_commit = robust_commit env, do_abort = robust_abort env\<rparr>"

definition robusttransaction_new :: "'w env \<Rightarrow> string \<Rightarrow> ('w, 'z, unit) rprog" where
  "robusttransaction_new env table_name =
     seq (transaction_base_init True)
     (seq (robust_init table_name)
       (catch_all (Begin env (robust_begin env) (robust_abort env))
          (\<lambda>e. seq (transaction_base_delete env) (throw e))))"

section \<open>The contract of the hooks\<close>

lemma lifecycle_calm_ops [frame_intros]:
  "frame lifecycle (username env)" "frame lifecycle (quote env t)" "frame lifecycle (exemption_new env)"
  "frame lifecycle (exemption_delete env x)" "frame lifecycle (lift_exn r)"
  by (rule calm_lifecycle, intro keeps_intros)+

lemma lifecycle_run [frame_intros]: "frame lifecycle (run env Q n)"
  unfolding run_def by (intro frame_intros)

lemma lifecycle_record [frame_intros]:
  "frame lifecycle (CreateLogTable env)" "frame lifecycle (CreateTransactionRecord env)"
  "frame lifecycle (DeleteTransactionRecord env)"
  unfolding CreateLogTable_def CreateTransactionRecord_def DeleteTransactionRecord_def
  by (intro frame_intros frame_modify; simp add: lifecycle_def)+

lemma lifecycle_robust_abort [frame_intros]: "frame lifecycle (robust_abort env)"
  unfolding robust_abort_def by (intro frame_intros)

lemma lifecycle_robust_begin [frame_intros]: "frame lifecycle (robust_begin env)"
  unfolding robust_begin_def by (intro frame_intros frame_modify; simp add: lifecycle_def)

lemma lifecycle_ask [frame_intros]: "frame lifecycle (ask_old_backend env hold)"
  unfolding ask_old_backend_def by (intro frame_intros)

lemma lifecycle_wait [frame_intros]: "frame lifecycle (wait_for_old_backend env c hold)"
proof (induction c arbitrary: hold)
  case (Suc c)
  show ?case
    unfolding wait_for_old_backend.simps by (intro frame_intros Suc.IH)
qed (simp add: frame_ret)

lemma lifecycle_check [frame_intros]: "frame lifecycle (CheckTransactionRecord env)"
  unfolding CheckTransactionRecord_def by (intro frame_intros)

lemma lifecycle_report_doubt [frame_intros]: "frame lifecycle (report_doubt env f)"
  unfolding report_doubt_def by (intro frame_intros)

lemma lifecycle_robust_commit [frame_intros]: "frame lifecycle (robust_commit env)"
  unfolding robust_commit_def by (intro frame_intros frame_modify; simp add: lifecycle_def)

interpretation robust: transaction_hooks env "robust_hooks env" for env
  by unfold_locales (simp_all add: robust_hooks_def lifecycle_robust_begin lifecycle_robust_commit
      lifecycle_robust_abort db_exec_moves)

section \<open>The lost commit\<close>

lemma report_doubt_throws:
  "\<exists>n. report_doubt env f s = (Inl (in_doubt_error (doubt_message s)), s\<lparr>notices := n\<rparr>)"
proof -
  have ne: "doubt_message s \<noteq> []" "what f @ nl \<noteq> []"
    by (simp_all add: doubt_message_def nl_def)
  obtain n1 where n1: "process_notice_string env (doubt_message s) s = (Inr (), s\<lparr>notices := n1\<rparr>)"
    using process_notice_string_returns [OF ne(1)] by blast
  obtain n2 where n2: "process_notice env (''Could not verify existence of transaction record '' @
        ''because of the following error:'' @ nl) (s\<lparr>notices := n1\<rparr>) = (Inr (), s\<lparr>notices := n2\<rparr>)"
    using process_notice_returns [of env _ "s\<lparr>notices := n1\<rparr>"] by fastforce
  obtain n3 where n3: "process_notice_string env (what f @ nl) (s\<lparr>notices := n2\<rparr>) =
      (Inr (), s\<lparr>notices := n3\<rparr>)"
    using process_notice_string_returns [OF ne(2), of env "s\<lparr>notices := n2\<rparr>"] by auto
  show ?thesis using n1 n2 n3
    by (intro exI [of _ n3]) (simp add: report_doubt_def bnd_def seq_def gets_def throw_def)
qed

lemma robust_commit_broken:
  assumes "m_record_id s \<noteq> 0" "run env ''SET CONSTRAINTS ALL IMMEDIATE'' 0 s = (Inr (), s1)"
    and "run env sql_commit_work 0 s1 = (Inl e, s2)" "cls e = Broken_connection"
  shows "robust_commit env s = bnd (catch_std (CheckTransactionRecord env) (report_doubt env))
    (\<lambda>exists. if exists then seq (robust_abort env)
        (throw (broken_connection ''Connection lost while committing.'')) else skip) s2"
proof -
  have "caught_as Broken_connection e" "cls e \<notin> {Undefined_behaviour, Terminated, Diverged}"
    by (simp_all add: caught_as_def assms(4))
  then show ?thesis using assms
    by (simp add: robust_commit_def cond_def seq_def bnd_def catch_all_def catch_def ret_def)
qed

section \<open>Properties\<close>

text \<open>
  A robust transaction follows the same life cycle as the plain ones, whatever calls are
  made on it and whatever its log table and its polling of the old backend do.
\<close>

theorem robust_status_follows_life_cycle:
  "advance\<^sup>*\<^sup>* (m_Status s) (m_Status (after_calls env (robust_hooks env) cs s))"
  by (rule robust.calls_advance)


definition losing_env :: "bool env" where
  "losing_env = quiet_env
     \<lparr>PQexec := \<lambda>_ Q w. if Q = sql_commit_work then (None, False) else (Some (sample_rows [] 0), w),
      PQstatus := \<lambda>_ w. if w then CONNECTION_OK else CONNECTION_BAD\<rparr>"

definition sample_robust :: "bool robust" where
  "sample_robust = tx.extend (tx.truncate ((sample_tx True st_active)\<lparr>m_inhibit_reactivation := True\<rparr>))
     \<lparr>m_record_id = 7, m_xid = ''99'', m_LogTable = ''t'', m_sequence = ''t_seq'', m_backendpid = -1\<rparr>"

lemma sample_robust_simps [simp]:
  "m_Conn sample_robust = Some 1" "m_Completed sample_robust" "world sample_robust"
  "m_inhibit_reactivation sample_robust" "m_PendingError sample_robust = []"
  "m_record_id sample_robust = 7" "m_serverversion sample_robust = 0"
  "m_Trans sample_robust = Some \<lparr>addr = 1, classname = ''work'', name = []\<rparr>"
  by (simp_all add: sample_robust_def tx.extend_def tx.truncate_def sample_tx_def new_tx_def conn.extend_def
      open_conn_def connection_base_def)

lemma losing_env_simps [simp]:
  "rounds losing_env = 5" "PQconsumeInput losing_env c w = (True, w)"
  "PQstatus losing_env c w = (if w then CONNECTION_OK else CONNECTION_BAD)"
  "PQexec losing_env c Q w =
     (if Q = sql_commit_work then (None, False) else (Some (sample_rows [] 0), w))"
  by (simp_all add: losing_env_def quiet_env_def)

lemma sample_result_status:
  "CheckStatus (make_result_object (Some (sample_rows rs c)) p q e) = Inr ()"
  by (simp add: CheckStatus_def StatusError_def make_result_object_def sample_rows_def)

lemma sample_world: "sample_robust\<lparr>world := True\<rparr> = sample_robust"
  by (simp add: sample_robust_def tx.extend_def tx.truncate_def sample_tx_def new_tx_def conn.extend_def
      open_conn_def connection_base_def)




end
