(* ===== verification/Nested.thy ===== *)
theory Nested
  imports Transaction
begin

text \<open>
  Transactions inside transactions: the objects of \<^verbatim>\<open>src/subtransaction.cxx\<close> with the transactions
  around them. All of them use one connection and each refers to its parent, so the state is the
  connection and the members of the transaction objects, innermost first; the last one is the
  backend transaction. A member function runs on the connection and the members of its own object.
\<close>

type_synonym tx_part = "unit tx_ext"
type_synonym 'w nest = "'w conn \<times> tx_part list"
type_synonym ('w, 'a) nprog = "('w nest, 'a) cxx"

definition nest_level :: "nat \<Rightarrow> 'w nest \<Rightarrow> 'w tx" where
  "nest_level i s = conn.extend (fst s) (snd s ! i)"

definition at_level :: "nat \<Rightarrow> ('w, unit, 'a) tprog \<Rightarrow> ('w, 'a) nprog" where
  "at_level i m s = (case m (nest_level i s) of (r, t) \<Rightarrow> (r, (conn.truncate t, (snd s)[i := conn.more t])))"

text \<open>The virtual functions of the object at a place.\<close>

definition nest_hooks :: "'w env \<Rightarrow> nat \<Rightarrow> 'w nest \<Rightarrow> ('w, unit) hooks" where
  "nest_hooks env i s = (if Suc i < length (snd s) then sub_hooks env else basic_hooks env)"

text \<open>The constructor of a subtransaction of the innermost transaction: nothing is begun yet.\<close>

definition nested_new :: "'w env \<Rightarrow> string \<Rightarrow> ('w, unit) nprog" where
  "nested_new env nm s =
     (let this = \<lparr>addr = Suc (length (snd s)), classname = ''subtransaction'', name = []\<rparr> in
      at_level 0 (subtransaction_new env nm)
        (fst s, conn.more (new_tx (fst s) this sql_begin_work) # snd s))"

definition nested_exec :: "'w env \<Rightarrow> nat \<Rightarrow> string \<Rightarrow> ('w, result) nprog" where
  "nested_exec env i Q s = at_level i (exec env (nest_hooks env i s) Q []) s"

text \<open>What \<open>sub_commit\<close> adds to the parent's count of objects that cannot be recovered.\<close>

definition hand_over :: "nat \<Rightarrow> 'w nest \<Rightarrow> 'w nest" where
  "hand_over i s =
     (if Suc i < length (snd s) then
        (let child = nest_level i s; parent = nest_level (Suc i) s in
         (fst s, (snd s)
            [i := conn.more (child\<lparr>parent_avoidance := 0\<rparr>),
             Suc i := conn.more (parent\<lparr>tx_avoidance := tx_avoidance parent + parent_avoidance child\<rparr>)]))
      else s)"

definition nested_commit :: "'w env \<Rightarrow> nat \<Rightarrow> ('w, unit) nprog" where
  "nested_commit env i s =
     (case at_level i (commit env (nest_hooks env i s)) s of (r, t) \<Rightarrow> (r, hand_over i t))"

definition nested_abort :: "'w env \<Rightarrow> nat \<Rightarrow> ('w, unit) nprog" where
  "nested_abort env i s = at_level i (abort env (do_abort (nest_hooks env i s))) s"

text \<open>The destructor of the innermost subtransaction.\<close>

definition nested_delete :: "'w env \<Rightarrow> ('w, unit) nprog" where
  "nested_delete env s =
     (case at_level 0 (transaction_delete env (sub_hooks env)) s of (r, t) \<Rightarrow> (r, (fst t, tl (snd t))))"

text \<open>What a program does with the innermost transaction.\<close>

datatype nest_op = Open_sub string | Query string | Commit | Abort | Destroy

definition nest_do :: "'w env \<Rightarrow> nest_op \<Rightarrow> ('w, unit) nprog" where
  "nest_do env x = (case x of
     Open_sub nm \<Rightarrow> nested_new env nm
   | Query Q \<Rightarrow> bnd (nested_exec env 0 Q) (\<lambda>_. skip)
   | Commit \<Rightarrow> nested_commit env 0
   | Abort \<Rightarrow> nested_abort env 0
   | Destroy \<Rightarrow> nested_delete env)"

text \<open>Exceptions are caught where they leave a call; the answers say which calls returned.\<close>

fun nest_run :: "'w env \<Rightarrow> nest_op list \<Rightarrow> 'w nest \<Rightarrow> bool list \<times> 'w nest" where
  "nest_run env [] s = ([], s)"
| "nest_run env (x # xs) s =
     (case nest_do env x s of (r, t) \<Rightarrow>
        (case nest_run env xs t of (rs, u) \<Rightarrow> ((case r of Inl _ \<Rightarrow> False | Inr _ \<Rightarrow> True) # rs, u)))"

end
