(* ===== verification/Cursor.thy ===== *)
theory Cursor
  imports Transaction_Facts
begin

text \<open>
  SQL cursors and the stateless cursor on top of them: \<^verbatim>\<open>sql_cursor\<close>, \<^verbatim>\<open>stateless_cursor\<close> and
  their helpers (\<^verbatim>\<open>src/cursor.cxx\<close>, \<^verbatim>\<open>include/pqxx/cursor.hxx\<close>). The state is a transaction on a
  connection together with one cursor object. Positions are counted the way the class does:
  0 before the first row, \<open>N + 1\<close> behind the last of \<open>N\<close> rows.
\<close>

section \<open>State\<close>

datatype accesspolicy = forward_only | random_access
datatype updatepolicy = read_only | update
datatype ownershippolicy = owned | loose

record 'w curs = "'w tx" +
  c_name :: string
  m_empty_result :: result
  m_adopted :: bool
  m_ownership :: ownershippolicy
  m_at_end :: int
  m_pos :: int
  m_endpos :: int

type_synonym ('w, 'z, 'a) kprog = "(('w, 'z) curs_scheme, 'a) cxx"

definition cursor_all :: int where "cursor_all = 2147483646"
definition cursor_backward_all :: int where "cursor_backward_all = -2147483647"

definition stridestring :: "int \<Rightarrow> string" where
  "stridestring n =
     (if n \<ge> cursor_all then ''ALL''
      else if n \<le> cursor_backward_all then ''BACKWARD ALL''
      else to_string_long n)"

section \<open>Creating, adopting and closing a cursor\<close>

definition useless_trail :: "char \<Rightarrow> bool" where
  "useless_trail c \<longleftrightarrow> c \<in> {CHR '' '', CHR 0x09, CHR 0x0A, CHR 0x0B, CHR 0x0C, CHR 0x0D, CHR '';''}"

definition useful_query :: "string \<Rightarrow> exn + string" where
  "useful_query query =
     (if query = [] then Inl undefined_behaviour
      else let q = rev (dropWhile useless_trail (rev query)) in
        if q = [] then Inl (argument_error ''Cursor created on empty query'') else Inr q)"

definition declare_query ::
  "string \<Rightarrow> string \<Rightarrow> accesspolicy \<Rightarrow> updatepolicy \<Rightarrow> bool \<Rightarrow> string" where
  "declare_query nm q ap up hold =
     ''DECLARE '' @ dquoted nm @ '' '' @ (if ap = forward_only then ''NO '' else []) @ ''SCROLL CURSOR '' @
     (if hold then ''WITH HOLD '' else []) @ ''FOR '' @ q @ '' '' @
     (if up \<noteq> update then ''FOR READ ONLY '' else ''FOR UPDATE '')"

definition init_empty_result :: "'w env \<Rightarrow> ('w, ('z) curs_ext) hooks \<Rightarrow> ('w, 'z, unit) kprog" where
  "init_empty_result env h =
     seq (cond (\<lambda>s. m_pos s \<noteq> 0) (throw (internal_error ''init_empty_result() from bad pos()'')) skip)
       (bnd (gets c_name) (\<lambda>n. bnd (exec env h (''FETCH 0 IN '' @ dquoted n) []) (\<lambda>R.
          modify (\<lambda>s. s\<lparr>m_empty_result := R\<rparr>))))"

definition sql_cursor_new ::
  "'w env \<Rightarrow> ('w, ('z) curs_ext) hooks \<Rightarrow> string \<Rightarrow> string \<Rightarrow> accesspolicy \<Rightarrow> updatepolicy \<Rightarrow>
     ownershippolicy \<Rightarrow> bool \<Rightarrow> ('w, 'z, unit) kprog" where
  "sql_cursor_new env h query cname ap up op hold =
     bnd (adorn_name cname) (\<lambda>n.
       seq (modify (\<lambda>s. s\<lparr>c_name := n, m_empty_result := empty_result, m_adopted := False,
              m_at_end := -1, m_pos := 0, m_endpos := -1\<rparr>))
       (bnd (lift_exn (useful_query query)) (\<lambda>q.
       seq (activate env)
       (seq (bnd (exec env h (declare_query n q ap up hold) (''[DECLARE '' @ n @ '']'')) (\<lambda>_. skip))
       (seq (init_empty_result env h)
       (seq (if hold then add_reactivation_avoidance_count 1 else skip)
            (modify (\<lambda>s. s\<lparr>m_ownership := op\<rparr>))))))))"

definition sql_cursor_adopt :: "string \<Rightarrow> ownershippolicy \<Rightarrow> ('w, 'z, unit) kprog" where
  "sql_cursor_adopt cname op =
     seq (modify (\<lambda>s. s\<lparr>c_name := cname, m_empty_result := empty_result, m_adopted := True,
            m_at_end := 0, m_pos := -1, m_endpos := -1\<rparr>))
     (seq (if op = owned then add_reactivation_avoidance_count (-1) else skip)
          (modify (\<lambda>s. s\<lparr>m_adopted := True, m_ownership := op\<rparr>)))"

definition cursor_close :: "'w env \<Rightarrow> ('w, 'z, unit) kprog" where
  "cursor_close env =
     cond (\<lambda>s. m_ownership s = owned)
       (seq (catch_std
               (bnd (gets c_name) (\<lambda>n. bnd (Exec env (''CLOSE '' @ dquoted n) 0) (\<lambda>_. skip)))
               (\<lambda>_. skip))
       (seq (cond m_adopted (add_reactivation_avoidance_count (-1)) skip)
            (modify (\<lambda>s. s\<lparr>m_ownership := loose\<rparr>))))
       skip"

section \<open>Moving\<close>

text \<open>
  \<open>adjust\<close> computes the displacement from the rows asked for and the rows seen; it updates
  \<open>m_at_end\<close>, \<open>m_pos\<close> and \<open>m_endpos\<close>, the first two also when it finds the end positions
  inconsistent.
\<close>

record place =
  p_at_end :: int
  p_pos :: int
  p_endpos :: int

definition adjust :: "int \<Rightarrow> int \<Rightarrow> place \<Rightarrow> (exn + int) \<times> place" where
  "adjust hoped actual p =
     (if actual < 0 then (Inl (internal_error ''Negative rows in cursor movement''), p)
      else if hoped = 0 then (Inr 0, p)
      else
        (let direction = (if hoped < 0 then -1 else 1) in
         if actual \<noteq> \<bar>hoped\<bar> then
           if actual > \<bar>hoped\<bar> then (Inl (internal_error ''Cursor displacement larger than requested''), p)
           else
             (let actual = (if p_at_end p \<noteq> direction then actual + 1 else actual);
                  hit_end = (direction > 0) in
              if \<not> hit_end \<and> p_pos p \<noteq> -1 \<and> p_pos p \<noteq> actual then
                (Inl (internal_error (''Moved back to beginning, but wrong position: hoped='' @
                   to_string_long hoped @ '', actual='' @ to_string_long actual @ '', m_pos='' @
                   to_string_long (p_pos p) @ '', direction='' @ to_string_int direction)), p)
              else
                (let pos0 = (if \<not> hit_end \<and> p_pos p = -1 then actual else p_pos p);
                     pos1 = (if pos0 \<ge> 0 then pos0 + direction * actual else pos0);
                     p1 = p\<lparr>p_at_end := direction, p_pos := pos1\<rparr> in
                 if hit_end \<and> p_endpos p \<ge> 0 \<and> pos1 \<noteq> p_endpos p then
                   (Inl (internal_error ''Inconsistent cursor end positions''), p1)
                 else (Inr (direction * actual),
                       if hit_end then p1\<lparr>p_endpos := pos1\<rparr> else p1)))
         else (Inr (direction * actual),
           p\<lparr>p_at_end := 0, p_pos := (if p_pos p \<ge> 0 then p_pos p + direction * actual else p_pos p)\<rparr>)))"

definition place_of :: "('w, 'z) curs_scheme \<Rightarrow> place" where
  "place_of s = \<lparr>p_at_end = m_at_end s, p_pos = m_pos s, p_endpos = m_endpos s\<rparr>"

definition set_place :: "place \<Rightarrow> ('w, 'z) curs_scheme \<Rightarrow> ('w, 'z) curs_scheme" where
  "set_place p s = s\<lparr>m_at_end := p_at_end p, m_pos := p_pos p, m_endpos := p_endpos p\<rparr>"

definition adjust_cursor :: "int \<Rightarrow> int \<Rightarrow> ('w, 'z, int) kprog" where
  "adjust_cursor hoped actual =
     bnd (gets (\<lambda>s. adjust hoped actual (place_of s))) (\<lambda>(r, p).
       seq (modify (set_place p)) (lift_exn r))"

definition fetch_query :: "string \<Rightarrow> int \<Rightarrow> string" where
  "fetch_query n rows = ''FETCH '' @ stridestring rows @ '' IN '' @ dquoted n"

definition move_query :: "string \<Rightarrow> int \<Rightarrow> string" where
  "move_query n rows = ''MOVE '' @ stridestring rows @ '' IN '' @ dquoted n"

text \<open>Both return the displacement as well.\<close>

definition cursor_fetch :: "'w env \<Rightarrow> int \<Rightarrow> ('w, 'z, result \<times> int) kprog" where
  "cursor_fetch env rows =
     (if rows = 0 then bnd (gets m_empty_result) (\<lambda>r. ret (r, 0))
      else bnd (gets c_name) (\<lambda>n.
        bnd (Exec env (fetch_query n rows) 0) (\<lambda>r.
        bnd (adjust_cursor rows (int (result_size r))) (\<lambda>d. ret (r, d)))))"

definition cursor_move :: "'w env \<Rightarrow> int \<Rightarrow> ('w, 'z, int \<times> int) kprog" where
  "cursor_move env rows =
     (if rows = 0 then ret (0, 0)
      else bnd (gets c_name) (\<lambda>n.
        bnd (Exec env (move_query n rows) 0) (\<lambda>r.
        let d = int (affected_rows r) in
        bnd (adjust_cursor rows d) (\<lambda>disp. ret (d, disp)))))"

section \<open>The stateless cursor\<close>

definition obtain_stateless_cursor_size :: "'w env \<Rightarrow> ('w, 'z, int) kprog" where
  "obtain_stateless_cursor_size env =
     seq (cond (\<lambda>s. m_endpos s = -1) (bnd (cursor_move env cursor_all) (\<lambda>_. skip)) skip)
       (gets (\<lambda>s. m_endpos s - 1))"

definition stateless_cursor_retrieve ::
  "'w env \<Rightarrow> int \<Rightarrow> int \<Rightarrow> int \<Rightarrow> ('w, 'z, result) kprog" where
  "stateless_cursor_retrieve env sz begin_pos end_pos =
     (if begin_pos < 0 \<or> begin_pos > sz then throw (range_error ''Starting position out of range'')
      else
        (let end_pos = (if end_pos < -1 then -1 else if end_pos > sz then sz else end_pos) in
         if begin_pos = end_pos then gets m_empty_result
         else
           (let direction = (if begin_pos < end_pos then 1 else -1) in
            bnd (gets m_pos) (\<lambda>pos.
            bnd (cursor_move env ((begin_pos - direction) - (pos - 1))) (\<lambda>_.
            bnd (cursor_fetch env (end_pos - begin_pos)) (\<lambda>(r, _). ret r))))))"

definition stateless_retrieve :: "'w env \<Rightarrow> int \<Rightarrow> int \<Rightarrow> ('w, 'z, result) kprog" where
  "stateless_retrieve env begin_pos end_pos =
     bnd (obtain_stateless_cursor_size env) (\<lambda>sz. stateless_cursor_retrieve env sz begin_pos end_pos)"

definition stateless_adopt :: "'w env \<Rightarrow> string \<Rightarrow> ownershippolicy \<Rightarrow> ('w, 'z, unit) kprog" where
  "stateless_adopt env cname op =
     seq (sql_cursor_adopt cname op)
       (catch_all (bnd (cursor_move env cursor_backward_all) (\<lambda>_. skip))
          (\<lambda>e. seq (cursor_close env) (throw e)))"

section \<open>What the backend does\<close>

text \<open>
  The documented meaning of \<^verbatim>\<open>MOVE\<close> and \<^verbatim>\<open>FETCH\<close> on a result set of \<open>N\<close> rows: the position
  moves by the requested distance but not past the two ends, and the rows it passes, without
  the two end positions, are counted or returned in the order they are passed.
\<close>

definition backend_target :: "int \<Rightarrow> int \<Rightarrow> int \<Rightarrow> int" where
  "backend_target N p n = max 0 (min (N + 1) (p + n))"

definition backend_rows :: "int \<Rightarrow> int \<Rightarrow> int \<Rightarrow> int list" where
  "backend_rows N p n =
     (if n \<ge> 0 then [p + 1 .. min N (p + n)] else rev [max 1 (p + n) .. min N (p - 1)])"

definition backend_count :: "int \<Rightarrow> int \<Rightarrow> int \<Rightarrow> int" where
  "backend_count N p n = int (length (backend_rows N p n))"

lemma backend_count_eq:
  "0 \<le> p \<Longrightarrow> p \<le> N + 1 \<Longrightarrow> backend_count N p n =
    (if n \<ge> 0 then max 0 (min N (p + n) - p) else max 0 (min N (p - 1) - max 1 (p + n) + 1))"
  by (auto simp: backend_count_def backend_rows_def)

text \<open>
  The class's idea of its place agrees with the backend's position \<open>p\<close>; the end position is
  unknown or right.
\<close>

definition place_at :: "int \<Rightarrow> int \<Rightarrow> place \<Rightarrow> bool" where
  "place_at N p c \<longleftrightarrow> 0 \<le> N \<and> 0 \<le> p \<and> p \<le> N + 1 \<and> p_pos c = p \<and> (p_endpos c = -1 \<or> p_endpos c = N + 1) \<and>
     p_at_end c = (if p = 0 then -1 else if p = N + 1 then 1 else 0)"

lemma target_count_forward:
  "0 \<le> p \<Longrightarrow> p \<le> N + 1 \<Longrightarrow> 0 < n \<Longrightarrow>
     (if p + n \<le> N then backend_target N p n = p + n \<and> backend_count N p n = n
      else backend_target N p n = N + 1 \<and> backend_count N p n = max 0 (N - p))"
  by (simp add: backend_count_eq backend_target_def)

lemma target_count_backward:
  "0 \<le> p \<Longrightarrow> p \<le> N + 1 \<Longrightarrow> n < 0 \<Longrightarrow>
     (if p + n > 0 then backend_target N p n = p + n \<and> backend_count N p n = - n
      else backend_target N p n = 0 \<and> backend_count N p n = max 0 (p - 1))"
  by (simp add: backend_count_eq backend_target_def)

lemma adjust_exact:
  "n \<noteq> 0 \<Longrightarrow> adjust n \<bar>n\<bar> c =
     (Inr n, c\<lparr>p_at_end := 0, p_pos := (if p_pos c \<ge> 0 then p_pos c + n else p_pos c)\<rparr>)"
  by (cases "n < 0") (simp_all add: adjust_def Let_def)

lemma adjust_past_end:
  assumes "0 < n" "0 \<le> a" "a < n" "0 \<le> p_pos c"
    "d = (if p_at_end c \<noteq> 1 then a + 1 else a)" "p_endpos c = -1 \<or> p_endpos c = p_pos c + d"
  shows "adjust n a c = (Inr d, \<lparr>p_at_end = 1, p_pos = p_pos c + d, p_endpos = p_pos c + d\<rparr>)"
  using assms by (auto simp: adjust_def Let_def)

lemma adjust_to_origin:
  assumes "n < 0" "0 \<le> a" "a < - n"
    "d = (if p_at_end c \<noteq> -1 then a + 1 else a)" "p_pos c = -1 \<or> p_pos c = d"
  shows "adjust n a c = (Inr (- d), \<lparr>p_at_end = -1, p_pos = 0, p_endpos = p_endpos c\<rparr>)"
  using assms by (auto simp: adjust_def Let_def)

lemma adjust_places:
  assumes "place_at N p c" "n \<noteq> 0"
  shows "adjust n (backend_count N p n) c =
    (Inr (backend_target N p n - p),
     \<lparr>p_at_end = (if 0 < n \<and> N < p + n then 1 else if n < 0 \<and> p + n \<le> 0 then -1 else 0),
      p_pos = backend_target N p n,
      p_endpos = (if 0 < n \<and> N < p + n then N + 1 else p_endpos c)\<rparr>)"
proof -
  have c: "0 \<le> N" "0 \<le> p" "p \<le> N + 1" "p_pos c = p" "p_endpos c = -1 \<or> p_endpos c = N + 1"
    "p_at_end c = (if p = 0 then -1 else if p = N + 1 then 1 else 0)"
    using assms(1) by (auto simp: place_at_def)
  consider (in_f) "0 < n" "p + n \<le> N" | (over) "0 < n" "N < p + n"
    | (in_b) "n < 0" "0 < p + n" | (under) "n < 0" "p + n \<le> 0" using assms(2) by linarith
  then show ?thesis
  proof cases
    case in_f
    then show ?thesis using adjust_exact [of n c] target_count_forward [of p N n] c
      by (cases c) simp
  next
    case over
    then have b: "backend_target N p n = N + 1" "backend_count N p n = max 0 (N - p)"
      using target_count_forward [of p N n] c by auto
    show ?thesis unfolding b
      by (subst adjust_past_end [where d = "N + 1 - p"]) (use over c in auto)
  next
    case in_b
    then show ?thesis using adjust_exact [of n c] target_count_backward [of p N n] c
      by (cases c) simp
  next
    case under
    then have b: "backend_target N p n = 0" "backend_count N p n = max 0 (p - 1)"
      using target_count_backward [of p N n] c by auto
    show ?thesis unfolding b
      by (subst adjust_to_origin [where d = p]) (use under c in auto)
  qed
qed

end
