(* ===== verification/Cursor_Facts.thy ===== *)
theory Cursor_Facts
  imports Cursor
begin

text \<open>
  What the cursor classes promise: the object's idea of its place follows the backend's cursor
  through every fetch and move, and the stateless cursor returns the rows asked for. The
  backend is what the documentation of \<^verbatim>\<open>FETCH\<close> and \<^verbatim>\<open>MOVE\<close> says of it (\<open>cursor_server\<close>).
\<close>

section \<open>The backend's cursor\<close>

text \<open>
  On connection \<open>h\<close>, cursor \<open>nm\<close> ranges over \<open>N\<close> rows \<open>tab 1 \<dots> tab N\<close>; \<open>posn\<close> reads its position
  off the world. The connection stays up, and reading input does not move the cursor.
\<close>

definition cursor_server ::
  "'w env \<Rightarrow> handle \<Rightarrow> string \<Rightarrow> int \<Rightarrow> ('w \<Rightarrow> int) \<Rightarrow> (int \<Rightarrow> nat \<Rightarrow> string) \<Rightarrow> bool" where
  "cursor_server env h nm N posn tab \<longleftrightarrow>
     0 < rounds env \<and> 0 \<le> N \<and> N < cursor_all - 1 \<and>
     (\<forall>w. PQstatus env h w = CONNECTION_OK) \<and>
     (\<forall>w. fst (PQconsumeInput env h w) \<and> posn (snd (PQconsumeInput env h w)) = posn w) \<and>
     (\<forall>w n. fits long_t n \<longrightarrow> n \<noteq> 0 \<longrightarrow> 0 \<le> posn w \<longrightarrow> posn w \<le> N + 1 \<longrightarrow>
        (\<exists>p w'. PQexec env h (fetch_query nm n) w = (Some p, w') \<and> posn w' = backend_target N (posn w) n \<and>
           PQresultStatus p = PGRES_TUPLES_OK \<and> PQntuples p = length (backend_rows N (posn w) n) \<and>
           (\<forall>i < PQntuples p. PQgetvalue p i = tab (backend_rows N (posn w) n ! i))) \<and>
        (\<exists>p w'. PQexec env h (move_query nm n) w = (Some p, w') \<and> posn w' = backend_target N (posn w) n \<and>
           PQresultStatus p = PGRES_COMMAND_OK \<and>
           PQcmdTuples p = to_string_integer ulong_t (backend_count N (posn w) n)))"

text \<open>The object is usable and its idea of the place is the backend's.\<close>

definition in_step :: "'w env \<Rightarrow> handle \<Rightarrow> string \<Rightarrow> int \<Rightarrow> ('w \<Rightarrow> int) \<Rightarrow> ('w, 'z) curs_scheme \<Rightarrow> bool" where
  "in_step env h nm N posn s \<longleftrightarrow>
     is_open env s \<and> m_Trans s \<noteq> None \<and> m_Conn s = h \<and> c_name s = nm \<and>
     place_at N (posn (world s)) (place_of s)"

text \<open>The rows of a result, as the values of its fields.\<close>

definition result_shows :: "result \<Rightarrow> (int \<Rightarrow> nat \<Rightarrow> string) \<Rightarrow> int list \<Rightarrow> bool" where
  "result_shows R tab ks \<longleftrightarrow> result_size R = length ks \<and>
     (\<exists>d. m_data R = Some d \<and> (\<forall>i < length ks. PQgetvalue d i = tab (ks ! i)))"

section \<open>Places\<close>

lemma place_of_set_place [simp]: "place_of (set_place c s) = c"
  by (cases c) (simp add: place_of_def set_place_def)

lemma set_place_simps [simp]:
  "world (set_place c s) = world s" "m_Conn (set_place c s) = m_Conn s"
  "m_Trans (set_place c s) = m_Trans s" "c_name (set_place c s) = c_name s"
  "is_open env (set_place c s) = is_open env s" "m_pos (set_place c s) = p_pos c"
  "m_Completed (set_place c s) = m_Completed s" "m_endpos (set_place c s) = p_endpos c" "m_empty_result (set_place c s) = m_empty_result s"
  by (simp_all add: set_place_def is_open_def Status_def)

lemma place_of_world [simp]: "place_of (s\<lparr>world := w\<rparr>) = place_of s"
  by (simp add: place_of_def)

lemma backend_target_bounds: "0 \<le> N \<Longrightarrow> 0 \<le> backend_target N p n \<and> backend_target N p n \<le> N + 1"
  by (simp add: backend_target_def)

definition moved :: "int \<Rightarrow> int \<Rightarrow> place \<Rightarrow> place" where
  "moved N n c =
     \<lparr>p_at_end = (if 0 < n \<and> N < p_pos c + n then 1 else if n < 0 \<and> p_pos c + n \<le> 0 then -1 else 0),
      p_pos = backend_target N (p_pos c) n,
      p_endpos = (if 0 < n \<and> N < p_pos c + n then N + 1 else p_endpos c)\<rparr>"

lemma moved_place:
  "place_at N p c \<Longrightarrow> n \<noteq> 0 \<Longrightarrow> place_at N (backend_target N p n) (moved N n c)"
  by (auto simp: place_at_def moved_def backend_target_def min_def max_def)

lemma adjust_moved:
  "place_at N p c \<Longrightarrow> n \<noteq> 0 \<Longrightarrow>
     adjust n (backend_count N p n) c = (Inr (backend_target N p n - p), moved N n c)"
  using adjust_places [of N p c n] by (simp add: moved_def place_at_def)

lemma adjust_cursor_moved:
  assumes "place_at N p (place_of s)" "n \<noteq> 0"
  shows "adjust_cursor n (backend_count N p n) s =
    (Inr (backend_target N p n - p), set_place (moved N n (place_of s)) s)"
  using adjust_moved [OF assms]
  by (simp add: adjust_cursor_def bnd_def gets_def seq_def modify_def lift_exn_def ret_def)

section \<open>The library's queries\<close>

lemma affected_rows_text:
  assumes "m_data R = Some d" "PQcmdTuples d = to_string_integer ulong_t k" "fits ulong_t k"
  shows "affected_rows R = nat k"
proof -
  have k: "0 \<le> k" using assms(3) by (simp add: fits_def tmin_def ulong_t_def)
  then have t: "PQcmdTuples d = decimal k" and a: "all_digits (decimal k)"
    and v: "digits_value 0 (decimal k) = k"
    using assms(2) decimal_digits [of k]
    by (simp_all add: to_string_integer_def ulong_t_def to_string_unsigned_decimal)
  obtain c cs where c: "decimal k = c # cs" "isdigit c" using all_digits_Cons [OF a] by auto
  have "takeWhile isdigit (c # cs) = c # cs"
    using a c by (intro takeWhile_all) (auto simp: list_all_iff)
  then have tk: "takeWhile isdigit cs = cs" "c \<noteq> CHR ''-''"
    using c(2) minus_not_digit by auto
  have "atoi (decimal k) = digits_value 0 (decimal k)"
    unfolding c(1) using c(2) tk(2) by (simp add: atoi_def tk(1))
  then have "atoi (PQcmdTuples d) = k"
    using v t by simp
  then show ?thesis
    using assms(1,3) t by (simp add: affected_rows_def convert_fits)
qed

lemma backend_count_range: "0 \<le> p \<Longrightarrow> p \<le> N + 1 \<Longrightarrow> 0 \<le> N \<Longrightarrow> 0 \<le> backend_count N p n \<and> backend_count N p n \<le> N"
  by (auto simp: backend_count_eq)

lemma cursor_server_consume:
  assumes "cursor_server env h nm N posn tab"
  obtains w' where "PQconsumeInput env h w = (True, w')" "posn w' = posn w"
proof -
  have "fst (PQconsumeInput env h w)" "posn (snd (PQconsumeInput env h w)) = posn w"
    using assms unfolding cursor_server_def by blast+
  then show ?thesis by (intro that [of "snd (PQconsumeInput env h w)"]) (simp_all add: prod_eq_iff)
qed

lemma cursor_server_fetch:
  assumes "cursor_server env h nm N posn tab" "fits long_t n" "n \<noteq> 0" "0 \<le> posn w" "posn w \<le> N + 1"
  obtains p w' where "PQexec env h (fetch_query nm n) w = (Some p, w')"
    "posn w' = backend_target N (posn w) n" "PQresultStatus p = PGRES_TUPLES_OK"
    "PQntuples p = length (backend_rows N (posn w) n)"
    "\<forall>i < PQntuples p. PQgetvalue p i = tab (backend_rows N (posn w) n ! i)"
  using assms unfolding cursor_server_def by blast

lemma cursor_server_move:
  assumes "cursor_server env h nm N posn tab" "fits long_t n" "n \<noteq> 0" "0 \<le> posn w" "posn w \<le> N + 1"
  obtains p w' where "PQexec env h (move_query nm n) w = (Some p, w')"
    "posn w' = backend_target N (posn w) n" "PQresultStatus p = PGRES_COMMAND_OK"
    "PQcmdTuples p = to_string_integer ulong_t (backend_count N (posn w) n)"
  using assms unfolding cursor_server_def by blast

lemma cursor_server_bounds:
  "cursor_server env h nm N posn tab \<Longrightarrow> 0 \<le> N \<and> N < cursor_all - 1"
  unfolding cursor_server_def by blast

lemma Exec_served:
  assumes "cursor_server env h nm N posn tab" "is_open env s \<and> m_Trans s \<noteq> None \<and> m_Conn s = h"
    "PQexec env h Q (world s) = (Some p, w)" "PQresultStatus p \<in> {PGRES_TUPLES_OK, PGRES_COMMAND_OK}"
  shows "\<exists>w'. posn w' = posn w \<and> Exec env Q n s =
    (Inr (make_result_object (Some p) (PQprotocolVersion env h w) Q (PQclientEncoding env h w)),
     s\<lparr>world := w'\<rparr>)"
proof -
  obtain w' where w': "PQconsumeInput env h w = (True, w')" "posn w' = posn w"
    using cursor_server_consume [OF assms(1)] .
  have s: "is_open env s" "m_Trans s \<noteq> None" "m_Conn s = h"
    using assms(2) by simp_all
  have e: "0 < rounds env" "PQstatus env h w = CONNECTION_OK"
    using assms(1) unfolding cursor_server_def by blast+
  have "Exec env Q n s =
    (Inr (make_result_object (Some p) (PQprotocolVersion env h w) Q (PQclientEncoding env h w)),
     s\<lparr>world := w'\<rparr>)"
    using Exec_answered [OF s(1,2) e(1) _ _ _ refl, of Q p w w' n] e(2) s(3) w'(1) assms(3,4)
      CheckStatus_fine [OF assms(4)] by simp
  then show ?thesis using w'(2) by blast
qed

section \<open>Fetching and moving\<close>

lemma in_step_moved:
  assumes "in_step env h nm N posn s" "cursor_server env h nm N posn tab"
    "posn w = backend_target N (posn (world s)) n" "n \<noteq> 0"
  shows "in_step env h nm N posn (set_place (moved N n (place_of s)) (s\<lparr>world := w\<rparr>))"
proof -
  have "PQstatus env h w = CONNECTION_OK"
    using assms(2) unfolding cursor_server_def by blast
  then show ?thesis
    using assms(1,3,4) moved_place by (auto simp: in_step_def is_open_def Status_def)
qed

lemma in_step_range:
  "in_step env h nm N posn s \<Longrightarrow> 0 \<le> posn (world s) \<and> posn (world s) \<le> N + 1 \<and> m_pos s = posn (world s)"
  by (simp add: in_step_def place_at_def place_of_def)

lemma move_in_step:
  assumes "cursor_server env h nm N posn tab" "in_step env h nm N posn s" "fits long_t n" "n \<noteq> 0"
  shows "\<exists>w. posn w = backend_target N (m_pos s) n \<and>
    cursor_move env n s = (Inr (backend_count N (m_pos s) n, backend_target N (m_pos s) n - m_pos s),
      set_place (moved N n (place_of s)) (s\<lparr>world := w\<rparr>))"
proof -
  let ?p = "posn (world s)"
  have r: "0 \<le> ?p" "?p \<le> N + 1" "m_pos s = ?p" and N: "0 \<le> N" "N < cursor_all - 1"
    using in_step_range [OF assms(2)] cursor_server_bounds [OF assms(1)] by auto
  have nm: "c_name s = nm" and pl: "place_at N ?p (place_of s)"
    and o: "is_open env s \<and> m_Trans s \<noteq> None \<and> m_Conn s = h"
    using assms(2) by (simp_all add: in_step_def)
  obtain p w where p: "PQexec env h (move_query nm n) (world s) = (Some p, w)"
    "posn w = backend_target N ?p n" "PQresultStatus p = PGRES_COMMAND_OK"
    "PQcmdTuples p = to_string_integer ulong_t (backend_count N ?p n)"
    using cursor_server_move [OF assms(1,3,4) r(1,2)] .
  define R where "R = make_result_object (Some p) (PQprotocolVersion env h w) (move_query nm n)
    (PQclientEncoding env h w)"
  obtain w' where w': "posn w' = posn w" "Exec env (move_query nm n) 0 s = (Inr R, s\<lparr>world := w'\<rparr>)"
    using Exec_served [OF assms(1) o p(1)] p(3) unfolding R_def by blast
  have k: "0 \<le> backend_count N ?p n" "backend_count N ?p n \<le> N"
    using backend_count_range r N by auto
  then have "fits ulong_t (backend_count N ?p n)"
    using N by (simp add: fits_def tmin_def tmax_def ulong_t_def cursor_all_def)
  then have a: "int (affected_rows R) = backend_count N ?p n"
    using affected_rows_text [of R p] p(4) k by (simp add: R_def make_result_object_def)
  have "adjust_cursor n (backend_count N ?p n) (s\<lparr>world := w'\<rparr>) =
    (Inr (backend_target N ?p n - ?p), set_place (moved N n (place_of s)) (s\<lparr>world := w'\<rparr>))"
    using adjust_cursor_moved [of N ?p "s\<lparr>world := w'\<rparr>" n] pl assms(4) by simp
  then show ?thesis
    using assms(4) nm w' a r(3) p(2)
    by (intro exI [of _ w']) (simp add: cursor_move_def bnd_def gets_def ret_def Let_def)
qed

lemma fetch_in_step:
  assumes "cursor_server env h nm N posn tab" "in_step env h nm N posn s" "fits long_t n" "n \<noteq> 0"
  shows "\<exists>w R. posn w = backend_target N (m_pos s) n \<and>
    result_shows R tab (backend_rows N (m_pos s) n) \<and>
    cursor_fetch env n s = (Inr (R, backend_target N (m_pos s) n - m_pos s),
      set_place (moved N n (place_of s)) (s\<lparr>world := w\<rparr>))"
proof -
  let ?p = "posn (world s)"
  have r: "0 \<le> ?p" "?p \<le> N + 1" "m_pos s = ?p"
    using in_step_range [OF assms(2)] by auto
  have nm: "c_name s = nm" and pl: "place_at N ?p (place_of s)"
    and o: "is_open env s \<and> m_Trans s \<noteq> None \<and> m_Conn s = h"
    using assms(2) by (simp_all add: in_step_def)
  obtain p w where p: "PQexec env h (fetch_query nm n) (world s) = (Some p, w)"
    "posn w = backend_target N ?p n" "PQresultStatus p = PGRES_TUPLES_OK"
    "PQntuples p = length (backend_rows N ?p n)"
    "\<forall>i < PQntuples p. PQgetvalue p i = tab (backend_rows N ?p n ! i)"
    using cursor_server_fetch [OF assms(1,3,4) r(1,2)] .
  define R where "R = make_result_object (Some p) (PQprotocolVersion env h w) (fetch_query nm n)
    (PQclientEncoding env h w)"
  obtain w' where w': "posn w' = posn w" "Exec env (fetch_query nm n) 0 s = (Inr R, s\<lparr>world := w'\<rparr>)"
    using Exec_served [OF assms(1) o p(1)] p(3) unfolding R_def by blast
  have a: "int (result_size R) = backend_count N ?p n"
    using p(4) by (simp add: R_def make_result_object_def result_size_def backend_count_def)
  have "adjust_cursor n (backend_count N ?p n) (s\<lparr>world := w'\<rparr>) =
    (Inr (backend_target N ?p n - ?p), set_place (moved N n (place_of s)) (s\<lparr>world := w'\<rparr>))"
    using adjust_cursor_moved [of N ?p "s\<lparr>world := w'\<rparr>" n] pl assms(4) by simp
  moreover have "result_shows R tab (backend_rows N ?p n)"
    using p(4,5) by (simp add: result_shows_def R_def make_result_object_def result_size_def)
  ultimately show ?thesis
    using assms(4) nm w' a r(3) p(2)
    by (intro exI [of _ w'] exI [of _ R]) (simp add: cursor_fetch_def bnd_def gets_def ret_def)
qed

section \<open>The stateless cursor\<close>

lemma small_fits: "\<bar>n\<bar> \<le> 2 ^ 62 \<Longrightarrow> fits long_t n"
  by (simp add: fits_def tmin_def tmax_def long_t_def abs_le_iff)

text \<open>A move to a position given by the distance, the case of no distance included.\<close>

lemma move_to:
  assumes "cursor_server env h nm N posn tab" "in_step env h nm N posn s" "\<bar>q - m_pos s\<bar> \<le> 2 ^ 62"
  shows "\<exists>s'. (\<exists>d. cursor_move env (q - m_pos s) s = (Inr d, s')) \<and> in_step env h nm N posn s' \<and>
    m_pos s' = max 0 (min (N + 1) q) \<and> m_empty_result s' = m_empty_result s \<and>
    (m_endpos s = N + 1 \<longrightarrow> m_endpos s' = N + 1)"
proof (cases "q = m_pos s")
  case True
  then show ?thesis using in_step_range [OF assms(2)] assms(2)
    by (intro exI [of _ s]) (auto simp: cursor_move_def ret_def)
next
  case False
  let ?n = "q - m_pos s"
  obtain w where w: "posn w = backend_target N (m_pos s) ?n" "cursor_move env ?n s =
      (Inr (backend_count N (m_pos s) ?n, backend_target N (m_pos s) ?n - m_pos s),
       set_place (moved N ?n (place_of s)) (s\<lparr>world := w\<rparr>))"
    using move_in_step [OF assms(1,2), of ?n] small_fits [OF assms(3)] False by auto
  moreover have "in_step env h nm N posn (set_place (moved N ?n (place_of s)) (s\<lparr>world := w\<rparr>))"
    using in_step_moved [OF assms(2,1)] w(1) False in_step_range [OF assms(2)] by simp
  ultimately show ?thesis
    by (intro exI [of _ "set_place (moved N ?n (place_of s)) (s\<lparr>world := w\<rparr>)"])
      (simp add: moved_def place_of_def backend_target_def)
qed

lemma fetch_rows:
  assumes "cursor_server env h nm N posn tab" "in_step env h nm N posn s" "\<bar>n\<bar> \<le> 2 ^ 62" "n \<noteq> 0"
  shows "\<exists>s' R d. cursor_fetch env n s = (Inr (R, d), s') \<and> in_step env h nm N posn s' \<and>
    result_shows R tab (backend_rows N (m_pos s) n)"
proof -
  obtain w R where w: "posn w = backend_target N (m_pos s) n"
    "result_shows R tab (backend_rows N (m_pos s) n)"
    "cursor_fetch env n s = (Inr (R, backend_target N (m_pos s) n - m_pos s),
      set_place (moved N n (place_of s)) (s\<lparr>world := w\<rparr>))"
    using fetch_in_step [OF assms(1,2) small_fits [OF assms(3)] assms(4)] by auto
  moreover have "in_step env h nm N posn (set_place (moved N n (place_of s)) (s\<lparr>world := w\<rparr>))"
    using in_step_moved [OF assms(2,1)] w(1) assms(4) in_step_range [OF assms(2)] by simp
  ultimately show ?thesis by blast
qed

lemma size_found:
  assumes "cursor_server env h nm N posn tab" "in_step env h nm N posn s"
  shows "\<exists>s'. obtain_stateless_cursor_size env s = (Inr N, s') \<and> in_step env h nm N posn s' \<and>
    m_endpos s' = N + 1 \<and> m_empty_result s' = m_empty_result s"
proof (cases "m_endpos s = -1")
  case False
  then have "m_endpos s = N + 1"
    using assms(2) by (simp add: in_step_def place_at_def place_of_def)
  with False assms(2) show ?thesis
    by (intro exI [of _ s]) (simp add: obtain_stateless_cursor_size_def cond_def seq_def bnd_def
        skip_def ret_def gets_def)
next
  case True
  have r: "0 \<le> m_pos s" "m_pos s \<le> N + 1" and N: "0 \<le> N" "N < cursor_all - 1"
    using in_step_range [OF assms(2)] cursor_server_bounds [OF assms(1)] by auto
  obtain w where w: "posn w = backend_target N (m_pos s) cursor_all" "cursor_move env cursor_all s =
      (Inr (backend_count N (m_pos s) cursor_all, backend_target N (m_pos s) cursor_all - m_pos s),
       set_place (moved N cursor_all (place_of s)) (s\<lparr>world := w\<rparr>))"
    using move_in_step [OF assms, of cursor_all] by (auto simp: small_fits cursor_all_def)
  let ?s = "set_place (moved N cursor_all (place_of s)) (s\<lparr>world := w\<rparr>)"
  have i: "in_step env h nm N posn ?s"
    using in_step_moved [OF assms(2,1)] w(1) in_step_range [OF assms(2)] by (simp add: cursor_all_def)
  have e: "m_endpos ?s = N + 1"
    using r N by (simp add: moved_def place_of_def cursor_all_def)
  have "obtain_stateless_cursor_size env s = (Inr (m_endpos ?s - 1), ?s)"
    using True w(2) by (simp add: obtain_stateless_cursor_size_def cond_def seq_def bnd_def
        skip_def ret_def gets_def del: set_place_simps)
  then show ?thesis using i e by (intro exI [of _ ?s]) simp
qed

text \<open>
  The rows \<open>stateless_cursor_retrieve\<close> returns, numbered from 0. In descending order from the
  position behind the last row it returns the row \<open>end_pos\<close> as well.
\<close>

definition clipped :: "int \<Rightarrow> int \<Rightarrow> int" where
  "clipped N e = (if e < -1 then -1 else if e > N then N else e)"

definition retrieved :: "int \<Rightarrow> int \<Rightarrow> int \<Rightarrow> int list" where
  "retrieved N b e =
     (if b < e then [b .. e - 1] else if b < N then rev [e + 1 .. b] else rev [max 0 e .. N - 1])"

lemma map_pred_upto: "map (\<lambda>k. k - 1) [i .. j] = [i - 1 .. j - (1::int)]"
  by (rule nth_equalityI) simp_all

lemma result_shows_from_0:
  "result_shows R tab ks \<Longrightarrow> result_shows R (\<lambda>k. tab (k + 1)) (map (\<lambda>k. k - 1) ks)"
  by (auto simp: result_shows_def)

lemma retrieved_rows:
  assumes "0 \<le> b" "b \<le> N" "b \<noteq> clipped N e" "d = (if b < clipped N e then 1 else -1)"
  shows "map (\<lambda>k. k - 1) (backend_rows N (max 0 (min (N + 1) (b - d + 1))) (clipped N e - b)) =
    retrieved N b (clipped N e)"
proof -
  have c: "-1 \<le> clipped N e" "clipped N e \<le> N" using assms(1,2) by (auto simp: clipped_def)
  consider (up) "b < clipped N e" | (down) "clipped N e < b" "b < N" | (end_of) "clipped N e < b" "b = N"
    using assms(2,3) by linarith
  then show ?thesis
  proof cases
    case up
    then show ?thesis using assms c by (simp add: backend_rows_def retrieved_def map_pred_upto)
  next
    case down
    then show ?thesis using assms c
      by (simp add: backend_rows_def retrieved_def map_pred_upto rev_map [symmetric] add.commute)
  next
    case end_of
    then show ?thesis using assms c
      by (simp add: backend_rows_def retrieved_def map_pred_upto rev_map [symmetric] max_def)
  qed
qed

lemma retrieve_rows:
  assumes "cursor_server env h nm N posn tab" "in_step env h nm N posn s"
    "0 \<le> b" "b \<le> N" "b \<noteq> clipped N e"
  shows "\<exists>s' R. stateless_cursor_retrieve env N b e s = (Inr R, s') \<and> in_step env h nm N posn s' \<and>
    result_shows R (\<lambda>k. tab (k + 1)) (retrieved N b (clipped N e))"
proof -
  let ?d = "if b < clipped N e then 1 else -1 :: int"
  have N: "0 \<le> N" "N < cursor_all - 1" and r: "0 \<le> m_pos s" "m_pos s \<le> N + 1"
    using in_step_range [OF assms(2)] cursor_server_bounds [OF assms(1)] by auto
  have far: "\<bar>(b - ?d + 1) - m_pos s\<bar> \<le> 2 ^ 62" "\<bar>clipped N e - b\<bar> \<le> 2 ^ 62"
    using N r assms(3,4) by (auto simp: cursor_all_def clipped_def abs_le_iff)
  obtain s1 d where s1: "cursor_move env ((b - ?d + 1) - m_pos s) s = (Inr d, s1)"
    "in_step env h nm N posn s1" "m_pos s1 = max 0 (min (N + 1) (b - ?d + 1))"
    using move_to [OF assms(1,2) far(1)] by blast
  obtain s2 R d2 where s2: "cursor_fetch env (clipped N e - b) s1 = (Inr (R, d2), s2)"
    "in_step env h nm N posn s2" "result_shows R tab (backend_rows N (m_pos s1) (clipped N e - b))"
    using fetch_rows [OF assms(1) s1(2) far(2)] assms(5) by auto
  have "stateless_cursor_retrieve env N b e s = (Inr R, s2)"
    using assms(3-5) s1(1) s2(1)
    unfolding stateless_cursor_retrieve_def clipped_def [symmetric] Let_def
    by (cases "b < clipped N e") (simp_all add: bnd_def gets_def ret_def add_diff_eq)
  moreover have "result_shows R (\<lambda>k. tab (k + 1)) (retrieved N b (clipped N e))"
    using result_shows_from_0 [OF s2(3)] retrieved_rows [OF assms(3-5) refl]
    unfolding s1(3) by simp
  ultimately show ?thesis using s2(2) by blast
qed

text \<open>An adopted cursor may be anywhere; moving it all the way back finds its place.\<close>

lemma adopted_move:
  assumes "cursor_server env h nm N posn tab" "is_open env s \<and> m_Trans s \<noteq> None \<and> m_Conn s = h"
    "0 \<le> posn (world s)" "posn (world s) \<le> N + 1"
    "c_name s = nm" "place_of s = \<lparr>p_at_end = 0, p_pos = -1, p_endpos = -1\<rparr>"
  shows "\<exists>w d. posn w = 0 \<and> cursor_move env cursor_backward_all s =
    (Inr d, set_place \<lparr>p_at_end = -1, p_pos = 0, p_endpos = -1\<rparr> (s\<lparr>world := w\<rparr>))"
proof -
  let ?p = "posn (world s)" and ?n = cursor_backward_all
  have N: "0 \<le> N" "N < cursor_all - 1" using cursor_server_bounds [OF assms(1)] by auto
  obtain p w where p: "PQexec env h (move_query nm ?n) (world s) = (Some p, w)"
    "posn w = backend_target N ?p ?n" "PQresultStatus p = PGRES_COMMAND_OK"
    "PQcmdTuples p = to_string_integer ulong_t (backend_count N ?p ?n)"
    using cursor_server_move [OF assms(1) _ _ assms(3,4), of ?n]
    by (auto simp: cursor_backward_all_def small_fits)
  define R where "R = make_result_object (Some p) (PQprotocolVersion env h w) (move_query nm ?n)
    (PQclientEncoding env h w)"
  obtain w' where w': "posn w' = posn w" "Exec env (move_query nm ?n) 0 s = (Inr R, s\<lparr>world := w'\<rparr>)"
    using Exec_served [OF assms(1,2) p(1)] p(3) unfolding R_def by blast
  have c: "backend_target N ?p ?n = 0" "backend_count N ?p ?n = max 0 (?p - 1)"
    using target_count_backward [OF assms(3,4), of ?n] assms(4) N
    by (auto simp: cursor_all_def cursor_backward_all_def split: if_splits)
  have "fits ulong_t (max 0 (?p - 1))"
    using N assms(4) by (simp add: fits_def tmin_def tmax_def ulong_t_def cursor_all_def)
  then have a: "int (affected_rows R) = max 0 (?p - 1)"
    using affected_rows_text [of R p "max 0 (?p - 1)"] p(4) by (simp add: c R_def make_result_object_def)
  have "adjust ?n (max 0 (?p - 1)) (place_of s) =
    (Inr (- (max 0 (?p - 1) + 1)), \<lparr>p_at_end = -1, p_pos = 0, p_endpos = -1\<rparr>)"
    using assms(4) N by (subst adjust_to_origin) (auto simp: assms(6) cursor_all_def cursor_backward_all_def)
  then have "adjust_cursor ?n (max 0 (?p - 1)) (s\<lparr>world := w'\<rparr>) =
    (Inr (- (max 0 (?p - 1) + 1)),
     set_place \<lparr>p_at_end = -1, p_pos = 0, p_endpos = -1\<rparr> (s\<lparr>world := w'\<rparr>))"
    by (simp add: adjust_cursor_def bnd_def gets_def seq_def modify_def lift_exn_def ret_def)
  then show ?thesis
    using w' a p(2) c(1) assms(5)
    by (intro exI [of _ w'])
      (simp add: cursor_move_def bnd_def gets_def ret_def Let_def cursor_backward_all_def)
qed

lemma adopt_state:
  assumes "is_open env s \<and> m_Trans s \<noteq> None \<and> m_Conn s = h"
  shows "\<exists>t. sql_cursor_adopt nm op s = (Inr (), t) \<and>
    (is_open env t \<and> m_Trans t \<noteq> None \<and> m_Conn t = h) \<and> world t = world s \<and> c_name t = nm \<and>
    place_of t = \<lparr>p_at_end = 0, p_pos = -1, p_endpos = -1\<rparr> \<and> m_adopted t \<and> m_ownership t = op \<and>
    m_reactivation_avoidance t = m_reactivation_avoidance s - (if op = owned then 1 else 0)"
  using assms
  by (auto simp: sql_cursor_adopt_def seq_def bnd_def modify_def skip_def ret_def place_of_def
      add_reactivation_avoidance_count_def is_open_def Status_def)

section \<open>A backend\<close>

text \<open>
  A backend over three rows of one column: its state is the cursor's position, and it reads
  the stride from the text of the query.
\<close>

definition parse_stride :: "string \<Rightarrow> int" where
  "parse_stride Q =
     (let t = takeWhile (\<lambda>c. c \<noteq> CHR '' '') (tl (dropWhile (\<lambda>c. c \<noteq> CHR '' '') Q)) in
      if t = ''ALL'' then cursor_all
      else if t = ''BACKWARD'' then cursor_backward_all
      else case from_string_integer long_t t of Inl _ \<Rightarrow> 0 | Inr n \<Rightarrow> n)"

definition sample_tab :: "int \<Rightarrow> nat \<Rightarrow> string" where
  "sample_tab k j = to_string_integer long_t (10 * k)"

definition shown_rows :: "int list \<Rightarrow> pgresult" where
  "shown_rows ks = (sample_rows [] 1)\<lparr>PQntuples := length ks, PQgetvalue := \<lambda>i. sample_tab (ks ! i)\<rparr>"

definition counted_rows :: "int \<Rightarrow> pgresult" where
  "counted_rows n = (sample_rows [] 0)\<lparr>PQresultStatus := PGRES_COMMAND_OK, PQcmdTuples := to_string_integer ulong_t n\<rparr>"

definition cursor_env :: "int env" where
  "cursor_env = quiet_env\<lparr>PQexec := \<lambda>_ Q w.
     (Some (if hd Q = CHR ''F'' then shown_rows (backend_rows 3 w (parse_stride Q))
            else counted_rows (backend_count 3 w (parse_stride Q))),
      backend_target 3 w (parse_stride Q))\<rparr>"

lemma stride_chars: "c \<in> set (to_string_long n) \<Longrightarrow> isdigit c \<or> c = CHR ''-''"
  using decimal_digits [of "\<bar>n\<bar>"]
  by (auto simp: to_string_integer_def long_t_def to_string_signed_stream to_string_fallback_def
      list_all_iff abs_if split: if_splits)

lemma letters [simp]: "\<not> isdigit (CHR '' '')" "\<not> isdigit (CHR ''A'')" "\<not> isdigit (CHR ''B'')"
  by (simp_all add: isdigit_def char_value_def)

lemma stride_text:
  "takeWhile (\<lambda>c. c \<noteq> CHR '' '') (to_string_long n @ CHR '' '' # rest) = to_string_long n"
  "to_string_long n \<noteq> ''ALL''" "to_string_long n \<noteq> ''BACKWARD''"
proof -
  have s: "c \<in> set (to_string_long n) \<Longrightarrow> c \<notin> {CHR '' '', CHR ''A'', CHR ''B''}" for c
    using stride_chars [of c n] by auto
  then have "takeWhile (\<lambda>c. c \<noteq> CHR '' '') (to_string_long n) = to_string_long n"
    by (intro takeWhile_all) auto
  then show "takeWhile (\<lambda>c. c \<noteq> CHR '' '') (to_string_long n @ CHR '' '' # rest) = to_string_long n"
    using s by (subst takeWhile_append2) auto
  show "to_string_long n \<noteq> ''ALL''" "to_string_long n \<noteq> ''BACKWARD''"
    using s [of "CHR ''A''"] s [of "CHR ''B''"] by (metis list.set_intros(1) insertCI)+
qed

definition stride_meant :: "int \<Rightarrow> int" where
  "stride_meant n = (if n \<ge> cursor_all then cursor_all
     else if n \<le> cursor_backward_all then cursor_backward_all else n)"

lemma parse_stride_query:
  "fits long_t n \<Longrightarrow> parse_stride (kw @ CHR '' '' # stridestring n @ '' IN '' @ rest) =
     stride_meant n"
  if "\<forall>c \<in> set kw. c \<noteq> CHR '' ''"
  using that
  by (simp add: parse_stride_def stridestring_def stride_meant_def stride_text Let_def
      integer_text_read_back)

lemma parse_stride_queries:
  assumes "fits long_t n"
  shows "parse_stride (fetch_query nm n) = stride_meant n" "parse_stride (move_query nm n) = stride_meant n"
  using parse_stride_query [of "''FETCH''" n "dquoted nm", OF _ assms]
    parse_stride_query [of "''MOVE''" n "dquoted nm", OF _ assms]
  by (simp_all add: fetch_query_def move_query_def)

lemma stride_meant_small:
  assumes "0 \<le> p" "p \<le> 4"
  shows "backend_target 3 p (stride_meant n) = backend_target 3 p n"
    "backend_rows 3 p (stride_meant n) = backend_rows 3 p n"
    "backend_count 3 p (stride_meant n) = backend_count 3 p n"
proof -
  show "backend_target 3 p (stride_meant n) = backend_target 3 p n"
    using assms by (auto simp: backend_target_def stride_meant_def cursor_all_def cursor_backward_all_def)
  show r: "backend_rows 3 p (stride_meant n) = backend_rows 3 p n"
    using assms by (auto simp: backend_rows_def stride_meant_def cursor_all_def cursor_backward_all_def min_def max_def)
  show "backend_count 3 p (stride_meant n) = backend_count 3 p n"
    by (simp add: backend_count_def r)
qed

lemma cursor_env_serves: "cursor_server cursor_env (Some 1) ''c'' 3 (\<lambda>w. w) sample_tab"
proof -
  have "hd (fetch_query nm n) = CHR ''F''" "hd (move_query nm n) = CHR ''M''" for nm n
    by (simp_all add: fetch_query_def move_query_def)
  then show ?thesis
    unfolding cursor_server_def cursor_env_def
    by (simp add: quiet_env_def cursor_all_def parse_stride_queries stride_meant_small shown_rows_def
        counted_rows_def sample_rows_def)
qed

definition sample_cursor :: "int \<Rightarrow> int curs" where
  "sample_cursor p = tx.extend (sample_tx p st_active)
     \<lparr>c_name = ''c'', m_empty_result = sample_result [] 1, m_adopted = False, m_ownership = owned,
      m_at_end = (if p = 0 then -1 else if p = 4 then 1 else 0), m_pos = p, m_endpos = -1\<rparr>"

lemma sample_cursor_in_step:
  "0 \<le> p \<Longrightarrow> p \<le> 4 \<Longrightarrow> in_step cursor_env (Some 1) ''c'' 3 (\<lambda>w. w) (sample_cursor p)"
  by (simp add: in_step_def sample_cursor_def tx.extend_def sample_tx_def new_tx_def conn.extend_def
      open_conn_def connection_base_def is_open_def Status_def cursor_env_def quiet_env_def
      place_at_def place_of_def)

section \<open>Sequences of operations\<close>

datatype cursor_call = Fetch int | Move int

definition cursor_call :: "'w env \<Rightarrow> cursor_call \<Rightarrow> ('w, 'z, unit) kprog" where
  "cursor_call env c =
     (case c of Fetch n \<Rightarrow> bnd (cursor_fetch env n) (\<lambda>_. skip) | Move n \<Rightarrow> bnd (cursor_move env n) (\<lambda>_. skip))"

definition call_stride :: "cursor_call \<Rightarrow> int" where
  "call_stride c = (case c of Fetch n \<Rightarrow> n | Move n \<Rightarrow> n)"

lemma cursor_call_in_step:
  assumes "cursor_server env h nm N posn tab" "in_step env h nm N posn s" "fits long_t (call_stride c)"
  shows "\<exists>s'. cursor_call env c s = (Inr (), s') \<and> in_step env h nm N posn s' \<and>
    m_pos s' = backend_target N (m_pos s) (call_stride c)"
proof (cases "call_stride c = 0")
  case True
  then have "cursor_call env c s = (Inr (), s)"
    by (cases c) (simp_all add: cursor_call_def call_stride_def cursor_fetch_def cursor_move_def
        bnd_def gets_def ret_def skip_def)
  then show ?thesis using True assms(2) in_step_range [OF assms(2)]
    by (simp add: backend_target_def)
next
  case False
  let ?s = "\<lambda>w. set_place (moved N (call_stride c) (place_of s)) (s\<lparr>world := w\<rparr>)"
  have "\<exists>w. posn w = backend_target N (m_pos s) (call_stride c) \<and> cursor_call env c s = (Inr (), ?s w)"
  proof (cases c)
    case (Fetch n)
    then show ?thesis using fetch_in_step [OF assms(1,2), of n] assms(3) False
      by (auto simp: cursor_call_def call_stride_def bnd_def skip_def ret_def)
  next
    case (Move n)
    then show ?thesis using move_in_step [OF assms(1,2), of n] assms(3) False
      by (auto simp: cursor_call_def call_stride_def bnd_def skip_def ret_def)
  qed
  then obtain w where w: "posn w = backend_target N (m_pos s) (call_stride c)"
    "cursor_call env c s = (Inr (), ?s w)" by blast
  have "in_step env h nm N posn (?s w)"
    using in_step_moved [OF assms(2,1)] w(1) False in_step_range [OF assms(2)] by simp
  then show ?thesis using w(2) by (simp add: moved_def place_of_def)
qed

lemma cursor_calls_in_step:
  assumes "cursor_server env h nm N posn tab" "in_step env h nm N posn s"
    "\<forall>c \<in> set cs. fits long_t (call_stride c)"
  shows "\<exists>s'. for_each cs (cursor_call env) s = (Inr (), s') \<and> in_step env h nm N posn s' \<and>
    m_pos s' = fold (\<lambda>c p. backend_target N p (call_stride c)) cs (m_pos s)"
  using assms(2,3)
proof (induction cs arbitrary: s)
  case (Cons c cs)
  then obtain s1 where s1: "cursor_call env c s = (Inr (), s1)" "in_step env h nm N posn s1"
    "m_pos s1 = backend_target N (m_pos s) (call_stride c)"
    using cursor_call_in_step [OF assms(1), of s c] by auto
  show ?case using Cons.IH [OF s1(2)] Cons.prems(2) s1(1,3) by (simp add: seq_def bnd_def)
qed (simp add: skip_def ret_def)

lemma stateless_retrieve_rows:
  assumes "cursor_server env h nm N posn tab" "in_step env h nm N posn s"
    "0 \<le> b" "b \<le> N" "b \<noteq> clipped N e"
  shows "\<exists>s' R. stateless_retrieve env b e s = (Inr R, s') \<and> in_step env h nm N posn s' \<and>
    result_shows R (\<lambda>k. tab (k + 1)) (retrieved N b (clipped N e))"
proof -
  obtain s1 where s1: "obtain_stateless_cursor_size env s = (Inr N, s1)" "in_step env h nm N posn s1"
    using size_found [OF assms(1,2)] by blast
  show ?thesis using retrieve_rows [OF assms(1) s1(2) assms(3-5)] s1(1)
    by (simp add: stateless_retrieve_def bnd_def)
qed

section \<open>Properties\<close>

text \<open>
  C3: whatever sequence of fetches and moves a program asks of a cursor, on a backend that
  does what \<open>FETCH\<close> and \<open>MOVE\<close> are documented to do, none of them fails, and after each the
  position, the end position and the at-end flag of the object are right.
\<close>

theorem cursor_follows_backend:
  assumes "cursor_server env h nm N posn tab" "in_step env h nm N posn s"
    and "\<forall>c \<in> set cs. fits long_t (call_stride c)"
  shows "\<exists>s'. for_each cs (cursor_call env) s = (Inr (), s') \<and> in_step env h nm N posn s' \<and>
    m_pos s' = fold (\<lambda>c p. backend_target N p (call_stride c)) cs (m_pos s)"
  using assms by (rule cursor_calls_in_step)

theorem cursor_follows_backend_witness:
  "\<exists>s'. for_each [Fetch 2, Move cursor_all, Fetch (-3)] (cursor_call cursor_env) (sample_cursor 0) = (Inr (), s') \<and>
     m_pos s' = 1"
proof -
  have "\<exists>s'. for_each [Fetch 2, Move cursor_all, Fetch (-3)] (cursor_call cursor_env) (sample_cursor 0) = (Inr (), s') \<and>
    in_step cursor_env (Some 1) ''c'' 3 (\<lambda>w. w) s' \<and>
    m_pos s' = fold (\<lambda>c p. backend_target 3 p (call_stride c)) [Fetch 2, Move cursor_all, Fetch (-3)]
      (m_pos (sample_cursor 0))"
    by (rule cursor_follows_backend [OF cursor_env_serves sample_cursor_in_step])
      (simp_all add: call_stride_def fits_def tmin_def tmax_def long_t_def cursor_all_def)
  then show ?thesis
    by (auto simp: call_stride_def backend_target_def cursor_all_def sample_cursor_def tx.extend_def)
qed

text \<open>
  C32: a fetch returns exactly the rows the backend's cursor passes, in that order, together with
  the displacement of the cursor, the steps onto the positions before and behind the rows included.
\<close>

theorem fetch_returns_rows_passed:
  assumes "cursor_server env h nm N posn tab" "in_step env h nm N posn s" "fits long_t n" "n \<noteq> 0"
  shows "\<exists>R s'. cursor_fetch env n s = (Inr (R, m_pos s' - m_pos s), s') \<and>
    m_pos s' = backend_target N (m_pos s) n \<and> result_shows R tab (backend_rows N (m_pos s) n)"
  using fetch_in_step [OF assms] by (auto simp: moved_def place_of_def)

theorem fetch_returns_rows_passed_witness:
  "\<exists>R s'. cursor_fetch cursor_env (-5) (sample_cursor 3) = (Inr (R, -3), s') \<and>
     result_shows R sample_tab [2, 1]"
proof -
  have "\<exists>R s'. cursor_fetch cursor_env (-5) (sample_cursor 3) =
      (Inr (R, m_pos s' - m_pos (sample_cursor 3)), s') \<and>
    m_pos s' = backend_target 3 (m_pos (sample_cursor 3)) (-5) \<and>
    result_shows R sample_tab (backend_rows 3 (m_pos (sample_cursor 3)) (-5))"
    by (rule fetch_returns_rows_passed [OF cursor_env_serves sample_cursor_in_step])
      (simp_all add: fits_def tmin_def tmax_def long_t_def)
  moreover have "m_pos (sample_cursor 3) = 3" by (simp add: sample_cursor_def tx.extend_def)
  moreover have "backend_rows 3 3 (-5) = [2, 1]"
    by (simp add: backend_rows_def upto_rec1)
  ultimately show ?thesis by (auto simp: backend_target_def)
qed



text \<open>
  Read backwards from the position behind the last row, which the documentation allows as
  \<open>begin_pos\<close>, the stateless cursor also returns the row \<open>end_pos\<close>, which it should leave out.
\<close>

theorem stateless_cursor_backwards_from_end:
  assumes "cursor_server env h nm N posn tab" "in_step env h nm N posn s" "0 \<le> e" "e < N"
  shows "\<exists>R s'. stateless_retrieve env N e s = (Inr R, s') \<and>
    result_shows R (\<lambda>k. tab (k + 1)) (rev [e .. N - 1])"
proof -
  have c: "clipped N e = e" "retrieved N N e = rev [e .. N - 1]"
    using assms(3,4) by (auto simp: clipped_def retrieved_def)
  show ?thesis
    using stateless_retrieve_rows [OF assms(1,2), of N e] assms(3,4) unfolding c by auto
qed

theorem stateless_cursor_backwards_from_end_witness:
  "\<exists>R s'. stateless_retrieve cursor_env 3 1 (sample_cursor 0) = (Inr R, s') \<and>
     result_shows R (\<lambda>k. sample_tab (k + 1)) [2, 1]"
proof -
  have "\<exists>R s'. stateless_retrieve cursor_env 3 1 (sample_cursor 0) = (Inr R, s') \<and>
    result_shows R (\<lambda>k. sample_tab (k + 1)) (rev [1 .. 3 - 1])"
    by (rule stateless_cursor_backwards_from_end [OF cursor_env_serves sample_cursor_in_step]) simp_all
  then show ?thesis by (simp add: upto_rec1)
qed

text \<open>
  A stateless cursor over an adopted SQL cursor knows its place once it is constructed,
  wherever the SQL cursor stood, and the backend's cursor is back before the first row.
\<close>

theorem adopted_cursor_finds_place:
  assumes "cursor_server env h nm N posn tab" "is_open env s \<and> m_Trans s \<noteq> None \<and> m_Conn s = h"
    and "0 \<le> posn (world s)" "posn (world s) \<le> N + 1"
  shows "\<exists>s'. stateless_adopt env nm op s = (Inr (), s') \<and> in_step env h nm N posn s' \<and> m_pos s' = 0"
proof -
  obtain t where s: "sql_cursor_adopt nm op s = (Inr (), t)" "is_open env t \<and> m_Trans t \<noteq> None \<and> m_Conn t = h"
    "world t = world s" "c_name t = nm" "place_of t = \<lparr>p_at_end = 0, p_pos = -1, p_endpos = -1\<rparr>"
    using adopt_state [OF assms(2), of nm op] by blast
  obtain w d where w: "posn w = 0" "cursor_move env cursor_backward_all t =
    (Inr d, set_place \<lparr>p_at_end = -1, p_pos = 0, p_endpos = -1\<rparr> (t\<lparr>world := w\<rparr>))"
    using adopted_move [OF assms(1) s(2)] assms(3,4) s(3-5) by auto
  have st: "PQstatus env h w = CONNECTION_OK" and N: "0 \<le> N"
    using assms(1) unfolding cursor_server_def by blast+
  have "stateless_adopt env nm op s =
    (Inr (), set_place \<lparr>p_at_end = -1, p_pos = 0, p_endpos = -1\<rparr> (t\<lparr>world := w\<rparr>))"
    using s(1) w(2) by (simp add: stateless_adopt_def seq_def catch_all_def catch_def bnd_def skip_def ret_def)
  then show ?thesis using w(1) s(2,4) st N
    by (auto simp: in_step_def is_open_def Status_def place_at_def)
qed

theorem adopted_cursor_finds_place_witness:
  "\<exists>s'. stateless_adopt cursor_env ''c'' owned (sample_cursor 2) = (Inr (), s') \<and> m_pos s' = 0 \<and> world s' = 0"
proof -
  have "\<exists>s'. stateless_adopt cursor_env ''c'' owned (sample_cursor 2) = (Inr (), s') \<and>
    in_step cursor_env (Some 1) ''c'' 3 (\<lambda>w. w) s' \<and> m_pos s' = 0"
    using sample_cursor_in_step [of 2]
    by (intro adopted_cursor_finds_place [OF cursor_env_serves])
      (simp_all add: in_step_def sample_cursor_def tx.extend_def sample_tx_def new_tx_def conn.extend_def
      open_conn_def connection_base_def)
  then show ?thesis by (auto simp: in_step_def place_at_def place_of_def)
qed

text \<open>
  A starting position outside the result set is refused with a \<open>range_error\<close>, after the
  size was found, with the cursor still in step with the backend.
\<close>

theorem stateless_cursor_start_checked:
  assumes "cursor_server env h nm N posn tab" "in_step env h nm N posn s" "b < 0 \<or> N < b"
  shows "\<exists>s'. stateless_retrieve env b e s = (Inl (range_error ''Starting position out of range''), s') \<and>
    in_step env h nm N posn s'"
proof -
  obtain s1 where s1: "obtain_stateless_cursor_size env s = (Inr N, s1)" "in_step env h nm N posn s1"
    using size_found [OF assms(1,2)] by blast
  then show ?thesis using assms(3)
    by (auto simp: stateless_retrieve_def bnd_def stateless_cursor_retrieve_def throw_def)
qed

theorem stateless_cursor_start_checked_witness:
  "\<exists>s'. stateless_retrieve cursor_env 4 0 (sample_cursor 1) =
     (Inl (range_error ''Starting position out of range''), s') \<and>
     in_step cursor_env (Some 1) ''c'' 3 (\<lambda>w. w) s'"
  by (rule stateless_cursor_start_checked [OF cursor_env_serves sample_cursor_in_step]) simp_all

text \<open>
  Adopting an SQL cursor as owned and closing it again lowers the connection's count of
  reasons against a reactivation by two: adoption and closing both subtract, nothing adds.
\<close>

theorem adopted_cursor_counts_twice:
  assumes "is_open env s \<and> m_Trans s \<noteq> None \<and> m_Conn s = h" "0 < rounds env"
    and "PQexec env h (''CLOSE '' @ dquoted nm) (world s) = (Some p, w)" "PQresultStatus p = PGRES_COMMAND_OK"
    and "PQstatus env h w = CONNECTION_OK" "PQconsumeInput env h w = (True, w')"
  shows "\<exists>s'. seq (sql_cursor_adopt nm owned) (cursor_close env) s = (Inr (), s') \<and>
    m_reactivation_avoidance s' = m_reactivation_avoidance s - 2"
proof -
  obtain t where s: "sql_cursor_adopt nm owned s = (Inr (), t)" "is_open env t \<and> m_Trans t \<noteq> None \<and> m_Conn t = h"
    "world t = world s" "c_name t = nm" "m_adopted t" "m_ownership t = owned"
    "m_reactivation_avoidance t = m_reactivation_avoidance s - 1"
    using adopt_state [OF assms(1), of nm owned] by auto
  have e: "Exec env (''CLOSE '' @ dquoted nm) 0 t =
    (Inr (make_result_object (Some p) (PQprotocolVersion env h w) (''CLOSE '' @ dquoted nm)
      (PQclientEncoding env h w)), t\<lparr>world := w'\<rparr>)"
    using Exec_answered [OF _ _ assms(2) _ _ _ refl, of t "''CLOSE '' @ dquoted nm" p w w' 0]
      s(2,3) assms(3-6) CheckStatus_fine [of p] by simp
  have "cursor_close env t = (Inr (), t\<lparr>world := w',
      m_reactivation_avoidance := m_reactivation_avoidance t - 1, m_ownership := loose\<rparr>)"
    using e s(4-6)
    by (simp add: cursor_close_def cond_def seq_def bnd_def gets_def catch_class_def catch_def skip_def
        ret_def modify_def add_reactivation_avoidance_count_def)
  then show ?thesis using s(1,7) by (simp add: seq_def bnd_def)
qed

theorem adopted_cursor_counts_twice_witness:
  "\<exists>s'. seq (sql_cursor_adopt ''c'' owned) (cursor_close cursor_env) (sample_cursor 2) = (Inr (), s') \<and>
     m_reactivation_avoidance s' = -2"
proof -
  have "\<exists>s'. seq (sql_cursor_adopt ''c'' owned) (cursor_close cursor_env) (sample_cursor 2) = (Inr (), s') \<and>
    m_reactivation_avoidance s' = m_reactivation_avoidance (sample_cursor 2) - 2"
    using sample_cursor_in_step [of 2]
    by (intro adopted_cursor_counts_twice [where h = "Some 1"])
      (auto simp: in_step_def sample_cursor_def cursor_env_def quiet_env_def
        counted_rows_def sample_rows_def tx.extend_def sample_tx_def new_tx_def conn.extend_def
      open_conn_def connection_base_def)
  then show ?thesis
    by (simp add: sample_cursor_def tx.extend_def sample_tx_def new_tx_def conn.extend_def
      open_conn_def connection_base_def)
qed

end
