(* ===== verification/Savepoints.thy ===== *)
theory Savepoints
  imports Cursor_Facts "HOL-Library.Sublist"
begin

text \<open>
  Savepoints the way PostgreSQL documents them, the nested transactions a program means when it
  uses subtransactions, and how the first serve the second.
\<close>

section \<open>The backend\<close>

record 'd server =
  in_block :: bool
  failed :: bool
  durable :: 'd
  current :: 'd
  savepoints :: "(string \<times> 'd) list"

datatype sql = Sql_commit | Sql_rollback | Sql_savepoint string | Sql_release string | Sql_rollback_to string
  | Sql_query string

definition sql_text :: "sql \<Rightarrow> string" where
  "sql_text c = (case c of
     Sql_commit \<Rightarrow> sql_commit_work | Sql_rollback \<Rightarrow> sql_rollback_work
   | Sql_savepoint n \<Rightarrow> ''SAVEPOINT '' @ dquoted n | Sql_release n \<Rightarrow> ''RELEASE SAVEPOINT '' @ dquoted n
   | Sql_rollback_to n \<Rightarrow> ''ROLLBACK TO SAVEPOINT '' @ dquoted n | Sql_query Q \<Rightarrow> Q)"

text \<open>A command that is refused: inside a block it takes the whole block down.\<close>

definition refused :: "'d server \<Rightarrow> bool \<times> 'd server" where
  "refused v = (False, v\<lparr>failed := in_block v\<rparr>)"

definition left_block :: "'d \<Rightarrow> 'd server \<Rightarrow> 'd server" where
  "left_block x v = v\<lparr>in_block := False, failed := False, durable := x, current := x, savepoints := []\<rparr>"

text \<open>The newest savepoint of a name and the older ones.\<close>

definition sp_from :: "string \<Rightarrow> (string \<times> 'd) list \<Rightarrow> (string \<times> 'd) list" where
  "sp_from n sps = dropWhile (\<lambda>p. fst p \<noteq> n) sps"

fun sql_step :: "(string \<Rightarrow> 'd \<Rightarrow> 'd option) \<Rightarrow> sql \<Rightarrow> 'd server \<Rightarrow> bool \<times> 'd server" where
  "sql_step eff (Sql_query Q) v =
     (if failed v then refused v
      else (case eff Q (current v) of
          None \<Rightarrow> refused v
        | Some x \<Rightarrow> (True, if in_block v then v\<lparr>current := x\<rparr> else v\<lparr>current := x, durable := x\<rparr>)))"
| "sql_step eff Sql_commit v =
     (True, if in_block v then left_block (if failed v then durable v else current v) v else v)"
| "sql_step eff Sql_rollback v = (True, if in_block v then left_block (durable v) v else v)"
| "sql_step eff (Sql_savepoint n) v =
     (if \<not> in_block v \<or> failed v then refused v
      else (True, v\<lparr>savepoints := (n, current v) # savepoints v\<rparr>))"
| "sql_step eff (Sql_release n) v =
     (if \<not> in_block v \<or> failed v \<or> sp_from n (savepoints v) = [] then refused v
      else (True, v\<lparr>savepoints := tl (sp_from n (savepoints v))\<rparr>))"
| "sql_step eff (Sql_rollback_to n) v =
     (case sp_from n (savepoints v) of
        [] \<Rightarrow> refused v
      | (_, x) # older \<Rightarrow>
          if in_block v then (True, v\<lparr>failed := False, current := x, savepoints := sp_from n (savepoints v)\<rparr>)
          else refused v)"

section \<open>What programs mean\<close>

text \<open>
  A subtransaction has a name, a status and the content of the database when it began. The
  backend transaction began with the durable content.
\<close>

datatype 'd sub = Sub (sub_name: string) (sub_status: status) (sub_saved: 'd)

record 'd nested =
  n_base :: 'd
  n_now :: 'd
  n_outer :: status
  n_subs :: "'d sub list"
  n_id :: int

definition adorned :: "string \<Rightarrow> int \<Rightarrow> string" where
  "adorned n i = (if n = [] then CHR ''x'' # to_string_int i else n @ ''_'' @ to_string_int i)"

definition set_inner :: "status \<Rightarrow> 'd nested \<Rightarrow> 'd nested" where
  "set_inner st m = (case n_subs m of
     [] \<Rightarrow> m\<lparr>n_outer := st\<rparr>
   | Sub n _ x # ls \<Rightarrow> m\<lparr>n_subs := Sub n st x # ls\<rparr>)"

definition inner_status :: "'d nested \<Rightarrow> status" where
  "inner_status m = (case n_subs m of [] \<Rightarrow> n_outer m | l # _ \<Rightarrow> sub_status l)"

definition inner_saved :: "'d nested \<Rightarrow> 'd" where
  "inner_saved m = (case n_subs m of [] \<Rightarrow> n_base m | l # _ \<Rightarrow> sub_saved l)"

text \<open>A subtransaction begins at its first query.\<close>

definition begin_inner :: "'d nested \<Rightarrow> 'd nested" where
  "begin_inner m = (case n_subs m of
     Sub n st_nascent _ # ls \<Rightarrow> m\<lparr>n_subs := Sub n st_active (n_now m) # ls\<rparr>
   | _ \<Rightarrow> m)"

definition undo_inner :: "'d nested \<Rightarrow> 'd nested" where
  "undo_inner m = set_inner st_aborted (m\<lparr>n_now := inner_saved m\<rparr>)"

definition query_inner :: "(string \<Rightarrow> 'd \<Rightarrow> 'd option) \<Rightarrow> string \<Rightarrow> 'd nested \<Rightarrow> bool \<times> 'd nested" where
  "query_inner eff Q m =
     (if inner_status m \<in> {st_nascent, st_active} then
        (let b = begin_inner m in
         case eff Q (n_now b) of
           Some x \<Rightarrow> (True, b\<lparr>n_now := x\<rparr>)
         | None \<Rightarrow> (False, undo_inner b))
      else (False, m))"

definition commit_inner :: "'d nested \<Rightarrow> bool \<times> 'd nested" where
  "commit_inner m = (case inner_status m of
     st_active \<Rightarrow> (True, set_inner st_committed (if n_subs m = [] then m\<lparr>n_base := n_now m\<rparr> else m))
   | st_aborted \<Rightarrow> (False, m)
   | _ \<Rightarrow> (True, m))"

definition abort_inner :: "'d nested \<Rightarrow> bool \<times> 'd nested" where
  "abort_inner m = (case inner_status m of
     st_active \<Rightarrow> (True, undo_inner m)
   | st_nascent \<Rightarrow> (True, set_inner st_aborted m)
   | st_committed \<Rightarrow> (False, m)
   | _ \<Rightarrow> (True, m))"

definition open_inner :: "string \<Rightarrow> 'd nested \<Rightarrow> bool \<times> 'd nested" where
  "open_inner nm m =
     (True, m\<lparr>n_id := n_id m + 1, n_subs := Sub (adorned nm (n_id m + 1)) st_nascent (n_now m) # n_subs m\<rparr>)"

definition close_inner :: "'d nested \<Rightarrow> bool \<times> 'd nested" where
  "close_inner m =
     (True, (if inner_status m = st_active then m\<lparr>n_now := inner_saved m\<rparr> else m)\<lparr>n_subs := tl (n_subs m)\<rparr>)"

section \<open>Names\<close>

lemma to_string_int_inj:
  assumes "fits int_t i" "fits int_t j" "to_string_int i = to_string_int j"
  shows "i = j"
proof -
  have "from_string_integer int_t (to_string_int k) = Inr k" if "fits int_t k" for k
    using integer_text_read_back [OF _ that] by simp
  then show ?thesis using assms by (metis Inr_inject)
qed

lemma number_text:
  assumes "fits int_t i" "0 \<le> i"
  shows "\<forall>c \<in> set (to_string_int i). isdigit c" "length (to_string_int i) \<le> 10"
proof -
  have t: "to_string_int i = decimal i"
    using assms(2) by (simp add: to_string_integer_def int_t_def to_string_signed_def to_string_unsigned_decimal)
  then show "\<forall>c \<in> set (to_string_int i). isdigit c"
    using decimal_digits [OF assms(2)] by (simp add: list_all_iff)
  have "i < 10 ^ 10" using assms(1) by (simp add: fits_def tmax_def int_t_def)
  then show "length (to_string_int i) \<le> 10" unfolding t using length_decimal [OF assms(2)] by simp
qed

lemma last_part_unique:
  assumes "a @ ''_'' @ x = b @ ''_'' @ y" "CHR ''_'' \<notin> set x" "CHR ''_'' \<notin> set y"
  shows "x = y"
proof -
  have "takeWhile (\<lambda>c. c \<noteq> CHR ''_'') (rev (d @ ''_'' @ z)) = rev z" if "CHR ''_'' \<notin> set z" for d z
    using that takeWhile_append2 [of "rev z" "\<lambda>c. c \<noteq> CHR ''_''" "CHR ''_'' # rev d"] by auto
  then show ?thesis using assms by (metis rev_rev_ident)
qed

lemma adorned_number:
  assumes "adorned a i = adorned b j" "fits int_t i" "fits int_t j" "0 \<le> i" "0 \<le> j"
  shows "i = j"
proof -
  have d: "CHR ''_'' \<notin> set (to_string_int k)" if "fits int_t k" "0 \<le> k" for k
    using number_text(1) [OF that] by (auto simp: isdigit_def char_value_def)
  have i: "CHR ''_'' \<notin> set (to_string_int i)" and j: "CHR ''_'' \<notin> set (to_string_int j)"
    using d assms(2-5) by simp_all
  have "to_string_int i = to_string_int j"
  proof (cases "a = []")
    case a: True
    show ?thesis
    proof (cases "b = []")
      case False
      then have "CHR ''x'' # to_string_int i = b @ CHR ''_'' # to_string_int j" using assms(1) a by (simp add: adorned_def)
      then have "CHR ''_'' \<in> set (CHR ''x'' # to_string_int i)" by (metis in_set_conv_decomp)
      then show ?thesis using i by simp
    qed (use assms(1) a in \<open>simp add: adorned_def\<close>)
  next
    case a: False
    show ?thesis
    proof (cases "b = []")
      case True
      then have "CHR ''x'' # to_string_int j = a @ CHR ''_'' # to_string_int i" using assms(1) a by (simp add: adorned_def)
      then have "CHR ''_'' \<in> set (CHR ''x'' # to_string_int j)" by (metis in_set_conv_decomp)
      then show ?thesis using j by simp
    next
      case False
      then have "a @ ''_'' @ to_string_int i = b @ ''_'' @ to_string_int j" using assms(1) a by (simp add: adorned_def)
      then show ?thesis using i j by (rule last_part_unique)
    qed
  qed
  then show ?thesis using to_string_int_inj assms(2,3) by blast
qed

text \<open>A name that stands for itself between double quotes, and is not cut off by the backend.\<close>

definition quotable :: "string \<Rightarrow> bool" where
  "quotable n \<longleftrightarrow> CHR 0x22 \<notin> set n \<and> CHR 0x00 \<notin> set n \<and> length n \<le> 63"

definition short_name :: "string \<Rightarrow> bool" where
  "short_name n \<longleftrightarrow> CHR 0x22 \<notin> set n \<and> CHR 0x00 \<notin> set n \<and> length n \<le> 50"

lemma adorned_quotable:
  assumes "short_name n" "fits int_t i" "0 \<le> i"
  shows "quotable (adorned n i)"
  using number_text [OF assms(2,3)] assms(1)
  by (auto simp: quotable_def short_name_def adorned_def isdigit_def char_value_def)

section \<open>Savepoints serve nested transactions\<close>

fun live :: "'d sub list \<Rightarrow> (string \<times> 'd) list" where
  "live [] = []"
| "live (Sub n st x # ls) = (if st = st_active then (n, x) # live ls else live ls)"

definition numbered :: "int \<Rightarrow> string \<Rightarrow> bool" where
  "numbered k n \<longleftrightarrow> (\<exists>b i. n = adorned b i \<and> 0 < i \<and> i \<le> k)"

text \<open>
  The savepoints of the active subtransactions are there in their order, possibly between ones that a
  rollback has left behind; names are not used twice.
\<close>

definition tidy :: "'d nested \<Rightarrow> (string \<times> 'd) list \<Rightarrow> bool" where
  "tidy m sps \<longleftrightarrow> subseq (live (n_subs m)) sps \<and> distinct (map fst sps) \<and> distinct (map sub_name (n_subs m)) \<and>
     (\<forall>l \<in> set (n_subs m). sub_status l = st_nascent \<longrightarrow> sub_name l \<notin> fst ` set sps) \<and>
     (\<forall>n \<in> fst ` set sps \<union> sub_name ` set (n_subs m). numbered (n_id m) n)"

definition serves_nested :: "'d server \<Rightarrow> 'd nested \<Rightarrow> bool" where
  "serves_nested v m \<longleftrightarrow> durable v = n_base m \<and> \<not> failed v \<and> in_block v = (n_outer m = st_active) \<and>
     (n_outer m = st_active \<longrightarrow> current v = n_now m \<and> tidy m (savepoints v))"

text \<open>Only the innermost transaction can be closed while the others are open.\<close>

definition well_nested :: "'d nested \<Rightarrow> bool" where
  "well_nested m \<longleftrightarrow> n_outer m \<in> {st_active, st_aborted, st_committed} \<and> (n_subs m \<noteq> [] \<longrightarrow> n_outer m = st_active) \<and>
     (\<forall>l \<in> set (tl (n_subs m)). sub_status l \<in> {st_nascent, st_active}) \<and> inner_status m \<noteq> st_in_doubt \<and> 0 \<le> n_id m"

definition undo_command :: "'d nested \<Rightarrow> sql" where
  "undo_command m = (case n_subs m of [] \<Rightarrow> Sql_rollback | l # _ \<Rightarrow> Sql_rollback_to (sub_name l))"

definition commit_command :: "'d nested \<Rightarrow> sql" where
  "commit_command m = (case n_subs m of [] \<Rightarrow> Sql_commit | l # _ \<Rightarrow> Sql_release (sub_name l))"

lemma live_names: "fst ` set (live ls) \<subseteq> sub_name ` set ls"
  by (induction ls rule: live.induct) auto

lemma sp_from_found:
  assumes "subseq ((n, x) # A) sps" "distinct (map fst sps)"
  shows "\<exists>older. sp_from n sps = (n, x) # older \<and> subseq A older \<and> distinct (map fst ((n, x) # older)) \<and>
    set older \<subseteq> set sps"
  using assms
proof (induction sps rule: list.induct)
  case (Cons p sps)
  show ?case
  proof (cases "p = (n, x)")
    case True
    then show ?thesis using Cons.prems by (auto simp: sp_from_def)
  next
    case False
    then have s: "subseq ((n, x) # A) sps" using Cons.prems(1) by (simp add: subseq_Cons2_neq)
    have "(n, x) \<in> set sps" using list_emb_set [OF s, of "(n, x)"] by auto
    then have "n \<in> fst ` set sps" by force
    then have "fst p \<noteq> n" using Cons.prems(2) by auto
    then show ?thesis using Cons.IH [OF s] Cons.prems(2) by (auto simp: sp_from_def)
  qed
qed simp

lemma tidy_drop:
  assumes "tidy m sps" "n_subs m = Sub n st_active x # ls"
  shows "\<exists>older. sp_from n sps = (n, x) # older \<and>
    (\<forall>st y. st \<noteq> st_nascent \<longrightarrow> st \<noteq> st_active \<longrightarrow>
       tidy (m\<lparr>n_now := y, n_subs := Sub n st x # ls\<rparr>) ((n, x) # older) \<and>
       tidy (m\<lparr>n_now := y, n_subs := Sub n st x # ls\<rparr>) older)"
proof -
  have t: "subseq ((n, x) # live ls) sps" "distinct (map fst sps)" "distinct (map sub_name (Sub n st_active x # ls))"
    "\<forall>l \<in> set ls. sub_status l = st_nascent \<longrightarrow> sub_name l \<notin> fst ` set sps"
    "\<forall>k \<in> fst ` set sps \<union> sub_name ` set (Sub n st_active x # ls). numbered (n_id m) k"
    using assms by (simp_all add: tidy_def)
  obtain older where o: "sp_from n sps = (n, x) # older" "subseq (live ls) older" "distinct (map fst ((n, x) # older))"
    "set older \<subseteq> set sps"
    using sp_from_found [OF t(1,2)] by blast
  have s: "subseq (live ls) ((n, x) # older)" using o(2) by (rule list_emb_Cons)
  have "(n, x) \<in> set sps" using list_emb_set [OF t(1), of "(n, x)"] by auto
  then have i: "n \<in> fst ` set sps" "fst ` set older \<subseteq> fst ` set sps" using o(4) by force+
  have q1: "\<forall>l \<in> set ls. sub_status l = st_nascent \<longrightarrow> sub_name l \<noteq> n \<and> sub_name l \<notin> fst ` set older"
    using t(4) i by (metis subsetD)
  have q2: "numbered (n_id m) n" "\<forall>k \<in> sub_name ` set ls. numbered (n_id m) k" using t(5) by simp_all
  have "\<forall>k \<in> fst ` set sps. numbered (n_id m) k" using t(5) by simp
  then have q3: "\<forall>k \<in> fst ` set older. numbered (n_id m) k" using i(2) by (metis subsetD)
  have "tidy (m\<lparr>n_now := y, n_subs := Sub n st x # ls\<rparr>) ((n, x) # older) \<and>
       tidy (m\<lparr>n_now := y, n_subs := Sub n st x # ls\<rparr>) older" if "st \<noteq> st_nascent" "st \<noteq> st_active" for st y
    unfolding tidy_def using that s o(2,3) t(3) q1 q2 q3 by (simp add: ball_Un)
  then show ?thesis using o(1) by blast
qed

lemma undo_step:
  assumes "serves_nested v m" "well_nested m" "inner_status m = st_active"
  shows "\<exists>v'. sql_step eff (undo_command m) (v\<lparr>failed := b\<rparr>) = (True, v') \<and> serves_nested v' (undo_inner m)"
proof (cases "n_subs m")
  case Nil
  then show ?thesis using assms
    by (simp add: undo_command_def serves_nested_def undo_inner_def set_inner_def inner_saved_def inner_status_def
        left_block_def)
next
  case (Cons l ls)
  obtain n x where l: "l = Sub n st_active x" using assms(3) Cons by (cases l) (simp add: inner_status_def)
  have o: "n_outer m = st_active" using assms(2) Cons by (simp add: well_nested_def)
  have v: "in_block v" "durable v = n_base m" "tidy m (savepoints v)" using assms(1) o by (simp_all add: serves_nested_def)
  obtain older where d: "sp_from n (savepoints v) = (n, x) # older"
    "tidy (m\<lparr>n_now := x, n_subs := Sub n st_aborted x # ls\<rparr>) ((n, x) # older)"
    using tidy_drop [OF v(3)] Cons l by blast
  then show ?thesis using v o Cons l
    by (simp add: undo_command_def serves_nested_def undo_inner_def set_inner_def inner_saved_def)
qed

lemma commit_step:
  assumes "serves_nested v m" "well_nested m" "inner_status m = st_active"
  shows "\<exists>v'. sql_step eff (commit_command m) v = (True, v') \<and> serves_nested v' (snd (commit_inner m))"
proof (cases "n_subs m")
  case Nil
  then show ?thesis using assms
    by (simp add: commit_command_def serves_nested_def commit_inner_def set_inner_def inner_status_def left_block_def)
next
  case (Cons l ls)
  obtain n x where l: "l = Sub n st_active x" using assms(3) Cons by (cases l) (simp add: inner_status_def)
  have o: "n_outer m = st_active" using assms(2) Cons by (simp add: well_nested_def)
  have v: "in_block v" "durable v = n_base m" "tidy m (savepoints v)" "\<not> failed v" "current v = n_now m"
    using assms(1) o by (simp_all add: serves_nested_def)
  obtain older where d: "sp_from n (savepoints v) = (n, x) # older"
    "tidy (m\<lparr>n_now := n_now m, n_subs := Sub n st_committed x # ls\<rparr>) older"
    using tidy_drop [OF v(3)] Cons l by blast
  then show ?thesis using v o Cons l assms(3)
    by (simp add: commit_command_def serves_nested_def commit_inner_def set_inner_def)
qed

lemma begin_step:
  assumes "serves_nested v m" "well_nested m" "n_subs m = Sub n st_nascent x # ls"
  shows "\<exists>v'. sql_step eff (Sql_savepoint n) v = (True, v') \<and> serves_nested v' (begin_inner m)"
proof -
  have o: "n_outer m = st_active" using assms(2,3) by (simp add: well_nested_def)
  have v: "in_block v" "durable v = n_base m" "tidy m (savepoints v)" "\<not> failed v" "current v = n_now m"
    using assms(1) o by (simp_all add: serves_nested_def)
  have "tidy (begin_inner m) ((n, n_now m) # savepoints v)"
    using v(3) assms(3) by (auto simp: tidy_def begin_inner_def)
  then show ?thesis using v o assms(3) by (simp add: serves_nested_def begin_inner_def)
qed

lemma query_step:
  assumes "serves_nested v m" "n_outer m = st_active"
  shows "sql_step eff (Sql_query Q) v = (case eff Q (n_now m) of
      Some x \<Rightarrow> (True, v\<lparr>current := x\<rparr>) | None \<Rightarrow> (False, v\<lparr>failed := True\<rparr>))"
    "serves_nested (v\<lparr>current := x\<rparr>) (m\<lparr>n_now := x\<rparr>)"
  using assms by (auto simp: serves_nested_def refused_def tidy_def split: option.split)

lemma numbered_mono: "numbered k n \<Longrightarrow> k \<le> k' \<Longrightarrow> numbered k' n"
  unfolding numbered_def by fastforce

lemma open_step:
  assumes "serves_nested v m" "0 \<le> n_id m" "fits int_t (n_id m + 1)"
  shows "serves_nested v (snd (open_inner nm m))"
proof -
  let ?n = "adorned nm (n_id m + 1)"
  have "\<not> numbered (n_id m) ?n"
  proof
    assume "numbered (n_id m) ?n"
    then obtain b i where i: "?n = adorned b i" "0 < i" "i \<le> n_id m" unfolding numbered_def by blast
    have "fits int_t i" using i(2,3) assms(3) by (simp add: fits_def tmin_def tmax_def int_t_def)
    then show False using adorned_number [OF i(1) assms(3)] i(2,3) assms(2) by simp
  qed
  moreover have "numbered (n_id m + 1) ?n" unfolding numbered_def using assms(2) by (intro exI [of _ nm] exI [of _ "n_id m + 1"]) simp
  ultimately show ?thesis
    using assms(1) numbered_mono [of "n_id m" _ "n_id m + 1"]
    by (auto simp: serves_nested_def open_inner_def tidy_def)
qed

lemma close_step:
  assumes "serves_nested v m" "n_subs m = l # ls" "inner_status m \<noteq> st_active"
  shows "serves_nested v (snd (close_inner m))"
  using assms by (cases l) (auto simp: serves_nested_def close_inner_def tidy_def inner_status_def)

lemma close_active: "inner_status m = st_active \<Longrightarrow> n_subs m \<noteq> [] \<Longrightarrow> snd (close_inner m) = snd (close_inner (undo_inner m))"
  by (cases "n_subs m"; cases "hd (n_subs m)")
    (auto simp: close_inner_def undo_inner_def set_inner_def inner_status_def inner_saved_def)

end
