(* ===== verification/Nested_Facts.thy ===== *)
theory Nested_Facts
  imports Nested Savepoints
begin

text \<open>
  Over a backend that keeps savepoints the way PostgreSQL documents them, the objects of theory Nested
  behave like the nested transactions of theory Savepoints.
\<close>

section \<open>The backend\<close>

definition error_answer :: "pgresult \<Rightarrow> bool" where
  "error_answer p \<longleftrightarrow> PQresultStatus p = PGRES_FATAL_ERROR \<and> PQresultErrorMessage p \<noteq> [] \<and>
     PG_DIAG_SQLSTATE p \<noteq> None \<and> PG_DIAG_STATEMENT_POSITION p = None"

definition sendable :: "(string \<Rightarrow> bool) \<Rightarrow> sql \<Rightarrow> bool" where
  "sendable own c \<longleftrightarrow> (case c of
     Sql_savepoint n \<Rightarrow> quotable n | Sql_release n \<Rightarrow> quotable n | Sql_rollback_to n \<Rightarrow> quotable n
   | Sql_query Q \<Rightarrow> own Q | _ \<Rightarrow> True)"

text \<open>
  On connection \<open>h\<close> the backend, read off the world by \<open>srv\<close>, does what each command says; \<open>eff\<close> is
  the effect of the program's own queries, which are the texts that are \<open>own\<close>. The connection stays up.
\<close>

definition savepoint_server ::
  "'w env \<Rightarrow> handle \<Rightarrow> ('w \<Rightarrow> 'd server) \<Rightarrow> (string \<Rightarrow> 'd \<Rightarrow> 'd option) \<Rightarrow> (string \<Rightarrow> bool) \<Rightarrow> bool"
where
  "savepoint_server env h srv eff own \<longleftrightarrow>
     h \<noteq> None \<and> 0 < rounds env \<and> (\<forall>w. PQstatus env h w = CONNECTION_OK) \<and>
     (\<forall>w. fst (PQconsumeInput env h w) \<and> srv (snd (PQconsumeInput env h w)) = srv w) \<and>
     (\<forall>c w. sendable own c \<longrightarrow> (\<exists>p w'. PQexec env h (sql_text c) w = (Some p, w') \<and>
        srv w' = snd (sql_step eff c (srv w)) \<and>
        (if fst (sql_step eff c (srv w)) then PQresultStatus p \<in> {PGRES_TUPLES_OK, PGRES_COMMAND_OK}
         else error_answer p)))"

lemma server_consumes:
  assumes "savepoint_server env h srv eff own"
  shows "\<exists>w'. PQconsumeInput env h w = (True, w') \<and> srv w' = srv w"
proof -
  have "fst (PQconsumeInput env h w) \<and> srv (snd (PQconsumeInput env h w)) = srv w"
    using assms unfolding savepoint_server_def by blast
  then show ?thesis by (cases "PQconsumeInput env h w") auto
qed

lemma error_answer_throws:
  assumes "error_answer p"
  shows "\<exists>e. CheckStatus (make_result_object (Some p) v q k) = Inl e \<and> caught_as Std_exception e"
proof -
  let ?r = "make_result_object (Some p) v q k"
  obtain code where c: "PG_DIAG_SQLSTATE p = Some code" using assms by (auto simp: error_answer_def)
  have d: "m_data ?r = Some p" by (simp add: make_result_object_def)
  have s: "StatusError ?r = Inr (PQresultErrorMessage p)" using assms by (simp add: StatusError_def d error_answer_def)
  let ?e = "ThrowSQLError ?r (PQresultErrorMessage p) (result_query ?r)"
  have "errorposition ?r = Inr (-1)" using assms by (simp add: errorposition_def d error_answer_def)
  then have "cls ?e = sqlstate_class code"
    by (auto simp: ThrowSQLError_def d c plain_def Let_def)
  moreover have "derives_from (sqlstate_class code) Std_exception"
    using sqlstate_class_split [of code]
  proof
    assume "derives_from (sqlstate_class code) Sql_error"
    then show ?thesis by (rule derives_from_trans) (simp add: derives_from_eval)
  qed (auto simp: derives_from_eval)
  ultimately have "caught_as Std_exception ?e" by (auto simp: caught_as_def)
  then show ?thesis using assms by (simp add: CheckStatus_def s error_answer_def)
qed

section \<open>One transaction\<close>

definition steady :: "handle \<Rightarrow> ('w, 'z) tx_scheme \<Rightarrow> bool" where
  "steady h t \<longleftrightarrow> m_Conn t = h \<and> m_Completed t \<and> m_PendingError t = [] \<and> m_Focus t = None \<and> m_Trans t \<noteq> None \<and>
     (m_Registered t \<longrightarrow> is_guest t)"

lemma steady_open: "savepoint_server env h srv eff own \<Longrightarrow> steady h t \<Longrightarrow> is_open env (t\<lparr>world := w\<rparr>)"
  by (auto simp: savepoint_server_def steady_def is_open_world)

lemma command_served:
  assumes "savepoint_server env h srv eff own" "steady h t" "sendable own c"
  shows "\<exists>w. srv w = snd (sql_step eff c (srv (world t))) \<and>
    (if fst (sql_step eff c (srv (world t))) then \<exists>R. DirectExec env (sql_text c) 0 t = (Inr R, t\<lparr>world := w\<rparr>)
     else \<exists>e. caught_as Std_exception e \<and> DirectExec env (sql_text c) 0 t = (Inl e, t\<lparr>world := w\<rparr>))"
proof -
  have sv: "0 < rounds env" "\<And>w. PQstatus env h w = CONNECTION_OK"
    using assms(1) unfolding savepoint_server_def by blast+
  have st: "is_open env t" "m_Trans t \<noteq> None" "m_PendingError t = []" "m_Conn t = h"
    using steady_open [OF assms(1,2), of "world t"] assms(2) by (simp_all add: steady_def)
  obtain p w1 where p: "PQexec env h (sql_text c) (world t) = (Some p, w1)"
    "srv w1 = snd (sql_step eff c (srv (world t)))"
    "if fst (sql_step eff c (srv (world t))) then PQresultStatus p \<in> {PGRES_TUPLES_OK, PGRES_COMMAND_OK} else error_answer p"
    using assms(1,3) unfolding savepoint_server_def by blast
  obtain w2 where w2: "PQconsumeInput env h w1 = (True, w2)" "srv w2 = srv w1"
    using server_consumes [OF assms(1)] by blast
  let ?R = "make_result_object (Some p) (PQprotocolVersion env h w1) (sql_text c) (PQclientEncoding env h w1)"
  have "Exec env (sql_text c) 0 t = (case CheckStatus ?R of Inl e \<Rightarrow> (Inl e, t\<lparr>world := w1\<rparr>) | Inr _ \<Rightarrow> (Inr ?R, t\<lparr>world := w2\<rparr>))"
    using Exec_answered [OF st(1,2) sv(1)] p(1) w2(1) sv(2) st(4) by simp
  then have x: "DirectExec env (sql_text c) 0 t = (case CheckStatus ?R of Inl e \<Rightarrow> (Inl e, t\<lparr>world := w1\<rparr>) | Inr _ \<Rightarrow> (Inr ?R, t\<lparr>world := w2\<rparr>))"
    using st(3) by (simp add: DirectExec_def seq_def bnd_def CheckPendingError_cases)
  show ?thesis
  proof (cases "fst (sql_step eff c (srv (world t)))")
    case True
    then have "CheckStatus ?R = Inr ()" using p(3) CheckStatus_fine by simp
    then show ?thesis using True x p(2) w2(2) by auto
  next
    case False
    then obtain e where "CheckStatus ?R = Inl e" "caught_as Std_exception e"
      using p(3) error_answer_throws by fastforce
    then show ?thesis using False x p(2) by auto
  qed
qed

lemma command_accepted:
  assumes "savepoint_server env h srv eff own" "steady h t" "sendable own c" "sql_step eff c (srv (world t)) = (True, v)"
  shows "\<exists>w R. srv w = v \<and> DirectExec env (sql_text c) 0 t = (Inr R, t\<lparr>world := w\<rparr>)"
  using command_served [OF assms(1-3)] assms(4) by (simp del: sql_step.simps)

lemma command_refused:
  assumes "savepoint_server env h srv eff own" "steady h t" "sendable own c" "sql_step eff c (srv (world t)) = (False, v)"
  shows "\<exists>w e. srv w = v \<and> caught_as Std_exception e \<and> DirectExec env (sql_text c) 0 t = (Inl e, t\<lparr>world := w\<rparr>)"
  using command_served [OF assms(1-3)] assms(4) by (simp del: sql_step.simps)

text \<open>The object after a call that left it in a status; a closed one is not registered any more.\<close>

definition became :: "status \<Rightarrow> ('w, 'z) tx_scheme \<Rightarrow> ('w, 'z) tx_scheme \<Rightarrow> bool" where
  "became st t t' \<longleftrightarrow> m_Status t' = st \<and> this_trans t' = this_trans t \<and> m_PendingError t' = [] \<and> m_Focus t' = m_Focus t \<and>
     m_Conn t' = m_Conn t \<and> m_Completed t' = m_Completed t \<and> m_unique_id t' = m_unique_id t \<and>
     m_Registered t' = (m_Registered t \<and> st \<notin> over) \<and>
     m_Trans t' = (if m_Registered t \<and> st \<in> over then None else m_Trans t)"

lemma became_closed:
  assumes "closed (t\<lparr>world := w, tx_avoidance := a, parent_avoidance := b, m_Status := st, m_Vars := v\<rparr>) t'"
    "steady h t" "st \<in> over"
  shows "became st t t'" "world t' = w"
  using assms by (auto simp: closed_def became_def steady_def is_guest_def)

text \<open>What does not depend on the hooks.\<close>

lemma query_when_active:
  "steady h t \<Longrightarrow> m_Status t = st_active \<Longrightarrow> exec env k Q [] t = do_exec k Q t"
  by (simp add: exec_def steady_def seq_def bnd_def gets_def CheckPendingError_cases tx_activate_def skip_def ret_def
      catch_class_def catch_def)

lemma closed_refuse:
  assumes p: "m_PendingError t = []" "m_Focus t = None" and "m_Status t = st_aborted \<or> m_Status t = st_committed"
  shows "\<exists>e. exec env k Q [] t = (Inl e, t)"
    "m_Status t = st_aborted \<Longrightarrow> \<exists>e. commit env k t = (Inl e, t)"
    "m_Status t = st_committed \<Longrightarrow> \<exists>n. commit env k t = (Inr (), t\<lparr>notices := n\<rparr>)"
    "m_Status t = st_aborted \<Longrightarrow> abort env (do_abort k) t = (Inr (), t)"
    "m_Status t = st_committed \<Longrightarrow> \<exists>e. abort env (do_abort k) t = (Inl e, t)"
proof -
  show "\<exists>e. exec env k Q [] t = (Inl e, t)"
    using assms(3) p
    by (auto simp: exec_def seq_def bnd_def gets_def CheckPendingError_cases tx_activate_def skip_def ret_def throw_def
        catch_class_def catch_def)
  show "m_Status t = st_aborted \<Longrightarrow> \<exists>e. commit env k t = (Inl e, t)"
    using p by (simp add: commit_def seq_def bnd_def gets_def CheckPendingError_cases throw_def)
  show "m_Status t = st_committed \<Longrightarrow> \<exists>n. commit env k t = (Inr (), t\<lparr>notices := n\<rparr>)"
    using p process_notice_string_returns [of "tx_description t @ '' committed more than once'' @ nl" env t]
    by (simp add: commit_def seq_def bnd_def gets_def CheckPendingError_cases)
  show "m_Status t = st_aborted \<Longrightarrow> abort env (do_abort k) t = (Inr (), t)"
    by (simp add: abort_def bnd_def gets_def skip_def ret_def)
  show "m_Status t = st_committed \<Longrightarrow> \<exists>e. abort env (do_abort k) t = (Inl e, t)"
    by (simp add: abort_def bnd_def gets_def throw_def)
qed

lemma abort_unbegun:
  assumes "m_Status t = st_nascent" "steady h t"
  shows "\<exists>t'. abort env (do_abort k) t = (Inr (), t') \<and> became st_aborted t t' \<and> world t' = world t"
proof -
  obtain t' where t': "End_closed env (t\<lparr>m_Status := st_aborted\<rparr>) = (Inr (), t')" "closed (t\<lparr>m_Status := st_aborted\<rparr>) t'"
    using End_closed_returns by blast
  have "abort env (do_abort k) t = (Inr (), t')"
    using assms(1) t'(1) by (simp add: abort_def bnd_def gets_def seq_def set_Status_def modify_def)
  moreover have "became st_aborted t t'" "world t' = world t"
    using became_closed [where t = t and w = "world t" and a = "tx_avoidance t" and b = "parent_avoidance t"
        and v = "m_Vars t" and st = st_aborted] t'(2) assms(2)
    by (simp_all add: over_def)
  ultimately show ?thesis by blast
qed

lemma commit_unbegun: "m_Status t = st_nascent \<Longrightarrow> m_PendingError t = [] \<Longrightarrow> commit env k t = (Inr (), t)"
  by (simp add: commit_def seq_def bnd_def gets_def CheckPendingError_cases skip_def ret_def)

lemma End_unregistered:
  assumes "m_PendingError t = []" "\<not> m_Registered t" "m_Status t \<noteq> st_active"
  shows "\<exists>t'. End env (do_abort k) t = (Inr (), t') \<and> became (m_Status t) t t' \<and> world t' = world t"
proof -
  obtain t' where t': "End_closed env t = (Inr (), t')" "closed t t'" using End_closed_returns by blast
  have "became (m_Status t) t t'" using t'(2) assms(1,2) by (auto simp: closed_def became_def)
  then show ?thesis using t' closed_fields [OF t'(2)] End_not_active [OF assms(3)] by auto
qed

text \<open>
  What the backend transaction and the subtransactions share: the hooks of an active transaction
  send one command each, which depends on its name, and a query is sent as it is.
\<close>

locale nested_transaction =
  fixes env :: "'w env" and h :: handle and srv :: "'w \<Rightarrow> 'd server" and eff :: "string \<Rightarrow> 'd \<Rightarrow> 'd option"
    and own :: "string \<Rightarrow> bool" and k :: "('w, 'z) hooks" and undo :: "string \<Rightarrow> sql" and keep :: "string \<Rightarrow> sql"
  assumes exec_hook: "do_exec k = db_exec env (do_abort k)"
    and abort_hook: "savepoint_server env h srv eff own \<Longrightarrow> steady h t \<Longrightarrow> sendable own (undo (name (this_trans t))) \<Longrightarrow>
      sql_step eff (undo (name (this_trans t))) (srv (world t)) = (True, v) \<Longrightarrow>
      \<exists>w a. do_abort k t = (Inr (), t\<lparr>world := w, tx_avoidance := a\<rparr>) \<and> srv w = v"
    and commit_hook: "savepoint_server env h srv eff own \<Longrightarrow> steady h t \<Longrightarrow> sendable own (keep (name (this_trans t))) \<Longrightarrow>
      sql_step eff (keep (name (this_trans t))) (srv (world t)) = (True, v) \<Longrightarrow>
      \<exists>w a b. do_commit k t = (Inr (), t\<lparr>world := w, tx_avoidance := a, parent_avoidance := b\<rparr>) \<and> srv w = v"
begin

lemma abort_active:
  assumes "savepoint_server env h srv eff own" "steady h t" "m_Status t = st_active"
    "sendable own (undo (name (this_trans t)))" "sql_step eff (undo (name (this_trans t))) (srv (world t)) = (True, v)"
  shows "\<exists>t'. abort env (do_abort k) t = (Inr (), t') \<and> became st_aborted t t' \<and> srv (world t') = v"
proof -
  obtain w a where a: "do_abort k t = (Inr (), t\<lparr>world := w, tx_avoidance := a\<rparr>)" "srv w = v"
    using abort_hook [OF assms(1,2,4,5)] by blast
  let ?u = "t\<lparr>world := w, tx_avoidance := a, m_Status := st_aborted\<rparr>"
  obtain t' where t': "End_closed env ?u = (Inr (), t')" "closed ?u t'" using End_closed_returns by blast
  have "abort env (do_abort k) t = (Inr (), t')"
    using assms(3) a(1) t'(1)
    by (simp add: abort_def bnd_def gets_def seq_def catch_class_def catch_def set_Status_def modify_def)
  moreover have "became st_aborted t t'" "world t' = w"
    using became_closed [where t = t and w = w and a = a and b = "parent_avoidance t" and v = "m_Vars t" and st = st_aborted] t'(2) assms(2)
    by (simp_all add: over_def)
  ultimately show ?thesis using a(2) by blast
qed

lemma exec_accepted:
  assumes "savepoint_server env h srv eff own" "steady h t" "own Q"
    "sql_step eff (Sql_query Q) (srv (world t)) = (True, v)"
  shows "\<exists>R w. do_exec k Q t = (Inr R, t\<lparr>world := w\<rparr>) \<and> srv w = v"
proof -
  obtain w R where w: "srv w = v" "DirectExec env Q 0 t = (Inr R, t\<lparr>world := w\<rparr>)"
    using command_accepted [OF assms(1,2), of "Sql_query Q"] assms(3,4) by (auto simp: sendable_def sql_text_def)
  have "do_exec k Q t = (Inr R, t\<lparr>world := w\<rparr>)" using w(2) by (simp add: exec_hook db_exec_def catch_class_def catch_def)
  then show ?thesis using w(1) by blast
qed

lemma exec_refused:
  assumes "savepoint_server env h srv eff own" "steady h t" "m_Status t = st_active" "own Q"
    "sendable own (undo (name (this_trans t)))"
    "sql_step eff (Sql_query Q) (srv (world t)) = (False, u)" "sql_step eff (undo (name (this_trans t))) u = (True, v)"
  shows "\<exists>e t'. do_exec k Q t = (Inl e, t') \<and> caught_as Std_exception e \<and> became st_aborted t t' \<and> srv (world t') = v"
proof -
  obtain w e where w: "srv w = u" "caught_as Std_exception e" "DirectExec env Q 0 t = (Inl e, t\<lparr>world := w\<rparr>)"
    using command_refused [OF assms(1,2), of "Sql_query Q"] assms(4,6) by (auto simp: sendable_def sql_text_def)
  let ?t = "t\<lparr>world := w\<rparr>"
  have "steady h ?t" using assms(2) by (simp add: steady_def)
  then obtain t' where t': "abort env (do_abort k) ?t = (Inr (), t')" "became st_aborted ?t t'" "srv (world t') = v"
    using abort_active [OF assms(1), of ?t v] assms(3,5,7) w(1) by auto
  have "do_exec k Q t = (Inl e, t')"
    using w(2,3) t'(1) by (simp add: exec_hook db_exec_def catch_class_def catch_def seq_def bnd_def throw_def)
  then show ?thesis using w(2) t'(2,3) by (auto simp: became_def)
qed

lemma commit_active:
  assumes "savepoint_server env h srv eff own" "steady h t" "m_Status t = st_active"
    "sendable own (keep (name (this_trans t)))" "sql_step eff (keep (name (this_trans t))) (srv (world t)) = (True, v)"
  shows "\<exists>t'. commit env k t = (Inr (), t') \<and> became st_committed t t' \<and> srv (world t') = v"
proof -
  obtain w a b where c: "do_commit k t = (Inr (), t\<lparr>world := w, tx_avoidance := a, parent_avoidance := b\<rparr>)" "srv w = v"
    using commit_hook [OF assms(1,2,4,5)] by blast
  have o: "is_open env t" "m_PendingError t = []" "m_Focus t = None"
    using steady_open [OF assms(1,2), of "world t"] assms(2) by (simp_all add: steady_def)
  let ?s1 = "t\<lparr>world := w, tx_avoidance := a, parent_avoidance := b\<rparr>"
  let ?vs = "fold (\<lambda>(k, v). omap_put string_less k v) (tx_Vars ?s1) (m_Vars ?s1)"
  obtain t' where t': "commit env k t = (Inr (), t')" "closed (?s1\<lparr>m_Status := st_committed, m_Vars := ?vs\<rparr>) t'"
    using commit_outcome [OF assms(3) o(2,3,1), of k] c(1) by auto
  have "became st_committed t t'" "world t' = w"
    using became_closed [where t = t and w = w and a = a and b = b and v = ?vs and st = st_committed] t'(2) assms(2)
    by (simp_all add: over_def)
  then show ?thesis using t'(1) c(2) by blast
qed

lemma End_active:
  assumes "savepoint_server env h srv eff own" "steady h t" "m_Status t = st_active" "\<not> m_Registered t"
    "sendable own (undo (name (this_trans t)))" "sql_step eff (undo (name (this_trans t))) (srv (world t)) = (True, v)"
  shows "\<exists>t'. End env (do_abort k) t = (Inr (), t') \<and> became st_aborted t t' \<and> srv (world t') = v"
proof -
  obtain s1 where s1: "End_head env t = (Inr (), s1)" "closed t s1" using End_head_returns by blast
  have b1: "became st_active t s1" using s1(2) assms(2-4) by (auto simp: closed_def became_def steady_def over_def)
  have w1: "world s1 = world t" using closed_fields [OF s1(2)] by simp
  have st: "steady h s1" "m_Status s1 = st_active" "this_trans s1 = this_trans t" "m_Focus s1 = None"
    using b1 assms(2,4) by (auto simp: became_def steady_def over_def)
  obtain t1 where t1: "abort env (do_abort k) s1 = (Inr (), t1)" "became st_aborted s1 t1" "srv (world t1) = v"
    using abort_active [OF assms(1) st(1,2)] assms(5,6) st(3) w1 by auto
  let ?t = "t1\<lparr>m_reactivation_avoidance := m_reactivation_avoidance t1 + tx_avoidance t1, tx_avoidance := 0\<rparr>"
  have "End env (do_abort k) t = (Inr (), ?t)"
    using s1(1) st(2,4) t1(1)
    by (simp add: End_def End_guard_def catch_class_def catch_def seq_def bnd_def gets_def cond_def skip_def ret_def
        modify_def add_reactivation_avoidance_count_def reactivation_avoidance_clear_def)
  moreover have "became st_aborted t ?t" using b1 t1(2) assms(4) by (auto simp: became_def over_def)
  ultimately show ?thesis using t1(3) by (intro exI [of _ ?t]) simp
qed

end

lemma base_delete_silent:
  assumes "m_PendingError t = []" "\<not> m_Registered t"
  shows "transaction_base_delete env t = (Inr (), t\<lparr>tx_avoidance := 0\<rparr>)"
  using assms by (simp add: transaction_base_delete_def catch_class_def catch_def seq_def bnd_def gets_def cond_def
      skip_def ret_def modify_def reactivation_avoidance_clear_def)

interpretation backend_tx: nested_transaction env h srv eff own "basic_hooks env" "\<lambda>_. Sql_rollback" "\<lambda>_. Sql_commit"
  for env :: "'a env" and h and srv :: "'a \<Rightarrow> 'b server" and eff own
proof
  show "do_exec (basic_hooks env) = db_exec env (do_abort (basic_hooks env))" by (simp add: basic_hooks_def)
  fix t :: "('a, 'd) tx_scheme" and v :: "'b server"
  assume s: "savepoint_server env h srv eff own" "steady h t"
  show "\<exists>w a. do_abort (basic_hooks env) t = (Inr (), t\<lparr>world := w, tx_avoidance := a\<rparr>) \<and> srv w = v"
    if q: "sql_step eff Sql_rollback (srv (world t)) = (True, v)"
  proof -
    have st: "steady h (t\<lparr>tx_avoidance := 0\<rparr>)" "srv (world (t\<lparr>tx_avoidance := 0\<rparr>)) = srv (world t)"
      using s(2) by (simp_all add: steady_def is_guest_def)
    obtain w R where w: "srv w = v" "DirectExec env sql_rollback_work 0 (t\<lparr>tx_avoidance := 0\<rparr>) = (Inr R, t\<lparr>tx_avoidance := 0\<rparr>\<lparr>world := w\<rparr>)"
      using command_accepted [OF s(1) st(1), of Sql_rollback] q unfolding st(2) by (auto simp: sendable_def sql_text_def)
    have "do_abort (basic_hooks env) t = (Inr (), t\<lparr>world := w, tx_avoidance := 0\<rparr>)"
      using w(2) by (simp add: basic_hooks_def db_abort_def reactivation_avoidance_clear_def seq_def bnd_def modify_def
          skip_def ret_def)
    then show ?thesis using w(1) by blast
  qed
  show "\<exists>w a b. do_commit (basic_hooks env) t = (Inr (), t\<lparr>world := w, tx_avoidance := a, parent_avoidance := b\<rparr>) \<and> srv w = v"
    if q: "sql_step eff Sql_commit (srv (world t)) = (True, v)"
  proof -
    obtain w R where w: "srv w = v" "DirectExec env sql_commit_work 0 t = (Inr R, t\<lparr>world := w\<rparr>)"
      using command_accepted [OF s, of Sql_commit] q by (auto simp: sendable_def sql_text_def)
    have "do_commit (basic_hooks env) t =
        (Inr (), t\<lparr>world := w, tx_avoidance := tx_avoidance t, parent_avoidance := parent_avoidance t\<rparr>)"
      using w(2) by (simp add: basic_hooks_def basic_commit_def catch_class_def catch_def bnd_def skip_def ret_def)
    then show ?thesis using w(1) by blast
  qed
qed

interpretation sub_tx: nested_transaction env h srv eff own "sub_hooks env" Sql_rollback_to Sql_release
  for env :: "'a env" and h and srv :: "'a \<Rightarrow> 'b server" and eff own
proof
  show "do_exec (sub_hooks env) = db_exec env (do_abort (sub_hooks env))" by (simp add: sub_hooks_def)
  fix t :: "('a, 'd) tx_scheme" and v :: "'b server"
  let ?n = "name (this_trans t)"
  assume s: "savepoint_server env h srv eff own" "steady h t"
  show "\<exists>w a. do_abort (sub_hooks env) t = (Inr (), t\<lparr>world := w, tx_avoidance := a\<rparr>) \<and> srv w = v"
    if q: "sendable own (Sql_rollback_to ?n)" "sql_step eff (Sql_rollback_to ?n) (srv (world t)) = (True, v)"
  proof -
    obtain w R where w: "srv w = v" "DirectExec env (''ROLLBACK TO SAVEPOINT '' @ dquoted ?n) 0 t = (Inr R, t\<lparr>world := w\<rparr>)"
      using command_accepted [OF s q] by (auto simp: sql_text_def)
    have "do_abort (sub_hooks env) t = (Inr (), t\<lparr>world := w, tx_avoidance := tx_avoidance t\<rparr>)"
      using w(2) by (simp add: sub_hooks_def sub_abort_def gets_def bnd_def skip_def ret_def)
    then show ?thesis using w(1) by blast
  qed
  show "\<exists>w a b. do_commit (sub_hooks env) t = (Inr (), t\<lparr>world := w, tx_avoidance := a, parent_avoidance := b\<rparr>) \<and> srv w = v"
    if q: "sendable own (Sql_release ?n)" "sql_step eff (Sql_release ?n) (srv (world t)) = (True, v)"
  proof -
    have st: "steady h (t\<lparr>tx_avoidance := 0\<rparr>)" "srv (world (t\<lparr>tx_avoidance := 0\<rparr>)) = srv (world t)"
      using s(2) by (simp_all add: steady_def is_guest_def)
    obtain w R where w: "srv w = v"
      "DirectExec env (''RELEASE SAVEPOINT '' @ dquoted ?n) 0 (t\<lparr>tx_avoidance := 0\<rparr>) = (Inr R, t\<lparr>tx_avoidance := 0\<rparr>\<lparr>world := w\<rparr>)"
      using command_accepted [OF s(1) st(1) q(1)] q(2) unfolding st(2) by (auto simp: sql_text_def)
    have "do_commit (sub_hooks env) t =
        (Inr (), t\<lparr>world := w, tx_avoidance := 0, parent_avoidance := parent_avoidance t + tx_avoidance t\<rparr>)"
      using w(2) by (simp add: sub_hooks_def sub_commit_def gets_def bnd_def seq_def modify_def skip_def ret_def)
    then show ?thesis using w(1) by blast
  qed
qed

text \<open>The first query of a subtransaction begins it.\<close>

lemma sub_begins:
  assumes "savepoint_server env h srv eff own" "steady h t" "m_Status t = st_nascent" "quotable (name (this_trans t))"
    "sql_step eff (Sql_savepoint (name (this_trans t))) (srv (world t)) = (True, v)"
  shows "\<exists>t'. tx_activate env (do_begin (sub_hooks env)) (do_abort (sub_hooks env)) t = (Inr (), t') \<and>
    steady h t' \<and> became st_active t t' \<and> srv (world t') = v"
proof -
  have o: "is_open env t" "m_Trans t \<noteq> None" "m_Conn t = h"
    using steady_open [OF assms(1,2), of "world t"] assms(2) by (simp_all add: steady_def)
  obtain w1 where w1: "PQconsumeInput env h (world t) = (True, w1)" "srv w1 = srv (world t)"
    using server_consumes [OF assms(1)] by blast
  let ?t = "t\<lparr>world := w1\<rparr>"
  have n: "get_notifs env t = (Inr 0, ?t)" using get_notifs_in_transaction [OF o(1,2)] w1(1) o(3) by simp
  have st: "steady h ?t" using assms(2) by (simp add: steady_def)
  obtain w R where w: "srv w = v"
    "DirectExec env (''SAVEPOINT '' @ dquoted (name (this_trans t))) 0 ?t = (Inr R, ?t\<lparr>world := w\<rparr>)"
    using command_accepted [OF assms(1) st, of "Sql_savepoint (name (this_trans t))"] assms(4,5) w1(2)
    by (auto simp: sendable_def sql_text_def simp del: sql_step.simps)
  let ?t' = "t\<lparr>world := w, m_Status := st_active\<rparr>"
  have "tx_activate env (do_begin (sub_hooks env)) (do_abort (sub_hooks env)) t = (Inr (), ?t')"
    using assms(3) n w(2)
    by (simp add: tx_activate_def Begin_def sub_hooks_def sub_begin_def bnd_def gets_def seq_def catch_class_def catch_def
        cond_def skip_def ret_def set_Status_def modify_def)
  moreover have "steady h ?t'" using assms(2) by (simp add: steady_def)
  moreover have "became st_active t ?t'" using assms(2) by (auto simp: became_def steady_def over_def)
  ultimately show ?thesis using w(1) by (intro exI [of _ ?t']) simp
qed

lemma exec_begun:
  assumes "steady h t" "tx_activate env (do_begin k) (do_abort k) t = (Inr (), t')"
  shows "exec env k Q [] t = do_exec k Q t'"
  using assms by (simp add: exec_def steady_def seq_def bnd_def gets_def CheckPendingError_cases skip_def ret_def
      catch_class_def catch_def)

lemma became_trans: "became st t t' \<Longrightarrow> st \<notin> over \<Longrightarrow> became st' t' t'' \<Longrightarrow> became st' t t''"
  by (auto simp: became_def)

lemma became_same: "steady h t \<Longrightarrow> m_Status t \<notin> over \<Longrightarrow> became (m_Status t) t (t\<lparr>world := w\<rparr>)"
  by (auto simp: became_def steady_def)

section \<open>All of them\<close>

definition sub_key :: "'d sub \<Rightarrow> string \<times> status" where
  "sub_key l = (sub_name l, sub_status l)"

definition sub_like :: "'w conn \<Rightarrow> tx_part \<Rightarrow> string \<times> status \<Rightarrow> bool" where
  "sub_like c p key \<longleftrightarrow> (let t = conn.extend c p in
     (name (this_trans t), m_Status t) = key \<and> quotable (fst key) \<and>
     m_PendingError t = [] \<and> m_Focus t = None \<and> \<not> m_Registered t)"

definition outer_like :: "'w conn \<Rightarrow> tx_part \<Rightarrow> status \<Rightarrow> bool" where
  "outer_like c p st \<longleftrightarrow> (let t = conn.extend c p in
     m_Status t = st \<and> m_PendingError t = [] \<and> m_Focus t = None \<and> m_Registered t = (st = st_active) \<and>
     (st = st_active \<longrightarrow> is_guest t))"

definition models :: "handle \<Rightarrow> ('w \<Rightarrow> 'd server) \<Rightarrow> 'w nest \<Rightarrow> 'd nested \<Rightarrow> bool" where
  "models h srv s m \<longleftrightarrow>
     snd s \<noteq> [] \<and> list_all2 (sub_like (fst s)) (butlast (snd s)) (map sub_key (n_subs m)) \<and> outer_like (fst s) (last (snd s)) (n_outer m) \<and>
     m_Conn (fst s) = h \<and> m_Completed (fst s) \<and> m_unique_id (fst s) = n_id m \<and>
     (n_outer m = st_active \<longrightarrow> m_Trans (fst s) \<noteq> None) \<and> well_nested m \<and> serves_nested (srv (world (fst s))) m"

lemma extend_fields:
  "m_Conn (conn.extend c p) = m_Conn c" "m_Completed (conn.extend c p) = m_Completed c"
  "m_Trans (conn.extend c p) = m_Trans c" "world (conn.extend c p) = world c"
  "m_unique_id (conn.extend c p) = m_unique_id c"
  by (cases c; simp add: conn.defs)+

lemma truncate_fields:
  "m_Conn (conn.truncate t) = m_Conn t" "m_Completed (conn.truncate t) = m_Completed t"
  "m_Trans (conn.truncate t) = m_Trans t" "world (conn.truncate t) = world t"
  "m_unique_id (conn.truncate t) = m_unique_id t"
  by (cases t; simp add: conn.defs)+

lemma part_fields:
  fixes p :: tx_part and c c' :: "'w conn"
  shows "m_Status (conn.extend c p) = m_Status (conn.extend c' p)"
  "this_trans (conn.extend c p) = this_trans (conn.extend c' p)"
  "m_PendingError (conn.extend c p) = m_PendingError (conn.extend c' p)"
  "m_Focus (conn.extend c p) = m_Focus (conn.extend c' p)"
  "m_Registered (conn.extend c p) = m_Registered (conn.extend c' p)"
proof -
  have "conn.more (conn.extend c p) = conn.more (conn.extend c' p)" by (simp add: conn.defs)
  from tx_fields_more [OF this] show "m_Status (conn.extend c p) = m_Status (conn.extend c' p)"
    "this_trans (conn.extend c p) = this_trans (conn.extend c' p)"
    "m_PendingError (conn.extend c p) = m_PendingError (conn.extend c' p)"
    "m_Focus (conn.extend c p) = m_Focus (conn.extend c' p)"
    "m_Registered (conn.extend c p) = m_Registered (conn.extend c' p)" by simp_all
qed

lemma extend_more: "conn.extend (conn.truncate t) (conn.more t) = t"
  by (simp add: conn.defs)

lemma sub_like_conn:
  fixes c c' :: "'w conn"
  shows "sub_like c p l = sub_like c' p l"
  unfolding sub_like_def Let_def part_fields [of c p c'] ..

lemma outer_like_conn:
  fixes c c' :: "'w conn"
  shows "m_Trans c = m_Trans c' \<Longrightarrow> outer_like c p st \<longleftrightarrow> outer_like c' p st"
  unfolding outer_like_def Let_def is_guest_def extend_fields part_fields [of c p c'] by simp

definition shape :: "'d nested \<Rightarrow> int \<times> status \<times> (string \<times> status) list" where
  "shape m = (n_id m, n_outer m, map sub_key (n_subs m))"

text \<open>A call on the innermost object moves the whole to what the innermost status says.\<close>

lemma inner_level:
  assumes "models h srv s m" "t = nest_level 0 s"
  shows "m_Status t = inner_status m" "m_PendingError t = []" "m_Focus t = None" "m_Conn t = h" "world t = world (fst s)"
    "m_Registered t = (n_subs m = [] \<and> inner_status m = st_active)"
    "n_subs m = l # ls \<Longrightarrow> name (this_trans t) = sub_name l \<and> quotable (sub_name l)"
    "inner_status m \<in> {st_nascent, st_active} \<Longrightarrow> steady h t \<and> n_outer m = st_active"
    "length (snd s) = Suc (length (n_subs m))"
proof -
  obtain p ps where s: "snd s = p # ps" using assms(1) by (cases "snd s") (simp_all add: models_def)
  have t: "t = conn.extend (fst s) p" using assms(2) s by (simp add: nest_level_def)
  have m: "list_all2 (sub_like (fst s)) (butlast (p # ps)) (map sub_key (n_subs m))" "outer_like (fst s) (last (p # ps)) (n_outer m)"
    "m_Conn (fst s) = h" "m_Completed (fst s)" "n_outer m = st_active \<longrightarrow> m_Trans (fst s) \<noteq> None" "well_nested m"
    using assms(1) s by (simp_all add: models_def)
  have len: "length ps = length (n_subs m)" using list_all2_lengthD [OF m(1)] unfolding length_butlast by simp
  then show "length (snd s) = Suc (length (n_subs m))" using s by simp
  have o: "inner_status m \<in> {st_nascent, st_active} \<Longrightarrow> n_outer m = st_active"
    using m(6) by (cases "n_subs m") (auto simp: well_nested_def inner_status_def)
  have key: "(n_subs m = [] \<longrightarrow> outer_like (fst s) p (n_outer m)) \<and>
      (\<forall>l ls. n_subs m = l # ls \<longrightarrow> sub_like (fst s) p (sub_key l))"
    using m(1,2) len by (cases ps) auto
  show all: "m_Status t = inner_status m" "m_PendingError t = []" "m_Focus t = None" "m_Conn t = h" "world t = world (fst s)"
    "m_Registered t = (n_subs m = [] \<and> inner_status m = st_active)"
    using key m(3) by (cases "n_subs m"; auto simp: t sub_like_def outer_like_def sub_key_def inner_status_def extend_fields Let_def)+
  show "n_subs m = l # ls \<Longrightarrow> name (this_trans t) = sub_name l \<and> quotable (sub_name l)"
    using key by (auto simp: t sub_like_def sub_key_def Let_def)
  show "inner_status m \<in> {st_nascent, st_active} \<Longrightarrow> steady h t \<and> n_outer m = st_active"
  proof -
    assume a: "inner_status m \<in> {st_nascent, st_active}"
    have "m_Registered t \<longrightarrow> is_guest t" using key all(6) by (auto simp: t outer_like_def inner_status_def Let_def)
    then show ?thesis using all o [OF a] m(4,5) by (simp add: steady_def t extend_fields)
  qed
qed

lemma well_nested_statuses:
  "well_nested m \<longleftrightarrow> (let ks = map snd (map sub_key (n_subs m)) in
     n_outer m \<in> {st_active, st_aborted, st_committed} \<and> (ks \<noteq> [] \<longrightarrow> n_outer m = st_active) \<and>
     (\<forall>k \<in> set (tl ks). k \<in> {st_nascent, st_active}) \<and> (case ks of [] \<Rightarrow> n_outer m | k # _ \<Rightarrow> k) \<noteq> st_in_doubt \<and> 0 \<le> n_id m)"
  by (cases "n_subs m") (auto simp: well_nested_def inner_status_def sub_key_def)

lemma well_nested_shape: "shape m = shape m' \<Longrightarrow> well_nested m = well_nested m'"
  unfolding well_nested_statuses shape_def by (simp cong: list.case_cong)

lemma well_nested_set:
  assumes "well_nested m" "shape m' = shape (set_inner st m)" "st \<noteq> st_in_doubt" "n_subs m = [] \<longrightarrow> st \<noteq> st_nascent"
  shows "well_nested m'"
proof -
  have "well_nested (set_inner st m)"
    using assms(1,3,4) by (cases st; cases "n_subs m"; cases "hd (n_subs m)")
      (auto simp: well_nested_def set_inner_def inner_status_def)
  then show ?thesis using well_nested_shape [OF assms(2)] by simp
qed

lemma at_inner:
  assumes "models h srv s m" "became st (nest_level 0 s) t'" "shape m' = shape (set_inner st m)"
    "st = st_active \<longrightarrow> inner_status m \<in> {st_nascent, st_active}" "st \<noteq> st_in_doubt" "n_subs m = [] \<longrightarrow> st \<noteq> st_nascent"
    "serves_nested (srv (world t')) m'"
  shows "models h srv (conn.truncate t', (snd s)[0 := conn.more t']) m'"
proof -
  obtain p ps where s: "snd s = p # ps" using assms(1) by (cases "snd s") (simp_all add: models_def)
  let ?t = "nest_level 0 s"
  note t = inner_level [OF assms(1) refl]
  have w: "well_nested m'" using well_nested_set [OF _ assms(3,5,6)] assms(1) by (simp add: models_def)
  have m: "list_all2 (sub_like (fst s)) (butlast (p # ps)) (map sub_key (n_subs m))" "outer_like (fst s) (last (p # ps)) (n_outer m)"
    "m_Completed (fst s)" "m_unique_id (fst s) = n_id m" "n_outer m = st_active \<longrightarrow> m_Trans (fst s) \<noteq> None"
    "well_nested m"
    using assms(1) s by (simp_all add: models_def)
  have c: "m_Completed ?t = m_Completed (fst s)" "m_unique_id ?t = m_unique_id (fst s)" "m_Trans ?t = m_Trans (fst s)"
    by (simp_all add: nest_level_def extend_fields)
  have b: "m_Status t' = st" "this_trans t' = this_trans ?t" "m_PendingError t' = []" "m_Focus t' = None" "m_Conn t' = h"
    "m_Completed t'" "m_unique_id t' = n_id m" "m_Registered t' = (m_Registered ?t \<and> st \<notin> over)"
    "m_Trans t' = (if m_Registered ?t \<and> st \<in> over then None else m_Trans (fst s))"
    using assms(2) t(3,4) m(3,4) c by (auto simp: became_def)
  have sh: "n_id m' = n_id m" "n_outer m' = n_outer (set_inner st m)" "map sub_key (n_subs m') = map sub_key (n_subs (set_inner st m))"
    using assms(3) by (simp_all add: shape_def set_inner_def split: list.split sub.split)
  have fields: "m_Conn (conn.truncate t') = h \<and> m_Completed (conn.truncate t') \<and> m_unique_id (conn.truncate t') = n_id m' \<and>
      m_Trans (conn.truncate t') = m_Trans t' \<and> world (conn.truncate t') = world t'"
    using b(5-7) sh(1) by (simp add: truncate_fields)
  show ?thesis
  proof (cases "n_subs m")
    case Nil
    then have ps: "ps = []" using t(9) s by simp
    have o: "n_outer m' = st" "n_subs m' = []" using sh Nil by (simp_all add: set_inner_def)
    have st: "st \<in> {st_active, st_aborted, st_committed}" using w o(1) by (simp add: well_nested_def)
    have a: "st = st_active \<longrightarrow> n_outer m = st_active \<and> m_Registered ?t \<and> is_guest ?t"
      using assms(4) m(2,6) Nil t(6) ps by (auto simp: well_nested_def inner_status_def outer_like_def nest_level_def s Let_def)
    have "outer_like (conn.truncate t') (conn.more t') st"
      using b a st c(3) by (auto simp: outer_like_def extend_more is_guest_def over_def)
    moreover have "st = st_active \<longrightarrow> m_Trans t' \<noteq> None" using b(9) a m(5) by (auto simp: over_def)
    ultimately show ?thesis using fields o w assms(7) s ps by (simp add: models_def)
  next
    case (Cons l ls)
    then have ps: "ps \<noteq> []" using t(9) s by auto
    have o: "n_outer m' = n_outer m" "map sub_key (n_subs m') = (sub_name l, st) # map sub_key ls"
      using sh Cons by (cases l; simp add: set_inner_def sub_key_def)+
    have tr: "m_Trans t' = m_Trans (fst s)" "\<not> m_Registered t'" using b(8,9) t(6) Cons by simp_all
    have "sub_like (conn.truncate t') (conn.more t') (sub_name l, st)"
      using b t(7) [OF Cons] tr(2) by (simp add: sub_like_def extend_more)
    moreover have "list_all2 (sub_like (conn.truncate t')) (butlast ps) (map sub_key ls)"
      using m(1) ps Cons by (auto elim!: list_all2_mono simp: sub_like_conn [of "conn.truncate t'" _ _ "fst s"])
    moreover have "outer_like (conn.truncate t') (last ps) (n_outer m')"
      using m(2) ps o(1) outer_like_conn [of "conn.truncate t'" "fst s"] tr(1) by (simp add: truncate_fields)
    ultimately show ?thesis using fields o w assms(7) s ps tr(1) m(5) by (simp add: models_def)
  qed
qed

section \<open>The innermost transaction\<close>

definition stands_for :: "'w env \<Rightarrow> handle \<Rightarrow> ('w \<Rightarrow> 'd server) \<Rightarrow> ('w, unit) hooks \<Rightarrow> 'w tx \<Rightarrow> 'd nested \<Rightarrow> bool" where
  "stands_for env h srv k t m \<longleftrightarrow> steady h t \<and> m_Status t = st_active \<and> inner_status m = st_active \<and> well_nested m \<and>
     serves_nested (srv (world t)) m \<and> k = (if n_subs m = [] then basic_hooks env else sub_hooks env) \<and>
     (\<forall>l ls. n_subs m = l # ls \<longrightarrow> name (this_trans t) = sub_name l \<and> quotable (sub_name l))"

lemma outer_active: "well_nested m \<Longrightarrow> inner_status m \<in> {st_nascent, st_active} \<Longrightarrow> n_outer m = st_active"
  by (cases "n_subs m") (auto simp: well_nested_def inner_status_def)

lemma undo_at:
  assumes "savepoint_server env h srv eff own" "stands_for env h srv k t m"
  shows "\<exists>v. (n_subs m = [] \<longrightarrow> sendable own Sql_rollback \<and> sql_step eff Sql_rollback (srv (world t)\<lparr>failed := b\<rparr>) = (True, v)) \<and>
    (n_subs m \<noteq> [] \<longrightarrow> sendable own (Sql_rollback_to (name (this_trans t))) \<and>
       sql_step eff (Sql_rollback_to (name (this_trans t))) (srv (world t)\<lparr>failed := b\<rparr>) = (True, v)) \<and>
    serves_nested v (undo_inner m)"
proof -
  obtain v where v: "sql_step eff (undo_command m) (srv (world t)\<lparr>failed := b\<rparr>) = (True, v)" "serves_nested v (undo_inner m)"
    using undo_step [of "srv (world t)" m eff b] assms(2) by (auto simp: stands_for_def)
  show ?thesis
    using v assms(2)
    by (cases "n_subs m") (auto simp: stands_for_def undo_command_def sendable_def simp del: sql_step.simps)
qed

lemma abort_at:
  assumes "savepoint_server env h srv eff own" "stands_for env h srv k t m"
  shows "\<exists>t'. abort env (do_abort k) t = (Inr (), t') \<and> became st_aborted t t' \<and> serves_nested (srv (world t')) (undo_inner m)"
proof -
  have t: "steady h t" "m_Status t = st_active" "k = (if n_subs m = [] then basic_hooks env else sub_hooks env)"
    "srv (world t)\<lparr>failed := failed (srv (world t))\<rparr> = srv (world t)"
    using assms(2) by (simp_all add: stands_for_def)
  obtain v where v: "n_subs m = [] \<longrightarrow> sendable own Sql_rollback \<and> sql_step eff Sql_rollback (srv (world t)) = (True, v)"
    "n_subs m \<noteq> [] \<longrightarrow> sendable own (Sql_rollback_to (name (this_trans t))) \<and>
       sql_step eff (Sql_rollback_to (name (this_trans t))) (srv (world t)) = (True, v)" "serves_nested v (undo_inner m)"
    using undo_at [OF assms, of "failed (srv (world t))"] t(4) by auto
  show ?thesis
    using backend_tx.abort_active [OF assms(1) t(1,2)] sub_tx.abort_active [OF assms(1) t(1,2)] v t(3)
    by (cases "n_subs m = []") (simp_all del: sql_step.simps, metis+)
qed

lemma commit_at:
  assumes "savepoint_server env h srv eff own" "stands_for env h srv k t m"
  shows "\<exists>t'. commit env k t = (Inr (), t') \<and> became st_committed t t' \<and> serves_nested (srv (world t')) (snd (commit_inner m))"
proof -
  have t: "steady h t" "m_Status t = st_active" "k = (if n_subs m = [] then basic_hooks env else sub_hooks env)"
    using assms(2) by (simp_all add: stands_for_def)
  obtain v where v: "sql_step eff (commit_command m) (srv (world t)) = (True, v)" "serves_nested v (snd (commit_inner m))"
    using commit_step [of "srv (world t)" m eff] assms(2) by (auto simp: stands_for_def)
  show ?thesis
  proof (cases "n_subs m")
    case Nil
    then show ?thesis
      using backend_tx.commit_active [OF assms(1) t(1,2), of v] v t(3)
      by (auto simp: commit_command_def sendable_def simp del: sql_step.simps)
  next
    case (Cons l ls)
    then have "name (this_trans t) = sub_name l" "quotable (sub_name l)" using assms(2) by (simp_all add: stands_for_def)
    then show ?thesis
      using sub_tx.commit_active [OF assms(1) t(1,2), of v] v t(3) Cons
      by (auto simp: commit_command_def sendable_def simp del: sql_step.simps)
  qed
qed

lemma exec_at_some:
  assumes "savepoint_server env h srv eff own" "stands_for env h srv k t m" "own Q" "eff Q (n_now m) = Some x"
  shows "\<exists>R w. do_exec k Q t = (Inr R, t\<lparr>world := w\<rparr>) \<and> serves_nested (srv w) (m\<lparr>n_now := x\<rparr>)"
proof -
  have t: "steady h t" "serves_nested (srv (world t)) m" "n_outer m = st_active"
    "k = (if n_subs m = [] then basic_hooks env else sub_hooks env)"
    using assms(2) outer_active [of m] by (simp_all add: stands_for_def)
  let ?v = "srv (world t)\<lparr>current := x\<rparr>"
  have v: "sql_step eff (Sql_query Q) (srv (world t)) = (True, ?v)" "serves_nested ?v (m\<lparr>n_now := x\<rparr>)"
    using query_step(1) [OF t(2,3), of eff Q] query_step(2) [OF t(2,3)] assms(4) by simp_all
  have "\<exists>R w. do_exec k Q t = (Inr R, t\<lparr>world := w\<rparr>) \<and> srv w = ?v"
    using backend_tx.exec_accepted [OF assms(1) t(1) assms(3) v(1)] sub_tx.exec_accepted [OF assms(1) t(1) assms(3) v(1)]
      t(4) by (cases "n_subs m = []") simp_all
  then show ?thesis using v(2) by metis
qed

lemma exec_at_none:
  assumes "savepoint_server env h srv eff own" "stands_for env h srv k t m" "own Q" "eff Q (n_now m) = None"
  shows "\<exists>e t'. do_exec k Q t = (Inl e, t') \<and> became st_aborted t t' \<and> serves_nested (srv (world t')) (undo_inner m)"
proof -
  have t: "steady h t" "m_Status t = st_active" "serves_nested (srv (world t)) m" "n_outer m = st_active"
    "k = (if n_subs m = [] then basic_hooks env else sub_hooks env)"
    using assms(2) outer_active [of m] by (simp_all add: stands_for_def)
  let ?u = "srv (world t)\<lparr>failed := True\<rparr>"
  have u: "sql_step eff (Sql_query Q) (srv (world t)) = (False, ?u)"
    using query_step(1) [OF t(3,4), of eff Q] assms(4) by simp
  obtain v where v: "n_subs m = [] \<longrightarrow> sendable own Sql_rollback \<and> sql_step eff Sql_rollback ?u = (True, v)"
    "n_subs m \<noteq> [] \<longrightarrow> sendable own (Sql_rollback_to (name (this_trans t))) \<and>
       sql_step eff (Sql_rollback_to (name (this_trans t))) ?u = (True, v)" "serves_nested v (undo_inner m)"
    using undo_at [OF assms(1,2), of True] by auto
  show ?thesis
  proof (cases "n_subs m = []")
    case True
    then show ?thesis using backend_tx.exec_refused [OF assms(1) t(1,2) assms(3) _ u] v t(5) by (auto simp del: sql_step.simps)
  next
    case False
    then show ?thesis using sub_tx.exec_refused [OF assms(1) t(1,2) assms(3) _ u] v t(5) by (auto simp del: sql_step.simps)
  qed
qed

section \<open>Every operation\<close>

definition nested_do :: "(string \<Rightarrow> 'd \<Rightarrow> 'd option) \<Rightarrow> nest_op \<Rightarrow> 'd nested \<Rightarrow> bool \<times> 'd nested" where
  "nested_do eff x m = (case x of
     Open_sub nm \<Rightarrow> open_inner nm m | Query Q \<Rightarrow> query_inner eff Q m | Commit \<Rightarrow> commit_inner m
   | Abort \<Rightarrow> abort_inner m | Destroy \<Rightarrow> close_inner m)"

definition carries_out :: "handle \<Rightarrow> ('w \<Rightarrow> 'd server) \<Rightarrow> (exn + unit) \<times> 'w nest \<Rightarrow> bool \<times> 'd nested \<Rightarrow> bool" where
  "carries_out h srv r a \<longleftrightarrow> fst a = (case fst r of Inl _ \<Rightarrow> False | Inr _ \<Rightarrow> True) \<and> models h srv (snd r) (snd a)"

lemma hooks_inner: "models h srv s m \<Longrightarrow> nest_hooks env 0 s = (if n_subs m = [] then basic_hooks env else sub_hooks env)"
  using inner_level(9) [OF _ refl, where h = h and srv = srv and s = s and m = m]
  by (cases "n_subs m") (auto simp: nest_hooks_def)

lemma inner_stands:
  assumes "models h srv s m" "inner_status m = st_active"
  shows "stands_for env h srv (nest_hooks env 0 s) (nest_level 0 s) m"
  using inner_level [OF assms(1) refl] assms hooks_inner [OF assms(1)] by (auto simp: stands_for_def models_def)

text \<open>A call that leaves the object and the backend as they are.\<close>

lemma carries_unchanged:
  assumes "models h srv s m" "became (inner_status m) (nest_level 0 s) t'" "srv (world t') = srv (world (fst s))"
  shows "models h srv (conn.truncate t', (snd s)[0 := conn.more t']) m"
proof -
  have m: "well_nested m" "serves_nested (srv (world t')) m" using assms by (simp_all add: models_def)
  have "shape m = shape (set_inner (inner_status m) m)"
    by (auto simp: shape_def set_inner_def inner_status_def sub_key_def split: list.split sub.split)
  moreover have "inner_status m \<noteq> st_in_doubt" "n_subs m = [] \<longrightarrow> inner_status m \<noteq> st_nascent"
    using m(1) by (auto simp: well_nested_def inner_status_def)
  ultimately show ?thesis using at_inner [OF assms(1,2)] m(2) by blast
qed

lemma models_noticed:
  assumes "models h srv s m"
  shows "models h srv (conn.truncate (nest_level 0 s\<lparr>notices := n\<rparr>), (snd s)[0 := conn.more (nest_level 0 s\<lparr>notices := n\<rparr>)]) m"
proof -
  have "became (inner_status m) (nest_level 0 s) (nest_level 0 s\<lparr>notices := n\<rparr>)"
    using inner_level(1-3,6) [OF assms refl] by (auto simp: became_def over_def)
  then show ?thesis by (rule carries_unchanged [OF assms]) (simp add: inner_level(5) [OF assms refl])
qed

lemma models_same: "models h srv s m \<Longrightarrow> models h srv (conn.truncate (nest_level 0 s), (snd s)[0 := conn.more (nest_level 0 s)]) m"
  using models_noticed [of h srv s m "notices (nest_level 0 s)"] by simp

lemma at_level_0: "m (nest_level 0 s) = (r, t) \<Longrightarrow> at_level 0 m s = (r, conn.truncate t, (snd s)[0 := conn.more t])"
  by (simp add: at_level_def)

lemma at_level_carried:
  assumes "f (nest_level 0 s) = (r, t')" "models h srv (conn.truncate t', (snd s)[0 := conn.more t']) m'"
    "ok = (case r of Inl _ \<Rightarrow> False | Inr _ \<Rightarrow> True)"
  shows "carries_out h srv (at_level 0 f s) (ok, m')"
  using assms by (simp add: carries_out_def at_level_0)

lemma shape_undo: "shape (undo_inner m) = shape (set_inner st_aborted m)"
  by (auto simp: undo_inner_def shape_def set_inner_def sub_key_def split: list.split sub.split)

lemma shape_now: "shape (m\<lparr>n_now := x\<rparr>) = shape m"
  by (simp add: shape_def)

lemma shape_commit: "inner_status m = st_active \<Longrightarrow> shape (snd (commit_inner m)) = shape (set_inner st_committed m)"
  by (auto simp: commit_inner_def shape_def set_inner_def sub_key_def split: list.split sub.split)

lemma shape_begin:
  assumes "inner_status m \<in> {st_nascent, st_active}" "n_outer m = st_active"
  shows "shape (begin_inner m) = shape (set_inner st_active m)"
proof (cases "n_subs m")
  case (Cons l ls)
  then show ?thesis using assms
    by (cases l; cases "sub_status l") (auto simp: begin_inner_def set_inner_def inner_status_def shape_def sub_key_def)
qed (use assms in \<open>simp add: begin_inner_def set_inner_def inner_status_def shape_def\<close>)

lemma abort_carried:
  assumes "savepoint_server env h srv eff own" "models h srv s m"
  shows "carries_out h srv (nested_abort env 0 s) (abort_inner m)"
proof -
  let ?k = "nest_hooks env 0 s" and ?t = "nest_level 0 s"
  note t = inner_level [OF assms(2) refl]
  have m: "well_nested m" "serves_nested (srv (world (fst s))) m" using assms(2) by (simp_all add: models_def)
  have carried: "abort env (do_abort ?k) ?t = (r, t') \<Longrightarrow> models h srv (conn.truncate t', (snd s)[0 := conn.more t']) m' \<Longrightarrow>
    ok = (case r of Inl _ \<Rightarrow> False | Inr _ \<Rightarrow> True) \<Longrightarrow> carries_out h srv (nested_abort env 0 s) (ok, m')" for r t' ok m'
    unfolding nested_abort_def by (rule at_level_carried)
  show ?thesis
  proof (cases "inner_status m")
    case st_nascent
    have n: "steady h ?t" "n_subs m \<noteq> []" using st_nascent t(8) m(1) by (auto simp: well_nested_def inner_status_def)
    obtain t' where t': "abort env (do_abort (sub_hooks env)) ?t = (Inr (), t')" "became st_aborted ?t t'" "world t' = world ?t"
      using abort_unbegun n(1) t(1) st_nascent by metis
    have "serves_nested (srv (world t')) (set_inner st_aborted m)"
      using m(2) t'(3) t(5) n(2) st_nascent
      by (cases "n_subs m"; cases "hd (n_subs m)") (auto simp: serves_nested_def set_inner_def tidy_def inner_status_def)
    then have "models h srv (conn.truncate t', (snd s)[0 := conn.more t']) (set_inner st_aborted m)"
      using at_inner [OF assms(2) t'(2) refl] by simp
    then show ?thesis
      using carried [of "Inr ()" t' _ True] t'(1) hooks_inner [OF assms(2)] n(2) st_nascent
      by (simp add: abort_inner_def)
  next
    case st_active
    obtain t' where t': "abort env (do_abort ?k) ?t = (Inr (), t')" "became st_aborted ?t t'"
      "serves_nested (srv (world t')) (undo_inner m)"
      using abort_at [OF assms(1) inner_stands [OF assms(2) st_active]] by blast
    have "models h srv (conn.truncate t', (snd s)[0 := conn.more t']) (undo_inner m)"
      using at_inner [OF assms(2) t'(2) shape_undo _ _ _ t'(3)] by simp
    then show ?thesis using carried [OF t'(1)] st_active by (simp add: abort_inner_def)
  next
    case st_aborted
    then have "abort env (do_abort ?k) ?t = (Inr (), ?t)" using t(1) closed_refuse(4) [OF t(2,3)] by simp
    from carried [OF this models_same [OF assms(2)] refl] st_aborted show ?thesis by (simp add: abort_inner_def)
  next
    case st_committed
    then obtain e where "abort env (do_abort ?k) ?t = (Inl e, ?t)"
      using t(1) closed_refuse(5) [OF t(2,3)] by fastforce
    from carried [OF this models_same [OF assms(2)] refl] st_committed show ?thesis by (simp add: abort_inner_def)
  next
    case st_in_doubt
    then show ?thesis using m(1) by (simp add: well_nested_def)
  qed
qed

lemma more_fields:
  fixes t :: "'w tx" and c :: "'w conn"
  shows "m_Status (conn.extend c (conn.more t)) = m_Status t" "this_trans (conn.extend c (conn.more t)) = this_trans t"
    "m_PendingError (conn.extend c (conn.more t)) = m_PendingError t" "m_Focus (conn.extend c (conn.more t)) = m_Focus t"
    "m_Registered (conn.extend c (conn.more t)) = m_Registered t"
  using part_fields [of c "conn.more t" "conn.truncate t"] by (simp_all add: extend_more)

lemma like_more:
  fixes c :: "'w conn" and t :: "'w tx"
  assumes "t = conn.extend c p"
  shows "sub_like c (conn.more (t\<lparr>parent_avoidance := a\<rparr>)) key = sub_like c p key"
    "sub_like c (conn.more (t\<lparr>tx_avoidance := a\<rparr>)) key = sub_like c p key"
    "outer_like c (conn.more (t\<lparr>tx_avoidance := a\<rparr>)) st = outer_like c p st"
  unfolding sub_like_def outer_like_def Let_def is_guest_def more_fields extend_fields assms by simp_all

lemma models_hand_over:
  assumes "models h srv s m"
  shows "models h srv (hand_over 0 s) m"
proof (cases "Suc 0 < length (snd s)")
  case True
  then obtain p q qs where s: "snd s = p # q # qs" by (metis Suc_length_conv Suc_less_eq2 length_Cons less_nat_zero_code list.exhaust list.size(3))
  let ?c = "nest_level 0 s" and ?p = "nest_level (Suc 0) s"
  let ?p' = "conn.more (?c\<lparr>parent_avoidance := 0\<rparr>)"
  let ?q' = "conn.more (?p\<lparr>tx_avoidance := tx_avoidance ?p + parent_avoidance ?c\<rparr>)"
  have h: "hand_over 0 s = (fst s, ?p' # ?q' # qs)" using s by (simp add: hand_over_def Let_def)
  have c: "?c = conn.extend (fst s) p" and q: "?p = conn.extend (fst s) q" using s by (simp_all add: nest_level_def)
  show ?thesis
    using assms s
    by (cases qs) (auto simp: models_def h like_more [OF c] like_more [OF q] list_all2_Cons1)
qed (use assms in \<open>simp add: hand_over_def\<close>)

lemma commit_carried:
  assumes "savepoint_server env h srv eff own" "models h srv s m"
  shows "carries_out h srv (nested_commit env 0 s) (commit_inner m)"
proof -
  let ?k = "nest_hooks env 0 s" and ?t = "nest_level 0 s"
  note t = inner_level [OF assms(2) refl]
  have m: "well_nested m" "serves_nested (srv (world (fst s))) m" using assms(2) by (simp_all add: models_def)
  have carried: "carries_out h srv (nested_commit env 0 s) (ok, m')"
    if "commit env ?k ?t = (r, t')" "models h srv (conn.truncate t', (snd s)[0 := conn.more t']) m'"
      "ok = (case r of Inl _ \<Rightarrow> False | Inr _ \<Rightarrow> True)" for r t' ok m'
    using at_level_0 [of "commit env ?k", OF that(1)] models_hand_over [OF that(2)] that(3) by (simp add: carries_out_def nested_commit_def)
  show ?thesis
  proof (cases "inner_status m")
    case st_nascent
    then have "commit env ?k ?t = (Inr (), ?t)" using t(1,2) commit_unbegun by simp
    from carried [OF this models_same [OF assms(2)] refl] st_nascent show ?thesis by (simp add: commit_inner_def)
  next
    case st_active
    obtain t' where t': "commit env ?k ?t = (Inr (), t')" "became st_committed ?t t'"
      "serves_nested (srv (world t')) (snd (commit_inner m))"
      using commit_at [OF assms(1) inner_stands [OF assms(2) st_active]] by blast
    have "models h srv (conn.truncate t', (snd s)[0 := conn.more t']) (snd (commit_inner m))"
      using at_inner [OF assms(2) t'(2) shape_commit [OF st_active] _ _ _ t'(3)] by simp
    moreover have "commit_inner m = (True, snd (commit_inner m))" using st_active by (simp add: commit_inner_def)
    ultimately show ?thesis using carried [OF t'(1), of "snd (commit_inner m)" True] by simp
  next
    case st_aborted
    then obtain e where "commit env ?k ?t = (Inl e, ?t)" using t(1) closed_refuse(2) [OF t(2,3)] by fastforce
    from carried [OF this models_same [OF assms(2)] refl] st_aborted show ?thesis by (simp add: commit_inner_def)
  next
    case st_committed
    then obtain n where "commit env ?k ?t = (Inr (), ?t\<lparr>notices := n\<rparr>)"
      using t(1) closed_refuse(3) [OF t(2,3)] by fastforce
    from carried [OF this models_noticed [OF assms(2)] refl] st_committed show ?thesis by (simp add: commit_inner_def)
  next
    case st_in_doubt
    then show ?thesis using m(1) by (simp add: well_nested_def)
  qed
qed

lemma query_ended:
  assumes "exec env (nest_hooks env 0 s) Q [] (nest_level 0 s) = (r, t')"
    "models h srv (conn.truncate t', (snd s)[0 := conn.more t']) m'" "ok = (case r of Inl _ \<Rightarrow> False | Inr _ \<Rightarrow> True)"
  shows "carries_out h srv (bnd (nested_exec env 0 Q) (\<lambda>_. skip) s) (ok, m')"
  using assms by (auto simp: carries_out_def nested_exec_def bnd_def skip_def ret_def at_level_def split: sum.split)

text \<open>The query of a transaction that is active, or has been begun for it.\<close>

lemma query_served:
  assumes "savepoint_server env h srv eff own" "models h srv s m" "own Q" "inner_status m \<in> {st_nascent, st_active}"
    "exec env k Q [] (nest_level 0 s) = do_exec k Q t" "became st_active (nest_level 0 s) t"
    "stands_for env h srv k t (begin_inner m)" "k = nest_hooks env 0 s"
  shows "carries_out h srv (bnd (nested_exec env 0 Q) (\<lambda>_. skip) s) (query_inner eff Q m)"
proof -
  have sh: "shape (begin_inner m) = shape (set_inner st_active m)"
    using shape_begin [OF assms(4)] inner_level(8) [OF assms(2) refl assms(4)] by simp
  note ended = query_ended [of env s Q, folded assms(8), unfolded assms(5)]
  show ?thesis
  proof (cases "eff Q (n_now (begin_inner m))")
    case (Some x)
    obtain R w where w: "do_exec k Q t = (Inr R, t\<lparr>world := w\<rparr>)" "serves_nested (srv w) (begin_inner m\<lparr>n_now := x\<rparr>)"
      using exec_at_some [OF assms(1,7,3) Some] by blast
    have "became st_active (nest_level 0 s) (t\<lparr>world := w\<rparr>)" using assms(6) by (simp add: became_def)
    then have "models h srv (conn.truncate (t\<lparr>world := w\<rparr>), (snd s)[0 := conn.more (t\<lparr>world := w\<rparr>)]) (begin_inner m\<lparr>n_now := x\<rparr>)"
      using at_inner [OF assms(2), of st_active "t\<lparr>world := w\<rparr>" "begin_inner m\<lparr>n_now := x\<rparr>"] sh assms(4) w(2)
      by (simp add: shape_now)
    then show ?thesis using ended [OF w(1)] Some assms(4) by (simp add: query_inner_def)
  next
    case None
    obtain e t' where w: "do_exec k Q t = (Inl e, t')" "became st_aborted t t'"
      "serves_nested (srv (world t')) (undo_inner (begin_inner m))"
      using exec_at_none [OF assms(1,7,3) None] by blast
    have "became st_aborted (nest_level 0 s) t'" using became_trans [OF assms(6) _ w(2)] by (simp add: over_def)
    moreover have "shape (undo_inner (begin_inner m)) = shape (set_inner st_aborted m)"
      using sh unfolding shape_undo by (auto simp: shape_def set_inner_def sub_key_def split: list.splits sub.splits)
    ultimately have "models h srv (conn.truncate t', (snd s)[0 := conn.more t']) (undo_inner (begin_inner m))"
      using at_inner [OF assms(2), of st_aborted t' "undo_inner (begin_inner m)"] w(3) by simp
    then show ?thesis using ended [OF w(1), of h srv "undo_inner (begin_inner m)" False] None assms(4) by (simp add: query_inner_def)
  qed
qed

lemma query_begins:
  assumes "savepoint_server env h srv eff own" "models h srv s m" "own Q" "inner_status m = st_nascent"
  shows "carries_out h srv (bnd (nested_exec env 0 Q) (\<lambda>_. skip) s) (query_inner eff Q m)"
proof -
  let ?k = "nest_hooks env 0 s" and ?t = "nest_level 0 s"
  note t = inner_level [OF assms(2) refl]
  have m: "well_nested m" "serves_nested (srv (world (fst s))) m" using assms(2) by (simp_all add: models_def)
  have st: "steady h ?t" "n_outer m = st_active" using t(8) assms(4) by simp_all
  obtain l ls where l: "n_subs m = l # ls" using assms(4) st(2) by (cases "n_subs m") (simp_all add: inner_status_def)
  obtain n x where n: "l = Sub n st_nascent x" using assms(4) l by (cases l) (simp add: inner_status_def)
  have q: "name (this_trans ?t) = n" "quotable n" using t(7) [OF l] n by simp_all
  obtain v where v: "sql_step eff (Sql_savepoint n) (srv (world ?t)) = (True, v)" "serves_nested v (begin_inner m)"
    using begin_step [OF m(2,1)] l n t(5) by fastforce
  obtain t1 where t1: "tx_activate env (do_begin (sub_hooks env)) (do_abort (sub_hooks env)) ?t = (Inr (), t1)"
    "steady h t1" "became st_active ?t t1" "srv (world t1) = v"
    using sub_begins [OF assms(1) st(1), of v] q v(1) t(1) assms(4) by auto
  have k: "?k = sub_hooks env" using hooks_inner [OF assms(2)] l by simp
  have "n_subs (begin_inner m) = Sub n st_active (n_now m) # ls" using l n by (simp add: begin_inner_def)
  moreover have "well_nested (begin_inner m)"
    using well_nested_set [OF m(1) shape_begin] assms(4) st(2) by simp
  ultimately have "stands_for env h srv ?k t1 (begin_inner m)"
    using t1(2-4) v(2) q k by (auto simp: stands_for_def became_def inner_status_def)
  then show ?thesis using query_served [OF assms(1-3), of ?k t1] exec_begun [OF st(1) t1(1)] t1(3) k assms(4) by simp
qed

lemma query_carried:
  assumes "savepoint_server env h srv eff own" "models h srv s m" "own Q"
  shows "carries_out h srv (bnd (nested_exec env 0 Q) (\<lambda>_. skip) s) (query_inner eff Q m)"
proof -
  let ?k = "nest_hooks env 0 s" and ?t = "nest_level 0 s"
  note t = inner_level [OF assms(2) refl]
  have m: "well_nested m" "serves_nested (srv (world (fst s))) m" using assms(2) by (simp_all add: models_def)
  show ?thesis
  proof (cases "inner_status m")
    case st_nascent
    then show ?thesis using query_begins [OF assms] by simp
  next
    case st_active
    have "begin_inner m = m"
      using st_active by (auto simp: begin_inner_def inner_status_def split: list.split sub.split status.split)
    then have "stands_for env h srv ?k ?t (begin_inner m)" using inner_stands [OF assms(2) st_active] by simp
    moreover have "became st_active ?t ?t" using t(1-3,6) st_active by (auto simp: became_def over_def)
    moreover have "exec env ?k Q [] ?t = do_exec ?k Q ?t" using query_when_active [of h ?t] t(1,8) st_active by simp
    ultimately show ?thesis using query_served [OF assms, of ?k ?t] st_active by simp
  next
    case st_in_doubt
    then show ?thesis using m(1) by (simp add: well_nested_def)
  next
    case st_aborted
    then obtain e where "exec env ?k Q [] ?t = (Inl e, ?t)" using t(1) closed_refuse(1) [OF t(2,3)] by fastforce
    from query_ended [OF this models_same [OF assms(2)] refl] st_aborted show ?thesis by (simp add: query_inner_def)
  next
    case st_committed
    then obtain e where "exec env ?k Q [] ?t = (Inl e, ?t)" using t(1) closed_refuse(1) [OF t(2,3)] by fastforce
    from query_ended [OF this models_same [OF assms(2)] refl] st_committed show ?thesis by (simp add: query_inner_def)
  qed
qed

lemma open_carried:
  assumes "models h srv s m" "short_name nm" "fits int_t (n_id m + 1)" "inner_status m \<in> {st_nascent, st_active}"
  shows "carries_out h srv (nested_new env nm s) (open_inner nm m)"
proof -
  have m: "snd s \<noteq> []" "list_all2 (sub_like (fst s)) (butlast (snd s)) (map sub_key (n_subs m))"
    "outer_like (fst s) (last (snd s)) (n_outer m)" "m_Conn (fst s) = h" "m_Completed (fst s)" "m_unique_id (fst s) = n_id m"
    "n_outer m = st_active" "m_Trans (fst s) \<noteq> None" "well_nested m" "serves_nested (srv (world (fst s))) m"
    using assms(1) inner_level(8) [OF assms(1) refl assms(4)] by (simp_all add: models_def)
  let ?n = "adorned nm (n_id m + 1)"
  let ?a = "Suc (length (snd s))"
  let ?t = "new_tx (fst s) \<lparr>addr = ?a, classname = ''subtransaction'', name = []\<rparr> sql_begin_work"
  let ?t' = "?t\<lparr>m_unique_id := n_id m + 1, this_trans := \<lparr>addr = ?a, classname = ''subtransaction'', name = ?n\<rparr>\<rparr>"
  let ?m = "snd (open_inner nm m)"
  have "nest_level 0 (fst s, conn.more ?t # snd s) = ?t" by (simp add: nest_level_def new_tx_def conn.defs)
  moreover have "subtransaction_new env nm ?t = (Inr (), ?t')"
    using m(6) by (simp add: subtransaction_new_def adorn_name_def transaction_base_init_def new_tx_def conn.defs adorned_def
        seq_def bnd_def modify_def gets_def ret_def skip_def Let_def)
  ultimately have new: "nested_new env nm s = (Inr (), conn.truncate ?t', conn.more ?t' # snd s)"
    by (simp add: nested_new_def at_level_def Let_def)
  have fields: "m_Conn (conn.truncate ?t') = h \<and> m_Completed (conn.truncate ?t') \<and> m_unique_id (conn.truncate ?t') = n_id ?m \<and>
      m_Trans (conn.truncate ?t') = m_Trans (fst s) \<and> world (conn.truncate ?t') = world (fst s)"
    unfolding truncate_fields using m(4-6) by (simp add: new_tx_def extend_fields open_inner_def)
  have "quotable ?n" using adorned_quotable [OF assms(2,3)] m(9) by (simp add: well_nested_def)
  then have "sub_like (conn.truncate ?t') (conn.more ?t') (?n, st_nascent)"
    by (simp add: sub_like_def extend_more new_tx_def conn.defs)
  moreover have "list_all2 (sub_like (conn.truncate ?t')) (butlast (snd s)) (map sub_key (n_subs m))"
    using m(2) by (auto elim!: list_all2_mono simp: sub_like_conn [of "conn.truncate ?t'" _ _ "fst s"])
  moreover have "outer_like (conn.truncate ?t') (last (snd s)) (n_outer m)"
    using m(3) fields outer_like_conn [of "conn.truncate ?t'" "fst s"] by simp
  moreover have "well_nested ?m"
    using m(9) assms(4) m(7) by (cases "n_subs m") (auto simp: well_nested_def open_inner_def inner_status_def)
  moreover have "serves_nested (srv (world (fst s))) ?m" using open_step [OF m(10) _ assms(3)] m(9) by (simp add: well_nested_def)
  ultimately have "models h srv (conn.truncate ?t', conn.more ?t' # snd s) ?m"
    using fields m(1,7,8) unfolding models_def fst_conv snd_conv by (simp add: open_inner_def sub_key_def)
  then show ?thesis unfolding new by (simp add: carries_out_def open_inner_def)
qed

lemma models_drop:
  assumes "models h srv s m" "n_subs m \<noteq> []" "inner_status m \<noteq> st_active"
  shows "models h srv (fst s, tl (snd s)) (snd (close_inner m))"
proof -
  obtain l ls where l: "n_subs m = l # ls" using assms(2) by (cases "n_subs m") auto
  obtain p q qs where s: "snd s = p # q # qs"
    using inner_level(9) [OF assms(1) refl] l by (metis length_Suc_conv list.size(4) add.right_neutral add_Suc_right)
  have "well_nested (snd (close_inner m))"
    using assms(1,3) l by (cases ls) (auto simp: models_def well_nested_def close_inner_def inner_status_def)
  moreover have "serves_nested (srv (world (fst s))) (snd (close_inner m))"
    using close_step [OF _ l assms(3)] assms(1) by (simp add: models_def)
  ultimately show ?thesis using assms(1,3) l s by (simp add: models_def close_inner_def)
qed

lemma delete_carried:
  assumes "savepoint_server env h srv eff own" "models h srv s m" "n_subs m \<noteq> []"
  shows "carries_out h srv (nested_delete env s) (close_inner m)"
proof -
  let ?t = "nest_level 0 s"
  note t = inner_level [OF assms(2) refl]
  have m: "well_nested m" "serves_nested (srv (world (fst s))) m" using assms(2) by (simp_all add: models_def)
  have tail: "tl (xs[0 := x]) = tl xs" for x and xs :: "tx_part list" by (cases xs) simp_all
  have deleted: "nested_delete env s = (Inr (), conn.truncate t1, tl (snd s))"
    if "End env (do_abort (sub_hooks env)) ?t = (Inr (), t')" "became st ?t t'" "t1 = t'\<lparr>tx_avoidance := 0\<rparr>" for st t' t1
    using that t(6) assms(3) base_delete_silent [of t' env] tail
    by (simp add: nested_delete_def at_level_def transaction_delete_def seq_def bnd_def became_def)
  have "\<exists>m' t'. models h srv (conn.truncate t', (snd s)[0 := conn.more t']) m' \<and> n_subs m' \<noteq> [] \<and>
      inner_status m' \<noteq> st_active \<and> snd (close_inner m') = snd (close_inner m) \<and>
      nested_delete env s = (Inr (), conn.truncate t', tl (snd s))"
  proof (cases "inner_status m = st_active")
    case True
    note st = inner_stands [OF assms(2) True, of env]
    obtain v where v: "sendable own (Sql_rollback_to (name (this_trans ?t)))"
      "sql_step eff (Sql_rollback_to (name (this_trans ?t))) (srv (world ?t)) = (True, v)" "serves_nested v (undo_inner m)"
      using undo_at [OF assms(1) st, of "failed (srv (world ?t))"] assms(3) by auto
    obtain t' where t': "End env (do_abort (sub_hooks env)) ?t = (Inr (), t')" "became st_aborted ?t t'" "srv (world t') = v"
      using sub_tx.End_active [OF assms(1) _ _ _ v(1,2)] t(1,6,8) True assms(3) by auto
    let ?t1 = "t'\<lparr>tx_avoidance := 0\<rparr>"
    have "became st_aborted ?t ?t1" using t'(2) by (simp add: became_def)
    then have "models h srv (conn.truncate ?t1, (snd s)[0 := conn.more ?t1]) (undo_inner m)"
      using at_inner [OF assms(2) _ shape_undo, of ?t1] v(3) t'(3) by simp
    moreover have "n_subs (undo_inner m) \<noteq> []" "inner_status (undo_inner m) \<noteq> st_active"
      using assms(3) by (cases "n_subs m"; cases "hd (n_subs m)"; simp add: undo_inner_def set_inner_def inner_status_def)+
    ultimately show ?thesis
      using close_active [OF True assms(3)] deleted [OF t'(1,2) refl] by (intro exI [of _ "undo_inner m"] exI [of _ ?t1]) simp
  next
    case False
    obtain t' where t': "End env (do_abort (sub_hooks env)) ?t = (Inr (), t')" "became (inner_status m) ?t t'" "world t' = world ?t"
      using End_unregistered [of ?t env "sub_hooks env"] t(1,2,6) assms(3) False by auto
    let ?t1 = "t'\<lparr>tx_avoidance := 0\<rparr>"
    have "became (inner_status m) ?t ?t1" using t'(2) by (simp add: became_def)
    then have "models h srv (conn.truncate ?t1, (snd s)[0 := conn.more ?t1]) m"
      using carries_unchanged [OF assms(2), of ?t1] t'(3) t(5) by simp
    then show ?thesis using deleted [OF t'(1,2) refl] assms(3) False by (intro exI [of _ m] exI [of _ ?t1]) simp
  qed
  then obtain m' t' where m': "models h srv (conn.truncate t', (snd s)[0 := conn.more t']) m'" "n_subs m' \<noteq> []"
    "inner_status m' \<noteq> st_active" "snd (close_inner m') = snd (close_inner m)"
    "nested_delete env s = (Inr (), conn.truncate t', tl (snd s))" by blast
  then show ?thesis using models_drop [OF m'(1-3)] tail by (simp add: carries_out_def close_inner_def)
qed

end
