(* ===== verification/Nested_Spec.thy ===== *)
theory Nested_Spec
  imports Nested_Facts
begin

text \<open>
  Whole programs of queries, commits, aborts and subtransactions, on one connection: what the calls
  answer and what the backend keeps.
\<close>

fun nested_run :: "(string \<Rightarrow> 'd \<Rightarrow> 'd option) \<Rightarrow> nest_op list \<Rightarrow> 'd nested \<Rightarrow> bool list \<times> 'd nested" where
  "nested_run eff [] m = ([], m)"
| "nested_run eff (x # xs) m =
     (case nested_run eff xs (snd (nested_do eff x m)) of (rs, m') \<Rightarrow> (fst (nested_do eff x m) # rs, m'))"

text \<open>
  A subtransaction is opened while its parent can still be used, under a name that can be quoted, and
  the connection's counter does not run over; only subtransactions are destroyed.
\<close>

definition allowed :: "(string \<Rightarrow> bool) \<Rightarrow> nest_op \<Rightarrow> 'd nested \<Rightarrow> bool" where
  "allowed own x m = (case x of
     Open_sub nm \<Rightarrow> short_name nm \<and> fits int_t (n_id m + 1) \<and> inner_status m \<in> {st_nascent, st_active}
   | Query Q \<Rightarrow> own Q
   | Destroy \<Rightarrow> n_subs m \<noteq> []
   | _ \<Rightarrow> True)"

fun all_allowed :: "(string \<Rightarrow> bool) \<Rightarrow> (string \<Rightarrow> 'd \<Rightarrow> 'd option) \<Rightarrow> nest_op list \<Rightarrow> 'd nested \<Rightarrow> bool" where
  "all_allowed own eff [] m = True"
| "all_allowed own eff (x # xs) m = (allowed own x m \<and> all_allowed own eff xs (snd (nested_do eff x m)))"

lemma operation_carried:
  assumes "savepoint_server env h srv eff own" "models h srv s m" "allowed own x m"
  shows "carries_out h srv (nest_do env x s) (nested_do eff x m)"
proof (cases x)
  case (Open_sub nm)
  then show ?thesis using open_carried [OF assms(2)] assms(3) by (simp add: allowed_def nest_do_def nested_do_def)
next
  case (Query Q)
  then show ?thesis using query_carried [OF assms(1,2)] assms(3) by (simp add: allowed_def nest_do_def nested_do_def)
next
  case Commit
  then show ?thesis using commit_carried [OF assms(1,2)] by (simp add: nest_do_def nested_do_def)
next
  case Abort
  then show ?thesis using abort_carried [OF assms(1,2)] by (simp add: nest_do_def nested_do_def)
next
  case Destroy
  then show ?thesis using delete_carried [OF assms(1,2)] assms(3) by (simp add: allowed_def nest_do_def nested_do_def)
qed

lemma program_carried:
  assumes "savepoint_server env h srv eff own"
  shows "models h srv s m \<Longrightarrow> all_allowed own eff xs m \<Longrightarrow>
    fst (nest_run env xs s) = fst (nested_run eff xs m) \<and> models h srv (snd (nest_run env xs s)) (snd (nested_run eff xs m))"
proof (induction xs arbitrary: s m)
  case (Cons x xs)
  have c: "carries_out h srv (nest_do env x s) (nested_do eff x m)"
    using operation_carried [OF assms Cons.prems(1)] Cons.prems(2) by simp
  then have m: "models h srv (snd (nest_do env x s)) (snd (nested_do eff x m))"
    "fst (nested_do eff x m) = (case fst (nest_do env x s) of Inl _ \<Rightarrow> False | Inr _ \<Rightarrow> True)"
    by (simp_all add: carries_out_def)
  show ?case using Cons.IH [OF m(1)] Cons.prems(2) m(2) by (simp add: split_beta)
qed simp

lemma nested_run_append:
  "snd (nested_run eff (xs @ ys) m) = snd (nested_run eff ys (snd (nested_run eff xs m)))"
  by (induction xs arbitrary: m) (simp_all add: split_beta)

lemma all_allowed_append:
  "all_allowed own eff (xs @ ys) m \<longleftrightarrow> all_allowed own eff xs m \<and> all_allowed own eff ys (snd (nested_run eff xs m))"
  by (induction xs arbitrary: m) (simp_all add: split_beta)

text \<open>Queries in a subtransaction: the content from before it can be told at any time.\<close>

definition inside :: "'d nested \<Rightarrow> 'd nested \<Rightarrow> bool" where
  "inside m m' \<longleftrightarrow> n_base m' = n_base m \<and> n_outer m' = n_outer m \<and>
     (\<exists>n st x. n_subs m' = Sub n st x # n_subs m \<and>
        (st \<in> {st_nascent, st_aborted} \<and> n_now m' = n_now m \<or> st = st_active \<and> x = n_now m))"

lemma inside_query:
  assumes "inside m m'"
  shows "inside m (snd (query_inner eff Q m'))"
proof -
  obtain n st x where m': "n_base m' = n_base m" "n_outer m' = n_outer m" "n_subs m' = Sub n st x # n_subs m"
    "st \<in> {st_nascent, st_aborted} \<and> n_now m' = n_now m \<or> st = st_active \<and> x = n_now m"
    using assms unfolding inside_def by blast
  show ?thesis
    using m' by (cases st) (auto simp: inside_def query_inner_def begin_inner_def undo_inner_def set_inner_def inner_status_def
        inner_saved_def Let_def split: option.split)
qed

lemma inside_queries: "inside m m' \<Longrightarrow> inside m (snd (nested_run eff (map Query Qs) m'))"
proof (induction Qs arbitrary: m')
  case (Cons Q Qs)
  then show ?case using inside_query [OF Cons.prems, of eff Q] by (simp add: split_beta nested_do_def)
qed simp

lemma queries_allowed: "list_all own Qs \<Longrightarrow> all_allowed own eff (map Query Qs) m"
  by (induction Qs arbitrary: m) (simp_all add: allowed_def)

lemma inside_closed:
  "inside m m' \<Longrightarrow> n_now (snd (close_inner m')) = n_now m \<and> n_base (snd (close_inner m')) = n_base m \<and>
     n_outer (snd (close_inner m')) = n_outer m \<and> n_subs (snd (close_inner m')) = n_subs m"
  by (auto simp: inside_def close_inner_def inner_status_def inner_saved_def)

text \<open>What the backend shows while a program is in its transactions.\<close>

lemma models_content:
  assumes "models h srv s m" "inner_status m = st_active"
  shows "current (srv (world (fst s))) = n_now m \<and> durable (srv (world (fst s))) = n_base m \<and>
    m_Status (nest_level 0 s) = st_active"
  using assms inner_level(1,8) [OF assms(1) refl] by (auto simp: models_def serves_nested_def)

section \<open>Properties\<close>

text \<open>A backend with savepoints, on strings: the content is the list of the queries done.\<close>

definition quoted_rest :: "string \<Rightarrow> string \<Rightarrow> string" where
  "quoted_rest p Q = butlast (drop (Suc (length p)) Q)"

definition parse_sql :: "string \<Rightarrow> sql" where
  "parse_sql Q =
     (if Q = sql_commit_work then Sql_commit else if Q = sql_rollback_work then Sql_rollback
      else if hd Q = CHR ''S'' then Sql_savepoint (quoted_rest ''SAVEPOINT '' Q)
      else if take 2 Q = ''RE'' then Sql_release (quoted_rest ''RELEASE SAVEPOINT '' Q)
      else if take 2 Q = ''RO'' then Sql_rollback_to (quoted_rest ''ROLLBACK TO SAVEPOINT '' Q)
      else Sql_query Q)"

definition list_effect :: "string \<Rightarrow> string list \<Rightarrow> string list option" where
  "list_effect Q d = (if Q = ''drop'' then None else Some (d @ [Q]))"

definition lower_case :: "string \<Rightarrow> bool" where
  "lower_case Q \<longleftrightarrow> Q \<noteq> [] \<and> list_all (\<lambda>c. c \<in> set ''abcdefghijklmnopqrstuvwxyz'') Q"

definition refusal :: pgresult where
  "refusal = (sample_rows [] 0)\<lparr>PQresultStatus := PGRES_FATAL_ERROR, PQresultErrorMessage := ''no'',
     PG_DIAG_SQLSTATE := Some ''42P01'', PG_DIAG_STATEMENT_POSITION := None\<rparr>"

definition list_env :: "string list server env" where
  "list_env = quiet_env\<lparr>PQexec := \<lambda>_ Q w.
     (Some (if fst (sql_step list_effect (parse_sql Q) w) then (sample_rows [] 0)\<lparr>PQresultStatus := PGRES_COMMAND_OK\<rparr>
            else refusal),
      snd (sql_step list_effect (parse_sql Q) w))\<rparr>"

lemma parse_sql_text:
  assumes "sendable lower_case c"
  shows "parse_sql (sql_text c) = c"
proof (cases c)
  case (Sql_query Q)
  then obtain a Q' where "Q = a # Q'" "a \<in> set ''abcdefghijklmnopqrstuvwxyz''"
    using assms by (cases Q) (auto simp: sendable_def lower_case_def)
  then show ?thesis using Sql_query
    by (auto simp: parse_sql_def sql_text_def sql_commit_work_def sql_rollback_work_def)
qed (simp_all add: parse_sql_def sql_text_def sql_commit_work_def sql_rollback_work_def quoted_rest_def dquoted_def butlast_append)

lemma list_server: "savepoint_server list_env (Some 1) (\<lambda>w. w) list_effect lower_case"
  unfolding savepoint_server_def
  by (auto simp: list_env_def quiet_env_def parse_sql_text error_answer_def refusal_def simp del: sql_step.simps)

definition list_nest :: "string list \<Rightarrow> string list server nest" where
  "list_nest d = (let t = sample_tx \<lparr>in_block = True, failed = False, durable = d, current = d, savepoints = []\<rparr> st_active in
     (conn.truncate t, [conn.more t]))"

definition list_nested :: "string list \<Rightarrow> string list nested" where
  "list_nested d = \<lparr>n_base = d, n_now = d, n_outer = st_active, n_subs = [], n_id = 0\<rparr>"

lemma list_models: "models (Some 1) (\<lambda>w. w) (list_nest d) (list_nested d)"
  by (simp add: models_def list_nest_def list_nested_def outer_like_def Let_def extend_more well_nested_def inner_status_def
      serves_nested_def tidy_def is_guest_def truncate_fields)
    (simp add: sample_tx_def new_tx_def conn.defs open_conn_def connection_base_def same_object_def)

text \<open>
  C5: over a backend with savepoints, any program of queries, commits, aborts and nested
  subtransactions is answered like the nested transactions it stands for, and the backend keeps exactly
  what these would have kept: what a subtransaction did since its first query is undone when it is aborted
  or destroyed, kept by its parent when it commits, and durable when the outermost transaction commits.
\<close>

theorem subtransactions_nest:
  assumes "savepoint_server env h srv eff own" "models h srv s m" "all_allowed own eff xs m"
  shows "fst (nest_run env xs s) = fst (nested_run eff xs m) \<and>
    models h srv (snd (nest_run env xs s)) (snd (nested_run eff xs m)) \<and>
    durable (srv (world (fst (snd (nest_run env xs s))))) = n_base (snd (nested_run eff xs m))"
  using program_carried [OF assms] by (simp_all add: models_def serves_nested_def)

theorem subtransactions_nest_witness:
  "let xs = [Query ''a'', Open_sub ''s'', Query ''b'', Open_sub [], Query ''c'', Commit, Destroy, Query ''drop'', Query ''d'',
             Destroy, Query ''e'', Open_sub ''s'', Query ''f'', Commit, Destroy, Commit];
       r = nest_run list_env xs (list_nest [])
   in fst r = [True, True, True, True, True, True, True, False, False, True, True, True, True, True, True, True] \<and>
      durable (world (fst (snd r))) = [''a'', ''e'', ''f'']"
proof -
  let ?xs = "[Query ''a'', Open_sub ''s'', Query ''b'', Open_sub [], Query ''c'', Commit, Destroy, Query ''drop'', Query ''d'',
             Destroy, Query ''e'', Open_sub ''s'', Query ''f'', Commit, Destroy, Commit]"
  note eval = nested_do_def open_inner_def query_inner_def commit_inner_def close_inner_def undo_inner_def set_inner_def
    begin_inner_def inner_status_def inner_saved_def list_nested_def list_effect_def Let_def
  have a: "all_allowed lower_case list_effect ?xs (list_nested [])"
    by (simp add: allowed_def lower_case_def short_name_def fits_def tmin_def tmax_def int_t_def eval)
  have "nested_run list_effect ?xs (list_nested []) =
     ([True, True, True, True, True, True, True, False, False, True, True, True, True, True, True, True],
      \<lparr>n_base = [''a'', ''e'', ''f''], n_now = [''a'', ''e'', ''f''], n_outer = st_committed, n_subs = [], n_id = 3\<rparr>)"
    by (simp add: eval)
  then show ?thesis
    using subtransactions_nest [OF list_server list_models a] unfolding Let_def by simp
qed

text \<open>
  C20: what is done in a subtransaction that is destroyed without having been committed, by any queries
  whether they fail or not, leaves nothing behind: the transaction around it is active and the backend
  shows it the same content as before.
\<close>

theorem failed_subtransaction_harmless:
  assumes "savepoint_server env h srv eff own" "models h srv s m" "inner_status m = st_active"
    "allowed own (Open_sub nm) m" "list_all own Qs"
    "s' = snd (nest_run env (Open_sub nm # map Query Qs @ [Destroy]) s)"
  shows "current (srv (world (fst s'))) = current (srv (world (fst s))) \<and>
    durable (srv (world (fst s'))) = durable (srv (world (fst s))) \<and>
    m_Status (nest_level 0 s') = st_active \<and> length (snd s') = length (snd s)"
proof -
  let ?xs = "Open_sub nm # map Query Qs @ [Destroy]"
  let ?m1 = "snd (open_inner nm m)"
  let ?m2 = "snd (nested_run eff (map Query Qs) ?m1)"
  have i: "inside m ?m2" by (rule inside_queries) (simp add: inside_def open_inner_def)
  then have "n_subs ?m2 \<noteq> []" by (auto simp: inside_def)
  then have a: "all_allowed own eff ?xs m"
    using assms(4) queries_allowed [OF assms(5), of eff] by (simp add: all_allowed_append nested_do_def allowed_def [of own Destroy])
  have e: "snd (nested_run eff ?xs m) = snd (close_inner ?m2)"
    by (simp add: split_beta nested_run_append nested_do_def)
  have m': "models h srv s' (snd (close_inner ?m2))" using program_carried [OF assms(1,2) a] unfolding e assms(6) by simp
  have f: "n_now (snd (close_inner ?m2)) = n_now m" "n_base (snd (close_inner ?m2)) = n_base m"
    "inner_status (snd (close_inner ?m2)) = st_active" "n_subs (snd (close_inner ?m2)) = n_subs m"
    using inside_closed [OF i] assms(3) by (simp_all add: inner_status_def cong: list.case_cong)
  show ?thesis
    using models_content [OF m' f(3)] models_content [OF assms(2,3)] f(1,2,4)
      inner_level(9) [OF m' refl] inner_level(9) [OF assms(2) refl] by simp
qed

theorem failed_subtransaction_harmless_witness:
  "current (world (fst (snd (nest_run list_env [Open_sub ''droptemp'', Query ''x'', Query ''drop'', Query ''y'', Destroy]
     (list_nest [''a'']))))) = [''a'']"
proof -
  have "allowed lower_case (Open_sub ''droptemp'') (list_nested [''a''])"
    by (simp add: allowed_def short_name_def fits_def tmin_def tmax_def int_t_def inner_status_def list_nested_def)
  moreover have "inner_status (list_nested [''a'']) = st_active" by (simp add: inner_status_def list_nested_def)
  moreover have "list_all lower_case [''x'', ''drop'', ''y'']" by (simp add: lower_case_def)
  moreover have "current (world (fst (list_nest [''a'']))) = [''a'']"
    by (simp add: list_nest_def Let_def truncate_fields)
  ultimately show ?thesis
    using failed_subtransaction_harmless [OF list_server list_models _ _ _ refl] by fastforce
qed

text \<open>
  A subtransaction begins at its first query. One that had none when it opened another has no savepoint
  of its own: the work of the inner one stays when the outer one is aborted.
\<close>

lemma unbegun_parent_keeps_child:
  assumes "savepoint_server env h srv eff own" "models h srv s m" "inner_status m = st_active"
    "short_name a" "short_name b" "fits int_t (n_id m + 1)" "fits int_t (n_id m + 2)" "own Q" "eff Q (n_now m) = Some x"
    "s' = snd (nest_run env [Open_sub a, Open_sub b, Query Q, Commit, Destroy, Abort, Destroy] s)"
  shows "current (srv (world (fst s'))) = x" "m_Status (nest_level 0 s') = st_active"
proof -
  let ?xs = "[Open_sub a, Open_sub b, Query Q, Commit, Destroy, Abort, Destroy]"
  note eval = nested_do_def open_inner_def query_inner_def commit_inner_def close_inner_def undo_inner_def set_inner_def
    begin_inner_def inner_status_def inner_saved_def abort_inner_def Let_def
  have i: "(case n_subs m of [] \<Rightarrow> n_outer m | l # _ \<Rightarrow> sub_status l) = st_active"
    using assms(3) by (simp add: inner_status_def)
  have l: "all_allowed own eff ?xs m" using assms(4-9) i by (simp add: allowed_def eval add.commute)
  have e: "n_now (snd (nested_run eff ?xs m)) = x" "inner_status (snd (nested_run eff ?xs m)) = st_active"
    using assms(9) i by (simp_all add: eval cong: list.case_cong)
  have "models h srv s' (snd (nested_run eff ?xs m))" using program_carried [OF assms(1,2) l] assms(10) by simp
  from models_content [OF this e(2)] e(1) show "current (srv (world (fst s'))) = x" "m_Status (nest_level 0 s') = st_active"
    by simp_all
qed

end
