(* ===== verification/Focus.thy ===== *)
theory Focus
  imports Transaction_Facts
begin

text \<open>
  \<^verbatim>\<open>internal::transactionfocus\<close>: the base class of table streams and pipelines. The object holds
  a reference to its transaction, so its state extends the transaction's; while it is registered it
  is the one focus of that transaction, and plain queries on the transaction are refused.
\<close>

record 'w focus = "'w tx" +
  this_focus :: namedclass
  f_registered :: bool

type_synonym ('w, 'z, 'a) fprog = "(('w, 'z) focus_scheme, 'a) cxx"

definition register_me :: "('w, 'z, unit) fprog" where
  "register_me = seq (bnd (gets this_focus) RegisterFocus) (modify (\<lambda>s. s\<lparr>f_registered := True\<rparr>))"

definition unregister_me :: "'w env \<Rightarrow> ('w, 'z, unit) fprog" where
  "unregister_me env =
     seq (bnd (gets this_focus) (UnregisterFocus env)) (modify (\<lambda>s. s\<lparr>f_registered := False\<rparr>))"

definition reg_pending_error :: "string \<Rightarrow> ('w, 'z, unit) fprog" where
  "reg_pending_error err = RegisterPendingError err"

text \<open>The object's own idea of being registered is the transaction's idea of its focus.\<close>

definition focus_wf :: "('w, 'z) focus_scheme \<Rightarrow> bool" where
  "focus_wf s \<longleftrightarrow> m_Focus s = (if f_registered s then Some (this_focus s) else None)"

lemma register_me_free:
  "focus_wf s \<Longrightarrow> \<not> f_registered s \<Longrightarrow>
     register_me s = (Inr (), s\<lparr>m_Focus := Some (this_focus s), f_registered := True\<rparr>)"
  by (simp add: focus_wf_def register_me_def seq_def bnd_def gets_def modify_def RegisterFocus_def
      unique_Register_def CheckUniqueRegistration_def lift_exn_def ret_def)

lemma unregister_me_held:
  "focus_wf s \<Longrightarrow> f_registered s \<Longrightarrow>
     unregister_me env s = (Inr (), s\<lparr>m_Focus := None, f_registered := False\<rparr>)"
  by (simp add: focus_wf_def unregister_me_def seq_def bnd_def gets_def modify_def UnregisterFocus_def
      unique_Unregister_def CheckUniqueUnregistration_def lift_exn_def ret_def catch_class_def catch_def
      same_object_def)

end
