(* ===== verification/Pipeline.thy ===== *)
theory Pipeline
  imports Focus
begin

text \<open>
  \<^verbatim>\<open>pipeline\<close> (\<^verbatim>\<open>src/pipeline.cxx\<close>): queries that are sent to the backend in batches, their results
  received in order. The queries are a map from their numbers in increasing order; an iterator
  of that map is the number it stands at, or nothing for the end. Following an iterator whose
  query is gone, and stepping past the end, have no meaning.
\<close>

section \<open>State\<close>

record query =
  q_text :: string
  q_res :: result

type_synonym qmap = "(int \<times> query) list"
type_synonym iter = "int option"

record 'w pipe = "'w focus" +
  m_queries :: qmap
  first_issued :: iter
  end_issued :: iter
  m_retain :: int
  m_num_waiting :: int
  m_q_id :: int
  m_dummy_pending :: bool
  m_error :: int

type_synonym ('w, 'z, 'a) pprog = "(('w, 'z) pipe_scheme, 'a) cxx"
type_synonym ('w, 'z) phooks = "('w, ('z pipe_ext) focus_ext) hooks"

definition theSeparator :: string where "theSeparator = ''; ''"
definition theDummyValue :: string where "theDummyValue = ''1''"
definition theDummyQuery :: string where
  "theDummyQuery = ''SELECT '' @ theDummyValue @ theSeparator"

definition qid_limit :: int where "qid_limit = tmax long_t"

subsection \<open>Iterators\<close>

fun begin_key :: "qmap \<Rightarrow> iter" where
  "begin_key [] = None"
| "begin_key ((k, _) # _) = Some k"

definition from_key :: "int \<Rightarrow> qmap \<Rightarrow> qmap" where
  "from_key k m = dropWhile (\<lambda>p. fst p \<noteq> k) m"

definition iter_get :: "iter \<Rightarrow> qmap \<Rightarrow> exn + int \<times> query" where
  "iter_get it m =
     (case it of None \<Rightarrow> Inl undefined_behaviour
      | Some k \<Rightarrow> (case from_key k m of [] \<Rightarrow> Inl undefined_behaviour | p # _ \<Rightarrow> Inr p))"

definition iter_next :: "iter \<Rightarrow> qmap \<Rightarrow> exn + iter" where
  "iter_next it m =
     (case it of None \<Rightarrow> Inl undefined_behaviour
      | Some k \<Rightarrow> (case from_key k m of [] \<Rightarrow> Inl undefined_behaviour | _ # r \<Rightarrow> Inr (begin_key r)))"

definition iter_from :: "iter \<Rightarrow> qmap \<Rightarrow> exn + qmap" where
  "iter_from it m =
     (case it of None \<Rightarrow> Inr []
      | Some k \<Rightarrow> (case from_key k m of [] \<Rightarrow> Inl undefined_behaviour | r \<Rightarrow> Inr r))"

text \<open>The elements from one iterator up to another; \<^verbatim>\<open>distance\<close> is their number.\<close>

definition iter_range :: "iter \<Rightarrow> iter \<Rightarrow> qmap \<Rightarrow> exn + qmap" where
  "iter_range a b m =
     (case iter_from a m of Inl e \<Rightarrow> Inl e
      | Inr r \<Rightarrow> (case b of None \<Rightarrow> Inr r
          | Some k \<Rightarrow> if k \<in> set (map fst r) then Inr (takeWhile (\<lambda>p. fst p \<noteq> k) r)
                      else Inl undefined_behaviour))"

definition update_results :: "result \<Rightarrow> int set \<Rightarrow> qmap \<Rightarrow> qmap" where
  "update_results r ks m = map (\<lambda>(k, q). if k \<in> ks then (k, q\<lparr>q_res := r\<rparr>) else (k, q)) m"

definition deref :: "(('w, 'z) pipe_scheme \<Rightarrow> iter) \<Rightarrow> ('w, 'z, int \<times> query) pprog" where
  "deref f = bnd (gets (\<lambda>s. iter_get (f s) (m_queries s))) lift_exn"

definition advance_first :: "('w, 'z, unit) pprog" where
  "advance_first =
     bnd (bnd (gets (\<lambda>s. iter_next (first_issued s) (m_queries s))) lift_exn) (\<lambda>i.
       modify (\<lambda>s. s\<lparr>first_issued := i\<rparr>))"

definition set_result_at :: "int \<Rightarrow> result \<Rightarrow> ('w, 'z, unit) pprog" where
  "set_result_at k r = modify (\<lambda>s. s\<lparr>m_queries := update_results r {k} (m_queries s)\<rparr>)"

section \<open>Small operations\<close>

definition have_pending :: "('w, 'z) pipe_scheme \<Rightarrow> bool" where
  "have_pending s \<longleftrightarrow> end_issued s \<noteq> first_issued s"

definition attach :: "('w, 'z, unit) pprog" where
  "attach = cond (\<lambda>s. \<not> f_registered s) register_me skip"

definition detach :: "'w env \<Rightarrow> ('w, 'z, unit) pprog" where
  "detach env = cond f_registered (unregister_me env) skip"

definition set_error_at :: "int \<Rightarrow> ('w, 'z, unit) pprog" where
  "set_error_at qid = modify (\<lambda>s. if qid < m_error s then s\<lparr>m_error := qid\<rparr> else s)"

definition pipe_internal_error :: "string \<Rightarrow> ('w, 'z, 'a) pprog" where
  "pipe_internal_error err = seq (set_error_at 0) (throw (internal_error err))"

definition generate_id :: "('w, 'z, int) pprog" where
  "generate_id =
     cond (\<lambda>s. m_q_id s = qid_limit)
       (throw (plain Std_overflow_error ''Too many queries went through pipeline''))
       (seq (modify (\<lambda>s. s\<lparr>m_q_id := m_q_id s + 1\<rparr>)) (gets m_q_id))"

definition pipeline_new :: "('w, 'z, unit) pprog" where
  "pipeline_new =
     seq (modify (\<lambda>s. s\<lparr>f_registered := False, m_queries := [], first_issued := None, end_issued := None,
            m_retain := 0, m_num_waiting := 0, m_q_id := 0, m_dummy_pending := False,
            m_error := qid_limit\<rparr>))
         attach"

section \<open>Receiving\<close>

definition pipe_result :: "'w env \<Rightarrow> pgresult \<Rightarrow> string \<Rightarrow> ('w, 'z, result) pprog" where
  "pipe_result env r query =
     bnd (encoding_code (activate env) env) (\<lambda>enc. ret (make_result_object (Some r) 0 query enc))"

text \<open>The result object carries the text of the oldest query in the map, not of its own.\<close>

definition obtain_result :: "'w env \<Rightarrow> bool \<Rightarrow> ('w, 'z, bool) pprog" where
  "obtain_result env expect_none =
     bnd (get_result env) (\<lambda>r. case r of
       None \<Rightarrow>
         seq (cond (\<lambda>s. have_pending s \<and> \<not> expect_none)
                (bnd (deref first_issued) (\<lambda>(k, _).
                   seq (set_error_at k) (modify (\<lambda>s. s\<lparr>end_issued := first_issued s\<rparr>)))) skip)
             (ret False)
     | Some d \<Rightarrow>
         bnd (deref (\<lambda>s. begin_key (m_queries s))) (\<lambda>(k0, q0).
         bnd (pipe_result env d (q_text q0)) (\<lambda>res.
         seq (cond (\<lambda>s. \<not> have_pending s)
                (seq (set_error_at k0)
                     (throw (plain Std_logic_error
                        ''Got more results from pipeline than there were queries''))) skip)
         (bnd (deref first_issued) (\<lambda>(k, q).
            seq (if \<not> result_is_empty (q_res q) then pipe_internal_error ''multiple results for one query''
                 else skip)
            (seq (set_result_at k res) (seq advance_first (ret True))))))))"

text \<open>
  The failed batch again, one query at a time; \<open>todo\<close> are the queries from the first one on.
  The exception handler is \<open>replay_failed\<close>.
\<close>

fun replay :: "'w env \<Rightarrow> ('w, 'z) phooks \<Rightarrow> iter \<Rightarrow> qmap \<Rightarrow> ('w, 'z, unit) pprog" where
  "replay env h stop [] =
     seq (modify (\<lambda>s. s\<lparr>m_num_waiting := m_num_waiting s - 1\<rparr>)) (throw undefined_behaviour)"
| "replay env h stop ((k, q) # todo) =
     seq (modify (\<lambda>s. s\<lparr>m_num_waiting := m_num_waiting s - 1\<rparr>))
     (bnd (exec env h (q_text q) []) (\<lambda>res.
      seq (set_result_at k res)
     (seq (lift_exn (CheckStatus res))
     (seq advance_first
          (cond (\<lambda>s. first_issued s \<noteq> stop) (replay env h stop todo) skip)))))"

definition replay_failed :: "exn \<Rightarrow> ('w, 'z, unit) pprog" where
  "replay_failed e =
     bnd (deref first_issued) (\<lambda>(thud, _).
     seq advance_first
     (seq (modify (\<lambda>s. s\<lparr>end_issued := first_issued s\<rparr>))
     (bnd (gets first_issued) (\<lambda>q. case q of
        None \<Rightarrow> bnd (lift_exn (arith long_t (thud + 1))) set_error_at
      | Some _ \<Rightarrow> bnd (deref first_issued) (\<lambda>(k, _). set_error_at k)))))"

definition replay_batch :: "'w env \<Rightarrow> ('w, 'z) phooks \<Rightarrow> result \<Rightarrow> ('w, 'z, unit) pprog" where
  "replay_batch env h R =
     bnd (bnd (gets (\<lambda>s. iter_range (first_issued s) (end_issued s) (m_queries s))) lift_exn) (\<lambda>batch.
     seq (modify (\<lambda>s. s\<lparr>m_queries := update_results R (fst ` set batch) (m_queries s)\<rparr>))
     (bnd (gets end_issued) (\<lambda>stop.
     seq (bnd (obtain_result env True) (\<lambda>_. skip))
     (bnd (bnd (gets (\<lambda>s. iter_range (first_issued s) stop (m_queries s))) lift_exn) (\<lambda>rest.
     seq (modify (\<lambda>s. s\<lparr>m_num_waiting := m_num_waiting s + int (length rest), end_issued := first_issued s\<rparr>))
     (seq (unregister_me env)
     (catch_std
        (bnd (bnd (gets (\<lambda>s. iter_from (first_issued s) (m_queries s))) lift_exn) (replay env h stop))
        replay_failed)))))))"

definition obtain_dummy :: "'w env \<Rightarrow> ('w, 'z) phooks \<Rightarrow> ('w, 'z, unit) pprog" where
  "obtain_dummy env h =
     bnd (get_result env) (\<lambda>r.
     seq (modify (\<lambda>s. s\<lparr>m_dummy_pending := False\<rparr>))
     (case r of
        None \<Rightarrow> pipe_internal_error ''pipeline got no result from backend when it expected one''
      | Some d \<Rightarrow>
          bnd (pipe_result env d ''[DUMMY PIPELINE QUERY]'') (\<lambda>R.
          bnd (catch_class Sql_error (seq (lift_exn (CheckStatus R)) (ret True)) (\<lambda>_. ret False)) (\<lambda>ok.
            if ok then
              if result_size R > 1 then pipe_internal_error ''unexpected result for dummy query in pipeline''
              else bnd (lift_exn (result_at R 0)) (\<lambda>row.
                   bnd (lift_exn (row_at row 0)) (\<lambda>f.
                     if c_str (field_c_str f) \<noteq> theDummyValue then
                       pipe_internal_error ''dummy query in pipeline returned unexpected value''
                     else skip))
            else replay_batch env h R))))"

text \<open>
  The loops that receive results. Every result moves the first issued query on, so a step for
  each query in the map and one more is enough.
\<close>

fun further_loop :: "'w env \<Rightarrow> nat \<Rightarrow> ('w, 'z, unit) pprog" where
  "further_loop env 0 = throw diverged"
| "further_loop env (Suc n) =
     cond (is_busy env) skip
       (bnd (obtain_result env False) (\<lambda>ok.
          if ok then bnd (consume_input env) (\<lambda>c.
            if c then further_loop env n else throw broken_connection_default)
          else skip))"

fun receive_loop :: "'w env \<Rightarrow> iter \<Rightarrow> nat \<Rightarrow> ('w, 'z, unit) pprog" where
  "receive_loop env stop 0 = throw diverged"
| "receive_loop env stop (Suc n) =
     bnd (obtain_result env False) (\<lambda>ok.
       if ok then cond (\<lambda>s. first_issued s \<noteq> stop) (receive_loop env stop n) skip else skip)"

definition get_further_available_results :: "'w env \<Rightarrow> ('w, 'z, unit) pprog" where
  "get_further_available_results env =
     bnd (gets (\<lambda>s. Suc (length (m_queries s)))) (further_loop env)"

definition receive_if_available :: "'w env \<Rightarrow> ('w, 'z) phooks \<Rightarrow> ('w, 'z, unit) pprog" where
  "receive_if_available env h =
     bnd (consume_input env) (\<lambda>c.
       if \<not> c then throw broken_connection_default
       else cond (is_busy env) skip
         (seq (cond m_dummy_pending (obtain_dummy env h) skip)
              (cond have_pending (get_further_available_results env) skip)))"

definition receive :: "'w env \<Rightarrow> ('w, 'z) phooks \<Rightarrow> iter \<Rightarrow> ('w, 'z, unit) pprog" where
  "receive env h stop =
     seq (cond m_dummy_pending (obtain_dummy env h) skip)
     (seq (bnd (gets (\<lambda>s. Suc (length (m_queries s)))) (receive_loop env stop))
          (cond (\<lambda>s. first_issued s = stop) (get_further_available_results env) skip))"

section \<open>Issuing\<close>

definition batch_query :: "string list \<Rightarrow> string" where
  "batch_query qs =
     (if length qs > 1 then theDummyQuery else []) @ separated_list theSeparator qs"

definition issue :: "'w env \<Rightarrow> ('w, 'z, unit) pprog" where
  "issue env =
     seq (bnd (obtain_result env False) (\<lambda>_. skip))
     (cond (\<lambda>s. m_error s < qid_limit) skip
       (bnd (gets end_issued) (\<lambda>oldest.
        bnd (bnd (gets (\<lambda>s. iter_from oldest (m_queries s))) lift_exn) (\<lambda>batch.
        seq (start_exec env (batch_query (map (q_text \<circ> snd) batch)))
            (modify (\<lambda>s. s\<lparr>m_dummy_pending := length batch > 1, first_issued := oldest,
               end_issued := None, m_num_waiting := m_num_waiting s - int (length batch)\<rparr>))))))"

section \<open>The interface\<close>

definition pipe_insert :: "'w env \<Rightarrow> ('w, 'z) phooks \<Rightarrow> string \<Rightarrow> ('w, 'z, int) pprog" where
  "pipe_insert env h q =
     seq attach
     (bnd generate_id (\<lambda>qid.
      seq (modify (\<lambda>s. s\<lparr>m_queries := omap_put (<) qid \<lparr>q_text = q, q_res = empty_result\<rparr> (m_queries s)\<rparr>))
     (seq (cond (\<lambda>s. end_issued s = None)
             (modify (\<lambda>s. s\<lparr>end_issued := Some qid,
                first_issued := (if first_issued s = None then Some qid else first_issued s)\<rparr>)) skip)
     (seq (modify (\<lambda>s. s\<lparr>m_num_waiting := m_num_waiting s + 1\<rparr>))
     (seq (cond (\<lambda>s. m_num_waiting s > m_retain s)
             (seq (cond have_pending (receive_if_available env h) skip)
                  (cond (\<lambda>s. \<not> have_pending s) (issue env) skip))
             skip)
          (ret qid))))))"

definition complete :: "'w env \<Rightarrow> ('w, 'z) phooks \<Rightarrow> ('w, 'z, unit) pprog" where
  "complete env h =
     seq (cond have_pending (bnd (gets end_issued) (receive env h)) skip)
     (seq (cond (\<lambda>s. m_num_waiting s \<noteq> 0 \<and> m_error s = qid_limit)
             (seq (issue env) (receive env h None)) skip)
          (detach env))"

definition flush :: "'w env \<Rightarrow> ('w, 'z) phooks \<Rightarrow> ('w, 'z, unit) pprog" where
  "flush env h =
     seq (cond (\<lambda>s. m_queries s \<noteq> [])
            (seq (cond have_pending (bnd (gets end_issued) (receive env h)) skip)
                 (modify (\<lambda>s. s\<lparr>first_issued := None, end_issued := None, m_num_waiting := 0,
                    m_dummy_pending := False, m_queries := []\<rparr>)))
            skip)
         (detach env)"

text \<open>\<open>cancel\<close> drops the issued queries one by one; \<open>todo\<close> is what the map holds from the first one on.\<close>

fun cancel_loop :: "'w env \<Rightarrow> qmap \<Rightarrow> ('w, 'z, unit) pprog" where
  "cancel_loop env todo =
     cond have_pending
       (seq (cancel_query env)
         (case todo of
            [] \<Rightarrow> throw undefined_behaviour
          | (k, _) # todo' \<Rightarrow>
              seq advance_first
              (seq (modify (\<lambda>s. s\<lparr>m_queries := omap_erase k (m_queries s)\<rparr>))
                   (cancel_loop env todo'))))
       skip"

declare cancel_loop.simps [simp del]

definition cancel :: "'w env \<Rightarrow> ('w, 'z, unit) pprog" where
  "cancel env =
     cond have_pending
       (bnd (bnd (gets (\<lambda>s. iter_from (first_issued s) (m_queries s))) lift_exn) (cancel_loop env)) skip"

definition is_finished :: "int \<Rightarrow> ('w, 'z, bool) pprog" where
  "is_finished q =
     cond (\<lambda>s. omap_get q (m_queries s) = None)
       (throw (plain Std_logic_error (''Requested status for unknown query '' @ to_string_long q)))
       (cond (\<lambda>s. first_issued s = None) (ret True)
          (bnd (deref first_issued) (\<lambda>(k, _). gets (\<lambda>s. q < k \<and> q < m_error s))))"

definition error_in_earlier_query :: exn where
  "error_in_earlier_query =
     plain Std_runtime_error (''Could not complete query in pipeline '' @ ''due to error in earlier query'')"

definition issue_up_to :: "'w env \<Rightarrow> ('w, 'z) phooks \<Rightarrow> int \<Rightarrow> ('w, 'z, unit) pprog" where
  "issue_up_to env h k =
     bnd (gets end_issued) (\<lambda>e.
       if e = None then skip
       else bnd (deref end_issued) (\<lambda>(k2, _).
         if k \<ge> k2 then
           seq (cond have_pending (bnd (gets end_issued) (receive env h)) skip)
               (cond (\<lambda>s. m_error s = qid_limit) (issue env) skip)
         else skip))"

definition receive_up_to :: "'w env \<Rightarrow> ('w, 'z) phooks \<Rightarrow> int \<Rightarrow> ('w, 'z, unit) pprog" where
  "receive_up_to env h k =
     cond have_pending
       (bnd (deref first_issued) (\<lambda>(k1, _).
          if k \<ge> k1 then
            bnd (bnd (gets (\<lambda>s. iter_next (Some k) (m_queries s))) lift_exn) (receive env h)
          else receive_if_available env h))
       skip"

definition retrieve_at :: "'w env \<Rightarrow> ('w, 'z) phooks \<Rightarrow> iter \<Rightarrow> ('w, 'z, int \<times> result) pprog" where
  "retrieve_at env h q =
     (case q of
        None \<Rightarrow> throw (plain Std_logic_error ''Attempt to retrieve result for unknown query'')
      | Some k \<Rightarrow>
          seq (cond (\<lambda>s. k \<ge> m_error s) (throw error_in_earlier_query) skip)
         (seq (issue_up_to env h k)
         (seq (receive_up_to env h k)
         (seq (cond (\<lambda>s. k \<ge> m_error s) (throw error_in_earlier_query) skip)
         (seq (cond (\<lambda>s. m_num_waiting s \<noteq> 0 \<and> \<not> have_pending s \<and> m_error s = qid_limit) (issue env) skip)
         (bnd (deref (\<lambda>s. Some k)) (\<lambda>(_, qr).
          seq (modify (\<lambda>s. s\<lparr>m_queries := omap_erase k (m_queries s)\<rparr>))
         (seq (lift_exn (CheckStatus (q_res qr))) (ret (k, q_res qr))))))))))"

definition retrieve :: "'w env \<Rightarrow> ('w, 'z) phooks \<Rightarrow> int \<Rightarrow> ('w, 'z, result) pprog" where
  "retrieve env h qid =
     bnd (gets (\<lambda>s. if omap_get qid (m_queries s) = None then None else Some qid)) (\<lambda>it.
     bnd (retrieve_at env h it) (\<lambda>p. ret (snd p)))"

definition retrieve_oldest :: "'w env \<Rightarrow> ('w, 'z) phooks \<Rightarrow> ('w, 'z, int \<times> result) pprog" where
  "retrieve_oldest env h =
     cond (\<lambda>s. m_queries s = [])
       (throw (plain Std_logic_error ''Attempt to retrieve result from empty pipeline''))
       (bnd (gets (\<lambda>s. begin_key (m_queries s))) (retrieve_at env h))"

definition resume :: "'w env \<Rightarrow> ('w, 'z) phooks \<Rightarrow> ('w, 'z, unit) pprog" where
  "resume env h =
     seq (cond have_pending (receive_if_available env h) skip)
         (cond (\<lambda>s. \<not> have_pending s \<and> m_num_waiting s \<noteq> 0)
            (seq (issue env) (receive_if_available env h)) skip)"

definition retain :: "'w env \<Rightarrow> ('w, 'z) phooks \<Rightarrow> int \<Rightarrow> ('w, 'z, int) pprog" where
  "retain env h retain_max =
     (if retain_max < 0 then
        throw (range_error (''Attempt to make pipeline retain '' @ to_string_int retain_max @ '' queries''))
      else bnd (gets m_retain) (\<lambda>oldvalue.
        seq (modify (\<lambda>s. s\<lparr>m_retain := retain_max\<rparr>))
        (seq (cond (\<lambda>s. m_num_waiting s \<ge> m_retain s) (resume env h) skip)
             (ret oldvalue))))"

definition pipeline_delete :: "'w env \<Rightarrow> ('w, 'z, unit) pprog" where
  "pipeline_delete env = seq (catch_std (cancel env) (\<lambda>_. skip)) (detach env)"

end
