(* ===== verification/Pipeline_Facts.thy ===== *)
theory Pipeline_Facts
  imports Pipeline
begin

text \<open>
  What a pipeline promises: whatever is inserted, whenever results become available, in whatever
  batches the queries go out and in whatever order results are asked for, each query gets the
  answer to its own text, and a query is refused only when an earlier one failed. The backend is what
  libpq documents of \<^verbatim>\<open>PQsendQuery\<close> and \<^verbatim>\<open>PQgetResult\<close> (\<open>pipe_server\<close>).
\<close>

section \<open>The backend\<close>

text \<open>
  The queue holds the answers not yet fetched; nothing marks the end of a batch. A batch stops at the first
  query that fails. The texts \<open>b_single\<close> accepts are those that hold exactly one statement, as the class's
  documentation demands of its callers.
\<close>

record 'w backend =
  b_env :: "'w env"
  b_handle :: handle
  b_queue :: "'w \<Rightarrow> pgresult option list"
  b_answer :: "string \<Rightarrow> pgresult"
  b_dummy :: pgresult
  b_single :: "string \<Rightarrow> bool"

definition fine :: "pgresult \<Rightarrow> bool" where
  "fine d \<longleftrightarrow> PQresultStatus d \<in> {PGRES_EMPTY_QUERY, PGRES_COMMAND_OK, PGRES_TUPLES_OK}"

fun replies :: "(string \<Rightarrow> pgresult) \<Rightarrow> string list \<Rightarrow> pgresult list" where
  "replies ans [] = []"
| "replies ans (q # qs) = ans q # (if fine (ans q) then replies ans qs else [])"

definition dummy_answer :: "pgresult \<Rightarrow> bool" where
  "dummy_answer d \<longleftrightarrow> PQresultStatus d = PGRES_TUPLES_OK \<and> PQntuples d = 1 \<and> PQnfields d = 1 \<and>
     PQgetvalue d 0 0 = theDummyValue"

definition answers_in_order :: "'w backend \<Rightarrow> bool" where
  "answers_in_order B \<longleftrightarrow>
     (\<forall>w. fst (PQgetResult (b_env B) (b_handle B) w) = (case b_queue B w of [] \<Rightarrow> None | r # _ \<Rightarrow> r) \<and>
        b_queue B (snd (PQgetResult (b_env B) (b_handle B) w)) = tl (b_queue B w)) \<and>
     (\<forall>w qs. qs \<noteq> [] \<longrightarrow> (\<forall>q \<in> set qs. b_single B q) \<longrightarrow> b_queue B w = [] \<longrightarrow>
        fst (PQsendQuery (b_env B) (b_handle B) (batch_query qs) w) \<and>
        b_queue B (snd (PQsendQuery (b_env B) (b_handle B) (batch_query qs) w)) =
          (if length qs > 1 then [Some (b_dummy B)] else []) @ map Some (replies (b_answer B) qs) @ [None])"

definition pipe_server :: "'w backend \<Rightarrow> bool" where
  "pipe_server B \<longleftrightarrow>
     0 < rounds (b_env B) \<and> dummy_answer (b_dummy B) \<and> answers_in_order B \<and>
     (\<forall>w. PQstatus (b_env B) (b_handle B) w = CONNECTION_OK) \<and>
     (\<forall>w. fst (PQconsumeInput (b_env B) (b_handle B) w) \<and>
        b_queue B (snd (PQconsumeInput (b_env B) (b_handle B) w)) = b_queue B w)"

section \<open>The invariant\<close>

text \<open>
  The queries are in three parts: \<open>D\<close> with their results, \<open>I\<close> issued and \<open>W\<close> waiting; \<open>txt\<close> is the text
  under each number, those of retrieved queries included.
\<close>

definition pipe_parts ::
  "'w backend \<Rightarrow> (int \<Rightarrow> string) \<Rightarrow> qmap \<Rightarrow> qmap \<Rightarrow> qmap \<Rightarrow> ('w, 'z) pipe_scheme \<Rightarrow> bool" where
  "pipe_parts B txt D I W s \<longleftrightarrow>
     is_open (b_env B) s \<and> m_Conn s = b_handle B \<and> focus_wf s \<and>
     m_queries s = D @ I @ W \<and> first_issued s = begin_key (I @ W) \<and> end_issued s = begin_key W \<and>
     sorted_wrt (<) (map fst (D @ I @ W)) \<and> 0 \<le> m_q_id s \<and> m_q_id s < qid_limit \<and>
     (\<forall>(k, q) \<in> set (D @ I @ W). 0 < k \<and> k \<le> m_q_id s \<and> q_text q = txt k \<and> b_single B (txt k)) \<and>
     (\<forall>(k, q) \<in> set D. m_data (q_res q) = Some (b_answer B (txt k))) \<and>
     (\<forall>(k, q) \<in> set (I @ W). q_res q = empty_result)"

definition earlier_failure :: "'w backend \<Rightarrow> (int \<Rightarrow> string) \<Rightarrow> int \<Rightarrow> bool" where
  "earlier_failure B txt k \<longleftrightarrow> (\<exists>j. 0 < j \<and> j < k \<and> \<not> fine (b_answer B (txt j)))"

definition idle_queue :: "'w backend \<Rightarrow> ('w, 'z) pipe_scheme \<Rightarrow> bool" where
  "idle_queue B s \<longleftrightarrow> \<not> m_dummy_pending s \<and> b_queue B (world s) \<in> {[], [None]}"

text \<open>Issued queries are about to be answered, or (\<open>br\<close>) a query of their batch failed.\<close>

definition pipe_normal ::
  "'w backend \<Rightarrow> (int \<Rightarrow> string) \<Rightarrow> bool \<Rightarrow> qmap \<Rightarrow> qmap \<Rightarrow> ('w, 'z) pipe_scheme \<Rightarrow> bool" where
  "pipe_normal B txt br I W s \<longleftrightarrow>
     m_error s = qid_limit \<and> m_num_waiting s = int (length W) \<and>
     (if I = [] then idle_queue B s
      else b_queue B (world s) = (if m_dummy_pending s then [Some (b_dummy B)] else []) @
             map Some (if br then [] else replies (b_answer B) (map (q_text \<circ> snd) I)) @ [None] \<and>
           (br \<longrightarrow> \<not> m_dummy_pending s \<and> (\<forall>(k, q) \<in> set I. earlier_failure B txt k)))"

definition pipe_failed ::
  "'w backend \<Rightarrow> (int \<Rightarrow> string) \<Rightarrow> qmap \<Rightarrow> qmap \<Rightarrow> qmap \<Rightarrow> ('w, 'z) pipe_scheme \<Rightarrow> bool" where
  "pipe_failed B txt D I W s \<longleftrightarrow>
     I = [] \<and> idle_queue B s \<and> 0 < m_error s \<and> m_error s \<le> m_q_id s \<and>
     (\<forall>(k, q) \<in> set D. k < m_error s) \<and> (\<forall>(k, q) \<in> set W. m_error s \<le> k) \<and>
     earlier_failure B txt (m_error s)"

definition pipe_inv :: "'w backend \<Rightarrow> (int \<Rightarrow> string) \<Rightarrow> ('w, 'z) pipe_scheme \<Rightarrow> bool" where
  "pipe_inv B txt s \<longleftrightarrow> (\<exists>D I W br. pipe_parts B txt D I W s \<and>
     (pipe_normal B txt br I W s \<or> pipe_failed B txt D I W s))"

section \<open>Iterators of a sorted map\<close>

lemma sorted_distinct_keys: "sorted_wrt (<) (map fst m) \<Longrightarrow> distinct (map fst (m :: qmap))"
  by (simp add: strict_sorted_iff)

lemma from_key_at:
  "distinct (map fst (D @ (k, q) # R)) \<Longrightarrow> from_key k (D @ (k, q) # R) = (k, q) # R"
  unfolding from_key_def by (induction D) auto

lemma iter_from_at: "distinct (map fst (D @ R)) \<Longrightarrow> iter_from (begin_key R) (D @ R) = Inr R"
proof (cases R)
  case (Cons p R')
  moreover obtain k q where "p = (k, q)" by (cases p)
  ultimately show "distinct (map fst (D @ R)) \<Longrightarrow> ?thesis"
    using from_key_at [of D k q R'] by (simp add: iter_from_def)
qed (simp add: iter_from_def)

lemma iter_at:
  assumes "distinct (map fst (D @ (k, q) # R))"
  shows "iter_get (Some k) (D @ (k, q) # R) = Inr (k, q)"
    "iter_next (Some k) (D @ (k, q) # R) = Inr (begin_key R)"
  using from_key_at [OF assms] by (simp_all add: iter_get_def iter_next_def)

lemma begin_key_neq:
  assumes "sorted_wrt (<) (map fst (D @ I @ W))"
  shows "begin_key (I @ W) = begin_key W \<longleftrightarrow> I = []"
proof (cases I)
  case (Cons p I')
  with assms show ?thesis
    by (cases p; cases W) (auto simp: sorted_wrt_append)
qed simp

lemma update_results_one:
  assumes "distinct (map fst (D @ (k, q) # R))"
  shows "update_results r {k} (D @ (k, q) # R) = D @ (k, q\<lparr>q_res := r\<rparr>) # R"
proof -
  have "map (\<lambda>(j, q). if j \<in> {k} then (j, q\<lparr>q_res := r\<rparr>) else (j, q)) xs = xs"
    if "k \<notin> fst ` set xs" for xs :: qmap
    using that by (induction xs) auto
  then show ?thesis using assms unfolding update_results_def by simp
qed

section \<open>One result\<close>

lemma server_get_result:
  assumes "pipe_server B" "m_Conn s = b_handle B" "is_open (b_env B) s"
  obtains w where "get_result (b_env B) s = (Inr (case b_queue B (world s) of [] \<Rightarrow> None | r # _ \<Rightarrow> r), s\<lparr>world := w\<rparr>)"
    "b_queue B w = tl (b_queue B (world s))"
proof -
  let ?r = "PQgetResult (b_env B) (b_handle B) (world s)"
  have "fst ?r = (case b_queue B (world s) of [] \<Rightarrow> None | r # _ \<Rightarrow> r)" "b_queue B (snd ?r) = tl (b_queue B (world s))"
    using assms(1) unfolding pipe_server_def answers_in_order_def by blast+
  moreover have "m_Conn s \<noteq> None" using assms(3) by (simp add: is_open_def)
  ultimately show ?thesis
    using assms(2) by (intro that [of "snd ?r"])
      (auto simp: get_result_def cond_def bnd_def gets_def wcall_def call_def)
qed

lemma server_open:
  "pipe_server B \<Longrightarrow> is_open (b_env B) s \<Longrightarrow> m_Conn s = b_handle B \<Longrightarrow> is_open (b_env B) (s\<lparr>world := w\<rparr>)"
  unfolding pipe_server_def by (simp add: is_open_def Status_def)

lemma pipe_result_open:
  assumes "pipe_server B" "is_open (b_env B) s"
  shows "pipe_result (b_env B) r t s =
    (Inr (make_result_object (Some r) 0 t (PQclientEncoding (b_env B) (m_Conn s) (world s))), s)"
proof -
  have "0 < rounds (b_env B)" using assms(1) unfolding pipe_server_def by blast
  then show ?thesis
    using activate_open [OF assms(2)]
    by (simp add: pipe_result_def encoding_code_def bnd_def gets_def ret_def)
qed

lemma pipe_parts_world:
  "pipe_server B \<Longrightarrow> pipe_parts B txt D I W s \<Longrightarrow> pipe_parts B txt D I W (s\<lparr>world := w\<rparr>)"
  unfolding pipe_parts_def using server_open by (auto simp: focus_wf_def)

lemma obtain_result_idle:
  assumes "pipe_server B" "pipe_parts B txt D [] W s" "idle_queue B s"
  shows "\<exists>w. obtain_result (b_env B) x s = (Inr False, s\<lparr>world := w\<rparr>) \<and> b_queue B w = []"
proof -
  have s: "m_Conn s = b_handle B" "is_open (b_env B) s" "first_issued s = end_issued s"
    using assms(2) by (simp_all add: pipe_parts_def)
  obtain w where w: "get_result (b_env B) s = (Inr (case b_queue B (world s) of [] \<Rightarrow> None | r # _ \<Rightarrow> r), s\<lparr>world := w\<rparr>)"
    "b_queue B w = tl (b_queue B (world s))"
    using server_get_result [OF assms(1) s(1,2)] .
  then have "get_result (b_env B) s = (Inr None, s\<lparr>world := w\<rparr>)" "b_queue B w = []"
    using assms(3) by (auto simp: idle_queue_def)
  then show ?thesis
    using s(3) by (intro exI [of _ w])
      (simp add: obtain_result_def bnd_def seq_def cond_def have_pending_def skip_def ret_def)
qed


lemma obtain_result_pending:
  assumes "pipe_server B" "pipe_parts B txt D ((k, q) # I) W s"
    and "\<not> m_dummy_pending s" "b_queue B (world s) = Some (b_answer B (txt k)) # rest"
  shows "\<exists>w R. obtain_result (b_env B) x s = (Inr True, s\<lparr>world := w,
      m_queries := D @ (k, q\<lparr>q_res := R\<rparr>) # I @ W, first_issued := begin_key (I @ W)\<rparr>) \<and>
    b_queue B w = rest \<and> m_data R = Some (b_answer B (txt k))"
proof -
  have s: "m_Conn s = b_handle B" "is_open (b_env B) s" and m: "m_queries s = D @ (k, q) # I @ W"
    and f: "first_issued s = Some k" and sw: "sorted_wrt (<) (map fst (D @ ((k, q) # I) @ W))"
    and e: "end_issued s = begin_key W" and r: "q_res q = empty_result"
    using assms(2) by (simp_all add: pipe_parts_def)
  have d: "distinct (map fst (D @ (k, q) # I @ W))" using sorted_distinct_keys [OF sw] by simp
  have p: "begin_key W \<noteq> Some k" using begin_key_neq [OF sw] by auto
  obtain w where "get_result (b_env B) s = (Inr (case b_queue B (world s) of [] \<Rightarrow> None | r # _ \<Rightarrow> r), s\<lparr>world := w\<rparr>)"
    "b_queue B w = tl (b_queue B (world s))"
    using server_get_result [OF assms(1) s] .
  then have w: "get_result (b_env B) s = (Inr (Some (b_answer B (txt k))), s\<lparr>world := w\<rparr>)" "b_queue B w = rest"
    using assms(4) by simp_all
  obtain k0 q0 m0 where m0: "m_queries s = (k0, q0) # m0" using m
    by (metis list.exhaust surj_pair append_is_Nil_conv list.distinct(1))
  then have b: "iter_get (begin_key (m_queries s)) (m_queries s) = Inr (k0, q0)"
    by (simp add: iter_get_def from_key_def)
  define R where "R = make_result_object (Some (b_answer B (txt k))) 0 (q_text q0)
    (PQclientEncoding (b_env B) (m_Conn s) w)"
  have pr: "pipe_result (b_env B) (b_answer B (txt k)) (q_text q0) (s\<lparr>world := w\<rparr>) = (Inr R, s\<lparr>world := w\<rparr>)"
    using pipe_result_open [OF assms(1) server_open [OF assms(1) s(2,1)]] by (simp add: R_def)
  have "distinct (map fst (D @ (k, q\<lparr>q_res := R\<rparr>) # I @ W))" using d by simp
  note it = iter_at [OF d] iter_at [OF this] update_results_one [OF d]
  have "obtain_result (b_env B) x s = (Inr True, s\<lparr>world := w,
      m_queries := D @ (k, q\<lparr>q_res := R\<rparr>) # I @ W, first_issued := begin_key (I @ W)\<rparr>)"
    using w(1) pr b it f p e r m
    by (simp add: obtain_result_def bnd_def seq_def cond_def have_pending_def skip_def ret_def deref_def
        gets_def lift_exn_def set_result_at_def modify_def advance_first_def result_is_empty_def empty_result_def)
  then show ?thesis using w(2) by (intro exI [of _ w] exI [of _ R]) (simp add: R_def make_result_object_def)
qed

lemma obtain_result_broken:
  assumes "pipe_server B" "pipe_parts B txt D ((k, q) # I) W s" "m_error s = qid_limit"
    and "b_queue B (world s) = [None]"
  shows "\<exists>w. obtain_result (b_env B) False s = (Inr False, s\<lparr>world := w, m_error := k, end_issued := Some k\<rparr>) \<and>
    b_queue B w = []"
proof -
  have s: "m_Conn s = b_handle B" "is_open (b_env B) s" and m: "m_queries s = D @ (k, q) # I @ W"
    and f: "first_issued s = Some k" and sw: "sorted_wrt (<) (map fst (D @ ((k, q) # I) @ W))"
    and e: "end_issued s = begin_key W" and k: "k < qid_limit"
    using assms(2) by (auto simp: pipe_parts_def)
  have d: "distinct (map fst (D @ (k, q) # I @ W))" using sorted_distinct_keys [OF sw] by simp
  have p: "begin_key W \<noteq> Some k" using begin_key_neq [OF sw] by auto
  obtain w where w: "get_result (b_env B) s = (Inr (case b_queue B (world s) of [] \<Rightarrow> None | r # _ \<Rightarrow> r), s\<lparr>world := w\<rparr>)"
    "b_queue B w = tl (b_queue B (world s))"
    using server_get_result [OF assms(1) s] .
  then have "obtain_result (b_env B) False s =
      (Inr False, s\<lparr>world := w, m_error := k, end_issued := Some k\<rparr>)"
    using assms(3,4) iter_at [OF d] f p e m k
    by (simp add: obtain_result_def bnd_def seq_def cond_def have_pending_def skip_def ret_def deref_def
        gets_def lift_exn_def modify_def set_error_at_def)
  then show ?thesis using w(2) assms(4) by auto
qed

section \<open>Several results\<close>

text \<open>What receiving changes: results arrive and the first issued query moves on, nothing else.\<close>

definition received :: "('w, 'z) pipe_scheme \<Rightarrow> ('w, 'z) pipe_scheme \<Rightarrow> bool" where
  "received s t \<longleftrightarrow> map fst (m_queries t) = map fst (m_queries s) \<and> m_q_id t = m_q_id s \<and>
     m_retain t = m_retain s \<and> f_registered t = f_registered s \<and> this_focus t = this_focus s"

lemma received_refl [simp]: "received s s"
  by (simp add: received_def)

lemma received_trans: "received s t \<Longrightarrow> received t u \<Longrightarrow> received s u"
  by (simp add: received_def)

text \<open>One round of a receiving loop in a normal state without a dummy, and what may come of it.\<close>

text \<open>The first issued query gets its answer, or, after a failure, no answer and becomes the error mark.\<close>

lemma obtain_result_next:
  assumes "pipe_server B" "pipe_parts B txt D ((k, q) # I) W s" "pipe_normal B txt False ((k, q) # I) W s" "\<not> m_dummy_pending s"
  shows "\<exists>s' R br'. obtain_result (b_env B) False s = (Inr True, s') \<and> received s s' \<and>
      pipe_parts B txt (D @ [(k, q\<lparr>q_res := R\<rparr>)]) I W s' \<and> pipe_normal B txt br' I W s' \<and> \<not> m_dummy_pending s'"
proof -
  have sw: "sorted_wrt (<) (map fst (D @ ((k, q) # I) @ W))" and t: "q_text q = txt k" and k: "0 < k" "k \<le> m_q_id s"
    using assms(2) by (auto simp: pipe_parts_def)
  have above: "\<forall>(j, r) \<in> set (I @ W). k < j" using sw by (force simp: sorted_wrt_append)
  let ?f = "fine (b_answer B (txt k))"
  have "b_queue B (world s) = Some (b_answer B (txt k)) #
      (map Some (if ?f then replies (b_answer B) (map (q_text \<circ> snd) I) else []) @ [None])"
    using assms(3,4) t by (simp add: pipe_normal_def)
  from obtain_result_pending [OF assms(1,2,4) this]
  obtain w R where w: "obtain_result (b_env B) False s = (Inr True, s\<lparr>world := w,
    m_queries := D @ (k, q\<lparr>q_res := R\<rparr>) # I @ W, first_issued := begin_key (I @ W)\<rparr>)"
    "b_queue B w = map Some (if ?f then replies (b_answer B) (map (q_text \<circ> snd) I) else []) @ [None]"
    "m_data R = Some (b_answer B (txt k))" by blast
  let ?s = "s\<lparr>world := w, m_queries := D @ (k, q\<lparr>q_res := R\<rparr>) # I @ W, first_issued := begin_key (I @ W)\<rparr>"
  have "pipe_parts B txt (D @ [(k, q\<lparr>q_res := R\<rparr>)]) I W ?s"
    using assms(2) w(3) pipe_parts_world [OF assms(1,2), of w]
    by (auto simp: pipe_parts_def focus_wf_def is_open_def Status_def)
  moreover have "pipe_normal B txt (\<not> ?f) I W ?s"
    using assms(3,4) w(2) k above by (auto simp: pipe_normal_def idle_queue_def earlier_failure_def)
  moreover have "received s ?s" using assms(2) by (simp add: received_def pipe_parts_def)
  ultimately show ?thesis using w(1) assms(4) by (intro exI [of _ ?s] exI [of _ R] exI [of _ "\<not> ?f"]) simp
qed

lemma obtain_result_unanswered:
  assumes "pipe_server B" "pipe_parts B txt D ((k, q) # I) W s" "pipe_normal B txt True ((k, q) # I) W s" "\<not> m_dummy_pending s"
  shows "\<exists>s'. obtain_result (b_env B) False s = (Inr False, s') \<and> received s s' \<and>
      pipe_parts B txt D [] ((k, q) # I @ W) s' \<and> pipe_failed B txt D [] ((k, q) # I @ W) s'"
proof -
  have sw: "sorted_wrt (<) (map fst (D @ ((k, q) # I) @ W))" and k: "0 < k" "k \<le> m_q_id s"
    using assms(2) by (auto simp: pipe_parts_def)
  have above: "\<forall>(j, r) \<in> set (I @ W). k < j" and below: "\<forall>(j, r) \<in> set D. j < k"
    using sw by (force simp: sorted_wrt_append)+
  have "b_queue B (world s) = [None]" "m_error s = qid_limit" and ef: "earlier_failure B txt k"
    using assms(3,4) by (simp_all add: pipe_normal_def)
  then obtain w where w: "obtain_result (b_env B) False s =
      (Inr False, s\<lparr>world := w, m_error := k, end_issued := Some k\<rparr>)" "b_queue B w = []"
    using obtain_result_broken [OF assms(1,2)] by blast
  let ?s = "s\<lparr>world := w, m_error := k, end_issued := Some k\<rparr>"
  have "pipe_parts B txt D [] ((k, q) # I @ W) ?s"
    using pipe_parts_world [OF assms(1,2), of w]
    by (auto simp: pipe_parts_def focus_wf_def is_open_def Status_def)
  moreover have "pipe_failed B txt D [] ((k, q) # I @ W) ?s"
    using above below k w(2) assms(4) ef
    by (auto simp: pipe_failed_def idle_queue_def intro: less_imp_le)
  moreover have "received s ?s" by (simp add: received_def)
  ultimately show ?thesis using w(1) by blast
qed

lemma obtain_result_step:
  assumes "pipe_server B" "pipe_parts B txt D I W s" "pipe_normal B txt br I W s" "\<not> m_dummy_pending s"
  shows "(I = [] \<and> (\<exists>s'. obtain_result (b_env B) False s = (Inr False, s') \<and> received s s' \<and>
      pipe_parts B txt D [] W s' \<and> pipe_normal B txt False [] W s' \<and> \<not> m_dummy_pending s')) \<or>
    (\<exists>k q I' s' R br'. I = (k, q) # I' \<and> obtain_result (b_env B) False s = (Inr True, s') \<and> received s s' \<and>
      pipe_parts B txt (D @ [(k, q\<lparr>q_res := R\<rparr>)]) I' W s' \<and> pipe_normal B txt br' I' W s' \<and>
      \<not> m_dummy_pending s') \<or>
    (\<exists>s'. I \<noteq> [] \<and> obtain_result (b_env B) False s = (Inr False, s') \<and> received s s' \<and>
      pipe_parts B txt D [] (I @ W) s' \<and> pipe_failed B txt D [] (I @ W) s')"
proof (cases I)
  case Nil
  then obtain w where w: "obtain_result (b_env B) False s = (Inr False, s\<lparr>world := w\<rparr>)" "b_queue B w = []"
    using obtain_result_idle [OF assms(1)] assms(2,3) by (metis pipe_normal_def)
  then show ?thesis
    using Nil assms(2-4) pipe_parts_world [OF assms(1)]
    by (auto simp: pipe_normal_def idle_queue_def received_def)
next
  case (Cons p I')
  obtain k q where p: "p = (k, q)" by (cases p)
  show ?thesis
  proof (cases br)
    case False
    obtain s' R br' where "obtain_result (b_env B) False s = (Inr True, s')" "received s s'"
      "pipe_parts B txt (D @ [(k, q\<lparr>q_res := R\<rparr>)]) I' W s'" "pipe_normal B txt br' I' W s'" "\<not> m_dummy_pending s'"
      using obtain_result_next [OF assms(1) _ _ assms(4), of "txt" D k q I' W] assms(2,3) False unfolding Cons p by auto
    then show ?thesis unfolding Cons p by (intro disjI2 disjI1 exI conjI) (rule refl | assumption)+
  next
    case True
    obtain s' where "obtain_result (b_env B) False s = (Inr False, s')" "received s s'"
      "pipe_parts B txt D [] (I @ W) s'" "pipe_failed B txt D [] (I @ W) s'"
      using obtain_result_unanswered [OF assms(1) _ _ assms(4), of "txt" D k q I' W] assms(2,3) True unfolding Cons p by auto
    then show ?thesis using Cons by (intro disjI2) auto
  qed
qed

text \<open>The outcome of receiving: the queries \<open>K\<close> have their results, or an earlier one has failed.\<close>

definition after_receive ::
  "'w backend \<Rightarrow> (int \<Rightarrow> string) \<Rightarrow> int set \<Rightarrow> qmap \<Rightarrow> ('w, 'z) pipe_scheme \<Rightarrow> ('w, 'z) pipe_scheme \<Rightarrow> bool" where
  "after_receive B txt K W s t \<longleftrightarrow> received s t \<and> \<not> m_dummy_pending t \<and>
     ((\<exists>D I br. K \<subseteq> fst ` set D \<and> pipe_parts B txt D I W t \<and> pipe_normal B txt br I W t) \<or>
      (\<exists>D W'. pipe_parts B txt D [] W' t \<and> pipe_failed B txt D [] W' t))"

lemma after_receive_normal:
  "K \<subseteq> fst ` set D \<Longrightarrow> received s t \<Longrightarrow> \<not> m_dummy_pending t \<Longrightarrow> pipe_parts B txt D I W t \<Longrightarrow>
     pipe_normal B txt br I W t \<Longrightarrow> after_receive B txt K W s t"
  unfolding after_receive_def by blast

lemma after_receive_failed:
  "received s t \<Longrightarrow> pipe_parts B txt D [] W' t \<Longrightarrow> pipe_failed B txt D [] W' t \<Longrightarrow> after_receive B txt K W s t"
  unfolding after_receive_def by (auto simp: pipe_failed_def idle_queue_def)

lemma after_receive_trans:
  "received s t \<Longrightarrow> after_receive B txt K W t u \<Longrightarrow> K' \<subseteq> K \<Longrightarrow> after_receive B txt K' W s u"
  unfolding after_receive_def by (meson received_trans subset_trans)

lemma consume_input_served:
  assumes "pipe_server B" "m_Conn s = b_handle B"
  shows "\<exists>w. consume_input (b_env B) s = (Inr True, s\<lparr>world := w\<rparr>) \<and> b_queue B w = b_queue B (world s)"
proof -
  let ?r = "PQconsumeInput (b_env B) (b_handle B) (world s)"
  have "fst ?r" "b_queue B (snd ?r) = b_queue B (world s)"
    using assms(1) unfolding pipe_server_def by blast+
  then show ?thesis using assms(2)
    by (intro exI [of _ "snd ?r"]) (simp add: consume_input_def bnd_def gets_def wcall_def call_def)
qed

lemma pipe_phase_world:
  assumes "b_queue B w = b_queue B (world s)"
  shows "pipe_normal B txt br I W (s\<lparr>world := w\<rparr>) = pipe_normal B txt br I W s"
    "pipe_failed B txt D I W (s\<lparr>world := w\<rparr>) = pipe_failed B txt D I W s"
  using assms by (simp_all add: pipe_normal_def pipe_failed_def idle_queue_def)

lemma obtain_result_failed:
  assumes "pipe_server B" "pipe_parts B txt D [] W s" "pipe_failed B txt D [] W s"
  shows "\<exists>w. obtain_result (b_env B) x s = (Inr False, s\<lparr>world := w\<rparr>) \<and>
    pipe_parts B txt D [] W (s\<lparr>world := w\<rparr>) \<and> pipe_failed B txt D [] W (s\<lparr>world := w\<rparr>)"
proof -
  have i: "idle_queue B s" using assms(3) by (simp add: pipe_failed_def)
  obtain w where w: "obtain_result (b_env B) x s = (Inr False, s\<lparr>world := w\<rparr>)" "b_queue B w = []"
    using obtain_result_idle [OF assms(1,2) i] by blast
  then show ?thesis using pipe_parts_world [OF assms(1,2)] assms(3)
    by (intro exI [of _ w]) (auto simp: pipe_failed_def idle_queue_def)
qed

lemma further_loop_failed:
  assumes "pipe_server B" "pipe_parts B txt D [] W s" "pipe_failed B txt D [] W s" "0 < n"
  shows "\<exists>t. further_loop (b_env B) n s = (Inr (), t) \<and> received s t \<and>
    pipe_parts B txt D [] W t \<and> pipe_failed B txt D [] W t"
proof (cases n)
  case (Suc m)
  obtain w where w: "obtain_result (b_env B) False s = (Inr False, s\<lparr>world := w\<rparr>)"
    "pipe_parts B txt D [] W (s\<lparr>world := w\<rparr>)" "pipe_failed B txt D [] W (s\<lparr>world := w\<rparr>)"
    using obtain_result_failed [OF assms(1-3)] by blast
  show ?thesis
  proof (cases "is_busy (b_env B) s")
    case True
    then show ?thesis using Suc assms(2,3) by (simp add: cond_def skip_def ret_def)
  next
    case False
    then show ?thesis using Suc w
      by (intro exI [of _ "s\<lparr>world := w\<rparr>"]) (simp add: cond_def bnd_def skip_def ret_def received_def)
  qed
qed (use assms(4) in simp)

lemma further_loop_normal:
  assumes "pipe_server B"
  shows "pipe_parts B txt D I W s \<Longrightarrow> pipe_normal B txt br I W s \<Longrightarrow> \<not> m_dummy_pending s \<Longrightarrow>
    length I < n \<Longrightarrow> \<exists>t. further_loop (b_env B) n s = (Inr (), t) \<and> after_receive B txt (fst ` set D) W s t"
proof (induction n arbitrary: D I s br)
  case (Suc n)
  show ?case
  proof (cases "is_busy (b_env B) s")
    case True
    then show ?thesis using Suc.prems after_receive_normal [OF subset_refl received_refl]
      by (auto simp: cond_def skip_def ret_def)
  next
    case False
    note busy = this
    consider (none) s' where "I = []" "obtain_result (b_env B) False s = (Inr False, s')" "received s s'"
        "pipe_parts B txt D [] W s'" "pipe_normal B txt False [] W s'" "\<not> m_dummy_pending s'"
      | (one) k q I' s' R br' where "I = (k, q) # I'" "obtain_result (b_env B) False s = (Inr True, s')" "received s s'"
        "pipe_parts B txt (D @ [(k, q\<lparr>q_res := R\<rparr>)]) I' W s'" "pipe_normal B txt br' I' W s'" "\<not> m_dummy_pending s'"
      | (fail) s' where "obtain_result (b_env B) False s = (Inr False, s')" "received s s'"
        "pipe_parts B txt D [] (I @ W) s'" "pipe_failed B txt D [] (I @ W) s'"
      using obtain_result_step [OF assms Suc.prems(1-3)] by blast
    then show ?thesis
    proof cases
      case none
      then show ?thesis using busy after_receive_normal [OF subset_refl none(3,6,4,5)]
        by (simp add: cond_def bnd_def skip_def ret_def)
    next
      case fail
      then show ?thesis using busy after_receive_failed [OF fail(2-4)]
        by (simp add: cond_def bnd_def skip_def ret_def)
    next
      case one
      have "m_Conn s' = b_handle B" using one(4) by (simp add: pipe_parts_def)
      then obtain w where w: "consume_input (b_env B) s' = (Inr True, s'\<lparr>world := w\<rparr>)" "b_queue B w = b_queue B (world s')"
        using consume_input_served [OF assms] by blast
      have "pipe_normal B txt br' I' W (s'\<lparr>world := w\<rparr>)" "\<not> m_dummy_pending (s'\<lparr>world := w\<rparr>)" "length I' < n"
        using pipe_phase_world(1) [OF w(2)] one(1,5,6) Suc.prems(4) by simp_all
      then obtain t where t: "further_loop (b_env B) n (s'\<lparr>world := w\<rparr>) = (Inr (), t)"
        "after_receive B txt (fst ` set (D @ [(k, q\<lparr>q_res := R\<rparr>)])) W (s'\<lparr>world := w\<rparr>) t"
        using Suc.IH [OF pipe_parts_world [OF assms one(4), of w]] by blast
      have "received s (s'\<lparr>world := w\<rparr>)" using one(3) by (simp add: received_def)
      then have "after_receive B txt (fst ` set D) W s t"
        using after_receive_trans [OF _ t(2)] by auto
      then show ?thesis using busy one(2) w(1) t(1) by (simp add: cond_def bnd_def)
    qed
  qed
qed simp

lemma receive_loop_normal:
  assumes "pipe_server B"
  shows "pipe_parts B txt D (I1 @ I2) W s \<Longrightarrow> pipe_normal B txt br (I1 @ I2) W s \<Longrightarrow> \<not> m_dummy_pending s \<Longrightarrow>
    I1 \<noteq> [] \<Longrightarrow> length I1 < n \<Longrightarrow> \<exists>t. receive_loop (b_env B) (begin_key (I2 @ W)) n s = (Inr (), t) \<and> received s t \<and>
      \<not> m_dummy_pending t \<and>
      ((\<exists>D' br'. fst ` set D' = fst ` set (D @ I1) \<and> pipe_parts B txt D' I2 W t \<and> pipe_normal B txt br' I2 W t) \<or>
       (\<exists>D' W'. pipe_parts B txt D' [] W' t \<and> pipe_failed B txt D' [] W' t))"
proof (induction n arbitrary: D I1 s br)
  case (Suc n)
  consider (one) k q I' s' R br' where "I1 @ I2 = (k, q) # I'" "obtain_result (b_env B) False s = (Inr True, s')" "received s s'"
        "pipe_parts B txt (D @ [(k, q\<lparr>q_res := R\<rparr>)]) I' W s'" "pipe_normal B txt br' I' W s'" "\<not> m_dummy_pending s'"
      | (fail) s' where "obtain_result (b_env B) False s = (Inr False, s')" "received s s'"
        "pipe_parts B txt D [] ((I1 @ I2) @ W) s'" "pipe_failed B txt D [] ((I1 @ I2) @ W) s'"
      using obtain_result_step [OF assms Suc.prems(1-3)] Suc.prems(4) by fastforce
  then show ?case
  proof cases
    case fail
    have "\<not> m_dummy_pending s'" using fail(4) by (simp add: pipe_failed_def idle_queue_def)
    moreover have "receive_loop (b_env B) (begin_key (I2 @ W)) (Suc n) s = (Inr (), s')"
      using fail(1) by (simp add: bnd_def skip_def ret_def)
    ultimately show ?thesis using fail(2-4) by blast
  next
    case one
    obtain I1' where I1': "I1 = (k, q) # I1'" "I' = I1' @ I2"
      using one(1) Suc.prems(4) by (cases I1) auto
    have f: "first_issued s' = begin_key (I1' @ I2 @ W)" using one(4) I1' by (simp add: pipe_parts_def)
    have sw: "sorted_wrt (<) (map fst (D @ [(k, q\<lparr>q_res := R\<rparr>)] @ I1' @ I2 @ W))"
      using one(4) I1' by (simp add: pipe_parts_def)
    show ?thesis
    proof (cases I1')
      case Nil
      then show ?thesis using one f I1'
        by (intro exI [of _ s']) (auto simp: bnd_def cond_def skip_def ret_def)
    next
      case Cons
      have "begin_key (I1' @ I2 @ W) \<noteq> begin_key (I2 @ W)"
        using begin_key_neq [of "D @ [(k, q\<lparr>q_res := R\<rparr>)]" I1' "I2 @ W"] sw Cons by simp
      have len: "I1' \<noteq> []" "length I1' < n" using Cons I1'(1) Suc.prems(5) by simp_all
      note \<open>begin_key (I1' @ I2 @ W) \<noteq> begin_key (I2 @ W)\<close>
      moreover obtain t where t: "receive_loop (b_env B) (begin_key (I2 @ W)) n s' = (Inr (), t)" "received s' t"
        "\<not> m_dummy_pending t"
        "(\<exists>D' br'. fst ` set D' = fst ` set ((D @ [(k, q\<lparr>q_res := R\<rparr>)]) @ I1') \<and> pipe_parts B txt D' I2 W t \<and> pipe_normal B txt br' I2 W t) \<or>
         (\<exists>D' W'. pipe_parts B txt D' [] W' t \<and> pipe_failed B txt D' [] W' t)"
        using Suc.IH [OF one(4,5,6) [unfolded I1'(2)]] len by blast
      moreover have "fst ` set ((D @ [(k, q\<lparr>q_res := R\<rparr>)]) @ I1') = fst ` set (D @ I1)" using I1' by simp
      ultimately show ?thesis using one(2,3) f received_trans [OF one(3) t(2)]
        by (intro exI [of _ t]) (simp add: bnd_def cond_def)
    qed
  qed
qed simp

lemma dummy_fields:
  assumes "dummy_answer d"
  shows "\<exists>row f. result_at (make_result_object (Some d) v t e) 0 = Inr row \<and> row_at row 0 = Inr f \<and>
    c_str (field_c_str f) = theDummyValue"
  using assms
  by (simp add: dummy_answer_def result_at_def result_size_def make_result_object_def result_nth_def
      make_row_def row_at_def row_size_def row_nth_def make_field_def field_c_str_def GetValue_def
      result_columns_def theDummyValue_def c_str_def)

lemma obtain_dummy_served:
  assumes "pipe_server B" "pipe_parts B txt D I W s" "pipe_normal B txt br I W s" "m_dummy_pending s"
  shows "\<exists>t. obtain_dummy (b_env B) h s = (Inr (), t) \<and> received s t \<and> pipe_parts B txt D I W t \<and>
    pipe_normal B txt False I W t \<and> \<not> m_dummy_pending t"
proof -
  have s: "m_Conn s = b_handle B" "is_open (b_env B) s" using assms(2) by (simp_all add: pipe_parts_def)
  have I: "I \<noteq> []" using assms(3,4) by (auto simp: pipe_normal_def idle_queue_def)
  then have b: "\<not> br" using assms(3,4) by (auto simp: pipe_normal_def)
  have d: "dummy_answer (b_dummy B)" using assms(1) unfolding pipe_server_def by blast
  obtain w where "get_result (b_env B) s = (Inr (case b_queue B (world s) of [] \<Rightarrow> None | r # _ \<Rightarrow> r), s\<lparr>world := w\<rparr>)"
    "b_queue B w = tl (b_queue B (world s))"
    using server_get_result [OF assms(1) s] .
  then have w: "get_result (b_env B) s = (Inr (Some (b_dummy B)), s\<lparr>world := w\<rparr>)"
    "b_queue B w = map Some (replies (b_answer B) (map (q_text \<circ> snd) I)) @ [None]"
    using assms(3,4) I b by (simp_all add: pipe_normal_def)
  let ?t = "s\<lparr>world := w, m_dummy_pending := False\<rparr>"
  have o: "is_open (b_env B) ?t"
    using server_open [OF assms(1) s(2,1), of w] by (simp add: is_open_def Status_def)
  obtain R where R: "pipe_result (b_env B) (b_dummy B) ''[DUMMY PIPELINE QUERY]'' ?t = (Inr R, ?t)"
    "\<exists>v t e. R = make_result_object (Some (b_dummy B)) v t e"
    using pipe_result_open [OF assms(1) o] by blast
  then obtain row f where rf: "result_at R 0 = Inr row" "row_at row 0 = Inr f" "c_str (field_c_str f) = theDummyValue"
    using dummy_fields [OF d] by blast
  have "CheckStatus R = Inr ()" "result_size R = 1"
    using R(2) d by (auto simp: CheckStatus_def StatusError_def dummy_answer_def result_size_def
        make_result_object_def)
  then have "obtain_dummy (b_env B) h s = (Inr (), ?t)"
    using w(1) R(1) rf by (simp add: obtain_dummy_def bnd_def seq_def modify_def catch_class_def catch_def
        lift_exn_def ret_def skip_def)
  moreover have "pipe_parts B txt D I W ?t"
    using pipe_parts_world [OF assms(1,2), of w] o by (auto simp: pipe_parts_def focus_wf_def)
  moreover have "pipe_normal B txt False I W ?t"
    using assms(3) w(2) I by (simp add: pipe_normal_def)
  ultimately show ?thesis by (intro exI [of _ ?t]) (simp add: received_def)
qed

lemma dummy_first:
  assumes "pipe_server B" "pipe_parts B txt D I W s" "pipe_normal B txt br I W s"
  shows "\<exists>t br'. cond m_dummy_pending (obtain_dummy (b_env B) h) skip s = (Inr (), t) \<and> received s t \<and>
    pipe_parts B txt D I W t \<and> pipe_normal B txt br' I W t \<and> \<not> m_dummy_pending t"
proof (cases "m_dummy_pending s")
  case True
  then have "cond m_dummy_pending (obtain_dummy (b_env B) h) skip s = obtain_dummy (b_env B) h s"
    by (simp add: cond_def)
  then show ?thesis using obtain_dummy_served [OF assms True, of h] by metis
next
  case False
  then show ?thesis using assms(2,3) by (auto simp: cond_def skip_def ret_def)
qed

lemma parts_length: "pipe_parts B txt D I W s \<Longrightarrow> length I < Suc (length (m_queries s))"
  by (simp add: pipe_parts_def)

lemma get_further_served:
  assumes "pipe_server B" "pipe_parts B txt D I W s" "pipe_normal B txt br I W s" "\<not> m_dummy_pending s"
  shows "\<exists>t. get_further_available_results (b_env B) s = (Inr (), t) \<and> after_receive B txt (fst ` set D) W s t"
  using further_loop_normal [OF assms parts_length [OF assms(2)]]
  by (simp add: get_further_available_results_def bnd_def gets_def)

lemma get_further_failed:
  assumes "pipe_server B" "pipe_parts B txt D [] W s" "pipe_failed B txt D [] W s"
  shows "\<exists>t. get_further_available_results (b_env B) s = (Inr (), t) \<and> received s t \<and>
    pipe_parts B txt D [] W t \<and> pipe_failed B txt D [] W t"
  using further_loop_failed [OF assms zero_less_Suc, of "length (m_queries s)"]
  by (simp add: get_further_available_results_def bnd_def gets_def)

lemma receive_served:
  assumes "pipe_server B" "pipe_parts B txt D (I1 @ I2) W s" "pipe_normal B txt br (I1 @ I2) W s" "I1 \<noteq> []"
  shows "\<exists>t. receive (b_env B) h (begin_key (I2 @ W)) s = (Inr (), t) \<and>
    after_receive B txt (fst ` set (D @ I1)) W s t"
proof -
  obtain t1 br1 where t1: "cond m_dummy_pending (obtain_dummy (b_env B) h) skip s = (Inr (), t1)" "received s t1"
    "pipe_parts B txt D (I1 @ I2) W t1" "pipe_normal B txt br1 (I1 @ I2) W t1" "\<not> m_dummy_pending t1"
    using dummy_first [OF assms(1-3)] by blast
  have n: "length I1 < Suc (length (m_queries t1))" using parts_length [OF t1(3)] by simp
  obtain t2 where t2: "receive_loop (b_env B) (begin_key (I2 @ W)) (Suc (length (m_queries t1))) t1 = (Inr (), t2)"
    "received t1 t2" "\<not> m_dummy_pending t2"
    "(\<exists>D' br'. fst ` set D' = fst ` set (D @ I1) \<and> pipe_parts B txt D' I2 W t2 \<and> pipe_normal B txt br' I2 W t2) \<or>
     (\<exists>D' W'. pipe_parts B txt D' [] W' t2 \<and> pipe_failed B txt D' [] W' t2)"
    using receive_loop_normal [OF assms(1) t1(3-5) assms(4) n] by blast
  have 2: "received s t2" using received_trans [OF t1(2) t2(2)] .
  have "\<exists>t. cond (\<lambda>s. first_issued s = begin_key (I2 @ W)) (get_further_available_results (b_env B)) skip t2 = (Inr (), t) \<and>
    after_receive B txt (fst ` set (D @ I1)) W s t"
    using t2(4)
  proof (elim disjE exE conjE)
    fix D' br'
    assume D': "fst ` set D' = fst ` set (D @ I1)" and p: "pipe_parts B txt D' I2 W t2" "pipe_normal B txt br' I2 W t2"
    then have "first_issued t2 = begin_key (I2 @ W)" by (simp add: pipe_parts_def)
    then show ?thesis
      using get_further_served [OF assms(1) p t2(3)] after_receive_trans [OF 2 _ subset_refl] D'
      by (auto simp: cond_def)
  next
    fix D' W'
    assume p: "pipe_parts B txt D' [] W' t2" "pipe_failed B txt D' [] W' t2"
    show ?thesis
    proof (cases "first_issued t2 = begin_key (I2 @ W)")
      case True
      then show ?thesis using get_further_failed [OF assms(1) p] after_receive_failed received_trans [OF 2]
        by (simp add: cond_def) blast
    next
      case False
      then show ?thesis using after_receive_failed [OF 2 p] by (simp add: cond_def skip_def ret_def)
    qed
  qed
  then show ?thesis using t1(1) t2(1) by (auto simp: receive_def seq_def bnd_def gets_def)
qed

lemma have_pending_parts:
  "pipe_parts B txt D I W s \<Longrightarrow> have_pending s \<longleftrightarrow> I \<noteq> []"
  using begin_key_neq [of D I W] by (auto simp: pipe_parts_def have_pending_def)

lemma receive_if_available_served:
  assumes "pipe_server B" "pipe_parts B txt D I W s" "pipe_normal B txt br I W s"
  shows "\<exists>t. receive_if_available (b_env B) h s = (Inr (), t) \<and> received s t \<and>
    ((\<exists>D' I' br'. fst ` set D \<subseteq> fst ` set D' \<and> pipe_parts B txt D' I' W t \<and> pipe_normal B txt br' I' W t) \<or>
     (\<exists>D' W'. pipe_parts B txt D' [] W' t \<and> pipe_failed B txt D' [] W' t))"
proof -
  obtain w where w: "consume_input (b_env B) s = (Inr True, s\<lparr>world := w\<rparr>)" "b_queue B w = b_queue B (world s)"
    using consume_input_served [OF assms(1), of s] assms(2) unfolding pipe_parts_def by blast
  let ?s = "s\<lparr>world := w\<rparr>"
  have p: "pipe_parts B txt D I W ?s" "pipe_normal B txt br I W ?s" and r: "received s ?s"
    using pipe_parts_world [OF assms(1,2)] pipe_phase_world(1) [OF w(2)] assms(3) by (simp_all add: received_def)
  show ?thesis
  proof (cases "is_busy (b_env B) ?s")
    case True
    then have "receive_if_available (b_env B) h s = (Inr (), ?s)"
      using w(1) by (simp add: receive_if_available_def bnd_def cond_def skip_def ret_def)
    then show ?thesis using p r by blast
  next
    case False
    obtain t1 br1 where t1: "cond m_dummy_pending (obtain_dummy (b_env B) h) skip ?s = (Inr (), t1)" "received ?s t1"
      "pipe_parts B txt D I W t1" "pipe_normal B txt br1 I W t1" "\<not> m_dummy_pending t1"
      using dummy_first [OF assms(1) p] by blast
    have e: "receive_if_available (b_env B) h s = cond have_pending (get_further_available_results (b_env B)) skip t1"
      using w(1) False t1(1) by (simp add: receive_if_available_def bnd_def cond_def seq_def)
    show ?thesis
    proof (cases "I = []")
      case True
      then have "receive_if_available (b_env B) h s = (Inr (), t1)"
        using e have_pending_parts [OF t1(3)] by (simp add: cond_def skip_def ret_def)
      then show ?thesis using t1(3,4) received_trans [OF r t1(2)] by blast
    next
      case False
      obtain t where t: "get_further_available_results (b_env B) t1 = (Inr (), t)"
        "after_receive B txt (fst ` set D) W t1 t"
        using get_further_served [OF assms(1) t1(3-5)] by blast
      then have "receive_if_available (b_env B) h s = (Inr (), t)"
        using e have_pending_parts [OF t1(3)] False by (simp add: cond_def)
      then show ?thesis using t(2) received_trans [OF received_trans [OF r t1(2)]]
        unfolding after_receive_def by blast
    qed
  qed
qed

section \<open>Issuing\<close>

lemma start_exec_served:
  assumes "pipe_server B" "is_open (b_env B) s" "m_Conn s = b_handle B"
    and "qs \<noteq> []" "\<forall>q \<in> set qs. b_single B q" "b_queue B (world s) = []"
  shows "\<exists>w. start_exec (b_env B) (batch_query qs) s = (Inr (), s\<lparr>world := w\<rparr>) \<and>
    b_queue B w = (if length qs > 1 then [Some (b_dummy B)] else []) @ map Some (replies (b_answer B) qs) @ [None]"
proof -
  let ?r = "PQsendQuery (b_env B) (b_handle B) (batch_query qs) (world s)"
  have "0 < rounds (b_env B)" using assms(1) unfolding pipe_server_def by blast
  moreover have "fst ?r" "b_queue B (snd ?r) =
      (if length qs > 1 then [Some (b_dummy B)] else []) @ map Some (replies (b_answer B) qs) @ [None]"
    using assms(1,4-6) unfolding pipe_server_def answers_in_order_def by blast+
  ultimately show ?thesis using activate_open [OF assms(2)] assms(3)
    by (intro exI [of _ "snd ?r"])
      (simp add: start_exec_def seq_def bnd_def gets_def wcall_def call_def skip_def ret_def)
qed

lemma issue_normal:
  assumes "pipe_server B" "pipe_parts B txt D [] W s" "pipe_normal B txt br [] W s" "W \<noteq> []"
  shows "\<exists>t. issue (b_env B) s = (Inr (), t) \<and> received s t \<and>
    pipe_parts B txt D W [] t \<and> pipe_normal B txt False W [] t"
proof -
  have i: "idle_queue B s" and e: "m_error s = qid_limit" and n: "m_num_waiting s = int (length W)"
    using assms(3) by (simp_all add: pipe_normal_def)
  obtain w where w: "obtain_result (b_env B) False s = (Inr False, s\<lparr>world := w\<rparr>)" "b_queue B w = []"
    using obtain_result_idle [OF assms(1,2) i] by blast
  let ?s = "s\<lparr>world := w\<rparr>" and ?qs = "map (q_text \<circ> snd) W"
  have p: "pipe_parts B txt D [] W ?s" using pipe_parts_world [OF assms(1,2)] .
  have s: "is_open (b_env B) ?s" "m_Conn ?s = b_handle B" "m_queries s = D @ W" "end_issued s = begin_key W"
    and sw: "sorted_wrt (<) (map fst (D @ W))"
    using p by (auto simp: pipe_parts_def)
  have so: "is_open (b_env B) s" "m_Conn s = b_handle B" using assms(2) by (simp_all add: pipe_parts_def)
  have "\<forall>(k, q) \<in> set W. q_text q = txt k \<and> b_single B (txt k)" using p by (auto simp: pipe_parts_def)
  then have pq: "\<forall>q \<in> set ?qs. b_single B q" by fastforce
  have f: "iter_from (end_issued s) (m_queries s) = Inr W"
    unfolding s(3,4) using iter_from_at sorted_distinct_keys [OF sw] by blast
  obtain v where v: "start_exec (b_env B) (batch_query ?qs) ?s = (Inr (), ?s\<lparr>world := v\<rparr>)"
    "b_queue B v = (if length ?qs > 1 then [Some (b_dummy B)] else []) @ map Some (replies (b_answer B) ?qs) @ [None]"
    using start_exec_served [OF assms(1) s(1,2) _ pq] assms(4) w(2) by auto
  let ?t = "s\<lparr>world := v, m_dummy_pending := length W > 1, first_issued := end_issued s,
    end_issued := None, m_num_waiting := 0\<rparr>"
  have iss: "issue (b_env B) s = (Inr (), ?t)"
    using w(1) v(1) e f n
    by (simp add: issue_def bnd_def seq_def cond_def gets_def lift_exn_def ret_def modify_def skip_def)
  have o: "is_open (b_env B) ?t"
    using server_open [OF assms(1) so, of v] by (simp add: is_open_def Status_def)
  have "issue (b_env B) s = (Inr (), ?t)" by (rule iss)
  moreover have "pipe_parts B txt D W [] ?t"
    using pipe_parts_world [OF assms(1,2), of v] o s(4) by (auto simp: pipe_parts_def focus_wf_def)
  moreover have "pipe_normal B txt False W [] ?t"
    using v(2) e assms(4) by (simp add: pipe_normal_def)
  ultimately show ?thesis by (intro exI [of _ ?t]) (simp add: received_def)
qed

lemma issue_failed:
  assumes "pipe_server B" "pipe_parts B txt D [] W s" "pipe_failed B txt D [] W s"
  shows "\<exists>t. issue (b_env B) s = (Inr (), t) \<and> received s t \<and>
    pipe_parts B txt D [] W t \<and> pipe_failed B txt D [] W t"
proof -
  obtain w where w: "obtain_result (b_env B) False s = (Inr False, s\<lparr>world := w\<rparr>)"
    "pipe_parts B txt D [] W (s\<lparr>world := w\<rparr>)" "pipe_failed B txt D [] W (s\<lparr>world := w\<rparr>)"
    using obtain_result_failed [OF assms] by blast
  have "m_error s < qid_limit" using assms(2,3) by (simp add: pipe_parts_def pipe_failed_def)
  then show ?thesis using w
    by (intro exI [of _ "s\<lparr>world := w\<rparr>"])
      (simp add: issue_def bnd_def seq_def cond_def skip_def ret_def received_def)
qed

lemma receive_if_available_failed:
  assumes "pipe_server B" "pipe_parts B txt D [] W s" "pipe_failed B txt D [] W s"
  shows "\<exists>t. receive_if_available (b_env B) h s = (Inr (), t) \<and> received s t \<and>
    pipe_parts B txt D [] W t \<and> pipe_failed B txt D [] W t"
proof -
  obtain w where w: "consume_input (b_env B) s = (Inr True, s\<lparr>world := w\<rparr>)" "b_queue B w = b_queue B (world s)"
    using consume_input_served [OF assms(1), of s] assms(2) unfolding pipe_parts_def by blast
  let ?s = "s\<lparr>world := w\<rparr>"
  have p: "pipe_parts B txt D [] W ?s" "pipe_failed B txt D [] W ?s"
    using pipe_parts_world [OF assms(1,2)] pipe_phase_world(2) [OF w(2)] assms(3) by simp_all
  have "\<not> m_dummy_pending ?s" "\<not> have_pending ?s"
    using p(2) have_pending_parts [OF p(1)] by (simp_all add: pipe_failed_def idle_queue_def)
  then have "receive_if_available (b_env B) h s = (Inr (), ?s)"
    using w(1) by (simp add: receive_if_available_def bnd_def cond_def seq_def skip_def ret_def)
  then show ?thesis using p by (auto simp: received_def)
qed

section \<open>The operations\<close>

text \<open>An operation that succeeds in the invariant, leaves it, and only receives and issues.\<close>

definition served :: "'w backend \<Rightarrow> (int \<Rightarrow> string) \<Rightarrow> ('w, 'z, unit) pprog \<Rightarrow> ('w, 'z) pipe_scheme \<Rightarrow> bool" where
  "served B txt m s \<longleftrightarrow> (\<exists>t. m s = (Inr (), t) \<and> received s t \<and> pipe_inv B txt t \<and>
     (m_error t = qid_limit \<longrightarrow> m_error s = qid_limit))"

lemma pipe_inv_normal: "pipe_parts B txt D I W s \<Longrightarrow> pipe_normal B txt br I W s \<Longrightarrow> pipe_inv B txt s"
  unfolding pipe_inv_def by blast

lemma pipe_inv_failed: "pipe_parts B txt D [] W s \<Longrightarrow> pipe_failed B txt D [] W s \<Longrightarrow> pipe_inv B txt s"
  unfolding pipe_inv_def by blast

lemma pipe_inv_cases:
  assumes "pipe_inv B txt s"
  obtains (normal) D I W br where "pipe_parts B txt D I W s" "pipe_normal B txt br I W s"
    | (failed) D W where "pipe_parts B txt D [] W s" "pipe_failed B txt D [] W s"
  using assms unfolding pipe_inv_def by (metis pipe_failed_def)

lemma served_skip: "pipe_inv B txt s \<Longrightarrow> served B txt skip s"
  by (simp add: served_def skip_def ret_def)

lemma served_seq:
  assumes "served B txt m s" "\<And>t. received s t \<Longrightarrow> pipe_inv B txt t \<Longrightarrow> served B txt n t"
  shows "served B txt (seq m n) s"
  using assms unfolding served_def seq_def bnd_def by (fastforce intro: received_trans)

lemma served_cond:
  "(c s \<Longrightarrow> served B txt m s) \<Longrightarrow> (\<not> c s \<Longrightarrow> served B txt n s) \<Longrightarrow> served B txt (cond c m n) s"
  by (simp add: served_def cond_def)

lemma after_receive_inv: "after_receive B txt K W s t \<Longrightarrow> received s t \<and> pipe_inv B txt t"
  unfolding after_receive_def pipe_inv_def by blast

text \<open>Receiving leaves alone what waits, unless it meets a failure.\<close>

definition gathers :: "'w backend \<Rightarrow> (int \<Rightarrow> string) \<Rightarrow> ('w, 'z, unit) pprog \<Rightarrow> ('w, 'z) pipe_scheme \<Rightarrow> bool" where
  "gathers B txt m s \<longleftrightarrow> (\<exists>t. m s = (Inr (), t) \<and> received s t \<and> pipe_inv B txt t \<and>
     (m_error t = qid_limit \<longrightarrow> m_error s = qid_limit \<and> m_num_waiting t = m_num_waiting s))"

lemma gathers_served: "gathers B txt m s \<Longrightarrow> served B txt m s"
  unfolding gathers_def served_def by blast

lemma gathers_skip: "pipe_inv B txt s \<Longrightarrow> gathers B txt skip s"
  by (simp add: gathers_def skip_def ret_def)

lemma gathers_cond:
  "(c s \<Longrightarrow> gathers B txt m s) \<Longrightarrow> (\<not> c s \<Longrightarrow> gathers B txt n s) \<Longrightarrow> gathers B txt (cond c m n) s"
  by (simp add: gathers_def cond_def)

lemma gathers_seq:
  assumes "gathers B txt m s"
    and "\<And>t. received s t \<Longrightarrow> pipe_inv B txt t \<Longrightarrow>
      (m_error t = qid_limit \<Longrightarrow> m_error s = qid_limit \<and> m_num_waiting t = m_num_waiting s) \<Longrightarrow> served B txt n t"
  shows "served B txt (seq m n) s"
  using assms unfolding gathers_def served_def seq_def bnd_def by (fastforce intro: received_trans)

lemma failed_error: "pipe_parts B txt D [] W s \<Longrightarrow> pipe_failed B txt D [] W s \<Longrightarrow> m_error s < qid_limit"
  by (simp add: pipe_parts_def pipe_failed_def)

lemma parts_distinct: "pipe_parts B txt D I W s \<Longrightarrow> distinct (map fst (D @ I @ W))"
  using sorted_distinct_keys unfolding pipe_parts_def by blast

text \<open>Receiving up to the last issued query leaves nothing pending.\<close>

lemma receive_end:
  assumes "pipe_server B" "pipe_parts B txt D I W s" "pipe_normal B txt br I W s" "have_pending s"
  shows "\<exists>t. bnd (gets end_issued) (receive (b_env B) h) s = (Inr (), t) \<and> received s t \<and> \<not> m_dummy_pending t \<and>
     ((\<exists>D' br'. map fst D' = map fst (D @ I) \<and> pipe_parts B txt D' [] W t \<and> pipe_normal B txt br' [] W t) \<or>
      (\<exists>D' W'. pipe_parts B txt D' [] W' t \<and> pipe_failed B txt D' [] W' t))"
proof -
  have "I \<noteq> []" "end_issued s = begin_key ([] @ W)"
    using have_pending_parts [OF assms(2)] assms(2,4) by (simp_all add: pipe_parts_def)
  moreover from this obtain t where "receive (b_env B) h (begin_key ([] @ W)) s = (Inr (), t)"
    and r: "after_receive B txt (fst ` set (D @ I)) W s t"
    using receive_served [OF assms(1), of "txt" D I "[]" W s br h] assms(2,3) by auto
  ultimately have e: "bnd (gets end_issued) (receive (b_env B) h) s = (Inr (), t)"
    by (simp add: bnd_def gets_def)
  note t = e r
  have "\<exists>br'. I' = [] \<and> map fst D' = map fst (D @ I) \<and> pipe_parts B txt D' [] W t \<and> pipe_normal B txt br' [] W t"
    if "fst ` set (D @ I) \<subseteq> fst ` set D'" "pipe_parts B txt D' I' W t" "pipe_normal B txt br' I' W t" for D' I' br'
  proof -
    have "map fst (D' @ I' @ W) = map fst (D @ I @ W)"
      using t(2) that(2) assms(2) by (simp add: after_receive_def received_def pipe_parts_def)
    then have keys: "map fst D' @ map fst I' = map fst (D @ I)" by simp
    moreover have "I' = []"
    proof (rule ccontr)
      assume "I' \<noteq> []"
      then obtain k q I'' where "I' = (k, q) # I''" by (metis list.exhaust surj_pair)
      moreover have "k \<in> fst ` set (D @ I)" using arg_cong [OF keys, of set] calculation
        by auto
      ultimately show False using that(1) parts_distinct [OF that(2)] by auto
    qed
    ultimately show ?thesis using that(2,3) by auto
  qed
  note remains = this
  have r: "received s t" "\<not> m_dummy_pending t"
    and "(\<exists>D' I' br'. fst ` set (D @ I) \<subseteq> fst ` set D' \<and> pipe_parts B txt D' I' W t \<and> pipe_normal B txt br' I' W t) \<or>
      (\<exists>D' W'. pipe_parts B txt D' [] W' t \<and> pipe_failed B txt D' [] W' t)"
    using t(2) unfolding after_receive_def by blast+
  then show ?thesis
  proof (elim disjE exE conjE)
    fix D' I' br'
    assume "fst ` set (D @ I) \<subseteq> fst ` set D'" "pipe_parts B txt D' I' W t" "pipe_normal B txt br' I' W t"
    then show ?thesis using remains t(1) r by blast
  next
    fix D' W'
    assume "pipe_parts B txt D' [] W' t" "pipe_failed B txt D' [] W' t"
    then show ?thesis using t(1) r by blast
  qed
qed

lemma gathered:
  assumes "pipe_normal B txt br I W s" "m s = (Inr (), t)" "received s t"
    and "(\<exists>D' I' br'. pipe_parts B txt D' I' W t \<and> pipe_normal B txt br' I' W t) \<or>
      (\<exists>D' W'. pipe_parts B txt D' [] W' t \<and> pipe_failed B txt D' [] W' t)"
  shows "gathers B txt m s"
  using assms(4)
proof (elim disjE exE conjE)
  fix D' I' br'
  assume "pipe_parts B txt D' I' W t" "pipe_normal B txt br' I' W t"
  moreover from this have "pipe_inv B txt t" by (rule pipe_inv_normal)
  ultimately show ?thesis using assms(1-3) by (simp add: gathers_def pipe_normal_def)
next
  fix D' W'
  assume f: "pipe_parts B txt D' [] W' t" "pipe_failed B txt D' [] W' t"
  then show ?thesis using assms(2,3) pipe_inv_failed [OF f] failed_error [OF f]
    by (simp add: gathers_def)
qed

lemma gathers_receive_end:
  assumes "pipe_server B" "pipe_inv B txt s" "have_pending s"
  shows "gathers B txt (bnd (gets end_issued) (receive (b_env B) h)) s"
  using assms(2)
proof (cases rule: pipe_inv_cases)
  case (normal D I W br)
  obtain t where t: "bnd (gets end_issued) (receive (b_env B) h) s = (Inr (), t)" "received s t"
     "(\<exists>D' I' br'. pipe_parts B txt D' I' W t \<and> pipe_normal B txt br' I' W t) \<or>
      (\<exists>D' W'. pipe_parts B txt D' [] W' t \<and> pipe_failed B txt D' [] W' t)"
    using receive_end [OF assms(1) normal assms(3), of h] by blast
  from t(3) show ?thesis by (rule gathered [of B "txt" br I W s "bnd (gets end_issued) (receive (b_env B) h)" t, OF normal(2) t(1,2)])
next
  case (failed D W)
  then show ?thesis using have_pending_parts [OF failed(1)] assms(3) by simp
qed

lemma gathers_receive_if_available:
  assumes "pipe_server B" "pipe_inv B txt s"
  shows "gathers B txt (receive_if_available (b_env B) h) s"
  using assms(2)
proof (cases rule: pipe_inv_cases)
  case (normal D I W br)
  obtain t where t: "receive_if_available (b_env B) h s = (Inr (), t)" "received s t"
    "(\<exists>D' I' br'. pipe_parts B txt D' I' W t \<and> pipe_normal B txt br' I' W t) \<or>
     (\<exists>D' W'. pipe_parts B txt D' [] W' t \<and> pipe_failed B txt D' [] W' t)"
    using receive_if_available_served [OF assms(1) normal, of h] by blast
  from t(3) show ?thesis by (rule gathered [of B "txt" br I W s "receive_if_available (b_env B) h" t, OF normal(2) t(1,2)])
next
  case (failed D W)
  obtain t where t: "receive_if_available (b_env B) h s = (Inr (), t)" "received s t"
    "pipe_parts B txt D [] W t" "pipe_failed B txt D [] W t"
    using receive_if_available_failed [OF assms(1) failed, of h] by blast
  then show ?thesis using pipe_inv_failed [OF t(3,4)] failed_error [OF t(3,4)] by (simp add: gathers_def)
qed

text \<open>\<open>issue\<close> is called when nothing is pending and something is waiting.\<close>

lemma served_issue:
  assumes "pipe_server B" "pipe_inv B txt s" "\<not> have_pending s" "m_error s = qid_limit \<Longrightarrow> m_num_waiting s \<noteq> 0"
  shows "served B txt (issue (b_env B)) s"
  using assms(2)
proof (cases rule: pipe_inv_cases)
  case (normal D I W br)
  have I: "I = []" using have_pending_parts [OF normal(1)] assms(3) by simp
  have W: "W \<noteq> []" using normal(2) assms(4) by (auto simp: pipe_normal_def)
  have "m_error s = qid_limit" using normal(2) by (simp add: pipe_normal_def)
  then show ?thesis
    using issue_normal [OF assms(1) normal [unfolded I] W] unfolding served_def pipe_inv_def by blast
next
  case (failed D W)
  obtain t where t: "issue (b_env B) s = (Inr (), t)" "received s t" "pipe_parts B txt D [] W t" "pipe_failed B txt D [] W t"
    using issue_failed [OF assms(1) failed] by blast
  then show ?thesis using pipe_inv_failed [OF t(3,4)] failed_error [OF t(3,4)] by (simp add: served_def)
qed

text \<open>The steps that the operations share: receive what is pending, then issue what waits.\<close>

lemma gathers_pending:
  assumes "pipe_server B" "pipe_inv B txt s"
  shows "gathers B txt (cond have_pending (receive_if_available (b_env B) h) skip) s"
    "gathers B txt (cond have_pending (bnd (gets end_issued) (receive (b_env B) h)) skip) s"
  using gathers_receive_if_available [OF assms] gathers_receive_end [OF assms] gathers_skip [OF assms(2)]
  by (auto intro: gathers_cond)

lemma served_resume:
  assumes "pipe_server B" "pipe_inv B txt s"
  shows "served B txt (resume (b_env B) h) s"
  unfolding resume_def
proof (rule gathers_seq [OF gathers_pending(1) [OF assms]])
  fix t :: "('a, 'b) pipe_scheme"
  assume t: "pipe_inv B txt t"
  show "served B txt (cond (\<lambda>s. \<not> have_pending s \<and> m_num_waiting s \<noteq> 0)
      (seq (issue (b_env B)) (receive_if_available (b_env B) h)) skip) t"
  proof (rule served_cond)
    assume "\<not> have_pending t \<and> m_num_waiting t \<noteq> 0"
    then have "served B txt (issue (b_env B)) t" using served_issue [OF assms(1) t] by simp
    then show "served B txt (seq (issue (b_env B)) (receive_if_available (b_env B) h)) t"
      by (rule served_seq) (rule gathers_served [OF gathers_receive_if_available [OF assms(1)]])
  qed (rule served_skip [OF t])
qed

end
