(* ===== verification/Pipeline_Spec.thy ===== *)
theory Pipeline_Spec
  imports Pipeline_Facts
begin

text \<open>
  The interface of a pipeline against its specification: an abstract pipeline that knows the texts
  inserted and the numbers outstanding, and answers each from the text under it.
\<close>

section \<open>Inserting\<close>

lemma omap_put_last:
  assumes "\<forall>j \<in> fst ` set m. j < (k :: int)"
  shows "omap_put (<) k v m = m @ [(k, v)]"
  using assms by (induction m) auto

lemma open_frame [simp]:
  "is_open env (s\<lparr>m_Focus := x\<rparr>) = is_open env s"
  "is_open env (s\<lparr>f_registered := b\<rparr>) = is_open env s"
  "is_open env (s\<lparr>m_q_id := i\<rparr>) = is_open env s"
  "is_open env (s\<lparr>m_queries := m\<rparr>) = is_open env s"
  "is_open env (s\<lparr>first_issued := it\<rparr>) = is_open env s"
  "is_open env (s\<lparr>end_issued := it\<rparr>) = is_open env s"
  "is_open env (s\<lparr>m_num_waiting := i\<rparr>) = is_open env s"
  "is_open env (s\<lparr>m_retain := i\<rparr>) = is_open env s"
  "is_open env (s\<lparr>m_error := i\<rparr>) = is_open env s"
  "is_open env (s\<lparr>m_dummy_pending := b\<rparr>) = is_open env s"
  by (simp_all add: is_open_def Status_def)

lemma pipe_inv_frame:
  assumes "pipe_inv B txt s" "is_open (b_env B) t" "focus_wf t"
    and eq: "m_Conn t = m_Conn s" "m_queries t = m_queries s" "first_issued t = first_issued s"
      "end_issued t = end_issued s" "m_q_id t = m_q_id s" "m_error t = m_error s"
      "m_num_waiting t = m_num_waiting s" "m_dummy_pending t = m_dummy_pending s" "world t = world s"
  shows "pipe_inv B txt t"
proof -
  have p: "pipe_parts B txt D I W t" if "pipe_parts B txt D I W s" for D I W
    using that assms(2,3) unfolding pipe_parts_def eq by blast
  have f: "pipe_normal B txt br I W t = pipe_normal B txt br I W s"
    "pipe_failed B txt D I W t = pipe_failed B txt D I W s" for br D I W
    by (simp_all add: pipe_normal_def pipe_failed_def idle_queue_def eq)
  obtain D I W br where "pipe_parts B txt D I W s" "pipe_normal B txt br I W s \<or> pipe_failed B txt D I W s"
    using assms(1) unfolding pipe_inv_def by blast
  then show ?thesis unfolding pipe_inv_def f [symmetric] using p by blast
qed

lemma pipe_inv_open: "pipe_inv B txt s \<Longrightarrow> is_open (b_env B) s"
  unfolding pipe_inv_def pipe_parts_def by blast

lemma pipe_inv_focus:
  assumes "pipe_inv B txt s" "t = s\<lparr>m_Focus := (if b then Some (this_focus s) else None), f_registered := b\<rparr>"
  shows "pipe_inv B txt t"
  using pipe_inv_open [OF assms(1)] unfolding assms(2)
  by (intro pipe_inv_frame [OF assms(1)]) (simp_all add: focus_wf_def)

lemma pipe_inv_wf: "pipe_inv B txt s \<Longrightarrow> focus_wf s"
  unfolding pipe_inv_def pipe_parts_def by blast

text \<open>What the operations around a query leave alone.\<close>

definition kept :: "('w, 'z) pipe_scheme \<Rightarrow> ('w, 'z) pipe_scheme \<Rightarrow> bool" where
  "kept s t \<longleftrightarrow> map fst (m_queries t) = map fst (m_queries s) \<and> m_q_id t = m_q_id s \<and> m_retain t = m_retain s \<and>
     (m_error t = qid_limit \<longrightarrow> m_error s = qid_limit)"

lemma kept_trans: "kept s t \<Longrightarrow> kept t u \<Longrightarrow> kept s u"
  by (simp add: kept_def)

lemma received_kept: "received s t \<Longrightarrow> m_error t = qid_limit \<longrightarrow> m_error s = qid_limit \<Longrightarrow> kept s t"
  by (simp add: received_def kept_def)

lemma attach_served:
  assumes "pipe_inv B txt s"
  shows "\<exists>t. attach s = (Inr (), t) \<and> pipe_inv B txt t \<and> kept s t"
proof (cases "f_registered s")
  case False
  then have "attach s = (Inr (), s\<lparr>m_Focus := Some (this_focus s), f_registered := True\<rparr>)"
    using register_me_free [OF pipe_inv_wf [OF assms]] by (simp add: attach_def cond_def)
  then show ?thesis using pipe_inv_focus [OF assms, of _ True] by (simp add: kept_def)
qed (use assms in \<open>simp add: attach_def cond_def skip_def ret_def kept_def\<close>)

lemma detach_served:
  assumes "pipe_inv B txt s"
  shows "\<exists>t. detach env s = (Inr (), t) \<and> pipe_inv B txt t \<and> kept s t"
proof (cases "f_registered s")
  case True
  then have "detach env s = (Inr (), s\<lparr>m_Focus := None, f_registered := False\<rparr>)"
    using unregister_me_held [OF pipe_inv_wf [OF assms]] by (simp add: detach_def cond_def)
  then show ?thesis using pipe_inv_focus [OF assms, of _ False] by (simp add: kept_def)
qed (use assms in \<open>simp add: detach_def cond_def skip_def ret_def kept_def\<close>)

lemma parts_insert:
  assumes "pipe_parts B txt D I W s" "m_q_id s + 1 < qid_limit" "b_single B (txt (m_q_id s + 1))"
    and "n = m_q_id s + 1" "q = \<lparr>q_text = txt n, q_res = empty_result\<rparr>"
    and "t = s\<lparr>m_q_id := n, m_queries := m_queries s @ [(n, q)],
      first_issued := (if first_issued s = None then Some n else first_issued s),
      end_issued := (if end_issued s = None then Some n else end_issued s),
      m_num_waiting := m_num_waiting s + 1\<rparr>"
  shows "pipe_parts B txt D I (W @ [(n, q)]) t"
proof -
  have e: "begin_key (X @ [(n, q)]) = (if begin_key X = None then Some n else begin_key X)" for X :: qmap
    by (cases X rule: begin_key.cases) auto
  have s: "is_open (b_env B) s" "m_Conn s = b_handle B" "focus_wf s" "m_queries s = D @ I @ W"
    "first_issued s = begin_key (I @ W)" "end_issued s = begin_key W" "0 \<le> m_q_id s"
    "sorted_wrt (<) (map fst (D @ I @ W))"
    and k: "\<forall>(k, q) \<in> set (D @ I @ W). 0 < k \<and> k \<le> m_q_id s \<and> q_text q = txt k \<and> b_single B (txt k)"
    and d: "\<forall>(k, q) \<in> set D. m_data (q_res q) = Some (b_answer B (txt k))"
    and r: "\<forall>(k, q) \<in> set (I @ W). q_res q = empty_result"
    using assms(1) unfolding pipe_parts_def by blast+
  have "\<forall>j \<in> set (map fst (D @ I @ W)). j < n" using k assms(4) by fastforce
  then have sw: "sorted_wrt (<) (map fst (D @ I @ W @ [(n, q)]))"
    using s(8) by (auto simp: sorted_wrt_append)
  have "\<forall>(k, q) \<in> set (D @ I @ W @ [(n, q)]). 0 < k \<and> k \<le> n \<and> q_text q = txt k \<and> b_single B (txt k)"
  proof -
    have "\<forall>(k, q) \<in> set (D @ I @ W). 0 < k \<and> k \<le> n \<and> q_text q = txt k \<and> b_single B (txt k)"
      using k unfolding assms(4) by fastforce
    moreover have "0 < n" "b_single B (txt n)" using s(7) assms(3) by (simp_all add: assms(4))
    ultimately show ?thesis by (simp add: assms(5))
  qed
  moreover have "\<forall>(k, q) \<in> set (I @ W @ [(n, q)]). q_res q = empty_result" using r assms(5) by simp
  moreover have "m_queries t = D @ I @ W @ [(n, q)]" "first_issued t = begin_key (I @ W @ [(n, q)])"
    "end_issued t = begin_key (W @ [(n, q)])" "m_q_id t = n"
    using s(4-6) e [of W] e [of "I @ W"] unfolding assms(6) by simp_all
  moreover have "is_open (b_env B) t" "m_Conn t = b_handle B" "focus_wf t"
    using s(1-3) unfolding assms(6) by (simp_all add: focus_wf_def)
  moreover have "0 \<le> n" "n < qid_limit" using s(7) assms(2,4) by simp_all
  ultimately show ?thesis using sw d unfolding pipe_parts_def by blast
qed

lemma inv_insert:
  assumes "pipe_inv B txt s" "m_q_id s + 1 < qid_limit" "b_single B (txt (m_q_id s + 1))"
    and "n = m_q_id s + 1" "q = \<lparr>q_text = txt n, q_res = empty_result\<rparr>"
    and "t = s\<lparr>m_q_id := n, m_queries := m_queries s @ [(n, q)],
      first_issued := (if first_issued s = None then Some n else first_issued s),
      end_issued := (if end_issued s = None then Some n else end_issued s),
      m_num_waiting := m_num_waiting s + 1\<rparr>"
  shows "pipe_inv B txt t \<and> (m_error t = qid_limit \<longrightarrow> 0 < m_num_waiting t)"
  using assms(1)
proof (cases rule: pipe_inv_cases)
  case (normal D I W br)
  have "pipe_normal B txt br I (W @ [(n, q)]) t"
    using normal(2) assms(6) by (auto simp: pipe_normal_def idle_queue_def)
  moreover from this have "pipe_inv B txt t" by (rule pipe_inv_normal [OF parts_insert [OF normal(1) assms(2-)]])
  ultimately show ?thesis by (simp add: pipe_normal_def)
next
  case (failed D W)
  have "pipe_failed B txt D [] (W @ [(n, q)]) t"
    using failed(2) assms(4,6) by (auto simp: pipe_failed_def idle_queue_def)
  then show ?thesis
    using pipe_inv_failed [OF parts_insert [OF failed(1) assms(2-)]]
      failed_error [OF parts_insert [OF failed(1) assms(2-)]] by (simp del: append_assoc)
qed

lemma servedE:
  assumes "served B txt m s"
  obtains t where "m s = (Inr (), t)" "received s t" "pipe_inv B txt t" "m_error t = qid_limit \<longrightarrow> m_error s = qid_limit"
  using assms unfolding served_def by blast

lemma insert_keys: "pipe_inv B txt s \<Longrightarrow> \<forall>j \<in> fst ` set (m_queries s). 0 < j \<and> j \<le> m_q_id s"
  unfolding pipe_inv_def pipe_parts_def by fastforce

lemma served_insert_rest:
  assumes "pipe_server B" "pipe_inv B txt s" "m_error s = qid_limit \<Longrightarrow> 0 < m_num_waiting s"
  shows "served B txt (cond (\<lambda>s. m_num_waiting s > m_retain s)
    (seq (cond have_pending (receive_if_available (b_env B) h) skip)
         (cond (\<lambda>s. \<not> have_pending s) (issue (b_env B)) skip)) skip) s"
proof (rule served_cond)
  show "served B txt (seq (cond have_pending (receive_if_available (b_env B) h) skip)
         (cond (\<lambda>s. \<not> have_pending s) (issue (b_env B)) skip)) s"
  proof (rule gathers_seq [OF gathers_pending(1) [OF assms(1,2)]])
    fix t :: "('a, 'b) pipe_scheme"
    assume t: "pipe_inv B txt t" "m_error t = qid_limit \<Longrightarrow> m_error s = qid_limit \<and> m_num_waiting t = m_num_waiting s"
    show "served B txt (cond (\<lambda>s. \<not> have_pending s) (issue (b_env B)) skip) t"
      using served_issue [OF assms(1) t(1)] served_skip [OF t(1)] t(2) assms(3) by (force intro: served_cond)
  qed
qed (rule served_skip [OF assms(2)])

lemma insert_served:
  assumes "pipe_server B" "pipe_inv B txt s" "m_q_id s + 1 < qid_limit"
    and "q = txt (m_q_id s + 1)" "b_single B q"
  shows "\<exists>t. pipe_insert (b_env B) h q s = (Inr (m_q_id s + 1), t) \<and> pipe_inv B txt t \<and>
    map fst (m_queries t) = map fst (m_queries s) @ [m_q_id s + 1] \<and> m_q_id t = m_q_id s + 1 \<and> m_retain t = m_retain s \<and>
    (m_error t = qid_limit \<longrightarrow> m_error s = qid_limit)"
proof -
  obtain a where a: "attach s = (Inr (), a)" "pipe_inv B txt a" "kept s a"
    using attach_served [OF assms(2)] by blast
  define n where "n = m_q_id a + 1"
  define x where "x = \<lparr>q_text = txt n, q_res = empty_result\<rparr>"
  define t where "t = a\<lparr>m_q_id := n, m_queries := m_queries a @ [(n, x)],
      first_issued := (if first_issued a = None then Some n else first_issued a),
      end_issued := (if end_issued a = None then Some n else end_issued a),
      m_num_waiting := m_num_waiting a + 1\<rparr>"
  have k: "m_q_id a = m_q_id s" "map fst (m_queries a) = map fst (m_queries s)" "m_retain a = m_retain s"
    using a(3) by (simp_all add: kept_def)
  have inv: "pipe_inv B txt t" "m_error t = qid_limit \<longrightarrow> 0 < m_num_waiting t"
    using inv_insert [OF a(2) _ _ n_def x_def t_def] assms(3-5) k(1) by simp_all
  have put: "omap_put (<) n x (m_queries a) = m_queries a @ [(n, x)]"
    using insert_keys [OF a(2)] by (intro omap_put_last) (force simp: n_def)
  have fe: "first_issued a = None \<longrightarrow> end_issued a = None"
    using a(2) by (cases rule: pipe_inv_cases) (auto simp: pipe_parts_def elim!: begin_key.elims)
  obtain u where u: "cond (\<lambda>s. m_num_waiting s > m_retain s)
    (seq (cond have_pending (receive_if_available (b_env B) h) skip)
         (cond (\<lambda>s. \<not> have_pending s) (issue (b_env B)) skip)) skip t = (Inr (), u)" "received t u" "pipe_inv B txt u"
    "m_error u = qid_limit \<longrightarrow> m_error t = qid_limit"
    using served_insert_rest [OF assms(1) inv(1)] inv(2) by (blast elim: servedE)
  let ?b = "a\<lparr>m_q_id := n\<rparr>"
  let ?c = "a\<lparr>m_q_id := n, m_queries := m_queries a @ [(n, x)]\<rparr>"
  have g: "generate_id a = (Inr n, ?b)"
    using assms(3) k(1) by (simp add: generate_id_def cond_def seq_def bnd_def modify_def gets_def n_def)
  have m: "modify (\<lambda>s. s\<lparr>m_queries := omap_put (<) n \<lparr>q_text = q, q_res = empty_result\<rparr> (m_queries s)\<rparr>) ?b = (Inr (), ?c)"
    using put assms(4) k(1) by (simp add: modify_def x_def n_def)
  have c: "cond (\<lambda>s. end_issued s = None)
     (modify (\<lambda>s. s\<lparr>end_issued := Some n, first_issued := (if first_issued s = None then Some n else first_issued s)\<rparr>))
     skip ?c = (Inr (), t\<lparr>m_num_waiting := m_num_waiting a\<rparr>)"
    using fe by (cases "end_issued a"; cases "first_issued a") (simp_all add: cond_def modify_def skip_def ret_def t_def)
  have w: "modify (\<lambda>s. s\<lparr>m_num_waiting := m_num_waiting s + 1\<rparr>) (t\<lparr>m_num_waiting := m_num_waiting a\<rparr>) = (Inr (), t)"
    by (simp add: modify_def t_def)
  have "pipe_insert (b_env B) h q s = (Inr n, u)"
    unfolding pipe_insert_def
    by (rule seqI, rule a(1), rule bndI, rule g, rule seqI, rule m, rule seqI, rule c, rule seqI, rule w,
        rule seqI, rule u(1)) (simp add: ret_def)
  then show ?thesis using u(2-4) k a(3) by (simp add: received_def t_def n_def kept_def)
qed

section \<open>Completing, flushing, retaining\<close>

lemma settle:
  assumes "pipe_server B" "pipe_inv B txt s"
  shows "\<exists>t D W. cond have_pending (bnd (gets end_issued) (receive (b_env B) h)) skip s = (Inr (), t) \<and>
    received s t \<and> pipe_parts B txt D [] W t \<and> ((\<exists>br. pipe_normal B txt br [] W t) \<or> pipe_failed B txt D [] W t) \<and>
    (m_error t = qid_limit \<longrightarrow> m_error s = qid_limit)"
  using assms(2)
proof (cases rule: pipe_inv_cases)
  case (normal D I W br)
  show ?thesis
  proof (cases "have_pending s")
    case True
    moreover have "m_error s = qid_limit" using normal(2) by (simp add: pipe_normal_def)
    ultimately show ?thesis using receive_end [OF assms(1) normal True, of h] by (simp add: cond_def) blast
  next
    case False
    then have "I = []" using have_pending_parts [OF normal(1)] by simp
    then show ?thesis using False normal by (auto simp: cond_def skip_def ret_def)
  qed
next
  case (failed D W)
  then show ?thesis using have_pending_parts [OF failed(1)] by (auto simp: cond_def skip_def ret_def)
qed

lemma issue_receive:
  assumes "pipe_server B" "pipe_parts B txt D [] W s" "pipe_normal B txt br [] W s" "m_num_waiting s \<noteq> 0"
  shows "served B txt (seq (issue (b_env B)) (receive (b_env B) h None)) s"
proof -
  have W: "W \<noteq> []" using assms(3,4) by (auto simp: pipe_normal_def)
  obtain t where t: "issue (b_env B) s = (Inr (), t)" "received s t" "pipe_parts B txt D W [] t"
    "pipe_normal B txt False W [] t"
    using issue_normal [OF assms(1-3) W] by blast
  obtain u where u: "receive (b_env B) h None t = (Inr (), u)" "received t u \<and> pipe_inv B txt u"
    using receive_served [OF assms(1), of "txt" D W "[]" "[]" t False h] t(3,4) W after_receive_inv by fastforce
  moreover have "m_error s = qid_limit" using assms(3) by (simp add: pipe_normal_def)
  ultimately show ?thesis using t(1,2) received_trans unfolding served_def seq_def bnd_def by fastforce
qed

lemma complete_served:
  assumes "pipe_server B" "pipe_inv B txt s"
  shows "\<exists>t. complete (b_env B) h s = (Inr (), t) \<and> pipe_inv B txt t \<and> kept s t"
proof -
  obtain t D W where t: "cond have_pending (bnd (gets end_issued) (receive (b_env B) h)) skip s = (Inr (), t)"
    "received s t" "pipe_parts B txt D [] W t" "(\<exists>br. pipe_normal B txt br [] W t) \<or> pipe_failed B txt D [] W t"
    "m_error t = qid_limit \<longrightarrow> m_error s = qid_limit"
    using settle [OF assms, of h] by blast
  have inv: "pipe_inv B txt t" using t(3,4) unfolding pipe_inv_def by blast
  have "served B txt (cond (\<lambda>s. m_num_waiting s \<noteq> 0 \<and> m_error s = qid_limit)
      (seq (issue (b_env B)) (receive (b_env B) h None)) skip) t"
  proof (rule served_cond)
    assume c: "m_num_waiting t \<noteq> 0 \<and> m_error t = qid_limit"
    then obtain br where "pipe_normal B txt br [] W t" using t(4) failed_error [OF t(3)] by auto
    then show "served B txt (seq (issue (b_env B)) (receive (b_env B) h None)) t"
      using issue_receive [OF assms(1) t(3)] c by blast
  qed (rule served_skip [OF inv])
  then obtain u where u: "cond (\<lambda>s. m_num_waiting s \<noteq> 0 \<and> m_error s = qid_limit)
      (seq (issue (b_env B)) (receive (b_env B) h None)) skip t = (Inr (), u)" "received t u" "pipe_inv B txt u"
      "m_error u = qid_limit \<longrightarrow> m_error t = qid_limit"
    by (rule servedE)
  obtain v where v: "detach (b_env B) u = (Inr (), v)" "pipe_inv B txt v" "kept u v"
    using detach_served [OF u(3)] by blast
  have "complete (b_env B) h s = (Inr (), v)"
    unfolding complete_def by (rule seqI, rule t(1), rule seqI, rule u(1), rule v(1))
  moreover have "kept s u" using received_kept [OF received_trans [OF t(2) u(2)]] t(5) u(4) by blast
  ultimately show ?thesis using v(2,3) kept_trans by blast
qed

lemma cleared:
  assumes "pipe_parts B txt D [] W s" "(\<exists>br. pipe_normal B txt br [] W s) \<or> pipe_failed B txt D [] W s"
    and "t = s\<lparr>first_issued := None, end_issued := None, m_num_waiting := 0, m_dummy_pending := False, m_queries := []\<rparr>"
  shows "pipe_inv B txt t"
proof -
  have p: "pipe_parts B txt [] [] [] t" using assms(1) unfolding assms(3) pipe_parts_def by (simp add: focus_wf_def)
  from assms(2) have "pipe_normal B txt False [] [] t \<or> pipe_failed B txt [] [] [] t"
    unfolding assms(3) by (auto simp: pipe_normal_def pipe_failed_def idle_queue_def)
  then show ?thesis using p unfolding pipe_inv_def by blast
qed

lemma flush_served:
  assumes "pipe_server B" "pipe_inv B txt s"
  shows "\<exists>t. flush (b_env B) h s = (Inr (), t) \<and> pipe_inv B txt t \<and> m_queries t = [] \<and>
    m_q_id t = m_q_id s \<and> m_retain t = m_retain s \<and> (m_error t = qid_limit \<longrightarrow> m_error s = qid_limit)"
proof -
  have "\<exists>t. cond (\<lambda>s. m_queries s \<noteq> []) (seq (cond have_pending (bnd (gets end_issued) (receive (b_env B) h)) skip)
      (modify (\<lambda>s. s\<lparr>first_issued := None, end_issued := None, m_num_waiting := 0, m_dummy_pending := False,
        m_queries := []\<rparr>))) skip s = (Inr (), t) \<and> pipe_inv B txt t \<and> m_queries t = [] \<and>
      m_q_id t = m_q_id s \<and> m_retain t = m_retain s \<and> (m_error t = qid_limit \<longrightarrow> m_error s = qid_limit)"
  proof (cases "m_queries s = []")
    case False
    obtain t D W where t: "cond have_pending (bnd (gets end_issued) (receive (b_env B) h)) skip s = (Inr (), t)"
      "received s t" "pipe_parts B txt D [] W t" "(\<exists>br. pipe_normal B txt br [] W t) \<or> pipe_failed B txt D [] W t"
      "m_error t = qid_limit \<longrightarrow> m_error s = qid_limit"
      using settle [OF assms, of h] by blast
    then show ?thesis using False cleared [OF t(3,4) refl]
      by (simp add: cond_def [of "\<lambda>s. m_queries s \<noteq> []"] seq_def bnd_def modify_def received_def)
  qed (use assms(2) in \<open>simp add: cond_def skip_def ret_def\<close>)
  then obtain t where t: "cond (\<lambda>s. m_queries s \<noteq> []) (seq (cond have_pending (bnd (gets end_issued) (receive (b_env B) h)) skip)
      (modify (\<lambda>s. s\<lparr>first_issued := None, end_issued := None, m_num_waiting := 0, m_dummy_pending := False,
        m_queries := []\<rparr>))) skip s = (Inr (), t)" "pipe_inv B txt t" "m_queries t = []"
      "m_q_id t = m_q_id s" "m_retain t = m_retain s" "m_error t = qid_limit \<longrightarrow> m_error s = qid_limit" by blast
  obtain v where v: "detach (b_env B) t = (Inr (), v)" "pipe_inv B txt v" "kept t v"
    using detach_served [OF t(2)] by blast
  have "flush (b_env B) h s = (Inr (), v)" unfolding flush_def by (rule seqI, rule t(1), rule v(1))
  then show ?thesis using v(2,3) t(3-6) by (simp add: kept_def)
qed

lemma pipe_inv_retain:
  assumes "pipe_inv B txt s"
  shows "pipe_inv B txt (s\<lparr>m_retain := n\<rparr>)"
  using pipe_inv_open [OF assms] pipe_inv_wf [OF assms]
  by (intro pipe_inv_frame [OF assms]) (simp_all add: focus_wf_def)

lemma retain_served:
  assumes "pipe_server B" "pipe_inv B txt s" "0 \<le> n"
  shows "\<exists>t. retain (b_env B) h n s = (Inr (m_retain s), t) \<and> pipe_inv B txt t \<and> m_retain t = n \<and>
    map fst (m_queries t) = map fst (m_queries s) \<and> m_q_id t = m_q_id s"
proof -
  let ?s = "s\<lparr>m_retain := n\<rparr>"
  have i: "pipe_inv B txt ?s" using pipe_inv_retain [OF assms(2)] .
  have "served B txt (cond (\<lambda>s. m_num_waiting s \<ge> m_retain s) (resume (b_env B) h) skip) ?s"
    using served_resume [OF assms(1) i] served_skip [OF i] by (rule served_cond)
  then obtain t where t: "cond (\<lambda>s. m_num_waiting s \<ge> m_retain s) (resume (b_env B) h) skip ?s = (Inr (), t)"
    "received ?s t" "pipe_inv B txt t" by (rule servedE)
  have "retain (b_env B) h n s = (Inr (m_retain s), t)"
    using assms(3) t(1) by (simp add: retain_def step_simps) (simp add: seq_def bnd_def ret_def)
  then show ?thesis using t(2,3) by (simp add: received_def)
qed

section \<open>Retrieving\<close>

text \<open>After the first step, the query asked for is issued, or an earlier one has failed.\<close>

definition within_reach :: "'w backend \<Rightarrow> (int \<Rightarrow> string) \<Rightarrow> int \<Rightarrow> ('w, 'z) pipe_scheme \<Rightarrow> bool" where
  "within_reach B txt k t \<longleftrightarrow>
     (\<exists>D I W br. k \<in> fst ` set (D @ I) \<and> pipe_parts B txt D I W t \<and> pipe_normal B txt br I W t) \<or>
     (\<exists>D W. k \<in> fst ` set (D @ W) \<and> pipe_parts B txt D [] W t \<and> pipe_failed B txt D [] W t)"

lemma within_normal:
  "pipe_parts B txt D I W t \<Longrightarrow> pipe_normal B txt br I W t \<Longrightarrow> k \<in> fst ` set (D @ I) \<Longrightarrow> within_reach B txt k t"
  unfolding within_reach_def by blast

lemma within_failed:
  "pipe_parts B txt D [] W t \<Longrightarrow> pipe_failed B txt D [] W t \<Longrightarrow> k \<in> fst ` set (D @ W) \<Longrightarrow> within_reach B txt k t"
  unfolding within_reach_def by blast

lemma parts_keys: "pipe_parts B txt D I W s \<Longrightarrow> map fst (m_queries s) = map fst (D @ I @ W)"
  by (simp add: pipe_parts_def)

lemma received_key:
  assumes "received s t" "k \<in> fst ` set (m_queries s)" "pipe_parts B txt D [] W t"
  shows "k \<in> fst ` set (D @ W)"
proof -
  have "map fst (D @ W) = map fst (m_queries s)"
    using assms(1) parts_keys [OF assms(3)] by (simp add: received_def)
  then have "set (map fst (D @ W)) = set (map fst (m_queries s))" by (rule arg_cong)
  then show ?thesis using assms(2) by auto
qed

text \<open>Nothing has to be issued for a query before the ones that wait.\<close>

lemma issue_up_to_nothing:
  assumes "pipe_parts B txt D I W s" "W = [] \<or> k < fst (hd W)"
    "(\<exists>br. pipe_normal B txt br I W s) \<or> I = [] \<and> pipe_failed B txt D I W s" "k \<in> fst ` set (m_queries s)"
  shows "\<exists>t. issue_up_to (b_env B) h k s = (Inr (), t) \<and> received s t \<and> within_reach B txt k t"
proof -
  have e: "end_issued s = begin_key W" "m_queries s = D @ I @ W" and sw: "sorted_wrt (<) (map fst (D @ I @ W))"
    using assms(1) by (simp_all add: pipe_parts_def)
  have "\<forall>j \<in> fst ` set W. W \<noteq> [] \<and> fst (hd W) \<le> j" using sw by (cases W) (auto simp: sorted_wrt_append)
  then have "k \<notin> fst ` set W" using assms(2) by force
  then have "k \<in> fst ` set (D @ I)" using assms(4) e(2) by auto
  then have "within_reach B txt k s"
    using assms(3) within_normal [OF assms(1)] within_failed [of B "txt" D W s k] assms(1) by (elim disjE exE conjE) auto
  moreover have "issue_up_to (b_env B) h k s = (Inr (), s)"
  proof (cases W)
    case (Cons x W')
    moreover obtain k2 q2 where "x = (k2, q2)" by (cases x)
    ultimately have "end_issued s = Some k2" "k < k2" "iter_get (Some k2) (m_queries s) = Inr (k2, q2)"
      using e assms(2) iter_at(1) [of "D @ I" k2 q2 W'] sorted_distinct_keys [OF sw] by simp_all
    then show ?thesis
      by (simp add: issue_up_to_def step_simps deref_def) (simp add: bnd_def gets_def lift_exn_def ret_def skip_def)
  qed (use e in \<open>simp add: issue_up_to_def step_simps skip_def ret_def\<close>)
  ultimately show ?thesis by auto
qed

text \<open>For one that waits, what is pending is received first; then the others are issued, if that brought no error.\<close>

lemma issue_up_to_waiting:
  assumes "pipe_server B" "pipe_inv B txt s" "pipe_parts B txt D I ((k2, q2) # W) s" "pipe_normal B txt br I ((k2, q2) # W) s"
    "\<not> k < k2" "k \<in> fst ` set (m_queries s)"
  shows "\<exists>t. issue_up_to (b_env B) h k s = (Inr (), t) \<and> received s t \<and> within_reach B txt k t"
proof -
  have sw: "sorted_wrt (<) (map fst (D @ I @ (k2, q2) # W))" and e: "end_issued s = Some k2" "m_queries s = D @ I @ (k2, q2) # W"
    using assms(3) by (simp_all add: pipe_parts_def)
  have g: "iter_get (Some k2) (m_queries s) = Inr (k2, q2)"
    using iter_at(1) [of "D @ I" k2 q2 W] sorted_distinct_keys [OF sw] e(2) by simp
  have iu: "issue_up_to (b_env B) h k s = seq (cond have_pending (bnd (gets end_issued) (receive (b_env B) h)) skip)
      (cond (\<lambda>s. m_error s = qid_limit) (issue (b_env B)) skip) s"
    using e(1) g assms(5) by (simp add: issue_up_to_def step_simps deref_def) (simp add: bnd_def gets_def lift_exn_def ret_def)
  obtain t D' W' where t: "cond have_pending (bnd (gets end_issued) (receive (b_env B) h)) skip s = (Inr (), t)"
    "received s t" "pipe_parts B txt D' [] W' t" "(\<exists>br. pipe_normal B txt br [] W' t) \<or> pipe_failed B txt D' [] W' t"
    using settle [OF assms(1,2), of h] by blast
  have kt: "k \<in> fst ` set (D' @ W')" using received_key [OF t(2) assms(6) t(3)] .
  show ?thesis
  proof (cases "m_error t = qid_limit")
    case True
    then obtain br' where n: "pipe_normal B txt br' [] W' t" using t(4) failed_error [OF t(3)] by auto
    have "m_num_waiting t = m_num_waiting s"
      using gathers_pending(2) [OF assms(1,2), of h] t(1) True by (simp add: gathers_def)
    then have "W' \<noteq> []" using assms(4) n by (auto simp: pipe_normal_def)
    then obtain u where u: "issue (b_env B) t = (Inr (), u)" "received t u" "pipe_parts B txt D' W' [] u"
      "pipe_normal B txt False W' [] u"
      using issue_normal [OF assms(1) t(3) n] by blast
    have "issue_up_to (b_env B) h k s = (Inr (), u)"
      unfolding iu by (rule seqI, rule t(1)) (simp add: cond_def True u(1))
    then show ?thesis using received_trans [OF t(2) u(2)] within_normal [OF u(3,4) kt] by blast
  next
    case False
    then have "pipe_failed B txt D' [] W' t" using t(4) by (auto simp: pipe_normal_def)
    then have "within_reach B txt k t" using within_failed [OF t(3) _ kt] by blast
    moreover have "issue_up_to (b_env B) h k s = (Inr (), t)"
      unfolding iu by (rule seqI, rule t(1)) (simp add: cond_def False skip_def ret_def)
    ultimately show ?thesis using t(2) by blast
  qed
qed

lemma issue_up_to_served:
  assumes "pipe_server B" "pipe_inv B txt s" "k \<in> fst ` set (m_queries s)" "k < m_error s"
  shows "\<exists>t. issue_up_to (b_env B) h k s = (Inr (), t) \<and> received s t \<and> within_reach B txt k t"
  using assms(2)
proof (cases rule: pipe_inv_cases)
  case (failed D W)
  have "k < fst x" if "x \<in> set W" for x
    using failed(2) that assms(4) by (cases x) (fastforce simp: pipe_failed_def)
  then have "W = [] \<or> k < fst (hd W)" by (cases W) auto
  then show ?thesis using issue_up_to_nothing [OF failed(1) _ _ assms(3)] failed(2) by blast
next
  case (normal D I W br)
  show ?thesis
  proof (cases "W = [] \<or> k < fst (hd W)")
    case True
    then show ?thesis using issue_up_to_nothing [OF normal(1) _ _ assms(3)] normal(2) by blast
  next
    case False
    then obtain k2 q2 W' where W: "W = (k2, q2) # W'" "\<not> k < k2"
      by (metis list.exhaust list.sel(1) prod.exhaust_sel)
    then show ?thesis using issue_up_to_waiting [OF assms(1,2) _ _ W(2) assms(3)] normal by blast
  qed
qed

text \<open>After the second step the query has its result, or an earlier one has failed.\<close>

definition answered :: "'w backend \<Rightarrow> (int \<Rightarrow> string) \<Rightarrow> int \<Rightarrow> ('w, 'z) pipe_scheme \<Rightarrow> bool" where
  "answered B txt k t \<longleftrightarrow> (\<exists>D I W br. pipe_parts B txt D I W t \<and>
     (pipe_normal B txt br I W t \<and> k \<in> fst ` set D \<or> pipe_failed B txt D I W t \<and> k \<in> fst ` set (D @ W)))"

lemma answered_normal:
  "pipe_parts B txt D I W t \<Longrightarrow> pipe_normal B txt br I W t \<Longrightarrow> k \<in> fst ` set D \<Longrightarrow> answered B txt k t"
  unfolding answered_def by blast

lemma answered_failed:
  "pipe_parts B txt D [] W t \<Longrightarrow> pipe_failed B txt D [] W t \<Longrightarrow> k \<in> fst ` set (D @ W) \<Longrightarrow> answered B txt k t"
  unfolding answered_def by blast

lemma answered_outcome:
  assumes "received s t" "k \<in> fst ` set (m_queries s)"
    and "(\<exists>D I br. k \<in> fst ` set D \<and> pipe_parts B txt D I W t \<and> pipe_normal B txt br I W t) \<or>
      (\<exists>D W'. pipe_parts B txt D [] W' t \<and> pipe_failed B txt D [] W' t)"
  shows "answered B txt k t"
  using assms(3)
proof (elim disjE exE conjE)
  fix D W'
  assume p: "pipe_parts B txt D [] W' t" "pipe_failed B txt D [] W' t"
  then have "k \<in> fst ` set (D @ W')"
    using received_key [OF assms(1,2)] by blast
  then show ?thesis by (rule answered_failed [OF p])
qed (rule answered_normal)

text \<open>Up to a query that has been issued, or for one that was answered before.\<close>

lemma receive_through_issued:
  assumes "pipe_server B" "pipe_parts B txt D I W s" "pipe_normal B txt br I W s" "k \<in> fst ` set I"
  shows "\<exists>t. bnd (bnd (gets (\<lambda>s. iter_next (Some k) (m_queries s))) lift_exn) (receive (b_env B) h) s = (Inr (), t) \<and>
    received s t \<and> answered B txt k t"
proof -
  have m: "m_queries s = D @ I @ W" and sw: "sorted_wrt (<) (map fst (D @ I @ W))" using assms(2) by (simp_all add: pipe_parts_def)
  have ks: "k \<in> fst ` set (m_queries s)" using assms(4) m by auto
  obtain q where "(k, q) \<in> set I" using assms(4) by auto
  then obtain Ia I2 where I: "I = (Ia @ [(k, q)]) @ I2" using split_list [of "(k, q)" I] by force
  have n: "iter_next (Some k) (m_queries s) = Inr (begin_key (I2 @ W))"
    using iter_at(2) [of "D @ Ia" k q "I2 @ W"] sorted_distinct_keys [OF sw] m I by simp
  obtain t where t: "receive (b_env B) h (begin_key (I2 @ W)) s = (Inr (), t)"
    "after_receive B txt (fst ` set (D @ Ia @ [(k, q)])) W s t"
    using receive_served [OF assms(1) assms(2,3) [unfolded I], of h] by blast
  have r: "received s t" using t(2) by (simp add: after_receive_def)
  have "answered B txt k t"
    by (rule answered_outcome [OF r ks, of B "txt" W]) (use t(2) in \<open>auto simp: after_receive_def\<close>)
  then show ?thesis using n t(1) r by (simp add: step_simps bnd_def gets_def lift_exn_def ret_def)
qed

lemma receive_for_answered:
  assumes "pipe_server B" "pipe_parts B txt D I W s" "pipe_normal B txt br I W s" "k \<in> fst ` set D"
  shows "\<exists>t. receive_if_available (b_env B) h s = (Inr (), t) \<and> received s t \<and> answered B txt k t"
proof -
  obtain t where t: "receive_if_available (b_env B) h s = (Inr (), t)" "received s t"
    "(\<exists>D' I' br'. fst ` set D \<subseteq> fst ` set D' \<and> pipe_parts B txt D' I' W t \<and> pipe_normal B txt br' I' W t) \<or>
     (\<exists>D' W'. pipe_parts B txt D' [] W' t \<and> pipe_failed B txt D' [] W' t)"
    using receive_if_available_served [OF assms(1-3), of h] by blast
  have "k \<in> fst ` set (m_queries s)" using assms(2,4) by (auto simp: pipe_parts_def)
  then have "answered B txt k t" using answered_outcome [OF t(2) _ , of k B "txt" W] t(3) assms(4) by blast
  then show ?thesis using t(1,2) by blast
qed

lemma receive_up_to_served:
  assumes "pipe_server B" "within_reach B txt k s"
  shows "\<exists>t. receive_up_to (b_env B) h k s = (Inr (), t) \<and> received s t \<and> answered B txt k t"
  using assms(2) unfolding within_reach_def
proof (elim disjE exE conjE)
  fix D W
  assume p: "k \<in> fst ` set (D @ W)" "pipe_parts B txt D [] W s" "pipe_failed B txt D [] W s"
  then have "receive_up_to (b_env B) h k s = (Inr (), s)"
    using have_pending_parts [OF p(2)] by (simp add: receive_up_to_def cond_def skip_def ret_def)
  then show ?thesis using answered_failed [OF p(2,3,1)] by auto
next
  fix D I W br
  assume p: "k \<in> fst ` set (D @ I)" "pipe_parts B txt D I W s" "pipe_normal B txt br I W s"
  have m: "m_queries s = D @ I @ W" and f: "first_issued s = begin_key (I @ W)"
    and sw: "sorted_wrt (<) (map fst (D @ I @ W))" using p(2) by (simp_all add: pipe_parts_def)
  show ?thesis
  proof (cases I)
    case Nil
    then have "receive_up_to (b_env B) h k s = (Inr (), s)"
      using have_pending_parts [OF p(2)] by (simp add: receive_up_to_def cond_def skip_def ret_def)
    then show ?thesis using answered_normal [OF p(2,3)] p(1) Nil by auto
  next
    case (Cons x I')
    obtain k1 q1 where x: "x = (k1, q1)" by (cases x)
    have g: "iter_get (first_issued s) (m_queries s) = Inr (k1, q1)"
      using iter_at(1) [of D k1 q1 "I' @ W"] sorted_distinct_keys [OF sw] f m Cons x by simp
    have hp: "have_pending s" using have_pending_parts [OF p(2)] Cons by simp
    have r: "receive_up_to (b_env B) h k s = (if k \<ge> k1 then
        bnd (bnd (gets (\<lambda>s. iter_next (Some k) (m_queries s))) lift_exn) (receive (b_env B) h) s
      else receive_if_available (b_env B) h s)"
      using hp g by (simp add: receive_up_to_def cond_def deref_def step_simps)
        (simp add: bnd_def gets_def lift_exn_def ret_def)
    have "(\<forall>j \<in> fst ` set D. j < k1) \<and> (\<forall>j \<in> fst ` set I. k1 \<le> j)"
      using sw unfolding Cons x by (auto simp: sorted_wrt_append less_imp_le)
    then have "k \<in> fst ` set (if k \<ge> k1 then I else D)" using p(1) by force
    then show ?thesis
      unfolding r using receive_through_issued [OF assms(1) p(2,3)] receive_for_answered [OF assms(1) p(2,3)]
      by (cases "k \<ge> k1") simp_all
  qed
qed

lemma issue_rest_served:
  assumes "pipe_server B" "answered B txt k s"
  shows "\<exists>t. cond (\<lambda>s. m_num_waiting s \<noteq> 0 \<and> \<not> have_pending s \<and> m_error s = qid_limit) (issue (b_env B)) skip s = (Inr (), t) \<and>
    received s t \<and> answered B txt k t \<and> m_error t = m_error s"
proof (cases "m_num_waiting s \<noteq> 0 \<and> \<not> have_pending s \<and> m_error s = qid_limit")
  case True
  obtain D I W br where p: "pipe_parts B txt D I W s" "pipe_normal B txt br I W s \<and> k \<in> fst ` set D \<or>
      pipe_failed B txt D I W s \<and> k \<in> fst ` set (D @ W)"
    using assms(2) unfolding answered_def by blast
  then have I: "I = []" using have_pending_parts [OF p(1)] True by simp
  then have n: "pipe_normal B txt br [] W s" "k \<in> fst ` set D"
    using p True failed_error [OF p(1) [unfolded I]] by auto
  then have "W \<noteq> []" using True by (auto simp: pipe_normal_def)
  then obtain t where t: "issue (b_env B) s = (Inr (), t)" "received s t" "pipe_parts B txt D W [] t"
    "pipe_normal B txt False W [] t"
    using issue_normal [OF assms(1) p(1) [unfolded I] n(1)] by blast
  moreover from t(4) have "m_error t = m_error s" using True by (simp add: pipe_normal_def)
  ultimately show ?thesis using True answered_normal [OF t(3,4) n(2)] by (simp add: cond_def)
next
  case False
  then show ?thesis using assms(2) by (auto simp: cond_def skip_def ret_def)
qed

lemma inv_erase:
  assumes "answered B txt k s" "k < m_error s"
  shows "\<exists>q. iter_get (Some k) (m_queries s) = Inr (k, q) \<and> m_data (q_res q) = Some (b_answer B (txt k)) \<and>
    pipe_inv B txt (s\<lparr>m_queries := omap_erase k (m_queries s)\<rparr>)"
proof -
  obtain D I W br where p: "pipe_parts B txt D I W s" and c: "pipe_normal B txt br I W s \<and> k \<in> fst ` set D \<or>
      pipe_failed B txt D I W s \<and> k \<in> fst ` set (D @ W)"
    using assms(1) unfolding answered_def by blast
  have m: "m_queries s = D @ I @ W" and sw: "sorted_wrt (<) (map fst (D @ I @ W))"
    using p by (simp_all add: pipe_parts_def)
  have "k \<in> fst ` set D" using c assms(2) by (fastforce simp: pipe_failed_def)
  then obtain q where "(k, q) \<in> set D" by auto
  then obtain D1 D2 where D: "D = D1 @ (k, q) # D2" using split_list by fast
  have d: "distinct (map fst (D1 @ (k, q) # (D2 @ I @ W)))" using sorted_distinct_keys [OF sw] D by simp
  have f: "filter (\<lambda>p. fst p \<noteq> k) xs = xs" if "k \<notin> fst ` set xs" for xs :: qmap
    using that by (induction xs) auto
  have e: "omap_erase k (m_queries s) = (D1 @ D2) @ I @ W"
    using d m D f by (simp add: omap_erase_def)
  let ?t = "s\<lparr>m_queries := omap_erase k (m_queries s)\<rparr>"
  have pt: "pipe_parts B txt (D1 @ D2) I W ?t"
    using p sw unfolding pipe_parts_def e by (simp add: D focus_wf_def sorted_wrt_append)
  have "pipe_normal B txt br I W ?t = pipe_normal B txt br I W s"
    by (simp add: pipe_normal_def idle_queue_def)
  moreover have "pipe_failed B txt D I W s \<Longrightarrow> pipe_failed B txt (D1 @ D2) I W ?t"
    by (simp add: pipe_failed_def idle_queue_def D)
  ultimately have "pipe_inv B txt ?t" using c pt unfolding pipe_inv_def by blast
  moreover have "m_data (q_res q) = Some (b_answer B (txt k))" using p D by (simp add: pipe_parts_def)
  moreover have "iter_get (Some k) (m_queries s) = Inr (k, q)" using iter_at(1) [OF d] m D by simp
  ultimately show ?thesis by blast
qed

text \<open>The answer to one query, and what a pipeline does when asked for it.\<close>

definition checked :: "int \<Rightarrow> result \<Rightarrow> exn + int \<times> result" where
  "checked k R = (case CheckStatus R of Inl e \<Rightarrow> Inl e | Inr _ \<Rightarrow> Inr (k, R))"

lemma answered_refused:
  assumes "pipe_inv B txt s" "\<not> k < m_error s" "k \<in> fst ` set (m_queries s)"
  shows "earlier_failure B txt k"
  using assms(1)
proof (cases rule: pipe_inv_cases)
  case (normal D I W br)
  have "m_q_id s < qid_limit" "m_error s = qid_limit"
    using normal by (simp_all add: pipe_parts_def pipe_normal_def)
  moreover have "k \<le> m_q_id s" using insert_keys [OF assms(1)] assms(3) by blast
  ultimately show ?thesis using assms(2) by simp
next
  case (failed D W)
  then have "earlier_failure B txt (m_error s)" by (simp add: pipe_failed_def)
  then show ?thesis using assms(2) unfolding earlier_failure_def by fastforce
qed

lemma answered_inv: "answered B txt k t \<Longrightarrow> pipe_inv B txt t"
  unfolding answered_def pipe_inv_def by blast

lemma retrieve_known:
  assumes "omap_get k (m_queries s) \<noteq> None"
  shows "retrieve env h k s = (case retrieve_at env h (Some k) s of (Inl e, t) \<Rightarrow> (Inl e, t) | (Inr p, t) \<Rightarrow> (Inr (snd p), t))"
proof -
  have "retrieve env h k s = bnd (retrieve_at env h (Some k)) (\<lambda>p. ret (snd p)) s"
    using assms by (cases "omap_get k (m_queries s)") (simp_all add: retrieve_def step_simps)
  then show ?thesis by (simp add: bnd_def ret_def split: prod.split sum.split)
qed

lemma retrieve_at_refused:
  "m_error s \<le> k \<Longrightarrow> retrieve_at env h (Some k) s = (Inl error_in_earlier_query, s)"
  by (simp add: retrieve_at_def seq_def bnd_def cond_def throw_def)

lemma retrieve_at_served:
  assumes "pipe_server B" "pipe_inv B txt s" "k \<in> fst ` set (m_queries s)"
  shows "\<exists>r t. retrieve_at (b_env B) h (Some k) s = (r, t) \<and> pipe_inv B txt t \<and> m_q_id t = m_q_id s \<and> m_retain t = m_retain s \<and>
    (r = Inl error_in_earlier_query \<and> earlier_failure B txt k \<and> map fst (m_queries t) = map fst (m_queries s) \<or>
     (\<exists>R. m_data R = Some (b_answer B (txt k)) \<and> r = checked k R \<and>
        map fst (m_queries t) = filter (\<lambda>j. j \<noteq> k) (map fst (m_queries s))))"
proof (cases "k < m_error s")
  case False
  then have "retrieve_at (b_env B) h (Some k) s = (Inl error_in_earlier_query, s)"
    by (simp add: retrieve_at_refused)
  then show ?thesis using answered_refused [OF assms(2) False assms(3)] assms(2) by blast
next
  case True
  obtain t where t: "issue_up_to (b_env B) h k s = (Inr (), t)" "received s t" "within_reach B txt k t"
    using issue_up_to_served [OF assms True, of h] by blast
  obtain u where u: "receive_up_to (b_env B) h k t = (Inr (), u)" "received t u" "answered B txt k u"
    using receive_up_to_served [OF assms(1) t(3), of h] by blast
  have su: "received s u" using received_trans [OF t(2) u(2)] .
  have c: "cond (\<lambda>s. m_error s \<le> k) (throw error_in_earlier_query) skip s = (Inr (), s)"
    using True by (simp add: cond_def skip_def ret_def)
  show ?thesis
  proof (cases "k < m_error u")
    case False
    have "retrieve_at (b_env B) h (Some k) s = (Inl error_in_earlier_query, u)"
      unfolding retrieve_at_def option.case
      by (rule seqI, rule c, rule seqI, rule t(1), rule seqI, rule u(1))
        (use False in \<open>simp add: seq_def bnd_def cond_def throw_def\<close>)
    moreover have "k \<in> fst ` set (m_queries u)"
      using assms(3) su unfolding received_def by (metis set_map)
    ultimately show ?thesis
      using answered_refused [OF answered_inv [OF u(3)] False] answered_inv [OF u(3)] su
      by (auto simp: received_def)
  next
    case lt: True
    have c2: "cond (\<lambda>s. m_error s \<le> k) (throw error_in_earlier_query) skip u = (Inr (), u)"
      using lt by (simp add: cond_def skip_def ret_def)
    obtain v where v: "cond (\<lambda>s. m_num_waiting s \<noteq> 0 \<and> \<not> have_pending s \<and> m_error s = qid_limit) (issue (b_env B)) skip u = (Inr (), v)"
      "received u v" "answered B txt k v" "m_error v = m_error u"
      using issue_rest_served [OF assms(1) u(3)] by blast
    have "k < m_error v" using lt v(4) by simp
    then obtain q where q: "iter_get (Some k) (m_queries v) = Inr (k, q)" "m_data (q_res q) = Some (b_answer B (txt k))"
      "pipe_inv B txt (v\<lparr>m_queries := omap_erase k (m_queries v)\<rparr>)"
      using inv_erase [OF v(3)] by blast
    have d: "deref (\<lambda>s. Some k) v = (Inr (k, q), v)"
      using q(1) by (simp add: deref_def step_simps) (simp add: lift_exn_def ret_def)
    have tail: "seq (modify (\<lambda>s. s\<lparr>m_queries := omap_erase k (m_queries s)\<rparr>))
        (seq (lift_exn (CheckStatus (q_res q))) (ret (k, q_res q))) v =
        (checked k (q_res q), v\<lparr>m_queries := omap_erase k (m_queries v)\<rparr>)"
      by (cases "CheckStatus (q_res q)")
        (simp_all add: step_simps, simp_all add: checked_def seq_def bnd_def lift_exn_def ret_def throw_def)
    have "retrieve_at (b_env B) h (Some k) s =
        (checked k (q_res q), v\<lparr>m_queries := omap_erase k (m_queries v)\<rparr>)"
      unfolding retrieve_at_def option.case
      by (rule seqI, rule c, rule seqI, rule t(1), rule seqI, rule u(1), rule seqI, rule c2, rule seqI, rule v(1),
          rule bndI, rule d) (simp only: prod.case tail)
    moreover have "map fst (omap_erase k (m_queries v)) = filter (\<lambda>j. j \<noteq> k) (map fst (m_queries v))"
      by (simp add: omap_erase_def filter_map o_def)
    ultimately show ?thesis using q(2,3) su v(2) by (auto simp: received_def)
  qed
qed

lemma CheckStatus_of_fine: "m_data R = Some d \<Longrightarrow> fine d \<Longrightarrow> CheckStatus R = Inr ()"
  by (auto simp: fine_def CheckStatus_def StatusError_def)

section \<open>The specification\<close>

text \<open>
  The abstract pipeline: the texts inserted so far, the numbers not retrieved yet in order, and the
  limit set by \<open>retain\<close>. Its steps say nothing of batches, of what is pending or of who waits.
\<close>

datatype pipe_call = Insert string | Retrieve int | Retrieve_oldest | Resume | Retain int | Complete | Flush

datatype pipe_reply = Number "exn + int" | Answer "exn + int \<times> result" | Done "exn + unit"

record pspec =
  p_texts :: "string list"
  p_out :: "int list"
  p_retain :: int

definition text_of :: "string list \<Rightarrow> int \<Rightarrow> string" where
  "text_of ts k = ts ! nat (k - 1)"

definition unknown_query :: exn where
  "unknown_query = plain Std_logic_error ''Attempt to retrieve result for unknown query''"

definition empty_pipeline :: exn where
  "empty_pipeline = plain Std_logic_error ''Attempt to retrieve result from empty pipeline''"

definition retain_error :: "int \<Rightarrow> exn" where
  "retain_error n = range_error (''Attempt to make pipeline retain '' @ to_string_int n @ '' queries'')"

inductive pspec_step :: "(string \<Rightarrow> pgresult) \<Rightarrow> pspec \<Rightarrow> pipe_call \<Rightarrow> pipe_reply \<Rightarrow> pspec \<Rightarrow> bool" for ans where
  insert: "n = int (length (p_texts S)) + 1 \<Longrightarrow>
     pspec_step ans S (Insert q) (Number (Inr n)) (S\<lparr>p_texts := p_texts S @ [q], p_out := p_out S @ [n]\<rparr>)"
| unknown: "k \<notin> set (p_out S) \<Longrightarrow> pspec_step ans S (Retrieve k) (Answer (Inl unknown_query)) S"
| answer: "k \<in> set (p_out S) \<Longrightarrow> m_data R = Some (ans (text_of (p_texts S) k)) \<Longrightarrow>
     pspec_step ans S (Retrieve k) (Answer (checked k R)) (S\<lparr>p_out := filter (\<lambda>j. j \<noteq> k) (p_out S)\<rparr>)"
| refused: "k \<in> set (p_out S) \<Longrightarrow> 0 < j \<Longrightarrow> j < k \<Longrightarrow> \<not> fine (ans (text_of (p_texts S) j)) \<Longrightarrow>
     pspec_step ans S (Retrieve k) (Answer (Inl error_in_earlier_query)) S"
| oldest: "p_out S = k # ks \<Longrightarrow> pspec_step ans S (Retrieve k) r S' \<Longrightarrow> pspec_step ans S Retrieve_oldest r S'"
| oldest_none: "p_out S = [] \<Longrightarrow> pspec_step ans S Retrieve_oldest (Answer (Inl empty_pipeline)) S"
| retain: "0 \<le> n \<Longrightarrow> pspec_step ans S (Retain n) (Number (Inr (p_retain S))) (S\<lparr>p_retain := n\<rparr>)"
| retain_negative: "n < 0 \<Longrightarrow> pspec_step ans S (Retain n) (Number (Inl (retain_error n))) S"
| resume: "pspec_step ans S Resume (Done (Inr ())) S"
| complete: "pspec_step ans S Complete (Done (Inr ())) S"
| flush: "pspec_step ans S Flush (Done (Inr ())) (S\<lparr>p_out := []\<rparr>)"

inductive pspec_run :: "(string \<Rightarrow> pgresult) \<Rightarrow> pspec \<Rightarrow> pipe_call list \<Rightarrow> pipe_reply list \<Rightarrow> pspec \<Rightarrow> bool" for ans where
  stop: "pspec_run ans S [] [] S"
| go: "pspec_step ans S c r S' \<Longrightarrow> pspec_run ans S' cs rs S'' \<Longrightarrow> pspec_run ans S (c # cs) (r # rs) S''"

text \<open>The same calls on the code's pipeline.\<close>

fun pipe_do :: "'w env \<Rightarrow> ('w, 'z) phooks \<Rightarrow> pipe_call \<Rightarrow> ('w, 'z) pipe_scheme \<Rightarrow> pipe_reply \<times> ('w, 'z) pipe_scheme" where
  "pipe_do env h (Insert q) s = (case pipe_insert env h q s of (r, t) \<Rightarrow> (Number r, t))"
| "pipe_do env h (Retrieve k) s =
     (case bnd (retrieve env h k) (\<lambda>R. ret (k, R)) s of (r, t) \<Rightarrow> (Answer r, t))"
| "pipe_do env h Retrieve_oldest s = (case retrieve_oldest env h s of (r, t) \<Rightarrow> (Answer r, t))"
| "pipe_do env h Resume s = (case resume env h s of (r, t) \<Rightarrow> (Done r, t))"
| "pipe_do env h (Retain n) s = (case retain env h n s of (r, t) \<Rightarrow> (Number r, t))"
| "pipe_do env h Complete s = (case complete env h s of (r, t) \<Rightarrow> (Done r, t))"
| "pipe_do env h Flush s = (case flush env h s of (r, t) \<Rightarrow> (Done r, t))"

fun pipe_run :: "'w env \<Rightarrow> ('w, 'z) phooks \<Rightarrow> pipe_call list \<Rightarrow> ('w, 'z) pipe_scheme \<Rightarrow> pipe_reply list \<times> ('w, 'z) pipe_scheme" where
  "pipe_run env h [] s = ([], s)"
| "pipe_run env h (c # cs) s =
     (case pipe_do env h c s of (r, t) \<Rightarrow> (case pipe_run env h cs t of (rs, u) \<Rightarrow> (r # rs, u)))"

fun inserted :: "pipe_call list \<Rightarrow> string list" where
  "inserted [] = []"
| "inserted (Insert q # cs) = q # inserted cs"
| "inserted (_ # cs) = inserted cs"

section \<open>The code's pipeline refines the specification\<close>

definition pipe_sim :: "'w backend \<Rightarrow> pspec \<Rightarrow> ('w, 'z) pipe_scheme \<Rightarrow> bool" where
  "pipe_sim B S s \<longleftrightarrow> pipe_inv B (text_of (p_texts S)) s \<and> map fst (m_queries s) = p_out S \<and>
     m_q_id s = int (length (p_texts S)) \<and> m_retain s = p_retain S"

text \<open>The invariant looks at the texts of the numbers given out, not at later ones.\<close>

lemma earlier_failure_cong:
  "(\<And>j. 0 < j \<Longrightarrow> j \<le> n \<Longrightarrow> txt' j = txt j) \<Longrightarrow> k \<le> n \<Longrightarrow> earlier_failure B txt' k = earlier_failure B txt k"
  unfolding earlier_failure_def by (metis less_imp_le order_trans)

lemma pipe_inv_texts:
  assumes "pipe_inv B txt s" and eq: "\<And>j. 0 < j \<Longrightarrow> j \<le> m_q_id s \<Longrightarrow> txt' j = txt j"
  shows "pipe_inv B txt' s"
proof -
  have p: "pipe_parts B txt' D I W s" if "pipe_parts B txt D I W s" for D I W
  proof -
    have k: "\<forall>(k, q) \<in> set (D @ I @ W). 0 < k \<and> k \<le> m_q_id s \<and> q_text q = txt k \<and> b_single B (txt k)"
      and d: "\<forall>(k, q) \<in> set D. m_data (q_res q) = Some (b_answer B (txt k))"
      using that unfolding pipe_parts_def by blast+
    have "\<forall>(k, q) \<in> set (D @ I @ W). 0 < k \<and> k \<le> m_q_id s \<and> q_text q = txt' k \<and> b_single B (txt' k)"
      using k eq by fastforce
    moreover have "\<forall>(k, q) \<in> set D. m_data (q_res q) = Some (b_answer B (txt' k))" using k d eq by fastforce
    ultimately show ?thesis using that unfolding pipe_parts_def by blast
  qed
  from assms(1) show ?thesis
  proof (cases rule: pipe_inv_cases)
    case (normal D I W br)
    have "\<forall>(k, q) \<in> set I. k \<le> m_q_id s" using normal(1) unfolding pipe_parts_def by auto
    then have "(\<forall>(k, q) \<in> set I. earlier_failure B txt k) \<longrightarrow> (\<forall>(k, q) \<in> set I. earlier_failure B txt' k)"
      using earlier_failure_cong [of "m_q_id s" txt' "txt" _ B, OF eq] by fastforce
    then have "pipe_normal B txt' br I W s" using normal(2) by (simp add: pipe_normal_def split: if_splits)
    then show ?thesis using p [OF normal(1)] pipe_inv_normal by blast
  next
    case (failed D W)
    have "m_error s \<le> m_q_id s" using failed(2) by (simp add: pipe_failed_def)
    then have "pipe_failed B txt' D [] W s"
      using failed(2) earlier_failure_cong [of "m_q_id s" txt' "txt" _ B, OF eq] by (simp add: pipe_failed_def)
    then show ?thesis using p [OF failed(1)] pipe_inv_failed by blast
  qed
qed

lemma sim_keys: "pipe_sim B S s \<Longrightarrow> k \<in> set (p_out S) \<longleftrightarrow> k \<in> fst ` set (m_queries s)"
  unfolding pipe_sim_def by (metis set_map)

lemma sim_insert:
  assumes "pipe_server B" "pipe_sim B S s" "b_single B q" "int (length (p_texts S)) + 1 < qid_limit"
  shows "\<exists>r t S'. pipe_do (b_env B) h (Insert q) s = (r, t) \<and> pspec_step (b_answer B) S (Insert q) r S' \<and>
    pipe_sim B S' t \<and> p_texts S' = p_texts S @ [q]"
proof -
  let ?n = "int (length (p_texts S)) + 1"
  let ?S = "S\<lparr>p_texts := p_texts S @ [q], p_out := p_out S @ [?n]\<rparr>"
  have s: "m_q_id s = int (length (p_texts S))" "pipe_inv B (text_of (p_texts S)) s"
    "map fst (m_queries s) = p_out S" "m_retain s = p_retain S"
    using assms(2) by (simp_all add: pipe_sim_def)
  have "text_of (p_texts S @ [q]) j = text_of (p_texts S) j" if "0 < j" "j \<le> m_q_id s" for j
  proof -
    have "nat (j - 1) < length (p_texts S)" using that s(1) by linarith
    then show ?thesis by (simp add: text_of_def nth_append)
  qed
  then have i: "pipe_inv B (text_of (p_texts S @ [q])) s" by (rule pipe_inv_texts [OF s(2)])
  have "text_of (p_texts S @ [q]) (m_q_id s + 1) = q" using s(1) by (simp add: text_of_def nth_append)
  then obtain t where t: "pipe_insert (b_env B) h q s = (Inr (m_q_id s + 1), t)" "pipe_inv B (text_of (p_texts S @ [q])) t"
    "map fst (m_queries t) = map fst (m_queries s) @ [m_q_id s + 1]" "m_q_id t = m_q_id s + 1" "m_retain t = m_retain s"
    using insert_served [OF assms(1) i, of q h] assms(3,4) s(1) by auto
  moreover have "pspec_step (b_answer B) S (Insert q) (Number (Inr ?n)) ?S" by (rule pspec_step.insert) simp
  moreover have "pipe_sim B ?S t" using t(2-5) s(1,3,4) by (simp add: pipe_sim_def)
  ultimately show ?thesis using s(1) by (intro exI [of _ "Number (Inr ?n)"] exI [of _ t] exI [of _ ?S]) simp
qed

lemma sim_retrieve_at:
  assumes "pipe_server B" "pipe_sim B S s" "k \<in> set (p_out S)"
  shows "\<exists>r t S'. retrieve_at (b_env B) h (Some k) s = (r, t) \<and>
    pspec_step (b_answer B) S (Retrieve k) (Answer r) S' \<and> pipe_sim B S' t \<and> p_texts S' = p_texts S"
proof -
  let ?S = "S\<lparr>p_out := filter (\<lambda>j. j \<noteq> k) (p_out S)\<rparr>"
  have i: "pipe_inv B (text_of (p_texts S)) s" using assms(2) by (simp add: pipe_sim_def)
  have k: "k \<in> fst ` set (m_queries s)" using sim_keys [OF assms(2)] assms(3) by simp
  obtain r t where t: "retrieve_at (b_env B) h (Some k) s = (r, t)" "pipe_inv B (text_of (p_texts S)) t"
    "m_q_id t = m_q_id s" "m_retain t = m_retain s"
    "r = Inl error_in_earlier_query \<and> earlier_failure B (text_of (p_texts S)) k \<and> map fst (m_queries t) = map fst (m_queries s) \<or>
     (\<exists>R. m_data R = Some (b_answer B (text_of (p_texts S) k)) \<and> r = checked k R \<and>
        map fst (m_queries t) = filter (\<lambda>j. j \<noteq> k) (map fst (m_queries s)))"
    using retrieve_at_served [OF assms(1) i k, of h] by blast
  from t(5) show ?thesis
  proof (elim disjE exE conjE)
    assume r: "r = Inl error_in_earlier_query" "map fst (m_queries t) = map fst (m_queries s)"
      and "earlier_failure B (text_of (p_texts S)) k"
    then obtain j where "0 < j" "j < k" "\<not> fine (b_answer B (text_of (p_texts S) j))"
      unfolding earlier_failure_def by blast
    then have "pspec_step (b_answer B) S (Retrieve k) (Answer r) S"
      unfolding r(1) by (intro pspec_step.refused [where j = j] assms(3))
    moreover have "pipe_sim B S t" using t(2-4) r(2) assms(2) by (simp add: pipe_sim_def)
    ultimately show ?thesis using t(1) by blast
  next
    fix R
    assume R: "m_data R = Some (b_answer B (text_of (p_texts S) k))" "r = checked k R"
      "map fst (m_queries t) = filter (\<lambda>j. j \<noteq> k) (map fst (m_queries s))"
    have "pspec_step (b_answer B) S (Retrieve k) (Answer r) ?S"
      unfolding R(2) by (intro pspec_step.answer assms(3) R(1))
    moreover have "pipe_sim B ?S t" using t(2-4) R(3) assms(2) by (simp add: pipe_sim_def)
    ultimately show ?thesis using t(1) by force
  qed
qed

lemma sim_retrieve:
  assumes "pipe_server B" "pipe_sim B S s"
  shows "\<exists>r t S'. pipe_do (b_env B) h (Retrieve k) s = (r, t) \<and> pspec_step (b_answer B) S (Retrieve k) r S' \<and>
    pipe_sim B S' t \<and> p_texts S' = p_texts S"
proof (cases "k \<in> set (p_out S)")
  case True
  obtain r t S' where t: "retrieve_at (b_env B) h (Some k) s = (r, t)"
    "pspec_step (b_answer B) S (Retrieve k) (Answer r) S'" "pipe_sim B S' t" "p_texts S' = p_texts S"
    using sim_retrieve_at [OF assms True, of h] by blast
  have k: "r = Inl e \<or> (\<exists>R. r = Inr (k, R))" if "\<And>e'. r = Inl e' \<Longrightarrow> e' = e" for e
    using t(2) that by (cases rule: pspec_step.cases) (auto simp: checked_def split: sum.splits)
  have "omap_get k (m_queries s) \<noteq> None" using sim_keys [OF assms(2)] True omap_get_key by metis
  then have "pipe_do (b_env B) h (Retrieve k) s = (Answer r, t)"
    using t(1) k by (cases r) (auto simp: retrieve_def step_simps bnd_def gets_def ret_def)
  then show ?thesis using t(2-4) by blast
next
  case False
  then have "omap_get k (m_queries s) = None" using sim_keys [OF assms(2)] omap_get_key by metis
  then have "pipe_do (b_env B) h (Retrieve k) s = (Answer (Inl unknown_query), s)"
    by (simp add: retrieve_def retrieve_at_def bnd_def gets_def throw_def unknown_query_def)
  moreover have "pspec_step (b_answer B) S (Retrieve k) (Answer (Inl unknown_query)) S"
    using False by (rule pspec_step.unknown)
  ultimately show ?thesis using assms(2) by blast
qed

lemma sim_retrieve_oldest:
  assumes "pipe_server B" "pipe_sim B S s"
  shows "\<exists>r t S'. pipe_do (b_env B) h Retrieve_oldest s = (r, t) \<and> pspec_step (b_answer B) S Retrieve_oldest r S' \<and>
    pipe_sim B S' t \<and> p_texts S' = p_texts S"
proof (cases "p_out S")
  case Nil
  then have "m_queries s = []" using assms(2) by (simp add: pipe_sim_def)
  then have "pipe_do (b_env B) h Retrieve_oldest s = (Answer (Inl empty_pipeline), s)"
    by (simp add: retrieve_oldest_def cond_def throw_def empty_pipeline_def)
  then show ?thesis using pspec_step.oldest_none [OF Nil] assms(2) by blast
next
  case (Cons k ks)
  then obtain q m where m: "m_queries s = (k, q) # m" using assms(2) unfolding pipe_sim_def by auto
  obtain r t S' where t: "retrieve_at (b_env B) h (Some k) s = (r, t)"
    "pspec_step (b_answer B) S (Retrieve k) (Answer r) S'" "pipe_sim B S' t" "p_texts S' = p_texts S"
    using sim_retrieve_at [OF assms, of k h] Cons by auto
  have "pipe_do (b_env B) h Retrieve_oldest s = (Answer r, t)"
    using m t(1) by (simp add: retrieve_oldest_def cond_def step_simps)
  then show ?thesis using pspec_step.oldest [OF Cons t(2)] t(3,4) by blast
qed

lemma sim_kept: "pipe_sim B S s \<Longrightarrow> pipe_inv B (text_of (p_texts S)) t \<Longrightarrow> kept s t \<Longrightarrow> pipe_sim B S t"
  by (simp add: pipe_sim_def kept_def)

lemma sim_others:
  assumes "pipe_server B" "pipe_sim B S s" "c \<in> {Resume, Complete, Flush} \<union> range Retain"
  shows "\<exists>r t S'. pipe_do (b_env B) h c s = (r, t) \<and> pspec_step (b_answer B) S c r S' \<and>
    pipe_sim B S' t \<and> p_texts S' = p_texts S"
proof -
  have i: "pipe_inv B (text_of (p_texts S)) s" using assms(2) by (simp add: pipe_sim_def)
  consider (resume) "c = Resume" | (complete) "c = Complete" | (flush) "c = Flush" | (retain) n where "c = Retain n"
    using assms(3) by auto
  then show ?thesis
  proof cases
    case resume
    obtain t where "Pipeline.resume (b_env B) h s = (Inr (), t)" "received s t" "pipe_inv B (text_of (p_texts S)) t"
      using served_resume [OF assms(1) i, of h] by (rule servedE)
    then have "pipe_sim B S t" using assms(2) by (simp add: pipe_sim_def received_def)
    then show ?thesis using resume \<open>Pipeline.resume (b_env B) h s = (Inr (), t)\<close> pspec_step.resume by force
  next
    case complete
    obtain t where "complete (b_env B) h s = (Inr (), t)" "pipe_inv B (text_of (p_texts S)) t" "kept s t"
      using complete_served [OF assms(1) i, of h] by blast
    then show ?thesis using complete sim_kept [OF assms(2)] pspec_step.complete by force
  next
    case flush
    obtain t where t: "flush (b_env B) h s = (Inr (), t)" "pipe_inv B (text_of (p_texts S)) t" "m_queries t = []"
      "m_q_id t = m_q_id s" "m_retain t = m_retain s"
      using flush_served [OF assms(1) i, of h] by blast
    then have "pipe_sim B (S\<lparr>p_out := []\<rparr>) t" using assms(2) by (simp add: pipe_sim_def)
    then show ?thesis using flush t(1) pspec_step.flush by force
  next
    case (retain n)
    show ?thesis
    proof (cases "0 \<le> n")
      case True
      obtain t where t: "Pipeline.retain (b_env B) h n s = (Inr (m_retain s), t)" "pipe_inv B (text_of (p_texts S)) t"
        "m_retain t = n" "map fst (m_queries t) = map fst (m_queries s)" "m_q_id t = m_q_id s"
        using retain_served [OF assms(1) i True, of h] by blast
      moreover have "m_retain s = p_retain S" using assms(2) by (simp add: pipe_sim_def)
      moreover have "pipe_sim B (S\<lparr>p_retain := n\<rparr>) t" using t assms(2) by (simp add: pipe_sim_def)
      ultimately show ?thesis using retain pspec_step.retain [OF True, of "b_answer B" S] by force
    next
      case False
      then have "pipe_do (b_env B) h c s = (Number (Inl (retain_error n)), s)"
        using retain by (simp add: Pipeline.retain_def throw_def retain_error_def)
      then show ?thesis using retain pspec_step.retain_negative [of n "b_answer B" S] False assms(2) by force
    qed
  qed
qed

lemma sim_step:
  assumes "pipe_server B" "pipe_sim B S s"
    and "\<forall>q \<in> set (inserted [c]). b_single B q" "int (length (p_texts S) + length (inserted [c])) < qid_limit"
  shows "\<exists>r t S'. pipe_do (b_env B) h c s = (r, t) \<and> pspec_step (b_answer B) S c r S' \<and>
    pipe_sim B S' t \<and> p_texts S' = p_texts S @ inserted [c]"
proof -
  consider (insert) q where "c = Insert q" | (retrieve) k where "c = Retrieve k" | (oldest) "c = Retrieve_oldest"
    | (others) "c \<in> {Resume, Complete, Flush} \<union> range Retain" by (cases c) auto
  then show ?thesis
  proof cases
    case insert
    then show ?thesis using sim_insert [OF assms(1,2), of q h] assms(3,4) by simp
  next
    case retrieve
    then show ?thesis using sim_retrieve [OF assms(1,2), of h k] by simp
  next
    case oldest
    then show ?thesis using sim_retrieve_oldest [OF assms(1,2), of h] by simp
  next
    case others
    then have "inserted [c] = []" by auto
    then show ?thesis using sim_others [OF assms(1,2) others, of h] by simp
  qed
qed

lemma sim_run:
  assumes "pipe_server B"
  shows "pipe_sim B S s \<Longrightarrow> \<forall>q \<in> set (inserted cs). b_single B q \<Longrightarrow>
    int (length (p_texts S) + length (inserted cs)) < qid_limit \<Longrightarrow>
    \<exists>S'. pspec_run (b_answer B) S cs (fst (pipe_run (b_env B) h cs s)) S' \<and> pipe_sim B S' (snd (pipe_run (b_env B) h cs s))"
proof (induction cs arbitrary: S s)
  case Nil
  then show ?case using pspec_run.stop by force
next
  case (Cons c cs)
  have ins: "inserted (c # cs) = inserted [c] @ inserted cs" by (cases c) simp_all
  obtain r t S1 where t: "pipe_do (b_env B) h c s = (r, t)" "pspec_step (b_answer B) S c r S1" "pipe_sim B S1 t"
    "p_texts S1 = p_texts S @ inserted [c]"
    using sim_step [OF assms Cons.prems(1), of c h] Cons.prems(2,3) ins by auto
  obtain S' where S': "pspec_run (b_answer B) S1 cs (fst (pipe_run (b_env B) h cs t)) S'"
    "pipe_sim B S' (snd (pipe_run (b_env B) h cs t))"
    using Cons.IH [OF t(3)] Cons.prems(2,3) ins t(4) by auto
  have "pipe_run (b_env B) h (c # cs) s = (r # fst (pipe_run (b_env B) h cs t), snd (pipe_run (b_env B) h cs t))"
    using t(1) by (simp add: case_prod_beta)
  then show ?case using S'(2) pspec_run.go [OF t(2) S'(1)] by auto
qed

section \<open>A fresh pipeline\<close>

definition started :: "'w backend \<Rightarrow> ('w, 'z) pipe_scheme \<Rightarrow> bool" where
  "started B s \<longleftrightarrow> is_open (b_env B) s \<and> m_Conn s = b_handle B \<and> m_Focus s = None \<and> b_queue B (world s) = []"

definition fresh_spec :: pspec where
  "fresh_spec = \<lparr>p_texts = [], p_out = [], p_retain = 0\<rparr>"

lemma qid_limit_value: "qid_limit = 9223372036854775807"
  by (simp add: qid_limit_def tmax_def long_t_def)

lemma sim_fresh:
  assumes "started B s"
  shows "pipe_sim B fresh_spec (snd (pipeline_new s)) \<and> fst (pipeline_new s) = Inr ()"
proof -
  let ?t = "s\<lparr>f_registered := False, m_queries := [], first_issued := None, end_issued := None, m_retain := 0,
    m_num_waiting := 0, m_q_id := 0, m_dummy_pending := False, m_error := qid_limit\<rparr>"
  let ?u = "?t\<lparr>m_Focus := Some (this_focus s), f_registered := True\<rparr>"
  have "focus_wf ?t" using assms by (simp add: focus_wf_def started_def)
  then have "attach ?t = (Inr (), ?u)" using register_me_free [of ?t] by (simp add: attach_def cond_def)
  then have n: "pipeline_new s = (Inr (), ?u)" by (simp add: pipeline_new_def step_simps)
  have "pipe_parts B T [] [] [] ?u" for T
    using assms by (simp add: pipe_parts_def started_def focus_wf_def qid_limit_value)
  moreover have "pipe_normal B T False [] [] ?u" for T
    using assms by (simp add: pipe_normal_def idle_queue_def started_def)
  ultimately have "pipe_inv B T ?u" for T by (rule pipe_inv_normal)
  then show ?thesis unfolding n by (simp add: pipe_sim_def fresh_spec_def)
qed

lemma sim_started:
  assumes "pipe_server B" "started B s" "\<forall>q \<in> set (inserted cs). b_single B q"
    and "int (length (inserted cs)) < qid_limit"
  shows "\<exists>S. pspec_run (b_answer B) fresh_spec cs (fst (pipe_run (b_env B) h cs (snd (pipeline_new s)))) S \<and>
    pipe_sim B S (snd (pipe_run (b_env B) h cs (snd (pipeline_new s))))"
  using sim_run [OF assms(1) conjunct1 [OF sim_fresh [OF assms(2)]] assms(3)] assms(4) by (simp add: fresh_spec_def)

inductive_cases insert_stepE: "pspec_step ans S (Insert q) r S'"
inductive_cases retrieve_stepE: "pspec_step ans S (Retrieve k) r S'"

lemma step_texts: "pspec_step ans S c r S' \<Longrightarrow> p_texts S' = p_texts S @ inserted [c]"
  by (induction rule: pspec_step.induct) simp_all

lemma run_texts: "pspec_run ans S cs rs S' \<Longrightarrow> p_texts S' = p_texts S @ inserted cs"
proof (induction rule: pspec_run.induct)
  case (go S c r S' cs rs S'')
  then show ?case using step_texts [OF go.hyps(1)] by (cases c) simp_all
qed simp

section \<open>A backend that runs the statements of a query in turn\<close>

fun statements :: "string \<Rightarrow> string \<Rightarrow> string list" where
  "statements acc [] = [rev acc]"
| "statements acc (c # cs) = (if c = CHR '';'' then rev acc # statements [] (drop 1 cs) else statements (c # acc) cs)"

definition no_semicolon :: "string \<Rightarrow> bool" where
  "no_semicolon q \<longleftrightarrow> CHR '';'' \<notin> set q"

lemma statements_last: "no_semicolon q \<Longrightarrow> statements acc q = [rev acc @ q]"
  by (induction q arbitrary: acc) (auto simp: no_semicolon_def)

lemma statements_step:
  "no_semicolon q \<Longrightarrow> statements acc (q @ theSeparator @ rest) = (rev acc @ q) # statements [] rest"
  by (induction q arbitrary: acc) (auto simp: no_semicolon_def theSeparator_def)

lemma statements_list:
  "qs \<noteq> [] \<Longrightarrow> \<forall>q \<in> set qs. no_semicolon q \<Longrightarrow> statements [] (separated_list theSeparator qs) = qs"
  by (induction theSeparator qs rule: separated_list.induct) (simp_all add: statements_last statements_step)

lemma statements_batch:
  assumes "qs \<noteq> []" "\<forall>q \<in> set qs. no_semicolon q"
  shows "statements [] (batch_query qs) = (if length qs > 1 then [''SELECT 1''] else []) @ qs"
proof -
  have "no_semicolon ''SELECT 1''" by (simp add: no_semicolon_def)
  then have "statements [] (''SELECT 1'' @ theSeparator @ separated_list theSeparator qs) = ''SELECT 1'' # qs"
    using statements_step [of "''SELECT 1''" "[]"] statements_list [OF assms] by simp
  then show ?thesis using statements_list [OF assms]
    by (simp add: batch_query_def theDummyQuery_def theDummyValue_def)
qed

definition one_value :: "string \<Rightarrow> pgresult" where
  "one_value v = sample_rows [[Some v]] 1"

text \<open>Its answer to a query is the query's text, except that the query \<open>fail\<close> fails.\<close>

definition echo_answer :: "string \<Rightarrow> pgresult" where
  "echo_answer q = (if q = ''SELECT 1'' then one_value ''1'' else if q = ''fail''
     then (one_value [])\<lparr>PQresultStatus := PGRES_FATAL_ERROR, PQresultErrorMessage := ''division by zero''\<rparr>
     else one_value q)"

definition echo_env :: "pgresult option list env" where
  "echo_env = quiet_env\<lparr>
     PQsendQuery := (\<lambda>_ q w. (True, w @ map Some (replies echo_answer (statements [] q)) @ [None])),
     PQgetResult := (\<lambda>_ w. (case w of [] \<Rightarrow> None | r # _ \<Rightarrow> r, tl w))\<rparr>"

definition echo :: "pgresult option list backend" where
  "echo = \<lparr>b_env = echo_env, b_handle = Some 1, b_queue = (\<lambda>w. w), b_answer = echo_answer,
     b_dummy = one_value ''1'', b_single = no_semicolon\<rparr>"

definition echo_pipe :: "pgresult option list pipe" where
  "echo_pipe = tx.extend (sample_tx [] st_active)
     \<lparr>this_focus = \<lparr>addr = 2, classname = ''pipeline'', name = []\<rparr>, f_registered = False, m_queries = [],
      first_issued = None, end_issued = None, m_retain = 0, m_num_waiting = 0, m_q_id = 0,
      m_dummy_pending = False, m_error = qid_limit\<rparr>"

lemma fine_one_value [simp]: "fine (one_value v)"
  by (simp add: fine_def one_value_def sample_rows_def)

lemma echo_server: "pipe_server echo"
proof -
  have f: "fine (echo_answer ''SELECT 1'')" "echo_answer ''SELECT 1'' = one_value ''1''"
    by (simp_all add: echo_answer_def)
  then have r: "replies echo_answer (''SELECT 1'' # qs) = one_value ''1'' # replies echo_answer qs" for qs by simp
  have "answers_in_order echo"
    unfolding answers_in_order_def echo_def
    by (auto simp: echo_env_def quiet_env_def statements_batch r simp del: replies.simps(2))
  then show ?thesis
    by (simp add: pipe_server_def echo_def echo_env_def quiet_env_def dummy_answer_def one_value_def
        sample_rows_def theDummyValue_def)
qed

lemma echo_started: "started echo echo_pipe"
  by (simp add: started_def echo_def echo_env_def echo_pipe_def tx.extend_def sample_tx_def new_tx_def conn.extend_def
      open_conn_def connection_base_def is_open_def Status_def quiet_env_def)

section \<open>Properties\<close>

text \<open>
  C2: every sequence of calls on a fresh pipeline is a run of the specification: whatever is
  retained, however the queries are grouped into batches and whatever is received ahead of
  time, a query's answer is the answer to its own text, exactly once; only a query behind a
  failed one is refused; and no call fails otherwise.
\<close>

theorem pipeline_refines_spec:
  assumes "pipe_server B" "started B s" "\<forall>q \<in> set (inserted cs). b_single B q"
    and "int (length (inserted cs)) < qid_limit"
  shows "\<exists>S. pspec_run (b_answer B) fresh_spec cs (fst (pipe_run (b_env B) h cs (snd (pipeline_new s)))) S \<and>
    p_out S = map fst (m_queries (snd (pipe_run (b_env B) h cs (snd (pipeline_new s)))))"
  using sim_started [OF assms, of h] unfolding pipe_sim_def by metis


text \<open>
  Flushing a pipeline in which a query has failed does not clear the error: it empties the
  pipeline, but a query inserted afterwards is refused.
\<close>

theorem flush_keeps_error:
  assumes "pipe_server B" "pipe_inv B txt s" "m_error s \<noteq> qid_limit" "m_q_id s + 1 < qid_limit"
    and "q = txt (m_q_id s + 1)" "b_single B q"
  shows "\<exists>t u. flush (b_env B) h s = (Inr (), t) \<and> m_queries t = [] \<and>
    pipe_insert (b_env B) h q t = (Inr (m_q_id s + 1), u) \<and>
    fst (retrieve (b_env B) h (m_q_id s + 1) u) = Inl error_in_earlier_query"
proof -
  obtain t where t: "flush (b_env B) h s = (Inr (), t)" "pipe_inv B txt t" "m_queries t = []" "m_q_id t = m_q_id s"
    "m_error t \<noteq> qid_limit"
    using flush_served [OF assms(1,2), of h] assms(3) by blast
  obtain u where u: "pipe_insert (b_env B) h q t = (Inr (m_q_id s + 1), u)" "pipe_inv B txt u"
    "map fst (m_queries u) = [m_q_id s + 1]" "m_q_id u = m_q_id s + 1" "m_error u \<noteq> qid_limit"
    using insert_served [OF assms(1) t(2), of q h] assms(4-6) t(3-5) by auto
  have "m_error u \<le> m_q_id s + 1"
    using u(2)
  proof (cases rule: pipe_inv_cases)
    case (failed D W)
    then show ?thesis using u(4) by (simp add: pipe_failed_def)
  qed (use u(5) in \<open>simp add: pipe_normal_def\<close>)
  moreover have "omap_get (m_q_id s + 1) (m_queries u) \<noteq> None" using u(3) by (cases "m_queries u") auto
  ultimately have "fst (retrieve (b_env B) h (m_q_id s + 1) u) = Inl error_in_earlier_query"
    by (simp add: retrieve_known retrieve_at_refused)
  then show ?thesis using t(1,3) u(1) by blast
qed

section \<open>Witnesses\<close>

lemma echo_env_of [simp]: "b_env echo = echo_env"
  by (simp add: echo_def)

theorem pipeline_refines_spec_witness:
  "let cs = [Retain 2, Insert ''a'', Insert ''fail'', Insert ''c'', Retrieve 3, Retrieve 1, Flush] in
   \<exists>S. pspec_run echo_answer fresh_spec cs
      (fst (pipe_run echo_env (basic_hooks echo_env) cs (snd (pipeline_new echo_pipe)))) S"
  using pipeline_refines_spec [OF echo_server echo_started,
      of "[Retain 2, Insert ''a'', Insert ''fail'', Insert ''c'', Retrieve 3, Retrieve 1, Flush]" "basic_hooks echo_env"]
  by (simp add: echo_def no_semicolon_def qid_limit_value) blast


definition broken_pipe :: "pgresult option list pipe" where
  "broken_pipe = echo_pipe\<lparr>m_q_id := 2, m_error := 2\<rparr>"

lemma broken_pipe_inv: "pipe_inv echo (text_of [''fail'', ''a'', ''b'']) broken_pipe"
proof -
  let ?T = "text_of [''fail'', ''a'', ''b'']"
  have "is_open echo_env echo_pipe" "m_Conn echo_pipe = Some 1" "m_Focus echo_pipe = None" "world echo_pipe = []"
    using echo_started by (simp_all add: started_def echo_def)
  moreover have "f_registered echo_pipe = False" "m_queries echo_pipe = []" "first_issued echo_pipe = None"
    "end_issued echo_pipe = None" "m_dummy_pending echo_pipe = False"
    by (simp_all add: echo_pipe_def tx.extend_def)
  ultimately have "pipe_parts echo ?T [] [] [] broken_pipe"
    by (simp add: pipe_parts_def broken_pipe_def focus_wf_def qid_limit_value) (simp add: echo_def)
  moreover have "earlier_failure echo ?T 2"
    unfolding earlier_failure_def
    by (intro exI [of _ 1]) (simp add: text_of_def echo_def echo_answer_def fine_def)
  then have "pipe_failed echo ?T [] [] [] broken_pipe"
    using \<open>world echo_pipe = []\<close> \<open>m_dummy_pending echo_pipe = False\<close>
    by (simp add: pipe_failed_def broken_pipe_def idle_queue_def echo_def)
  ultimately show ?thesis by (rule pipe_inv_failed)
qed

theorem flush_keeps_error_witness:
  "\<exists>t u. flush echo_env (basic_hooks echo_env) broken_pipe = (Inr (), t) \<and>
    pipe_insert echo_env (basic_hooks echo_env) ''b'' t = (Inr 3, u) \<and>
    fst (retrieve echo_env (basic_hooks echo_env) 3 u) = Inl error_in_earlier_query"
proof -
  have "m_error broken_pipe \<noteq> qid_limit" "m_q_id broken_pipe = 2"
    by (simp_all add: broken_pipe_def qid_limit_value)
  then show ?thesis
    using flush_keeps_error [OF echo_server broken_pipe_inv, of "''b''" "basic_hooks echo_env"]
    by (simp add: qid_limit_value text_of_def) (auto simp: echo_def no_semicolon_def)
qed

end
