(* ===== verification/Pipeline_Replay.thy ===== *)
theory Pipeline_Replay
  imports Pipeline_Spec
begin

text \<open>
  A batch that the backend rejects as a whole: its dummy query fails, and \<open>obtain_dummy\<close> runs the
  queries again, one by one, through the transaction. What an execution yields is a function \<open>out\<close> of the text.
\<close>

definition runs :: "('w, 'z) phooks \<Rightarrow> (string \<Rightarrow> exn + result) \<Rightarrow> bool" where
  "runs h out \<longleftrightarrow> (\<forall>q s. \<exists>w. do_exec h q s = (out q, s\<lparr>world := w\<rparr>))"

definition accepts :: "(string \<Rightarrow> exn + result) \<Rightarrow> string \<Rightarrow> bool" where
  "accepts out q \<longleftrightarrow> (\<exists>R. out q = Inr R \<and> CheckStatus R = Inr ())"

definition with_results :: "(string \<Rightarrow> exn + result) \<Rightarrow> qmap \<Rightarrow> qmap" where
  "with_results out I = map (\<lambda>(k, q). (k, q\<lparr>q_res := (case out (q_text q) of Inr R \<Rightarrow> R | Inl _ \<Rightarrow> q_res q)\<rparr>)) I"

definition with_result :: "result \<Rightarrow> qmap \<Rightarrow> qmap" where
  "with_result R I = map (\<lambda>(k, q). (k, q\<lparr>q_res := R\<rparr>)) I"

lemma with_results_simps [simp]:
  "with_results out [] = []"
  "out (q_text q) = Inr R \<Longrightarrow> with_results out ((k, q) # I) = (k, q\<lparr>q_res := R\<rparr>) # with_results out I"
  "map fst (with_results out I) = map fst I" "fst ` set (with_results out I) = fst ` set I"
  "map fst (with_result R I) = map fst I" "fst ` set (with_result R I) = fst ` set I"
  "with_result R [] = []" "with_result R ((k, q) # I) = (k, q\<lparr>q_res := R\<rparr>) # with_result R I"
  "with_result R (I @ J) = with_result R I @ with_result R J" "length (with_result R I) = length I"
  by (auto simp: with_results_def with_result_def case_prod_beta image_image)

lemma begin_key_with [simp]: "begin_key (with_result R I @ W) = begin_key (I @ W)"
  by (cases I rule: begin_key.cases) (simp_all)

text \<open>On an active transaction without focus, \<open>exec\<close> is what the class does with the query.\<close>

definition replayable :: "('w, 'z) pipe_scheme \<Rightarrow> bool" where
  "replayable s \<longleftrightarrow> m_Status s = st_active \<and> m_PendingError s = [] \<and> m_Focus s = None"

lemma exec_active: "replayable s \<Longrightarrow> exec env h Q [] s = do_exec h Q s"
  by (simp add: replayable_def exec_def seq_def bnd_def gets_def CheckPendingError_def cond_def skip_def ret_def
      tx_activate_def catch_class_def catch_def)

text \<open>One query of the batch.\<close>

lemma replay_step:
  assumes "runs h out" "replayable s" "m_queries s = P @ (k, q) # rest" "distinct (map fst (m_queries s))"
    and "first_issued s = Some k" "out (q_text q) = Inr R" "CheckStatus R = Inr ()"
  shows "\<exists>w. replay env h stop ((k, q) # todo) s =
    cond (\<lambda>s. first_issued s \<noteq> stop) (replay env h stop todo) skip (s\<lparr>m_num_waiting := m_num_waiting s - 1,
      world := w, m_queries := P @ (k, q\<lparr>q_res := R\<rparr>) # rest,
      first_issued := begin_key rest\<rparr>)"
proof -
  let ?a = "s\<lparr>m_num_waiting := m_num_waiting s - 1\<rparr>"
  have "replayable ?a" using assms(2) by (simp add: replayable_def)
  then obtain w where w: "exec env h (q_text q) [] ?a = (Inr R, ?a\<lparr>world := w\<rparr>)"
    using assms(1,6) exec_active unfolding runs_def by metis
  have d: "distinct (map fst (P @ (k, q) # rest))" "distinct (map fst (P @ (k, q\<lparr>q_res := R\<rparr>) # rest))"
    using assms(3,4) by simp_all
  show ?thesis
    using w assms(3,5,7) update_results_one [OF d(1)] iter_at(2) [OF d(2)]
    by (intro exI [of _ w])
      (simp add: step_simps set_result_at_def, simp add: bnd_def seq_def modify_def lift_exn_def ret_def advance_first_def gets_def)
qed

lemma replay_accepted:
  assumes "runs h out" "\<forall>(j, x) \<in> set I. accepts out (q_text x)"
  shows "I \<noteq> [] \<Longrightarrow> replayable s \<Longrightarrow> m_queries s = P @ I @ rest \<Longrightarrow> distinct (map fst (m_queries s)) \<Longrightarrow>
    first_issued s = begin_key (I @ rest) \<Longrightarrow> stop \<notin> Some ` fst ` set I \<Longrightarrow>
    \<exists>w. replay env h stop (I @ todo) s = cond (\<lambda>s. first_issued s \<noteq> stop) (replay env h stop todo) skip
      (s\<lparr>m_num_waiting := m_num_waiting s - int (length I), world := w,
        m_queries := P @ with_results out I @ rest, first_issued := begin_key rest\<rparr>)"
  using assms(2)
proof (induction I arbitrary: s P)
  case (Cons x I)
  obtain k q where x: "x = (k, q)" by (cases x)
  obtain R where R: "out (q_text q) = Inr R" "CheckStatus R = Inr ()"
    using Cons.prems(7) x unfolding accepts_def by auto
  have s: "m_queries s = P @ (k, q) # I @ rest" "first_issued s = Some k" using Cons.prems(3,5) x by simp_all
  obtain w where w: "replay env h stop ((k, q) # I @ todo) s =
    cond (\<lambda>s. first_issued s \<noteq> stop) (replay env h stop (I @ todo)) skip (s\<lparr>m_num_waiting := m_num_waiting s - 1,
      world := w, m_queries := P @ (k, q\<lparr>q_res := R\<rparr>) # I @ rest,
      first_issued := begin_key (I @ rest)\<rparr>)"
    using replay_step [OF assms(1) Cons.prems(2) s(1) Cons.prems(4) s(2) R] by blast
  let ?t = "s\<lparr>m_num_waiting := m_num_waiting s - 1, world := w, m_queries := P @ (k, q\<lparr>q_res := R\<rparr>) # I @ rest,
      first_issued := begin_key (I @ rest)\<rparr>"
  show ?case
  proof (cases "I = []")
    case True
    then show ?thesis using w x R(1) by (intro exI [of _ w]) simp
  next
    case False
    then obtain k' q' I' where I: "I = (k', q') # I'" by (metis list.exhaust surj_pair)
    have "stop \<noteq> Some k'" using Cons.prems(6) I by auto
    then have c: "replay env h stop ((k, q) # I @ todo) s = replay env h stop (I @ todo) ?t"
      using w I by (simp add: cond_def)
    have "\<exists>v. replay env h stop (I @ todo) ?t = cond (\<lambda>s. first_issued s \<noteq> stop) (replay env h stop todo) skip
      (?t\<lparr>m_num_waiting := m_num_waiting ?t - int (length I), world := v,
        m_queries := (P @ [(k, q\<lparr>q_res := R\<rparr>)]) @ with_results out I @ rest, first_issued := begin_key rest\<rparr>)"
      using Cons.IH [of ?t "P @ [(k, q\<lparr>q_res := R\<rparr>)]"] False Cons.prems(2,4,6,7) s(1)
      by (simp add: replayable_def)
    then show ?thesis using c x R(1) by (simp add: algebra_simps)
  qed
qed simp

text \<open>The query that fails, and what the handler makes of it.\<close>

lemma replay_culprit:
  assumes "runs h out" "replayable s" "m_queries s = P @ (k, q) # rest" "out (q_text q) = Inl e"
  shows "\<exists>w. replay env h stop ((k, q) # todo) s =
    (Inl e, s\<lparr>m_num_waiting := m_num_waiting s - 1, world := w\<rparr>)"
proof -
  let ?a = "s\<lparr>m_num_waiting := m_num_waiting s - 1\<rparr>"
  have "replayable ?a" using assms(2) by (simp add: replayable_def)
  then obtain w where "exec env h (q_text q) [] ?a = (Inl e, ?a\<lparr>world := w\<rparr>)"
    using assms(1,4) exec_active unfolding runs_def by metis
  then show ?thesis by (intro exI [of _ w]) (simp add: step_simps, simp add: bnd_def)
qed

lemma replay_failed_at:
  assumes "m_queries s = P @ (k, q) # rest" "distinct (map fst (m_queries s))" "first_issued s = Some k"
    and "m_error s = qid_limit" "0 < k" "\<forall>(j, x) \<in> set (m_queries s). j + 1 < qid_limit"
  shows "replay_failed e s = (Inr (), s\<lparr>first_issued := begin_key rest, end_issued := begin_key rest,
    m_error := (case rest of [] \<Rightarrow> k + 1 | (j, _) # _ \<Rightarrow> j)\<rparr>)"
proof -
  have d: "distinct (map fst (P @ (k, q) # rest))" using assms(1,2) by simp
  have k: "k + 1 < qid_limit" using assms(1,6) by simp
  have a: "arith long_t (k + 1) = Inr (k + 1)"
    using k assms(5) by (simp add: arith_def fits_def qid_limit_value tmin_def tmax_def long_t_def convert_def)
  show ?thesis
  proof (cases rest)
    case Nil
    then show ?thesis using iter_at [OF d] assms(1,3,4) a k
      by (simp add: replay_failed_def deref_def advance_first_def bnd_def seq_def gets_def modify_def lift_exn_def
          ret_def set_error_at_def)
  next
    case (Cons x rest')
    obtain j y where x: "x = (j, y)" by (cases x)
    have d2: "distinct (map fst ((P @ [(k, q)]) @ (j, y) # rest'))" using d Cons x by simp
    have j: "j < qid_limit" using assms(1,6) Cons x by simp
    show ?thesis using iter_at [OF d] iter_at(1) [OF d2] assms(1,3,4) j Cons x
      by (simp add: replay_failed_def deref_def advance_first_def bnd_def seq_def gets_def modify_def lift_exn_def
          ret_def set_error_at_def)
  qed
qed

lemma replay_until_culprit:
  assumes "runs h out" "\<forall>(j, x) \<in> set I. accepts out (q_text x)" "out (q_text q) = Inl e" "caught_as Std_exception e"
    and "replayable s" "m_queries s = P @ I @ (k, q) # rest" "distinct (map fst (m_queries s))"
    and "first_issued s = begin_key (I @ (k, q) # rest)" "stop \<notin> Some ` fst ` set (I @ [(k, q)])"
    and "m_error s = qid_limit" "0 < k" "\<forall>(j, x) \<in> set (m_queries s). j + 1 < qid_limit"
  shows "\<exists>w. catch_std (bnd (bnd (gets (\<lambda>s. iter_from (first_issued s) (m_queries s))) lift_exn) (replay env h stop)) replay_failed s =
    (Inr (), s\<lparr>m_num_waiting := m_num_waiting s - int (length I) - 1, world := w,
      m_queries := P @ with_results out I @ (k, q) # rest, first_issued := begin_key rest, end_issued := begin_key rest,
      m_error := (case rest of [] \<Rightarrow> k + 1 | (j, _) # _ \<Rightarrow> j)\<rparr>)"
proof -
  let ?F = "\<lambda>v t. t = s\<lparr>m_num_waiting := m_num_waiting s - int (length I), world := v,
      m_queries := P @ with_results out I @ (k, q) # rest, first_issued := Some k\<rparr>"
  have d: "distinct (map fst (P @ (I @ (k, q) # rest)))" using assms(6,7) by simp
  then have f: "bnd (bnd (gets (\<lambda>s. iter_from (first_issued s) (m_queries s))) lift_exn) (replay env h stop) s =
      replay env h stop (I @ (k, q) # rest) s"
    using iter_from_at [OF d] assms(6,8) by (simp add: bnd_def gets_def lift_exn_def ret_def)
  obtain v t where t: "?F v t" and r: "replay env h stop (I @ (k, q) # rest) s = replay env h stop ((k, q) # rest) t"
  proof (cases "I = []")
    case True
    then have "?F (world s) s" using assms(6,8) by simp
    moreover have "replay env h stop (I @ (k, q) # rest) s = replay env h stop ((k, q) # rest) s" using True by simp
    ultimately show ?thesis by (rule that)
  next
    case False
    have nin: "stop \<notin> Some ` fst ` set I" "Some k \<noteq> stop" using assms(9) by auto
    obtain w where "replay env h stop (I @ (k, q) # rest) s =
        cond (\<lambda>s. first_issued s \<noteq> stop) (replay env h stop ((k, q) # rest)) skip
      (s\<lparr>m_num_waiting := m_num_waiting s - int (length I), world := w,
        m_queries := P @ with_results out I @ (k, q) # rest, first_issued := begin_key ((k, q) # rest)\<rparr>)"
      using replay_accepted [OF assms(1,2) False assms(5,6,7,8) nin(1)] by blast
    then have "replay env h stop (I @ (k, q) # rest) s = replay env h stop ((k, q) # rest)
      (s\<lparr>m_num_waiting := m_num_waiting s - int (length I), world := w,
        m_queries := P @ with_results out I @ (k, q) # rest, first_issued := Some k\<rparr>)"
      using nin(2) by (simp add: cond_def)
    then show ?thesis using that by blast
  qed
  have q: "m_queries t = (P @ with_results out I) @ (k, q) # rest" "replayable t"
    using t assms(5) by (simp_all add: replayable_def)
  obtain w where w: "replay env h stop ((k, q) # rest) t = (Inl e, t\<lparr>m_num_waiting := m_num_waiting t - 1, world := w\<rparr>)"
    using replay_culprit [OF assms(1) q(2,1) assms(3)] by blast
  let ?u = "t\<lparr>m_num_waiting := m_num_waiting t - 1, world := w\<rparr>"
  have "\<forall>j \<in> fst ` set (m_queries s). j + 1 < qid_limit" using assms(12) by auto
  then have "\<forall>j \<in> fst ` set (m_queries ?u). j + 1 < qid_limit" using t assms(6) by (simp add: image_Un)
  then have b: "\<forall>(j, x) \<in> set (m_queries ?u). j + 1 < qid_limit" by force
  have "replay_failed e ?u = (Inr (), ?u\<lparr>first_issued := begin_key rest, end_issued := begin_key rest,
    m_error := (case rest of [] \<Rightarrow> k + 1 | (j, _) # _ \<Rightarrow> j)\<rparr>)"
    using replay_failed_at [of ?u "P @ with_results out I" k q rest] q(1) b t assms(6,7,10,11) by simp
  then have "catch_std (bnd (bnd (gets (\<lambda>s. iter_from (first_issued s) (m_queries s))) lift_exn) (replay env h stop)) replay_failed s =
      (Inr (), ?u\<lparr>first_issued := begin_key rest, end_issued := begin_key rest,
        m_error := (case rest of [] \<Rightarrow> k + 1 | (j, _) # _ \<Rightarrow> j)\<rparr>)"
    using f r w assms(4) by (simp add: catch_class_def catch_def)
  then show ?thesis using t by (intro exI [of _ w]) simp
qed

section \<open>The whole batch\<close>

lemma iter_range_batch:
  assumes "distinct (map fst (D @ I @ W))"
  shows "iter_range (begin_key (I @ W)) (begin_key W) (D @ I @ W) = Inr I"
proof -
  have f: "iter_from (begin_key (I @ W)) (D @ I @ W) = Inr (I @ W)" by (rule iter_from_at [OF assms])
  show ?thesis
  proof (cases W)
    case Nil
    then show ?thesis using f by (simp add: iter_range_def)
  next
    case (Cons x W')
    obtain k q where x: "x = (k, q)" by (cases x)
    have "\<forall>p \<in> set I. fst p \<noteq> k" using assms Cons x by auto
    then have "takeWhile (\<lambda>p. fst p \<noteq> k) (I @ W) = I"
      using Cons x by (simp add: takeWhile_append2)
    then show ?thesis using f Cons x by (simp add: iter_range_def)
  qed
qed

lemma update_results_batch:
  assumes "distinct (map fst (D @ I @ W))"
  shows "update_results R (fst ` set I) (D @ I @ W) = D @ with_result R I @ W"
proof -
  have u: "map (\<lambda>(k, q). if k \<in> K then (k, q\<lparr>q_res := R\<rparr>) else (k, q)) xs = xs" if "K \<inter> fst ` set xs = {}"
    for K and xs :: qmap using that by (induction xs) auto
  have "map (\<lambda>(k, q). if k \<in> fst ` set I then (k, q\<lparr>q_res := R\<rparr>) else (k, q)) I = with_result R I"
    unfolding with_result_def by (rule map_cong [OF refl]) force
  moreover have "fst ` set I \<inter> fst ` set D = {}" "fst ` set I \<inter> fst ` set W = {}" using assms by auto
  ultimately show ?thesis using u by (simp add: update_results_def)
qed

lemma with_results_over:
  "\<forall>(j, x) \<in> set I. accepts out (q_text x) \<Longrightarrow> with_results out (with_result R I) = with_results out I"
  by (auto simp: with_results_def with_result_def accepts_def split: sum.splits)

lemma accepts_over:
  "\<forall>(j, x) \<in> set I. accepts out (q_text x) \<Longrightarrow> \<forall>(j, x) \<in> set (with_result R I). accepts out (q_text x)"
  by (fastforce simp: with_result_def)

text \<open>A dummy that fails: some error of the database, however the result is labelled.\<close>

definition rejected :: "pgresult \<Rightarrow> bool" where
  "rejected d \<longleftrightarrow> (\<forall>R. m_data R = Some d \<longrightarrow> (\<exists>e. CheckStatus R = Inl e \<and> caught_as Sql_error e))"

definition batch_rejected :: "'w backend \<Rightarrow> (int \<Rightarrow> string) \<Rightarrow> pgresult \<Rightarrow> qmap \<Rightarrow> qmap \<Rightarrow> qmap \<Rightarrow> ('w, 'z) pipe_scheme \<Rightarrow> bool" where
  "batch_rejected B txt d D I W s \<longleftrightarrow> pipe_parts B txt D I W s \<and> I \<noteq> [] \<and> m_dummy_pending s \<and> f_registered s \<and>
     b_queue B (world s) = [Some d, None] \<and> rejected d \<and> m_error s = qid_limit \<and>
     m_num_waiting s = int (length W) \<and> m_Status s = st_active \<and> m_PendingError s = [] \<and> m_q_id s + 1 < qid_limit"

text \<open>What \<open>obtain_dummy\<close> does before the first query of the batch is tried again.\<close>

text \<open>The batch gets the dummy's result, waits again, and is replayed without holding the focus.\<close>

lemma replay_batch_starts:
  assumes "pipe_server B" "pipe_parts B txt D I W s" "f_registered s" "b_queue B (world s) = [None]"
    "m_num_waiting s = int (length W)"
  shows "\<exists>w. replay_batch (b_env B) h R s =
    catch_std (bnd (bnd (gets (\<lambda>s. iter_from (first_issued s) (m_queries s))) lift_exn)
        (replay (b_env B) h (begin_key W))) replay_failed
      (s\<lparr>world := w, m_queries := D @ with_result R I @ W, m_num_waiting := int (length I) + int (length W),
         end_issued := begin_key (I @ W), m_Focus := None, f_registered := False\<rparr>)"
proof -
  have s: "m_Conn s = b_handle B" "is_open (b_env B) s" "m_queries s = D @ I @ W" "first_issued s = begin_key (I @ W)"
    "end_issued s = begin_key W" "focus_wf s" using assms(2) by (simp_all add: pipe_parts_def)
  have dis: "distinct (map fst (D @ I @ W))" using parts_distinct [OF assms(2)] .
  then have dis2: "distinct (map fst (D @ with_result R I @ W))" by simp
  let ?b = "s\<lparr>m_queries := D @ with_result R I @ W\<rparr>"
  have ob: "is_open (b_env B) ?b" "m_Conn ?b = b_handle B" using s(1,2) by (simp_all add: is_open_def Status_def)
  obtain v where "get_result (b_env B) ?b = (Inr (case b_queue B (world ?b) of [] \<Rightarrow> None | r # _ \<Rightarrow> r), ?b\<lparr>world := v\<rparr>)"
    using server_get_result [OF assms(1) ob(2,1)] by blast
  then have "get_result (b_env B) ?b = (Inr None, ?b\<lparr>world := v\<rparr>)" using assms(4) by simp
  then have o1: "bnd (obtain_result (b_env B) True) (\<lambda>_. skip) ?b = (Inr (), ?b\<lparr>world := v\<rparr>)"
    by (simp add: obtain_result_def bnd_def seq_def cond_def skip_def ret_def)
  let ?c = "s\<lparr>world := v, m_queries := D @ with_result R I @ W, m_num_waiting := int (length I) + int (length W),
         end_issued := begin_key (I @ W)\<rparr>"
  have "focus_wf ?c" "f_registered ?c" using s(6) assms(3) by (simp_all add: focus_wf_def)
  then have u: "unregister_me (b_env B) ?c = (Inr (), ?c\<lparr>m_Focus := None, f_registered := False\<rparr>)"
    by (rule unregister_me_held)
  have g1: "bnd (gets (\<lambda>s. iter_range (first_issued s) (end_issued s) (m_queries s))) lift_exn s = (Inr I, s)"
    using s(3-5) iter_range_batch [OF dis] by (simp add: step_simps lift_exn_def ret_def)
  have m1: "modify (\<lambda>s. s\<lparr>m_queries := update_results R (fst ` set I) (m_queries s)\<rparr>) s = (Inr (), ?b)"
    using s(3) update_results_batch [OF dis] by (simp add: modify_def)
  have g2: "gets end_issued ?b = (Inr (begin_key W), ?b)" using s(5) by (simp add: gets_def)
  have g3: "bnd (gets (\<lambda>s. iter_range (first_issued s) (begin_key W) (m_queries s))) lift_exn (?b\<lparr>world := v\<rparr>) =
      (Inr (with_result R I), ?b\<lparr>world := v\<rparr>)"
    using s(4) iter_range_batch [OF dis2] by (simp add: step_simps lift_exn_def ret_def)
  have m2: "modify (\<lambda>s. s\<lparr>m_num_waiting := m_num_waiting s + int (length (with_result R I)),
      end_issued := first_issued s\<rparr>) (?b\<lparr>world := v\<rparr>) = (Inr (), ?c)"
    using s(4) assms(5) by (simp add: modify_def)
  have "replay_batch (b_env B) h R s = catch_std (bnd (bnd (gets (\<lambda>s. iter_from (first_issued s) (m_queries s))) lift_exn)
        (replay (b_env B) h (begin_key W))) replay_failed (?c\<lparr>m_Focus := None, f_registered := False\<rparr>)"
    unfolding replay_batch_def
    by (rule bndI, rule g1, rule seqI, rule m1, rule bndI, rule g2, rule seqI, rule o1, rule bndI, rule g3,
        rule seqI, rule m2, rule seqI, rule u, rule refl)
  then show ?thesis by blast
qed

lemma obtain_dummy_rejected:
  assumes "pipe_server B" "batch_rejected B txt d D I W s"
  shows "\<exists>w R. m_data R = Some d \<and> obtain_dummy (b_env B) h s =
    catch_std (bnd (bnd (gets (\<lambda>s. iter_from (first_issued s) (m_queries s))) lift_exn)
        (replay (b_env B) h (begin_key W))) replay_failed
      (s\<lparr>world := w, m_dummy_pending := False, m_queries := D @ with_result R I @ W,
         m_num_waiting := int (length I) + int (length W), end_issued := begin_key (I @ W), m_Focus := None, f_registered := False\<rparr>)"
proof -
  have p: "pipe_parts B txt D I W s" and c: "m_dummy_pending s" "f_registered s" "b_queue B (world s) = [Some d, None]"
    "rejected d" "m_num_waiting s = int (length W)"
    using assms(2) by (simp_all add: batch_rejected_def)
  have s: "m_Conn s = b_handle B" "is_open (b_env B) s" using p by (simp_all add: pipe_parts_def)
  obtain w where "get_result (b_env B) s = (Inr (case b_queue B (world s) of [] \<Rightarrow> None | r # _ \<Rightarrow> r), s\<lparr>world := w\<rparr>)"
    "b_queue B w = tl (b_queue B (world s))"
    using server_get_result [OF assms(1) s(1,2)] .
  then have w: "get_result (b_env B) s = (Inr (Some d), s\<lparr>world := w\<rparr>)" "b_queue B w = [None]" using c(3) by simp_all
  let ?a = "s\<lparr>world := w, m_dummy_pending := False\<rparr>"
  have oa: "is_open (b_env B) ?a" using server_open [OF assms(1) s(2,1), of w] by simp
  obtain R where R: "pipe_result (b_env B) d ''[DUMMY PIPELINE QUERY]'' ?a = (Inr R, ?a)" "m_data R = Some d"
    using pipe_result_open [OF assms(1) oa, of d] by (force simp: make_result_object_def)
  obtain e where e: "CheckStatus R = Inl e" "caught_as Sql_error e" using c(4) R(2) unfolding rejected_def by blast
  have o: "obtain_dummy (b_env B) h s = replay_batch (b_env B) h R ?a"
    using w(1) R(1) e by (simp add: obtain_dummy_def bnd_def seq_def modify_def catch_class_def catch_def
        lift_exn_def ret_def throw_def)
  have "pipe_parts B txt D I W ?a" using p oa by (simp add: pipe_parts_def focus_wf_def)
  then obtain v where "replay_batch (b_env B) h R ?a =
    catch_std (bnd (bnd (gets (\<lambda>s. iter_from (first_issued s) (m_queries s))) lift_exn)
        (replay (b_env B) h (begin_key W))) replay_failed
      (?a\<lparr>world := v, m_queries := D @ with_result R I @ W, m_num_waiting := int (length I) + int (length W),
         end_issued := begin_key (I @ W), m_Focus := None, f_registered := False\<rparr>)"
    using replay_batch_starts [OF assms(1), of "txt" D I W ?a h R] c(2,5) w(2) by auto
  moreover have "?a\<lparr>world := v\<rparr> = s\<lparr>world := v, m_dummy_pending := False\<rparr>" by simp
  ultimately show ?thesis unfolding o using R(2) by (intro exI [of _ v] exI [of _ R]) metis
qed

lemma rejected_keys:
  assumes "batch_rejected B txt d D I W s"
  shows "distinct (map fst (D @ I @ W))" "\<forall>j \<in> fst ` set (D @ I @ W). 0 < j \<and> j + 1 < qid_limit"
    "begin_key W \<notin> Some ` fst ` set I"
proof -
  have p: "pipe_parts B txt D I W s" and l: "m_q_id s + 1 < qid_limit"
    using assms by (simp_all add: batch_rejected_def)
  show d: "distinct (map fst (D @ I @ W))" using parts_distinct [OF p] .
  have m: "m_queries s = D @ I @ W" using p by (simp add: pipe_parts_def)
  have "\<forall>(j, q) \<in> set (D @ I @ W). 0 < j \<and> j \<le> m_q_id s" using p unfolding pipe_parts_def by fastforce
  then show "\<forall>j \<in> fst ` set (D @ I @ W). 0 < j \<and> j + 1 < qid_limit" using l by fastforce
  show "begin_key W \<notin> Some ` fst ` set I" using d by (cases W rule: begin_key.cases) auto
qed

section \<open>Properties\<close>


text \<open>
  A rejected batch whose queries all succeed one by one leaves the pipeline waiting for
  results it already has: the first issued query has moved to the end of the batch, the end of the
  issued range has stayed at its beginning, and the pipeline takes queries to be pending.
\<close>

theorem replay_of_good_batch_stays_pending:
  assumes "pipe_server B" "batch_rejected B txt d D I W s" "runs h out"
    and "\<forall>(j, x) \<in> set I. accepts out (q_text x)"
  shows "\<exists>t. obtain_dummy (b_env B) h s = (Inr (), t) \<and> m_queries t = D @ with_results out I @ W \<and>
    first_issued t = begin_key W \<and> end_issued t = begin_key I \<and> have_pending t"
proof -
  obtain w R where o: "obtain_dummy (b_env B) h s =
    catch_std (bnd (bnd (gets (\<lambda>s. iter_from (first_issued s) (m_queries s))) lift_exn)
        (replay (b_env B) h (begin_key W))) replay_failed
      (s\<lparr>world := w, m_dummy_pending := False, m_queries := D @ with_result R I @ W,
         m_num_waiting := int (length I) + int (length W), end_issued := begin_key (I @ W), m_Focus := None, f_registered := False\<rparr>)"
    using obtain_dummy_rejected [OF assms(1,2), of h] by blast
  define a where "a = s\<lparr>world := w, m_dummy_pending := False, m_queries := D @ with_result R I @ W,
         m_num_waiting := int (length I) + int (length W), end_issued := begin_key (I @ W), m_Focus := None, f_registered := False\<rparr>"
  have s: "first_issued s = begin_key (I @ W)" "m_Status s = st_active" "m_PendingError s = []" "I \<noteq> []"
    using assms(2) by (simp_all add: batch_rejected_def pipe_parts_def)
  note k = rejected_keys [OF assms(2)]
  have m: "m_queries a = D @ with_result R I @ W" "first_issued a = begin_key (with_result R I @ W)" "replayable a"
    using s(1-3) by (simp_all add: a_def replayable_def)
  have dis: "distinct (map fst (m_queries a))" "begin_key W \<notin> Some ` fst ` set (with_result R I)"
    using k(1,3) m(1) by simp_all
  have ne: "with_result R I \<noteq> []" using s(4) by (simp add: with_result_def)
  obtain v where v: "replay (b_env B) h (begin_key W) (with_result R I @ W) a =
    cond (\<lambda>s. first_issued s \<noteq> begin_key W) (replay (b_env B) h (begin_key W) W) skip
      (a\<lparr>m_num_waiting := m_num_waiting a - int (length (with_result R I)), world := v,
        m_queries := D @ with_results out (with_result R I) @ W, first_issued := begin_key W\<rparr>)"
    using replay_accepted [OF assms(3) accepts_over [OF assms(4)] ne m(3,1) dis(1) m(2) dis(2)] by blast
  have d: "distinct (map fst (D @ with_result R I @ W))" using dis(1) m(1) by simp
  have "bnd (bnd (gets (\<lambda>s. iter_from (first_issued s) (m_queries s))) lift_exn) (replay (b_env B) h (begin_key W)) a =
      replay (b_env B) h (begin_key W) (with_result R I @ W) a"
    using iter_from_at [OF d] m(1,2) by (simp add: bnd_def gets_def lift_exn_def ret_def)
  then have "obtain_dummy (b_env B) h s = (Inr (), a\<lparr>m_num_waiting := m_num_waiting a - int (length (with_result R I)),
      world := v, m_queries := D @ with_results out (with_result R I) @ W, first_issued := begin_key W\<rparr>)"
    using o [folded a_def] v by (simp add: cond_def skip_def ret_def catch_class_def catch_def)
  moreover have "end_issued a = begin_key I" using s(4) by (cases I rule: begin_key.cases) (simp_all add: a_def)
  moreover have "begin_key I \<noteq> begin_key W" using s(4) k(3) by (cases I rule: begin_key.cases) auto
  ultimately show ?thesis by (simp add: with_results_over [OF assms(4)] have_pending_def)
qed

section \<open>Witnesses\<close>

definition syntax_failure :: pgresult where
  "syntax_failure = (one_value [])\<lparr>PQresultStatus := PGRES_FATAL_ERROR, PQresultErrorMessage := ''syntax error''\<rparr>"

definition echo_out :: "string \<Rightarrow> exn + result" where
  "echo_out q = (if q = ''fail'' then Inl (sql_error ''syntax error'' q)
     else Inr (make_result_object (Some (one_value q)) 0 q 0))"

definition echo_hooks :: "(pgresult option list, unit) phooks" where
  "echo_hooks = (basic_hooks echo_env)\<lparr>do_exec := \<lambda>q s. (echo_out q, s)\<rparr>"

definition waiting_query :: "int \<times> string \<Rightarrow> int \<times> query" where
  "waiting_query = (\<lambda>(k, q). (k, \<lparr>q_text = q, q_res = empty_result\<rparr>))"

definition rejected_pipe :: "string list \<Rightarrow> pgresult option list pipe" where
  "rejected_pipe qs = echo_pipe\<lparr>m_Focus := Some (this_focus echo_pipe), f_registered := True, m_q_id := 3,
     world := [Some syntax_failure, None], m_dummy_pending := True, first_issued := Some 1,
     m_queries := map waiting_query (zip [1, 2, 3] qs)\<rparr>"

lemma echo_hooks_runs: "runs echo_hooks echo_out"
  unfolding runs_def echo_hooks_def by (simp, metis conn.surjective conn.update_convs)

lemma syntax_failure_rejected: "rejected syntax_failure"
  by (auto simp: rejected_def CheckStatus_def StatusError_def syntax_failure_def one_value_def sample_rows_def
      ThrowSQLError_def caught_as_def sql_error_def)

lemma rejected_pipe_batch:
  assumes "\<forall>q \<in> {a, b, c}. no_semicolon q"
  shows "batch_rejected echo (\<lambda>k. [a, b, c] ! nat (k - 1)) syntax_failure []
    (map waiting_query (zip [1, 2, 3] [a, b, c])) [] (rejected_pipe [a, b, c])"
proof -
  have "is_open echo_env echo_pipe" "m_Conn echo_pipe = Some 1"
    using echo_started by (simp_all add: started_def echo_def)
  then have o: "is_open echo_env (rejected_pipe [a, b, c])" "m_Conn (rejected_pipe [a, b, c]) = Some 1"
    by (simp_all add: rejected_pipe_def is_open_def Status_def echo_env_def quiet_env_def)
  moreover have "m_error echo_pipe = qid_limit" "m_num_waiting echo_pipe = 0" "m_Status echo_pipe = st_active"
    "m_PendingError echo_pipe = []" "end_issued echo_pipe = None"
    by (simp_all add: echo_pipe_def tx.extend_def sample_tx_def new_tx_def conn.extend_def)
  ultimately show ?thesis using assms syntax_failure_rejected
    by (simp add: batch_rejected_def pipe_parts_def echo_def qid_limit_value focus_wf_def waiting_query_def)
      (simp add: rejected_pipe_def waiting_query_def)
qed

lemma echo_accepts: "q \<noteq> ''fail'' \<Longrightarrow> accepts echo_out q"
  by (simp add: accepts_def echo_out_def make_result_object_def CheckStatus_def StatusError_def one_value_def
      sample_rows_def)


theorem replay_of_good_batch_stays_pending_witness:
  "\<exists>t. obtain_dummy echo_env echo_hooks (rejected_pipe [''a'', ''b'', ''c'']) = (Inr (), t) \<and>
    first_issued t = None \<and> end_issued t = Some 1 \<and> have_pending t"
proof -
  have b: "batch_rejected echo (\<lambda>k. [''a'', ''b'', ''c''] ! nat (k - 1)) syntax_failure []
    (map waiting_query (zip [1, 2, 3] [''a'', ''b'', ''c''])) [] (rejected_pipe [''a'', ''b'', ''c''])"
    by (rule rejected_pipe_batch) (simp add: no_semicolon_def)
  show ?thesis
    using replay_of_good_batch_stays_pending [OF echo_server b echo_hooks_runs] echo_accepts
    by (auto simp: waiting_query_def)
qed

end
