(* ===== verification/Icursor.thy ===== *)
theory Icursor
  imports Cursor_Facts
begin

text \<open>
  \<^verbatim>\<open>icursorstream\<close> and \<^verbatim>\<open>icursor_iterator\<close> (\<^verbatim>\<open>src/cursor.cxx\<close>): a cursor read as a stream of
  blocks, and iterators over it. The iterators of a stream are linked into a list through their own
  pointers, so they live in a memory, a map from addresses. The model has one stream; an
  iterator is attached to it or to none.
\<close>

section \<open>State\<close>

type_synonym addr = int

record icit =
  it_attached :: bool
  m_here :: result
  it_pos :: int
  m_prev :: "addr option"
  m_next :: "addr option"

record 'w icstream = "'w curs" +
  m_stride :: int
  m_realpos :: int
  m_reqpos :: int
  m_iterators :: "addr option"
  m_done :: bool
  memory :: "(addr \<times> icit) list"

type_synonym ('w, 'z, 'a) iprog = "(('w, 'z) icstream_scheme, 'a) cxx"

text \<open>Reading and writing through a pointer; a pointer to no object has no meaning.\<close>

definition it_get :: "addr \<Rightarrow> ('w, 'z, icit) iprog" where
  "it_get a = bnd (gets (\<lambda>s. omap_get a (memory s))) (\<lambda>i. case i of
     None \<Rightarrow> throw undefined_behaviour | Some i \<Rightarrow> ret i)"

definition it_put :: "addr \<Rightarrow> icit \<Rightarrow> ('w, 'z, unit) iprog" where
  "it_put a i = modify (\<lambda>s. s\<lparr>memory := omap_put (<) a i (memory s)\<rparr>)"

definition it_upd :: "addr \<Rightarrow> (icit \<Rightarrow> icit) \<Rightarrow> ('w, 'z, unit) iprog" where
  "it_upd a f = bnd (it_get a) (\<lambda>i. it_put a (f i))"

definition set_next :: "addr \<Rightarrow> addr option \<Rightarrow> ('w, 'z, unit) iprog" where
  "set_next a p = it_upd a (\<lambda>i. i\<lparr>m_next := p\<rparr>)"

definition set_prev :: "addr \<Rightarrow> addr option \<Rightarrow> ('w, 'z, unit) iprog" where
  "set_prev a p = it_upd a (\<lambda>i. i\<lparr>m_prev := p\<rparr>)"

section \<open>The stream\<close>

definition set_stride :: "int \<Rightarrow> ('w, 'z, unit) iprog" where
  "set_stride n =
     (if n < 1 then throw (argument_error (''Attempt to set cursor stride to '' @ to_string_long n))
      else modify (\<lambda>s. s\<lparr>m_stride := n\<rparr>))"

definition init_stream :: "int \<Rightarrow> ('w, 'z, unit) iprog" where
  "init_stream sstride =
     modify (\<lambda>s. s\<lparr>m_stride := sstride, m_realpos := 0, m_reqpos := 0, m_iterators := None, m_done := False\<rparr>)"

text \<open>A constructor that throws destroys the cursor it has built.\<close>

definition icursorstream_new ::
  "'w env \<Rightarrow> ('w, ('z icstream_ext) curs_ext) hooks \<Rightarrow> string \<Rightarrow> string \<Rightarrow> int \<Rightarrow> ('w, 'z, unit) iprog" where
  "icursorstream_new env h query basename sstride =
     seq (sql_cursor_new env h query basename forward_only read_only owned False)
     (seq (init_stream sstride)
          (catch_all (set_stride sstride) (\<lambda>e. seq (cursor_close env) (throw e))))"

definition icursorstream_adopt :: "'w env \<Rightarrow> string \<Rightarrow> int \<Rightarrow> ownershippolicy \<Rightarrow> ('w, 'z, unit) iprog" where
  "icursorstream_adopt env cname sstride op =
     seq (sql_cursor_adopt cname op)
     (seq (init_stream sstride)
          (catch_all (set_stride sstride) (\<lambda>e. seq (cursor_close env) (throw e))))"

definition fetchblock :: "'w env \<Rightarrow> ('w, 'z, result) iprog" where
  "fetchblock env =
     bnd (gets m_stride) (\<lambda>n. bnd (cursor_fetch env n) (\<lambda>(r, _).
       seq (modify (\<lambda>s. s\<lparr>m_realpos := m_realpos s + int (result_size r)\<rparr>))
       (seq (if result_is_empty r then modify (\<lambda>s. s\<lparr>m_done := True\<rparr>) else skip)
            (ret r))))"

definition ignore :: "'w env \<Rightarrow> int \<Rightarrow> ('w, 'z, unit) iprog" where
  "ignore env n =
     bnd (cursor_move env n) (\<lambda>(offset, _).
       seq (modify (\<lambda>s. s\<lparr>m_realpos := m_realpos s + offset\<rparr>))
           (if offset < n then modify (\<lambda>s. s\<lparr>m_done := True\<rparr>) else skip))"

definition forward :: "int \<Rightarrow> ('w, 'z, int) iprog" where
  "forward n = seq (modify (\<lambda>s. s\<lparr>m_reqpos := m_reqpos s + n * m_stride s\<rparr>)) (gets m_reqpos)"

definition insert_iterator :: "addr \<Rightarrow> ('w, 'z, unit) iprog" where
  "insert_iterator i =
     bnd (gets m_iterators) (\<lambda>head.
       seq (set_next i head)
       (seq (case head of None \<Rightarrow> skip | Some j \<Rightarrow> set_prev j (Some i))
            (modify (\<lambda>s. s\<lparr>m_iterators := Some i\<rparr>))))"

definition remove_iterator :: "addr \<Rightarrow> ('w, 'z, unit) iprog" where
  "remove_iterator i =
     seq (cond (\<lambda>s. m_iterators s = Some i)
            (bnd (it_get i) (\<lambda>x.
              seq (modify (\<lambda>s. s\<lparr>m_iterators := m_next x\<rparr>))
                  (case m_next x of None \<Rightarrow> skip | Some j \<Rightarrow> set_prev j None)))
            (bnd (it_get i) (\<lambda>x. case m_prev x of
               None \<Rightarrow> throw undefined_behaviour
             | Some p \<Rightarrow> seq (set_next p (m_next x))
                 (case m_next x of None \<Rightarrow> skip | Some j \<Rightarrow> set_prev j (Some p)))))
     (seq (set_prev i None) (set_next i None))"

text \<open>
  The iterators to serve, by position; \<^verbatim>\<open>multimap::insert\<close> puts an entry behind those of its
  key. The list is followed for as many steps as there are objects.
\<close>

fun todo_insert :: "int \<Rightarrow> addr \<Rightarrow> (int \<times> addr) list \<Rightarrow> (int \<times> addr) list" where
  "todo_insert p a [] = [(p, a)]"
| "todo_insert p a ((q, b) # m) = (if p < q then (p, a) # (q, b) # m else (q, b) # todo_insert p a m)"

fun todo_list :: "int \<Rightarrow> nat \<Rightarrow> addr option \<Rightarrow> (int \<times> addr) list \<Rightarrow> ('w, 'z, (int \<times> addr) list) iprog" where
  "todo_list topos n None todo = ret todo"
| "todo_list topos 0 (Some a) todo = throw diverged"
| "todo_list topos (Suc n) (Some a) todo =
     bnd (it_get a) (\<lambda>i. bnd (gets m_realpos) (\<lambda>r.
       todo_list topos n (m_next i)
         (if it_pos i \<ge> r \<and> it_pos i \<le> topos then todo_insert (it_pos i) a todo else todo)))"

definition fill :: "addr \<Rightarrow> result \<Rightarrow> ('w, 'z, unit) iprog" where
  "fill a r = it_upd a (\<lambda>i. i\<lparr>m_here := r\<rparr>)"

fun fill_all :: "result \<Rightarrow> (int \<times> addr) list \<Rightarrow> ('w, 'z, unit) iprog" where
  "fill_all r [] = skip"
| "fill_all r ((_, a) # m) = seq (fill a r) (fill_all r m)"

function serve :: "'w env \<Rightarrow> (int \<times> addr) list \<Rightarrow> ('w, 'z, unit) iprog" where
  "serve env [] = skip"
| "serve env ((readpos, a) # todo) =
     seq (bnd (gets m_realpos) (\<lambda>r. if readpos > r then ignore env (readpos - r) else skip))
     (bnd (fetchblock env) (\<lambda>R.
      seq (fill_all R ((readpos, a) # takeWhile (\<lambda>t. fst t = readpos) todo))
          (serve env (dropWhile (\<lambda>t. fst t = readpos) todo))))"
  by pat_completeness auto
termination
  by (relation "measure (\<lambda>(_, t). length t)") (auto simp: le_imp_less_Suc length_dropWhile_le)

definition service_iterators :: "'w env \<Rightarrow> int \<Rightarrow> ('w, 'z, unit) iprog" where
  "service_iterators env topos =
     cond (\<lambda>s. topos < m_realpos s) skip
       (bnd (gets (\<lambda>s. (length (memory s), m_iterators s))) (\<lambda>(n, head).
        bnd (todo_list topos n head []) (serve env)))"

section \<open>Iterators\<close>

definition refresh :: "'w env \<Rightarrow> addr \<Rightarrow> ('w, 'z, unit) iprog" where
  "refresh env a = bnd (it_get a) (\<lambda>i. if it_attached i then service_iterators env (it_pos i) else skip)"

definition iter_default :: "addr \<Rightarrow> ('w, 'z, unit) iprog" where
  "iter_default a = it_put a \<lparr>it_attached = False, m_here = empty_result, it_pos = 0, m_prev = None, m_next = None\<rparr>"

definition iter_stream :: "addr \<Rightarrow> ('w, 'z, unit) iprog" where
  "iter_stream a =
     bnd (forward 0) (\<lambda>p.
       seq (it_put a \<lparr>it_attached = True, m_here = empty_result, it_pos = p, m_prev = None, m_next = None\<rparr>)
           (insert_iterator a))"

definition iter_copy :: "addr \<Rightarrow> addr \<Rightarrow> ('w, 'z, unit) iprog" where
  "iter_copy a rhs =
     bnd (it_get rhs) (\<lambda>i.
       seq (it_put a \<lparr>it_attached = it_attached i, m_here = m_here i, it_pos = it_pos i, m_prev = None, m_next = None\<rparr>)
           (if it_attached i then insert_iterator a else skip))"

definition iter_delete :: "addr \<Rightarrow> ('w, 'z, unit) iprog" where
  "iter_delete a =
     seq (bnd (it_get a) (\<lambda>i. if it_attached i then remove_iterator a else skip))
         (modify (\<lambda>s. s\<lparr>memory := omap_erase a (memory s)\<rparr>))"

text \<open>An iterator that has no stream cannot move.\<close>

definition iter_move :: "addr \<Rightarrow> int \<Rightarrow> ('w, 'z, unit) iprog" where
  "iter_move a n =
     bnd (it_get a) (\<lambda>i. if \<not> it_attached i then throw undefined_behaviour
       else bnd (forward n) (\<lambda>p. it_upd a (\<lambda>i. i\<lparr>it_pos := p, m_here := empty_result\<rparr>)))"

definition iter_preinc :: "addr \<Rightarrow> ('w, 'z, unit) iprog" where
  "iter_preinc a = iter_move a 1"

text \<open>The old value is returned in a new object at \<open>old\<close>.\<close>

definition iter_postinc :: "addr \<Rightarrow> addr \<Rightarrow> ('w, 'z, unit) iprog" where
  "iter_postinc a old = seq (iter_copy old a) (iter_move a 1)"

definition iter_advance :: "addr \<Rightarrow> int \<Rightarrow> ('w, 'z, unit) iprog" where
  "iter_advance a n =
     (if n \<le> 0 then
        if n = 0 then skip else throw (argument_error ''Advancing icursor_iterator by negative offset'')
      else iter_move a n)"

definition iter_assign :: "addr \<Rightarrow> addr \<Rightarrow> ('w, 'z, unit) iprog" where
  "iter_assign a rhs =
     bnd (it_get rhs) (\<lambda>r. bnd (it_get a) (\<lambda>i.
       if it_attached r = it_attached i then it_upd a (\<lambda>i. i\<lparr>m_here := m_here r, it_pos := it_pos r\<rparr>)
       else seq (if it_attached i then remove_iterator a else skip)
           (seq (it_upd a (\<lambda>i. i\<lparr>m_here := m_here r, it_pos := it_pos r, it_attached := it_attached r\<rparr>))
                (if it_attached r then insert_iterator a else skip))))"

definition iter_deref :: "'w env \<Rightarrow> addr \<Rightarrow> ('w, 'z, result) iprog" where
  "iter_deref env a = seq (refresh env a) (bnd (it_get a) (\<lambda>i. ret (m_here i)))"

definition iter_eq :: "'w env \<Rightarrow> addr \<Rightarrow> addr \<Rightarrow> ('w, 'z, bool) iprog" where
  "iter_eq env a b =
     bnd (it_get a) (\<lambda>i. bnd (it_get b) (\<lambda>j.
       if it_attached i = it_attached j then ret (it_pos i = it_pos j)
       else seq (refresh env a) (seq (refresh env b)
         (bnd (it_get a) (\<lambda>i. bnd (it_get b) (\<lambda>j.
            ret (result_is_empty (m_here i) \<and> result_is_empty (m_here j))))))))"

definition iter_less :: "'w env \<Rightarrow> addr \<Rightarrow> addr \<Rightarrow> ('w, 'z, bool) iprog" where
  "iter_less env a b =
     bnd (it_get a) (\<lambda>i. bnd (it_get b) (\<lambda>j.
       if it_attached i = it_attached j then ret (it_pos i < it_pos j)
       else seq (refresh env a) (seq (refresh env b)
         (bnd (it_get a) (\<lambda>i. ret (\<not> result_is_empty (m_here i)))))))"

end
