(* ===== verification/Icursor_Links.thy ===== *)
theory Icursor_Links
  imports Icursor
begin

text \<open>
  The doubly linked list in which a cursor stream keeps its iterators: segments of it,
  what inserting and removing an iterator do to them, and that every operation of an iterator leaves
  the list properly linked, whatever its order.
\<close>

section \<open>The memory\<close>

abbreviation mem :: "('w, 'z) icstream_scheme \<Rightarrow> addr \<Rightarrow> icit option" where
  "mem s a \<equiv> omap_get a (memory s)"

definition upd_mem :: "addr \<Rightarrow> icit \<Rightarrow> ('w, 'z) icstream_scheme \<Rightarrow> ('w, 'z) icstream_scheme" where
  "upd_mem a i s = s\<lparr>memory := omap_put (<) a i (memory s)\<rparr>"

lemma upd_mem_simps [simp]:
  "mem (upd_mem a i s) b = (if b = a then Some i else mem s b)"
  "m_iterators (upd_mem a i s) = m_iterators s" "m_realpos (upd_mem a i s) = m_realpos s"
  "m_reqpos (upd_mem a i s) = m_reqpos s" "m_stride (upd_mem a i s) = m_stride s"
  by (simp_all add: upd_mem_def omap_get_put)

lemma it_get_ok: "mem s a = Some i \<Longrightarrow> it_get a s = (Inr i, s)"
  by (simp add: it_get_def bnd_def gets_def ret_def)

lemma it_get_bad: "mem s a = None \<Longrightarrow> it_get a s = (Inl undefined_behaviour, s)"
  by (simp add: it_get_def bnd_def gets_def throw_def)

lemma it_put_ok: "it_put a i s = (Inr (), upd_mem a i s)"
  by (simp add: it_put_def modify_def upd_mem_def)

lemma it_upd_ok: "mem s a = Some i \<Longrightarrow> it_upd a f s = (Inr (), upd_mem a (f i) s)"
  by (simp add: it_upd_def bnd_def it_get_ok it_put_ok)

lemmas set_link_ok = set_next_def set_prev_def it_upd_ok

section \<open>Doubly linked segments\<close>

text \<open>
  From pointer \<open>p\<close>, reached from \<open>prev\<close>, over the objects \<open>xs\<close> to pointer \<open>q\<close>, reached from \<open>lst\<close>.
\<close>

fun dseg :: "(addr \<Rightarrow> icit option) \<Rightarrow> addr option \<Rightarrow> addr option \<Rightarrow> addr list \<Rightarrow> addr option \<Rightarrow> addr option \<Rightarrow> bool" where
  "dseg m p prev [] q lst = (p = q \<and> prev = lst)"
| "dseg m p prev (a # as) q lst =
     (p = Some a \<and> (\<exists>i. m a = Some i \<and> m_prev i = prev \<and> dseg m (m_next i) (Some a) as q lst))"

lemma dseg_append:
  "dseg m p prev (xs @ ys) q lst \<longleftrightarrow> (\<exists>r k. dseg m p prev xs r k \<and> dseg m r k ys q lst)"
  by (induction xs arbitrary: p prev) auto

lemma dseg_out: "a \<notin> set xs \<Longrightarrow> dseg (m(a := v)) p prev xs q lst = dseg m p prev xs q lst"
  by (induction xs arbitrary: p prev) auto

lemma dseg_cong:
  "(\<And>a. a \<in> set xs \<Longrightarrow> map_option (\<lambda>i. (m_prev i, m_next i)) (m' a) = map_option (\<lambda>i. (m_prev i, m_next i)) (m a)) \<Longrightarrow>
     dseg m p prev xs q lst \<Longrightarrow> dseg m' p prev xs q lst"
proof (induction xs arbitrary: p prev)
  case (Cons a xs)
  obtain i where i: "p = Some a" "m a = Some i" "m_prev i = prev" "dseg m (m_next i) (Some a) xs q lst"
    using Cons.prems(2) by auto
  have "map_option (\<lambda>i. (m_prev i, m_next i)) (m' a) = Some (m_prev i, m_next i)"
    using Cons.prems(1) i(2) by simp
  then obtain j where "m' a = Some j" "m_prev j = m_prev i" "m_next j = m_next i" by auto
  then show ?case using i Cons.IH [OF _ i(4)] Cons.prems(1) by simp
qed simp

text \<open>The first object gets another predecessor.\<close>

lemma dseg_first_prev:
  assumes "dseg m (Some a) prev xs q lst" "xs \<noteq> []" "distinct xs" "m a = Some i"
  shows "dseg (m(a \<mapsto> i\<lparr>m_prev := b\<rparr>)) (Some a) b xs q lst"
proof -
  obtain ys where "xs = a # ys" using assms(1,2) by (cases xs) auto
  then show ?thesis using assms(1,3,4) by (auto simp: dseg_out)
qed

text \<open>The last object gets another successor.\<close>

lemma dseg_last_next:
  assumes "dseg m p prev xs q lst" "xs \<noteq> []" "distinct xs"
  shows "\<exists>z i. lst = Some z \<and> z \<in> set xs \<and> m z = Some i \<and> m_next i = q \<and>
    dseg (m(z \<mapsto> i\<lparr>m_next := r\<rparr>)) p prev xs r lst"
  using assms
proof (induction xs arbitrary: p prev)
  case (Cons a xs)
  obtain i where i: "p = Some a" "m a = Some i" "m_prev i = prev" "dseg m (m_next i) (Some a) xs q lst"
    using Cons.prems(1) by auto
  show ?case
  proof (cases "xs = []")
    case True
    then show ?thesis using i by auto
  next
    case False
    have dx: "distinct xs" using Cons.prems(3) by simp
    obtain z j where z: "lst = Some z" "z \<in> set xs" "m z = Some j" "m_next j = q"
      "dseg (m(z \<mapsto> j\<lparr>m_next := r\<rparr>)) (m_next i) (Some a) xs r lst"
      using Cons.IH [OF i(4) False dx] by blast
    then show ?thesis using i(1-3) Cons.prems(3) by (auto simp: fun_upd_def)
  qed
qed simp

section \<open>The list of iterators\<close>

definition registered :: "('w, 'z) icstream_scheme \<Rightarrow> addr list \<Rightarrow> bool" where
  "registered s xs \<longleftrightarrow> (\<exists>l. dseg (mem s) (m_iterators s) None xs None l) \<and> distinct xs \<and>
     (\<forall>a i. mem s a = Some i \<longrightarrow> (it_attached i \<longleftrightarrow> a \<in> set xs) \<and> (\<not> it_attached i \<longrightarrow> m_prev i = None))"

lemma dseg_mem: "dseg m p prev xs q lst \<Longrightarrow> a \<in> set xs \<Longrightarrow> m a \<noteq> None"
  by (induction xs arbitrary: p prev) auto

text \<open>An object that is attached but not yet in the list: the state in which the constructors insert it.\<close>

definition detached_but :: "addr \<Rightarrow> ('w, 'z) icstream_scheme \<Rightarrow> addr list \<Rightarrow> bool" where
  "detached_but a s xs \<longleftrightarrow> (\<exists>l. dseg (mem s) (m_iterators s) None xs None l) \<and> distinct xs \<and> a \<notin> set xs \<and>
     (\<exists>i. mem s a = Some i \<and> m_prev i = None) \<and>
     (\<forall>b i. b \<noteq> a \<longrightarrow> mem s b = Some i \<longrightarrow> (it_attached i \<longleftrightarrow> b \<in> set xs) \<and> (\<not> it_attached i \<longrightarrow> m_prev i = None))"

lemma insert_before_links:
  assumes "detached_but a s (b # ys)" "mem s a = Some i" "it_attached i"
  shows "\<exists>t. insert_iterator a s = (Inr (), t) \<and> registered t (a # b # ys)"
proof -
  obtain l where l: "dseg (mem s) (m_iterators s) None (b # ys) None l" and d: "distinct (b # ys)" "a \<notin> set (b # ys)"
    and p: "m_prev i = None"
    and o: "\<forall>c i. c \<noteq> a \<longrightarrow> mem s c = Some i \<longrightarrow> (it_attached i \<longleftrightarrow> c \<in> set (b # ys)) \<and> (\<not> it_attached i \<longrightarrow> m_prev i = None)"
    using assms(1,2) unfolding detached_but_def by auto
  define s1 where "s1 = upd_mem a (i\<lparr>m_next := m_iterators s\<rparr>) s"
  have n: "set_next a (m_iterators s) s = (Inr (), s1)" using assms(2) by (simp add: set_link_ok s1_def)
  obtain j where h: "m_iterators s = Some b" and j: "mem s b = Some j" using l by auto
  have ab: "a \<noteq> b" using d(2) by simp
  let ?t = "(upd_mem b (j\<lparr>m_prev := Some a\<rparr>) s1)\<lparr>m_iterators := Some a\<rparr>"
  have j1: "mem s1 b = Some j" using j ab by (simp add: s1_def)
  have "set_prev b (Some a) s1 = (Inr (), upd_mem b (j\<lparr>m_prev := Some a\<rparr>) s1)" using j1 by (simp add: set_link_ok)
  then have ins: "insert_iterator a s = (Inr (), ?t)"
    using h n by (simp add: insert_iterator_def step_simps) (simp add: seq_def bnd_def modify_def)
  let ?m = "(mem s)(b \<mapsto> j\<lparr>m_prev := Some a\<rparr>)"
  have m: "mem ?t = ?m(a \<mapsto> i\<lparr>m_next := Some b\<rparr>)" using ab h by (auto simp: s1_def)
  have "dseg ?m (Some b) (Some a) (b # ys) None l"
    by (rule dseg_first_prev [where prev = None]) (use l h d(1) j in simp_all)
  then have "dseg (mem ?t) (Some b) (Some a) (b # ys) None l" unfolding m by (rule iffD2 [OF dseg_out [OF d(2)]])
  then have D: "dseg (mem ?t) (m_iterators ?t) None (a # b # ys) None l" using p ab h by (simp add: s1_def)
  have O: "(it_attached x \<longleftrightarrow> c \<in> set (a # b # ys)) \<and> (\<not> it_attached x \<longrightarrow> m_prev x = None)" if "mem ?t c = Some x" for c x
  proof -
    consider "c = a" | "c = b" | "c \<noteq> a" "c \<noteq> b" by blast
    then show ?thesis
    proof cases
      case 1
      then have "x = i\<lparr>m_next := Some b\<rparr>" using that ab h by (simp add: s1_def)
      then show ?thesis using 1 assms(3) by simp
    next
      case 2
      then have "x = j\<lparr>m_prev := Some a\<rparr>" using that by simp
      moreover have "it_attached j" using spec [OF spec [OF o, of b], of j] j ab by simp
      ultimately show ?thesis using 2 by simp
    next
      case 3
      then have "mem s c = Some x" using that by (simp add: s1_def)
      then show ?thesis using 3 o by auto
    qed
  qed
  have "distinct (a # b # ys)" using d by simp
  then have "registered ?t (a # b # ys)" unfolding registered_def using D O by blast
  then show ?thesis using ins by blast
qed

lemma insert_iterator_links:
  assumes "detached_but a s xs" "mem s a = Some i" "it_attached i"
  shows "\<exists>t. insert_iterator a s = (Inr (), t) \<and> registered t (a # xs)"
proof (cases xs)
  case Nil
  obtain l where l: "dseg (mem s) (m_iterators s) None xs None l" and p: "m_prev i = None"
    and o: "\<forall>b i. b \<noteq> a \<longrightarrow> mem s b = Some i \<longrightarrow> (it_attached i \<longleftrightarrow> b \<in> set xs) \<and> (\<not> it_attached i \<longrightarrow> m_prev i = None)"
    using assms(1,2) unfolding detached_but_def by auto
  have h: "m_iterators s = None" using l Nil by simp
  let ?s = "upd_mem a (i\<lparr>m_next := m_iterators s\<rparr>) s"
  have n: "set_next a (m_iterators s) s = (Inr (), ?s)" using assms(2) by (simp add: set_link_ok)
  have "insert_iterator a s = (Inr (), ?s\<lparr>m_iterators := Some a\<rparr>)"
    using h n by (simp add: insert_iterator_def step_simps) (simp add: seq_def bnd_def modify_def skip_def ret_def)
  moreover have "registered (?s\<lparr>m_iterators := Some a\<rparr>) [a]"
    using h p assms(3) o Nil by (auto simp: registered_def)
  ultimately show ?thesis using Nil by blast
qed (use insert_before_links assms in blast)

lemma registered_attached: "registered s xs \<Longrightarrow> a \<in> set xs \<longleftrightarrow> (\<exists>i. mem s a = Some i \<and> it_attached i)"
  using dseg_mem unfolding registered_def by (metis option.exhaust)

text \<open>A pointer's successor learns of its new predecessor.\<close>

definition same_attached :: "('w, 'z) icstream_scheme \<Rightarrow> ('w, 'z) icstream_scheme \<Rightarrow> addr set \<Rightarrow> bool" where
  "same_attached s t X \<longleftrightarrow> (\<forall>b. b \<notin> X \<longrightarrow> mem t b = mem s b) \<and>
     (\<forall>b. map_option it_attached (mem t b) = map_option it_attached (mem s b))"

lemma relink_next:
  assumes "dseg (mem s) r p zs None l" "distinct zs"
  shows "\<exists>t l'. (case r of None \<Rightarrow> skip | Some j \<Rightarrow> set_prev j k) s = (Inr (), t) \<and> dseg (mem t) r k zs None l' \<and>
    m_iterators t = m_iterators s \<and> same_attached s t (set zs)"
proof (cases zs)
  case Nil
  then show ?thesis using assms(1) by (auto simp: skip_def ret_def same_attached_def)
next
  case (Cons b ws)
  then obtain j where r: "r = Some b" "mem s b = Some j" using assms(1) by auto
  let ?t = "upd_mem b (j\<lparr>m_prev := k\<rparr>) s"
  have "dseg ((mem s)(b \<mapsto> j\<lparr>m_prev := k\<rparr>)) (Some b) k zs None l"
    by (rule dseg_first_prev [where prev = p]) (use assms r Cons in simp_all)
  moreover have "mem ?t = (mem s)(b \<mapsto> j\<lparr>m_prev := k\<rparr>)" by auto
  ultimately have "dseg (mem ?t) r k zs None l" using r(1) by metis
  moreover have "set_prev b k s = (Inr (), ?t)" using r(2) by (simp add: set_link_ok)
  ultimately show ?thesis using r Cons by (intro exI [of _ ?t] exI [of _ l]) (auto simp: same_attached_def)
qed

lemma same_attached_out:
  "same_attached s t X \<Longrightarrow> set xs \<inter> X = {} \<Longrightarrow> dseg (mem s) p prev xs q lst \<Longrightarrow> dseg (mem t) p prev xs q lst"
  unfolding same_attached_def by (rule dseg_cong) auto

text \<open>Taking out: the object stays attached until its owner says otherwise.\<close>

lemma remove_iterator_parts:
  assumes "registered s (ys @ a # zs)" "mem s a = Some i"
  shows "\<exists>t r k l'. remove_iterator a s = (seq (set_prev a None) (set_next a None)) t \<and>
    dseg (mem t) (m_iterators t) None ys r k \<and> dseg (mem t) r k zs None l' \<and> same_attached s t (set (ys @ zs))"
proof -
  obtain l where "dseg (mem s) (m_iterators s) None (ys @ a # zs) None l" and dis: "distinct (ys @ a # zs)"
    using assms(1) unfolding registered_def by blast
  then obtain r k where y: "dseg (mem s) (m_iterators s) None ys (Some a) k" and i: "m_prev i = k" "m_next i = r"
    and z: "dseg (mem s) r (Some a) zs None l"
    using assms(2) by (auto simp: dseg_append)
  have az: "a \<notin> set ys" "distinct ys" "distinct zs" "set ys \<inter> set zs = {}" using dis by auto
  show ?thesis
  proof (cases ys)
    case Nil
    then have h: "m_iterators s = Some a" "k = None" using y by auto
    let ?s = "s\<lparr>m_iterators := r\<rparr>"
    obtain t l' where t: "(case r of None \<Rightarrow> skip | Some j \<Rightarrow> set_prev j None) ?s = (Inr (), t)" "dseg (mem t) r None zs None l'"
      "m_iterators t = r" "same_attached ?s t (set zs)"
      using relink_next [of ?s r "Some a" zs l None] z az(3) by auto
    have "remove_iterator a s = (seq (set_prev a None) (set_next a None)) t"
      using h(1) it_get_ok [OF assms(2)] i(2) t(1)
      by (simp add: remove_iterator_def seq_def bnd_def cond_def modify_def)
    moreover have "same_attached s t (set (ys @ zs))" using t(4) by (simp add: same_attached_def Nil)
    ultimately show ?thesis using t(2,3) Nil h(2) by auto
  next
    case (Cons c cs)
    then have ne: "m_iterators s \<noteq> Some a" using y az(1) by auto
    obtain p j where p: "k = Some p" "p \<in> set ys" "mem s p = Some j"
      "dseg ((mem s)(p \<mapsto> j\<lparr>m_next := r\<rparr>)) (m_iterators s) None ys r k"
      using dseg_last_next [OF y _ az(2), of r] Cons by blast
    let ?s = "upd_mem p (j\<lparr>m_next := r\<rparr>) s"
    have m: "mem ?s = (mem s)(p \<mapsto> j\<lparr>m_next := r\<rparr>)" by auto
    have sy: "dseg (mem ?s) (m_iterators ?s) None ys r k" using p(4) by (simp add: fun_upd_def)
    have "p \<notin> set zs" using p(2) az(4) by auto
    then have "dseg (mem ?s) r (Some a) zs None l" unfolding m by (rule iffD2 [OF dseg_out]) (rule z)
    then obtain t l' where t: "(case r of None \<Rightarrow> skip | Some j \<Rightarrow> set_prev j k) ?s = (Inr (), t)" "dseg (mem t) r k zs None l'"
      "m_iterators t = m_iterators ?s" "same_attached ?s t (set zs)"
      using relink_next [of ?s r "Some a" zs l k] az(3) by blast
    have "remove_iterator a s = (seq (set_prev a None) (set_next a None)) t"
      using ne it_get_ok [OF assms(2)] i p(1,3) t(1) [unfolded p(1)]
      by (simp add: remove_iterator_def seq_def bnd_def cond_def set_link_ok)
    moreover have "dseg (mem t) (m_iterators t) None ys r k" unfolding t(3) using same_attached_out [OF t(4) az(4) sy] .
    moreover have "same_attached s t (set (ys @ zs))"
      using t(4) p(2,3) unfolding same_attached_def by (auto split: if_splits)
    ultimately show ?thesis using t(2) by blast
  qed
qed

lemma remove_iterator_links:
  assumes "registered s (ys @ a # zs)" "mem s a = Some i"
  shows "\<exists>t. remove_iterator a s = (Inr (), t) \<and> detached_but a t (ys @ zs) \<and>
    mem t a = Some (i\<lparr>m_prev := None, m_next := None\<rparr>)"
proof -
  obtain t r k l' where t: "remove_iterator a s = (seq (set_prev a None) (set_next a None)) t"
    "dseg (mem t) (m_iterators t) None ys r k" "dseg (mem t) r k zs None l'" "same_attached s t (set (ys @ zs))"
    using remove_iterator_parts [OF assms] by blast
  have dis: "distinct (ys @ a # zs)"
    and o: "\<forall>b i. mem s b = Some i \<longrightarrow> (it_attached i \<longleftrightarrow> b \<in> set (ys @ a # zs)) \<and> (\<not> it_attached i \<longrightarrow> m_prev i = None)"
    using assms(1) unfolding registered_def by blast+
  have az: "a \<notin> set (ys @ zs)" using dis by auto
  then have a: "mem t a = Some i" using t(4) assms(2) by (simp add: same_attached_def)
  let ?u = "upd_mem a (i\<lparr>m_prev := None, m_next := None\<rparr>) (upd_mem a (i\<lparr>m_prev := None\<rparr>) t)"
  have "remove_iterator a s = (Inr (), ?u)"
    unfolding t(1) using a by (simp add: seq_def bnd_def set_link_ok)
  moreover have "dseg (mem ?u) (m_iterators ?u) None (ys @ zs) None l'"
  proof -
    have "dseg (mem t) (m_iterators t) None (ys @ zs) None l'" using t(2,3) unfolding dseg_append by blast
    moreover have "mem ?u = (mem t)(a \<mapsto> i\<lparr>m_prev := None, m_next := None\<rparr>)" by auto
    ultimately show ?thesis using dseg_out [OF az] by simp
  qed
  moreover have "(it_attached x \<longleftrightarrow> b \<in> set (ys @ zs)) \<and> (\<not> it_attached x \<longrightarrow> m_prev x = None)"
    if "b \<noteq> a" "mem ?u b = Some x" for b x
  proof -
    have x: "mem t b = Some x" using that by simp
    then have "map_option it_attached (mem s b) = Some (it_attached x)" using t(4) unfolding same_attached_def by (metis option.map(2))
    then obtain y where y: "mem s b = Some y" "it_attached y = it_attached x" by auto
    have e: "b \<notin> set (ys @ zs) \<Longrightarrow> y = x" using t(4) x y(1) unfolding same_attached_def by auto
    have oy: "it_attached y \<longleftrightarrow> b \<in> set (ys @ zs)" "\<not> it_attached y \<longrightarrow> m_prev y = None"
      using o y(1) that(1) by auto
    then show ?thesis using y(2) e by blast
  qed
  ultimately show ?thesis using dis unfolding detached_but_def by (intro exI [of _ ?u]) auto
qed

section \<open>Operations that leave the links alone\<close>

definition links :: "('w, 'z) icstream_scheme \<Rightarrow> addr option \<times> (addr \<Rightarrow> (bool \<times> addr option \<times> addr option) option)" where
  "links s = (m_iterators s, \<lambda>a. map_option (\<lambda>i. (it_attached i, m_prev i, m_next i)) (mem s a))"

lemma registered_links:
  assumes "links t = links s" "registered s xs"
  shows "registered t xs"
proof -
  have h: "m_iterators t = m_iterators s"
    and m: "\<And>a. map_option (\<lambda>i. (it_attached i, m_prev i, m_next i)) (mem t a) =
      map_option (\<lambda>i. (it_attached i, m_prev i, m_next i)) (mem s a)"
    using assms(1) by (simp_all add: links_def fun_eq_iff)
  have m2: "map_option (\<lambda>i. (m_prev i, m_next i)) (mem t a) = map_option (\<lambda>i. (m_prev i, m_next i)) (mem s a)" for a
    using arg_cong [OF m [of a], of "map_option snd"] by (simp add: option.map_comp o_def)
  obtain l where "dseg (mem s) (m_iterators s) None xs None l" "distinct xs"
    and o: "\<forall>a i. mem s a = Some i \<longrightarrow> (it_attached i \<longleftrightarrow> a \<in> set xs) \<and> (\<not> it_attached i \<longrightarrow> m_prev i = None)"
    using assms(2) unfolding registered_def by blast
  moreover from this have "dseg (mem t) (m_iterators t) None xs None l" unfolding h by (intro dseg_cong [OF m2])
  moreover have "(it_attached i \<longleftrightarrow> a \<in> set xs) \<and> (\<not> it_attached i \<longrightarrow> m_prev i = None)" if "mem t a = Some i" for a i
  proof -
    have "map_option (\<lambda>i. (it_attached i, m_prev i, m_next i)) (mem s a) = Some (it_attached i, m_prev i, m_next i)"
      using m [of a] that by simp
    then obtain j where "mem s a = Some j" "it_attached j = it_attached i" "m_prev j = m_prev i" by auto
    then show ?thesis using o by metis
  qed
  ultimately show ?thesis unfolding registered_def by blast
qed

lemma icstream_fields_more:
  "conn.more t = conn.more s \<Longrightarrow> memory t = memory s \<and> m_iterators t = m_iterators s"
  by (cases s; cases t) simp

lemma links_Exec [frame_intros]: "frame links (Exec env Q n)"
proof (rule frameI)
  fix s :: "('a, 'b) icstream_scheme"
  have e: "conn.more (snd (Exec env Q n s)) = conn.more s" using calmD(2) [OF calm_Exec] by blast
  show "links (snd (Exec env Q n s)) = links s" using icstream_fields_more [OF e] by (simp add: links_def)
qed

lemma links_adjust [frame_intros]: "frame links (adjust_cursor n a)"
proof -
  have "frame links (modify (set_place p) :: ('a, 'b, unit) iprog)" for p
    by (rule frame_modify) (simp add: links_def set_place_def)
  then show ?thesis unfolding adjust_cursor_def lift_exn_def by (auto intro!: frame_intros split: sum.split)
qed

lemma links_cursor [frame_intros]:
  "frame links (cursor_fetch env n)" "frame links (cursor_move env n)"
  unfolding cursor_fetch_def cursor_move_def Let_def by (auto intro!: frame_intros split: prod.split)

lemma links_it_get [frame_intros]: "frame links (it_get a)"
  by (auto simp: frame_def it_get_def bnd_def gets_def ret_def throw_def split: option.split)

lemma links_it_upd [frame_intros]:
  assumes "\<And>i. it_attached (f i) = it_attached i" "\<And>i. m_prev (f i) = m_prev i" "\<And>i. m_next (f i) = m_next i"
  shows "frame links (it_upd a f)"
proof (rule frameI)
  fix s :: "('a, 'b) icstream_scheme"
  show "links (snd (it_upd a f s)) = links s"
  proof (cases "mem s a")
    case None
    then show ?thesis by (simp add: it_upd_def bnd_def it_get_bad)
  next
    case (Some i)
    then show ?thesis using assms by (simp add: it_upd_ok links_def fun_eq_iff)
  qed
qed

lemma links_modify [frame_intros]:
  "frame links (modify (\<lambda>s. s\<lparr>m_realpos := m_realpos s + n\<rparr>))" "frame links (modify (\<lambda>s. s\<lparr>m_done := b\<rparr>))"
  "frame links (modify (\<lambda>s. s\<lparr>m_reqpos := m_reqpos s + n * m_stride s\<rparr>))"
  by (rule frame_modify, simp add: links_def)+

lemma links_blocks [frame_intros]: "frame links (ignore env n)" "frame links (fetchblock env)"
  unfolding ignore_def fetchblock_def by (intro frame_intros)+

lemma links_fill [frame_intros]: "frame links (fill a r)"
  unfolding fill_def by (intro frame_intros) simp_all

lemma links_fill_all [frame_intros]: "frame links (fill_all r ts)"
  by (induction ts rule: fill_all.induct) (auto intro: frame_intros)

lemma links_serve [frame_intros]: "frame links (serve env ts)"
  by (induction env ts rule: serve.induct) (auto intro!: frame_intros)

lemma links_todo_list [frame_intros]: "frame links (todo_list topos n p todo)"
  by (induction topos n p todo rule: todo_list.induct) (auto intro!: frame_intros)

lemma links_refresh [frame_intros]: "frame links (refresh env a)"
  unfolding refresh_def service_iterators_def by (intro frame_intros)

lemma links_reads [frame_intros]:
  "frame links (iter_deref env a)" "frame links (iter_eq env a b)" "frame links (iter_less env a b)"
  unfolding iter_deref_def iter_eq_def iter_less_def by (intro frame_intros)+

lemma links_move [frame_intros]: "frame links (iter_move a n)"
  unfolding iter_move_def forward_def by (intro frame_intros) simp_all

lemma links_advance [frame_intros]: "frame links (iter_preinc a)" "frame links (iter_advance a n)"
  unfolding iter_preinc_def iter_advance_def by (intro frame_intros)+

section \<open>Operations on the list\<close>

definition linked :: "('w, 'z) icstream_scheme \<Rightarrow> bool" where
  "linked s \<longleftrightarrow> (\<exists>xs. registered s xs)"

lemma linked_frame: "frame links m \<Longrightarrow> linked s \<Longrightarrow> linked (snd (m s))"
  using registered_links unfolding linked_def frame_def by blast

text \<open>A new object, free or about to be inserted.\<close>

lemma registered_free:
  assumes "registered s xs" "mem s a = None"
  shows "a \<notin> set xs"
  using registered_attached [OF assms(1)] assms(2) by auto

lemma put_free:
  assumes "registered s xs" "mem s a = None" "m_prev i = None"
  shows "\<not> it_attached i \<Longrightarrow> registered (upd_mem a i s) xs" "detached_but a (upd_mem a i s) xs"
proof -
  have a: "a \<notin> set xs" using registered_free [OF assms(1,2)] .
  obtain l where l: "dseg (mem s) (m_iterators s) None xs None l" "distinct xs"
    and o: "\<forall>b i. mem s b = Some i \<longrightarrow> (it_attached i \<longleftrightarrow> b \<in> set xs) \<and> (\<not> it_attached i \<longrightarrow> m_prev i = None)"
    using assms(1) unfolding registered_def by blast
  have m: "mem (upd_mem a i s) = (mem s)(a \<mapsto> i)" by auto
  have d: "dseg (mem (upd_mem a i s)) (m_iterators (upd_mem a i s)) None xs None l"
    unfolding m using l(1) dseg_out [OF a] by simp
  show "registered (upd_mem a i s) xs" if "\<not> it_attached i"
    using d l(2) o a that assms(3) unfolding registered_def by (auto split: if_splits)
  show "detached_but a (upd_mem a i s) xs"
    using d l(2) o a assms(3) unfolding detached_but_def by (auto split: if_splits)
qed

text \<open>An object that has been taken out becomes free, disappears, or goes back in.\<close>

lemma detached_free:
  assumes "detached_but a s xs" "m_prev i = None" "\<not> it_attached i"
  shows "registered (upd_mem a i s) xs"
proof -
  obtain l where l: "dseg (mem s) (m_iterators s) None xs None l" "distinct xs" "a \<notin> set xs"
    and o: "\<forall>b i. b \<noteq> a \<longrightarrow> mem s b = Some i \<longrightarrow> (it_attached i \<longleftrightarrow> b \<in> set xs) \<and> (\<not> it_attached i \<longrightarrow> m_prev i = None)"
    using assms(1) unfolding detached_but_def by blast
  have m: "mem (upd_mem a i s) = (mem s)(a \<mapsto> i)" by auto
  have "dseg (mem (upd_mem a i s)) (m_iterators (upd_mem a i s)) None xs None l"
    unfolding m using l(1) dseg_out [OF l(3)] by simp
  then show ?thesis using l(2,3) o assms(2,3) unfolding registered_def by (auto split: if_splits)
qed

lemma detached_erase:
  assumes "detached_but a s xs"
  shows "registered (s\<lparr>memory := omap_erase a (memory s)\<rparr>) xs"
proof -
  obtain l where l: "dseg (mem s) (m_iterators s) None xs None l" "distinct xs" "a \<notin> set xs"
    and o: "\<forall>b i. b \<noteq> a \<longrightarrow> mem s b = Some i \<longrightarrow> (it_attached i \<longleftrightarrow> b \<in> set xs) \<and> (\<not> it_attached i \<longrightarrow> m_prev i = None)"
    using assms unfolding detached_but_def by blast
  let ?t = "s\<lparr>memory := omap_erase a (memory s)\<rparr>"
  have m: "mem ?t = (mem s)(a := None)" by (auto simp: omap_get_erase)
  have "dseg (mem ?t) (m_iterators ?t) None xs None l"
    unfolding m using l(1) dseg_out [OF l(3)] by simp
  then show ?thesis using l(2) o unfolding registered_def by (auto simp: omap_get_erase split: if_splits)
qed

lemma registered_erase:
  assumes "registered s xs" "a \<notin> set xs"
  shows "registered (s\<lparr>memory := omap_erase a (memory s)\<rparr>) xs"
proof -
  obtain l where l: "dseg (mem s) (m_iterators s) None xs None l" "distinct xs"
    and o: "\<forall>b i. mem s b = Some i \<longrightarrow> (it_attached i \<longleftrightarrow> b \<in> set xs) \<and> (\<not> it_attached i \<longrightarrow> m_prev i = None)"
    using assms unfolding registered_def by blast
  let ?t = "s\<lparr>memory := omap_erase a (memory s)\<rparr>"
  have m: "mem ?t = (mem s)(a := None)" by (auto simp: omap_get_erase)
  have "dseg (mem ?t) (m_iterators ?t) None xs None l"
    unfolding m using l(1) dseg_out [OF assms(2)] by simp
  then show ?thesis using l(2) o unfolding registered_def by (auto simp: omap_get_erase split: if_splits)
qed

lemma detached_attach:
  assumes "detached_but a s xs" "m_prev i = None" "it_attached i"
  shows "\<exists>t. insert_iterator a (upd_mem a i s) = (Inr (), t) \<and> registered t (a # xs)"
proof -
  obtain l where l: "dseg (mem s) (m_iterators s) None xs None l" "distinct xs" "a \<notin> set xs"
    and o: "\<forall>b i. b \<noteq> a \<longrightarrow> mem s b = Some i \<longrightarrow> (it_attached i \<longleftrightarrow> b \<in> set xs) \<and> (\<not> it_attached i \<longrightarrow> m_prev i = None)"
    using assms(1) unfolding detached_but_def by blast
  have m: "mem (upd_mem a i s) = (mem s)(a \<mapsto> i)" by auto
  have "dseg (mem (upd_mem a i s)) (m_iterators (upd_mem a i s)) None xs None l"
    unfolding m using l(1) dseg_out [OF l(3)] by simp
  then have "detached_but a (upd_mem a i s) xs" using l(2,3) o assms(2) unfolding detached_but_def by auto
  then show ?thesis using insert_iterator_links [of a "upd_mem a i s" xs i] assms(3) by simp
qed

section \<open>The operations of an iterator\<close>

definition fresh_icit :: "bool \<Rightarrow> result \<Rightarrow> int \<Rightarrow> icit" where
  "fresh_icit b r p = \<lparr>it_attached = b, m_here = r, it_pos = p, m_prev = None, m_next = None\<rparr>"

lemma fresh_icit_simps [simp]:
  "it_attached (fresh_icit b r p) = b" "m_prev (fresh_icit b r p) = None"
  by (simp_all add: fresh_icit_def)

lemma create_links:
  assumes "registered s xs" "mem s a = None"
  shows "\<exists>t ys. seq (it_put a (fresh_icit b r p)) (if b then insert_iterator a else skip) s = (Inr (), t) \<and> registered t ys"
proof (cases b)
  case True
  let ?s = "upd_mem a (fresh_icit b r p) s"
  have "detached_but a ?s xs" by (rule put_free(2) [OF assms]) simp
  then obtain t where "insert_iterator a ?s = (Inr (), t)" "registered t (a # xs)"
    using insert_iterator_links [of a ?s xs "fresh_icit b r p"] True by auto
  then show ?thesis using True by (auto simp: seq_def bnd_def it_put_ok)
next
  case False
  then show ?thesis using put_free(1) [OF assms, of "fresh_icit b r p"]
    by (auto simp: seq_def bnd_def it_put_ok skip_def ret_def)
qed

lemma default_links:
  assumes "linked s" "mem s a = None"
  shows "fst (iter_default a s) = Inr () \<and> linked (snd (iter_default a s))"
proof -
  obtain xs where "registered s xs" using assms(1) unfolding linked_def by blast
  then have "registered (upd_mem a (fresh_icit False empty_result 0) s) xs"
    by (rule put_free(1) [OF _ assms(2)]) simp_all
  then show ?thesis by (auto simp: iter_default_def it_put_ok linked_def fresh_icit_def)
qed

lemma stream_links:
  assumes "linked s" "mem s a = None"
  shows "fst (iter_stream a s) = Inr () \<and> linked (snd (iter_stream a s))"
proof -
  let ?s = "s\<lparr>m_reqpos := m_reqpos s + 0 * m_stride s\<rparr>"
  obtain xs where "registered s xs" using assms(1) unfolding linked_def by blast
  then have "registered ?s xs" by (rule registered_links [rotated]) (simp add: links_def)
  then obtain t ys where "seq (it_put a (fresh_icit True empty_result (m_reqpos ?s))) (insert_iterator a) ?s = (Inr (), t)"
    "registered t ys"
    using create_links [of ?s xs a True empty_result "m_reqpos ?s"] assms(2) by auto
  moreover have "iter_stream a s = seq (it_put a (fresh_icit True empty_result (m_reqpos ?s))) (insert_iterator a) ?s"
    by (simp add: iter_stream_def forward_def bnd_def seq_def modify_def gets_def fresh_icit_def)
  ultimately show ?thesis unfolding linked_def by auto
qed

lemma copy_links:
  assumes "linked s" "mem s a = None" "mem s b = Some i"
  shows "fst (iter_copy a b s) = Inr () \<and> linked (snd (iter_copy a b s))"
proof -
  obtain xs where "registered s xs" using assms(1) unfolding linked_def by blast
  then obtain t ys where "seq (it_put a (fresh_icit (it_attached i) (m_here i) (it_pos i)))
      (if it_attached i then insert_iterator a else skip) s = (Inr (), t)" "registered t ys"
    using create_links [OF _ assms(2)] by blast
  moreover have "iter_copy a b s = seq (it_put a (fresh_icit (it_attached i) (m_here i) (it_pos i)))
      (if it_attached i then insert_iterator a else skip) s"
    by (simp add: iter_copy_def bnd_def it_get_ok [OF assms(3)] fresh_icit_def)
  ultimately show ?thesis unfolding linked_def by auto
qed

lemma delete_links:
  assumes "linked s" "mem s a = Some i"
  shows "fst (iter_delete a s) = Inr () \<and> linked (snd (iter_delete a s))"
proof -
  obtain xs where r: "registered s xs" using assms(1) unfolding linked_def by blast
  show ?thesis
  proof (cases "it_attached i")
    case True
    then have "a \<in> set xs" using registered_attached [OF r] assms(2) by auto
    then obtain ys zs where xs: "xs = ys @ a # zs" using split_list by fast
    obtain t where t: "remove_iterator a s = (Inr (), t)" "detached_but a t (ys @ zs)"
      using remove_iterator_links [OF r [unfolded xs] assms(2)] by blast
    then have "iter_delete a s = (Inr (), t\<lparr>memory := omap_erase a (memory t)\<rparr>)"
      using True by (simp add: iter_delete_def seq_def bnd_def it_get_ok [OF assms(2)] modify_def)
    then show ?thesis using detached_erase [OF t(2)] unfolding linked_def by auto
  next
    case False
    then have "a \<notin> set xs" using registered_attached [OF r] assms(2) by auto
    moreover have "iter_delete a s = (Inr (), s\<lparr>memory := omap_erase a (memory s)\<rparr>)"
      using False by (simp add: iter_delete_def seq_def bnd_def it_get_ok [OF assms(2)] modify_def skip_def ret_def)
    ultimately show ?thesis using registered_erase [OF r] unfolding linked_def by auto
  qed
qed

lemma registered_detached:
  assumes "registered s xs" "mem s a = Some i" "\<not> it_attached i"
  shows "detached_but a s xs" "m_prev i = None"
proof -
  obtain l where l: "dseg (mem s) (m_iterators s) None xs None l" "distinct xs"
    and o: "\<forall>b i. mem s b = Some i \<longrightarrow> (it_attached i \<longleftrightarrow> b \<in> set xs) \<and> (\<not> it_attached i \<longrightarrow> m_prev i = None)"
    using assms(1) unfolding registered_def by blast
  show p: "m_prev i = None" using o assms(2,3) by blast
  have "a \<notin> set xs" using o assms(2,3) by blast
  then show "detached_but a s xs" using l o p assms(2) unfolding detached_but_def by blast
qed

lemma assign_links:
  assumes "linked s" "mem s a = Some i" "mem s b = Some j"
  shows "fst (iter_assign a b s) = Inr () \<and> linked (snd (iter_assign a b s))"
proof -
  obtain xs where r: "registered s xs" using assms(1) unfolding linked_def by blast
  note get = it_get_ok [OF assms(2)] it_get_ok [OF assms(3)]
  consider (same) "it_attached j = it_attached i" | (out) "it_attached i" "\<not> it_attached j" | (entering) "\<not> it_attached i" "it_attached j"
    by blast
  then show ?thesis
  proof cases
    case same
    let ?f = "\<lambda>i. i\<lparr>m_here := m_here j, it_pos := it_pos j\<rparr>"
    have e: "iter_assign a b s = (Inr (), upd_mem a (?f i) s)"
      using same by (simp add: iter_assign_def bnd_def get it_upd_ok [OF assms(2)])
    have "links (upd_mem a (?f i) s) = links s" using assms(2) by (simp add: links_def fun_eq_iff)
    then have "registered (upd_mem a (?f i) s) xs" using registered_links r by blast
    then show ?thesis unfolding e linked_def by auto
  next
    case out
    then have "a \<in> set xs" using registered_attached [OF r] assms(2) by auto
    then obtain ys zs where xs: "xs = ys @ a # zs" using split_list by fast
    obtain t where t: "remove_iterator a s = (Inr (), t)" "detached_but a t (ys @ zs)"
      "mem t a = Some (i\<lparr>m_prev := None, m_next := None\<rparr>)"
      using remove_iterator_links [OF r [unfolded xs] assms(2)] by blast
    let ?i = "i\<lparr>m_prev := None, m_next := None, m_here := m_here j, it_pos := it_pos j, it_attached := False\<rparr>"
    have "iter_assign a b s = (Inr (), upd_mem a ?i t)"
      using out t(1) it_upd_ok [OF t(3)] by (simp add: iter_assign_def bnd_def seq_def get skip_def ret_def)
    moreover have "registered (upd_mem a ?i t) (ys @ zs)" by (rule detached_free [OF t(2)]) simp_all
    ultimately show ?thesis unfolding linked_def by auto
  next
    case entering
    let ?i = "i\<lparr>m_here := m_here j, it_pos := it_pos j, it_attached := True\<rparr>"
    have "detached_but a s xs" and a: "m_prev i = None" using registered_detached [OF r assms(2)] entering by blast+
    then obtain t where t: "insert_iterator a (upd_mem a ?i s) = (Inr (), t)" "registered t (a # xs)"
      using detached_attach [of a s xs ?i] a by auto
    have "iter_assign a b s = (Inr (), t)"
      using entering t(1) by (simp add: iter_assign_def bnd_def seq_def get it_upd_ok [OF assms(2)] skip_def ret_def)
    then show ?thesis using t(2) unfolding linked_def by auto
  qed
qed

section \<open>Any use of a stream's iterators\<close>

datatype it_call =
    New addr | Attach addr | Copy addr addr | Delete addr | Preinc addr | Postinc addr addr
  | Advance addr int | Assign addr addr | Deref addr | Equal addr addr | Less addr addr

text \<open>Objects are made at unused addresses and used while they exist; only attached ones are moved.\<close>

fun it_valid :: "it_call \<Rightarrow> ('w, 'z) icstream_scheme \<Rightarrow> bool" where
  "it_valid (New a) s = (mem s a = None)"
| "it_valid (Attach a) s = (mem s a = None)"
| "it_valid (Copy a b) s = (mem s a = None \<and> mem s b \<noteq> None)"
| "it_valid (Delete a) s = (mem s a \<noteq> None)"
| "it_valid (Preinc a) s = (case mem s a of Some i \<Rightarrow> it_attached i | None \<Rightarrow> False)"
| "it_valid (Postinc a b) s = (mem s b = None \<and> (case mem s a of Some i \<Rightarrow> it_attached i | None \<Rightarrow> False))"
| "it_valid (Advance a n) s = (case mem s a of Some i \<Rightarrow> it_attached i | None \<Rightarrow> False)"
| "it_valid (Assign a b) s = (mem s a \<noteq> None \<and> mem s b \<noteq> None)"
| "it_valid (Deref a) s = (mem s a \<noteq> None)"
| "it_valid (Equal a b) s = (mem s a \<noteq> None \<and> mem s b \<noteq> None)"
| "it_valid (Less a b) s = (mem s a \<noteq> None \<and> mem s b \<noteq> None)"

fun it_do :: "'w env \<Rightarrow> it_call \<Rightarrow> ('w, 'z, unit) iprog" where
  "it_do env (New a) = iter_default a"
| "it_do env (Attach a) = iter_stream a"
| "it_do env (Copy a b) = iter_copy a b"
| "it_do env (Delete a) = iter_delete a"
| "it_do env (Preinc a) = iter_preinc a"
| "it_do env (Postinc a b) = iter_postinc a b"
| "it_do env (Advance a n) = iter_advance a n"
| "it_do env (Assign a b) = iter_assign a b"
| "it_do env (Deref a) = bnd (iter_deref env a) (\<lambda>_. skip)"
| "it_do env (Equal a b) = bnd (iter_eq env a b) (\<lambda>_. skip)"
| "it_do env (Less a b) = bnd (iter_less env a b) (\<lambda>_. skip)"

inductive it_reach ::
  "(it_call \<Rightarrow> ('w, 'z) icstream_scheme \<Rightarrow> bool) \<Rightarrow> 'w env \<Rightarrow> ('w, 'z) icstream_scheme \<Rightarrow> ('w, 'z) icstream_scheme \<Rightarrow> bool"
  for V env s0 where
  start: "it_reach V env s0 s0"
| step: "it_reach V env s0 s \<Longrightarrow> V c s \<Longrightarrow> it_reach V env s0 (snd (it_do env c s))"

lemma it_do_linked: "linked s \<Longrightarrow> it_valid c s \<Longrightarrow> linked (snd (it_do env c s))"
proof (induction c)
  case (Postinc a b)
  then obtain i where i: "mem s a = Some i" by (auto split: option.splits)
  have c: "fst (iter_copy b a s) = Inr ()" "linked (snd (iter_copy b a s))"
    using copy_links [OF Postinc.prems(1) _ i] Postinc.prems(2) by auto
  then have "iter_postinc a b s = iter_move a 1 (snd (iter_copy b a s))"
    by (simp add: iter_postinc_def seq_def bnd_def prod.case_eq_if)
  then show ?case using linked_frame [OF links_move c(2)] by simp
next
  case (New a)
  then show ?case using default_links by auto
next
  case (Attach a)
  then show ?case using stream_links by auto
next
  case (Copy a b)
  then show ?case using copy_links by auto
next
  case (Delete a)
  then show ?case using delete_links by auto
next
  case (Assign a b)
  then obtain i j where "mem s a = Some i" "mem s b = Some j" by auto
  then show ?case using assign_links [OF Assign.prems(1)] by simp
qed (auto intro!: linked_frame frame_intros)

end
