(* ===== verification/Icursor_Facts.thy ===== *)
theory Icursor_Facts
  imports Icursor_Links
begin

text \<open>
  What a cursor stream promises: its iterators stay properly linked under any use, and an
  iterator shows the block of rows at its own position, in whatever order the iterators are read.
\<close>

section \<open>Reading blocks\<close>

text \<open>The stream's own count of rows stops at the last row, the cursor goes one further.\<close>

definition at_realpos :: "int \<Rightarrow> ('w, 'z) icstream_scheme \<Rightarrow> bool" where
  "at_realpos N s \<longleftrightarrow> m_realpos s = min (m_pos s) N"

definition same_iters :: "('w, 'z) icstream_scheme \<Rightarrow> ('w, 'z) icstream_scheme \<Rightarrow> bool" where
  "same_iters s t \<longleftrightarrow> memory t = memory s \<and> m_iterators t = m_iterators s \<and> m_stride t = m_stride s \<and>
     m_reqpos t = m_reqpos s"

lemma same_iters_place [simp]:
  "same_iters s (set_place c s)" "m_realpos (set_place c s) = m_realpos s" "m_stride (set_place c s) = m_stride s"
  by (simp_all add: same_iters_def set_place_def)

lemma same_iters_trans: "same_iters s t \<Longrightarrow> same_iters t u \<Longrightarrow> same_iters s u"
  by (simp add: same_iters_def)

lemma in_step_fields:
  "in_step env h nm N posn (s\<lparr>m_realpos := r\<rparr>) = in_step env h nm N posn s"
  "in_step env h nm N posn (s\<lparr>m_done := d\<rparr>) = in_step env h nm N posn s"
  "in_step env h nm N posn (s\<lparr>m_reqpos := r\<rparr>) = in_step env h nm N posn s"
  "in_step env h nm N posn (s\<lparr>memory := m\<rparr>) = in_step env h nm N posn s"
  "in_step env h nm N posn (s\<lparr>m_iterators := p\<rparr>) = in_step env h nm N posn s"
  by (simp_all add: in_step_def is_open_def Status_def place_of_def)

lemma ignore_served:
  assumes "cursor_server env h nm N posn tab" "in_step env h nm N posn s" "at_realpos N s" "0 < n" "n \<le> 2 ^ 62"
  shows "\<exists>t. ignore env n s = (Inr (), t) \<and> in_step env h nm N posn t \<and> at_realpos N t \<and>
    m_pos t = min (N + 1) (m_pos s + n) \<and> same_iters s t"
proof -
  have r: "0 \<le> m_pos s" "m_pos s \<le> N + 1" "m_pos s = posn (world s)" and N: "0 \<le> N"
    using in_step_range [OF assms(2)] cursor_server_bounds [OF assms(1)] by auto
  obtain w where w: "posn w = backend_target N (m_pos s) n" "cursor_move env n s =
      (Inr (backend_count N (m_pos s) n, backend_target N (m_pos s) n - m_pos s),
       set_place (moved N n (place_of s)) (s\<lparr>world := w\<rparr>))"
    using move_in_step [OF assms(1,2) small_fits, of n] assms(4,5) by auto
  let ?c = "backend_count N (m_pos s) n"
  define u where "u = set_place (moved N n (place_of s)) (s\<lparr>world := w\<rparr>)"
  have u: "in_step env h nm N posn u"
    unfolding u_def using in_step_moved [OF assms(2,1)] w(1) assms(4) r(3) by simp
  have up: "m_pos u = min (N + 1) (m_pos s + n)" "m_realpos u = m_realpos s" "same_iters s u"
    using r assms(4) by (simp_all add: u_def moved_def place_of_def backend_target_def same_iters_def set_place_def)
  let ?t = "(if ?c < n then u\<lparr>m_realpos := m_realpos s + ?c, m_done := True\<rparr> else u\<lparr>m_realpos := m_realpos s + ?c\<rparr>)"
  have "ignore env n s = (Inr (), ?t)"
    using w(2) up(2) by (simp add: ignore_def bnd_def seq_def modify_def skip_def ret_def u_def [symmetric])
  moreover have "m_realpos s + ?c = min (m_pos u) N"
    using assms(3,4) r N up(1) by (auto simp: at_realpos_def backend_count_eq)
  ultimately show ?thesis using u up by (intro exI [of _ ?t]) (auto simp: in_step_fields at_realpos_def same_iters_def)
qed

lemma fetchblock_served:
  assumes "cursor_server env h nm N posn tab" "in_step env h nm N posn s" "at_realpos N s"
    and "m_stride s = k" "0 < k" "k \<le> 2 ^ 62"
  shows "\<exists>t R. fetchblock env s = (Inr R, t) \<and> in_step env h nm N posn t \<and> at_realpos N t \<and>
    m_pos t = min (N + 1) (m_pos s + k) \<and> same_iters s t \<and> result_shows R tab [m_pos s + 1 .. min N (m_pos s + k)]"
proof -
  have r: "0 \<le> m_pos s" "m_pos s \<le> N + 1" "m_pos s = posn (world s)" and N: "0 \<le> N"
    using in_step_range [OF assms(2)] cursor_server_bounds [OF assms(1)] by auto
  obtain w R where w: "posn w = backend_target N (m_pos s) k" "result_shows R tab (backend_rows N (m_pos s) k)"
    "cursor_fetch env k s = (Inr (R, backend_target N (m_pos s) k - m_pos s),
       set_place (moved N k (place_of s)) (s\<lparr>world := w\<rparr>))"
    using fetch_in_step [OF assms(1,2) small_fits, of k] assms(5,6) by auto
  define u where "u = set_place (moved N k (place_of s)) (s\<lparr>world := w\<rparr>)"
  have u: "in_step env h nm N posn u"
    unfolding u_def using in_step_moved [OF assms(2,1)] w(1) assms(5) r(3) by simp
  have up: "m_pos u = min (N + 1) (m_pos s + k)" "m_realpos u = m_realpos s" "same_iters s u"
    using r assms(5) by (simp_all add: u_def moved_def place_of_def backend_target_def same_iters_def set_place_def)
  have sz: "int (result_size R) = backend_count N (m_pos s) k"
    using w(2) by (simp add: result_shows_def backend_count_def)
  let ?v = "u\<lparr>m_realpos := m_realpos s + backend_count N (m_pos s) k\<rparr>"
  let ?t = "if result_is_empty R then ?v\<lparr>m_done := True\<rparr> else ?v"
  have "fetchblock env s = (Inr R, ?t)"
    using w(3) up(2) assms(4) sz
    by (simp add: fetchblock_def bnd_def seq_def gets_def modify_def skip_def ret_def u_def [symmetric])
  moreover have "m_realpos s + backend_count N (m_pos s) k = min (m_pos u) N"
    using assms(3,5) r N up(1) by (auto simp: at_realpos_def backend_count_eq)
  moreover have "result_shows R tab [m_pos s + 1 .. min N (m_pos s + k)]"
    using w(2) assms(5) by (simp add: backend_rows_def)
  ultimately show ?thesis using u up
    by (intro exI [of _ ?t] exI [of _ R]) (auto simp: in_step_fields at_realpos_def same_iters_def)
qed

section \<open>Serving the iterators\<close>

definition shows_block :: "int \<Rightarrow> (int \<Rightarrow> nat \<Rightarrow> string) \<Rightarrow> int \<Rightarrow> int \<Rightarrow> result \<Rightarrow> bool" where
  "shows_block N tab k p R \<longleftrightarrow> result_shows R tab [p + 1 .. min N (p + k)]"

lemma fill_all_ok:
  "\<forall>(p, a) \<in> set ts. mem s a \<noteq> None \<Longrightarrow> \<exists>t. fill_all R ts s = (Inr (), t) \<and> t = s\<lparr>memory := memory t\<rparr> \<and>
     (\<forall>b. mem t b = (if b \<in> snd ` set ts then map_option (\<lambda>i. i\<lparr>m_here := R\<rparr>) (mem s b) else mem s b))"
proof (induction ts arbitrary: s)
  case Nil
  then show ?case by (simp add: skip_def ret_def)
next
  case (Cons x ts)
  obtain p a where x: "x = (p, a)" by (cases x)
  then obtain i where i: "mem s a = Some i" using Cons.prems by auto
  let ?s = "upd_mem a (i\<lparr>m_here := R\<rparr>) s"
  have "\<forall>(p, a) \<in> set ts. mem ?s a \<noteq> None" using Cons.prems by auto
  then obtain t where t: "fill_all R ts ?s = (Inr (), t)" "t = ?s\<lparr>memory := memory t\<rparr>"
    "\<And>b. mem t b = (if b \<in> snd ` set ts then map_option (\<lambda>i. i\<lparr>m_here := R\<rparr>) (mem ?s b) else mem ?s b)"
    using Cons.IH [of ?s] by blast
  have "fill_all R (x # ts) s = (Inr (), t)"
    using t(1) by (simp add: x seq_def bnd_def fill_def it_upd_ok [OF i])
  moreover have "t = s\<lparr>memory := memory t\<rparr>" using t(2) by (simp add: upd_mem_def)
  moreover have "mem t b = (if b \<in> snd ` set (x # ts) then map_option (\<lambda>i. i\<lparr>m_here := R\<rparr>) (mem s b) else mem s b)" for b
    using t(3) [of b] i by (auto simp: x)
  ultimately show ?case by blast
qed

text \<open>Positions to serve: in order, and blocks apart.\<close>

definition apart :: "int \<Rightarrow> (int \<times> addr) list \<Rightarrow> bool" where
  "apart k ts \<longleftrightarrow> sorted_wrt (\<lambda>x y. fst x = fst y \<or> fst x + k \<le> fst y) ts"

lemma apart_rest:
  assumes "apart k ((p, a) # ts)" "0 < k" "x \<in> set (dropWhile (\<lambda>t. fst t = p) ts)"
  shows "p + k \<le> fst x"
proof -
  obtain y ys where y: "dropWhile (\<lambda>t. fst t = p) ts = y # ys" using assms(3) by (cases "dropWhile (\<lambda>t. fst t = p) ts") auto
  have ts: "ts = takeWhile (\<lambda>t. fst t = p) ts @ y # ys" using y by (metis takeWhile_dropWhile_id)
  have yin: "y \<in> set ts" "x = y \<or> x \<in> set ys"
    using ts assms(3) y by (metis in_set_conv_decomp, simp)
  have "fst y \<noteq> p" using y hd_dropWhile [of "\<lambda>t. fst t = p" ts] by auto
  moreover have "fst y = p \<or> p + k \<le> fst y" using assms(1) yin(1) by (auto simp: apart_def)
  ultimately have py: "p + k \<le> fst y" by blast
  have "sorted_wrt (\<lambda>x y. fst x = fst y \<or> fst x + k \<le> fst y) (takeWhile (\<lambda>t. fst t = p) ts @ y # ys)"
    using assms(1) ts by (simp add: apart_def)
  then have "x = y \<or> fst y = fst x \<or> fst y + k \<le> fst x" using yin(2) by (auto simp: sorted_wrt_append)
  then show ?thesis using py assms(2) by auto
qed

lemma apart_dropWhile: "apart k (x # ts) \<Longrightarrow> apart k (dropWhile P ts)"
  unfolding apart_def by (simp add: sorted_wrt_dropWhile)

text \<open>The stream skips to a position, reads the block there and hands it to the iterators.\<close>

lemma skip_served:
  assumes "cursor_server env h nm N posn tab" "in_step env h nm N posn s" "at_realpos N s"
    and "m_realpos s \<le> p" "p \<le> 2 ^ 62"
  shows "\<exists>t. bnd (gets m_realpos) (\<lambda>r. if p > r then ignore env (p - r) else skip) s = (Inr (), t) \<and>
    in_step env h nm N posn t \<and> at_realpos N t \<and> same_iters s t \<and> (m_pos t = p \<or> m_pos t = N + 1 \<and> N \<le> p)"
proof -
  have r: "0 \<le> m_pos s" "m_pos s \<le> N + 1" and N: "0 \<le> N"
    using in_step_range [OF assms(2)] cursor_server_bounds [OF assms(1)] by auto
  show ?thesis
  proof (cases "p > m_realpos s")
    case True
    have "0 \<le> m_realpos s" using assms(3) r N by (simp add: at_realpos_def)
    then obtain t where t: "ignore env (p - m_realpos s) s = (Inr (), t)" "in_step env h nm N posn t" "at_realpos N t"
      "m_pos t = min (N + 1) (m_pos s + (p - m_realpos s))" "same_iters s t"
      using ignore_served [OF assms(1-3), of "p - m_realpos s"] True assms(5) by auto
    have "m_pos t = p \<or> m_pos t = N + 1 \<and> N \<le> p" using t(4) assms(3) True r by (auto simp: at_realpos_def)
    then show ?thesis using t True by (simp add: step_simps)
  next
    case False
    then have "m_pos s = p \<or> m_pos s = N + 1 \<and> N \<le> p" using assms(3,4) r by (auto simp: at_realpos_def)
    then show ?thesis using False assms(2,3) by (simp add: step_simps skip_def ret_def same_iters_def)
  qed
qed

lemma serve_block_served:
  fixes a :: addr and rest :: "(int \<times> addr) list"
  assumes "cursor_server env h nm N posn tab" "0 < k" "k \<le> 2 ^ 62" "in_step env h nm N posn s" "at_realpos N s"
    and "m_stride s = k" "m_realpos s \<le> p" "p \<le> 2 ^ 62"
  defines "ts \<equiv> (p, a) # takeWhile (\<lambda>t. fst t = p) rest"
  assumes "\<forall>(q, b) \<in> set ts. mem s b \<noteq> None"
  shows "\<exists>t R. serve env ((p, a) # rest) s = serve env (dropWhile (\<lambda>t. fst t = p) rest) t \<and>
    in_step env h nm N posn t \<and> at_realpos N t \<and> m_stride t = k \<and> m_reqpos t = m_reqpos s \<and>
    m_iterators t = m_iterators s \<and> m_realpos t \<le> p + k \<and> shows_block N tab k p R \<and>
    (\<forall>b. mem t b = (if b \<in> snd ` set ts then map_option (\<lambda>i. i\<lparr>m_here := R\<rparr>) (mem s b) else mem s b))"
proof -
  have N: "0 \<le> N" using cursor_server_bounds [OF assms(1)] by auto
  obtain s1 where s1: "bnd (gets m_realpos) (\<lambda>r. if p > r then ignore env (p - r) else skip) s = (Inr (), s1)"
    "in_step env h nm N posn s1" "at_realpos N s1" "same_iters s s1" "m_pos s1 = p \<or> m_pos s1 = N + 1 \<and> N \<le> p"
    using skip_served [OF assms(1,4,5,7,8)] by blast
  have k1: "m_stride s1 = k" using s1(4) assms(6) by (simp add: same_iters_def)
  obtain s2 R where s2: "fetchblock env s1 = (Inr R, s2)" "in_step env h nm N posn s2" "at_realpos N s2"
    "m_pos s2 = min (N + 1) (m_pos s1 + k)" "same_iters s1 s2"
    "result_shows R tab [m_pos s1 + 1 .. min N (m_pos s1 + k)]"
    using fetchblock_served [OF assms(1) s1(2,3) k1 assms(2,3)] by blast
  have sh: "shows_block N tab k p R" using s2(6) s1(5) by (auto simp: shows_block_def)
  have ss: "same_iters s s2" using same_iters_trans [OF s1(4) s2(5)] .
  have "\<forall>(q, b) \<in> set ts. mem s2 b \<noteq> None" using assms(10) ss unfolding same_iters_def by auto
  from fill_all_ok [OF this, of R] obtain s3 where s3: "fill_all R ts s2 = (Inr (), s3)" "s3 = s2\<lparr>memory := memory s3\<rparr>"
    "\<And>b. mem s3 b = (if b \<in> snd ` set ts then map_option (\<lambda>i. i\<lparr>m_here := R\<rparr>) (mem s b) else mem s b)"
    using ss unfolding same_iters_def by auto
  have f3: "m_realpos s3 = m_realpos s2" "m_stride s3 = k" "m_reqpos s3 = m_reqpos s"
    "m_iterators s3 = m_iterators s" "in_step env h nm N posn s3" "at_realpos N s3"
    using s2(2,3) ss k1 s2(5) by (subst s3(2), simp add: in_step_fields at_realpos_def same_iters_def)+
  have "m_realpos s3 \<le> p + k" using f3(1) s2(3,4) s1(5) N assms(2) by (auto simp: at_realpos_def)
  moreover have "serve env ((p, a) # rest) s = serve env (dropWhile (\<lambda>t. fst t = p) rest) s3"
    unfolding serve.simps ts_def [symmetric]
    by (rule seqI, rule s1(1), rule bndI, rule s2(1), rule seqI, rule s3(1), rule refl)
  ultimately show ?thesis using f3(2-6) s3(3) sh by blast
qed

definition filled :: "int \<Rightarrow> (int \<Rightarrow> nat \<Rightarrow> string) \<Rightarrow> int \<Rightarrow> int \<Rightarrow> icit option \<Rightarrow> icit option \<Rightarrow> bool" where
  "filled N tab k p x y \<longleftrightarrow> (\<exists>i R. x = Some i \<and> y = Some (i\<lparr>m_here := R\<rparr>) \<and> shows_block N tab k p R)"

text \<open>The iterators at the first position, and the rest of the list.\<close>

lemma apart_parts:
  assumes "apart k ((p, a) # rest)" "0 < k" "distinct (map snd ((p, a) # rest))"
  defines "G \<equiv> (p, a) # takeWhile (\<lambda>t. fst t = p) rest" and "D \<equiv> dropWhile (\<lambda>t. fst t = p) rest"
  shows "set ((p, a) # rest) = set G \<union> set D" "length D < length ((p, a) # rest)" "apart k D" "distinct (map snd D)"
    "snd ` set G \<inter> snd ` set D = {}" "\<forall>(q, b) \<in> set D. p + k \<le> q" "\<forall>(q, b) \<in> set G. q = p"
proof -
  have ts: "(p, a) # rest = G @ D" by (simp add: G_def D_def)
  then show "set ((p, a) # rest) = set G \<union> set D" by (metis set_append)
  show "length D < length ((p, a) # rest)" unfolding D_def using length_dropWhile_le [of _ rest] by (simp add: le_imp_less_Suc)
  show "apart k D" unfolding D_def using assms(1) by (rule apart_dropWhile)
  show "distinct (map snd D)" "snd ` set G \<inter> snd ` set D = {}" using assms(3) [unfolded ts] by simp_all
  show "\<forall>(q, b) \<in> set D. p + k \<le> q"
    using apart_rest [of k p a rest] assms(1,2) by (auto simp: D_def)
  show "\<forall>(q, b) \<in> set G. q = p" by (auto simp: G_def dest: set_takeWhileD)
qed

lemma serve_served:
  assumes "cursor_server env h nm N posn tab" "0 < k" "k \<le> 2 ^ 62"
  shows "in_step env h nm N posn s \<Longrightarrow> at_realpos N s \<Longrightarrow> m_stride s = k \<Longrightarrow> apart k ts \<Longrightarrow>
    distinct (map snd ts) \<Longrightarrow>
    \<forall>(p, a) \<in> set ts. m_realpos s \<le> p \<and> 0 \<le> p \<and> p \<le> 2 ^ 62 \<and> mem s a \<noteq> None \<Longrightarrow>
    \<exists>t. serve env ts s = (Inr (), t) \<and> in_step env h nm N posn t \<and> at_realpos N t \<and> m_stride t = k \<and>
      m_reqpos t = m_reqpos s \<and> m_iterators t = m_iterators s \<and>
      (\<forall>p. (\<forall>x \<in> set ts. fst x + k \<le> p) \<longrightarrow> m_realpos s \<le> p \<longrightarrow> m_realpos t \<le> p) \<and>
      (\<forall>b. b \<notin> snd ` set ts \<longrightarrow> mem t b = mem s b) \<and>
      (\<forall>(p, a) \<in> set ts. filled N tab k p (mem s a) (mem t a))"
proof (induction ts arbitrary: s rule: length_induct)
  case (1 ts)
  note IH = 1(1) and prems = 1(2-7)
  show ?case
  proof (cases ts)
    case Nil
    then show ?thesis using prems by (auto simp: skip_def ret_def)
  next
    case (Cons x rest)
    obtain p a where ts: "ts = (p, a) # rest" using Cons by (cases x) simp
    let ?G = "(p, a) # takeWhile (\<lambda>t. fst t = p) rest" and ?D = "dropWhile (\<lambda>t. fst t = p) rest"
    note parts = apart_parts [OF prems(4) [unfolded ts] assms(2) prems(5) [unfolded ts], folded ts]
    have p: "m_realpos s \<le> p" "p \<le> 2 ^ 62" using prems(6) ts by auto
    have live: "\<forall>(q, b) \<in> set ?G. mem s b \<noteq> None" using prems(6) unfolding parts(1) by blast
    obtain s3 R where s3: "serve env ts s = serve env ?D s3"
      "in_step env h nm N posn s3" "at_realpos N s3" "m_stride s3 = k" "m_reqpos s3 = m_reqpos s" "m_iterators s3 = m_iterators s"
      and real: "m_realpos s3 \<le> p + k" and sh: "shows_block N tab k p R"
      and mem3: "\<forall>b. mem s3 b = (if b \<in> snd ` set ?G then map_option (\<lambda>i. i\<lparr>m_here := R\<rparr>) (mem s b) else mem s b)"
      using serve_block_served [OF assms prems(1-3) p live] unfolding ts by blast
    have m3: "mem s3 b = mem s b" if "b \<in> snd ` set ?D" for b using mem3 parts(5) that by auto
    have "\<forall>(q, b) \<in> set ?D. m_realpos s3 \<le> q \<and> 0 \<le> q \<and> q \<le> 2 ^ 62 \<and> mem s3 b \<noteq> None"
      using prems(6) parts(1,6) real m3 by fastforce
    then obtain t where t: "serve env ?D s3 = (Inr (), t)" "in_step env h nm N posn t" "at_realpos N t"
      "m_stride t = k" "m_reqpos t = m_reqpos s3" "m_iterators t = m_iterators s3"
      "\<forall>q. (\<forall>x \<in> set ?D. fst x + k \<le> q) \<longrightarrow> m_realpos s3 \<le> q \<longrightarrow> m_realpos t \<le> q"
      "\<forall>b. b \<notin> snd ` set ?D \<longrightarrow> mem t b = mem s3 b"
      "\<forall>(q, b) \<in> set ?D. filled N tab k q (mem s3 b) (mem t b)"
      using IH parts(2-4) s3(2-4) by blast
    have "serve env ts s = (Inr (), t)" unfolding s3(1) by (rule t(1))
    moreover have "m_realpos t \<le> q" if q: "\<forall>x \<in> set ts. fst x + k \<le> q" for q
    proof -
      have "\<forall>x \<in> set ?D. fst x + k \<le> q" "p + k \<le> q" using q parts(1) by auto
      then show ?thesis using t(7) real by fastforce
    qed
    moreover have "\<forall>b. b \<notin> snd ` set ts \<longrightarrow> mem t b = mem s b"
      using t(8) mem3 parts(1) by (simp add: image_Un)
    moreover have "filled N tab k q (mem s b) (mem t b)" if qb: "(q, b) \<in> set ts" for q b
    proof (cases "(q, b) \<in> set ?D")
      case True
      then show ?thesis using bspec [OF t(9) True] m3 [of b] by force
    next
      case False
      then have g: "(q, b) \<in> set ?G" using qb parts(1) by blast
      then have bG: "b \<in> snd ` set ?G" "q = p" using parts(7) by force+
      then have "b \<notin> snd ` set ?D" using parts(5) by blast
      then have "mem t b = map_option (\<lambda>i. i\<lparr>m_here := R\<rparr>) (mem s b)" using t(8) mem3 bG(1) by metis
      then show ?thesis using bspec [OF live g] sh bG(2) by (auto simp: filled_def)
    qed
    ultimately show ?thesis using t(2-6) s3(5,6) by (intro exI [of _ t]) auto
  qed
qed

text \<open>What there is to do: the registered iterators with a position in range, in order of it.\<close>

definition in_range :: "int \<Rightarrow> int \<Rightarrow> icit \<Rightarrow> bool" where
  "in_range r topos i \<longleftrightarrow> r \<le> it_pos i \<and> it_pos i \<le> topos"

lemma todo_insert_set [simp]: "set (todo_insert p a ts) = insert (p, a) (set ts)"
  by (induction p a ts rule: todo_insert.induct) auto

lemma todo_insert_distinct [simp]: "distinct (map snd (todo_insert p a ts)) \<longleftrightarrow> a \<notin> snd ` set ts \<and> distinct (map snd ts)"
  by (induction p a ts rule: todo_insert.induct) auto

lemma todo_insert_sorted: "sorted (map fst ts) \<Longrightarrow> sorted (map fst (todo_insert p a ts))"
  by (induction p a ts rule: todo_insert.induct) auto

lemma todo_list_found:
  assumes "dseg (mem s) p prev xs None l" "distinct xs" "length xs \<le> n" "sorted (map fst todo)"
    and "distinct (map snd todo)" "snd ` set todo \<inter> set xs = {}"
  shows "\<exists>ts. todo_list topos n p todo s = (Inr ts, s) \<and> sorted (map fst ts) \<and> distinct (map snd ts) \<and>
    set ts = set todo \<union> {(it_pos i, a) | a i. a \<in> set xs \<and> mem s a = Some i \<and> in_range (m_realpos s) topos i}"
  using assms
proof (induction xs arbitrary: p prev n todo)
  case Nil
  then show ?case by (auto simp: ret_def)
next
  case (Cons a xs)
  obtain i where i: "p = Some a" "mem s a = Some i" "dseg (mem s) (m_next i) (Some a) xs None l"
    using Cons.prems(1) by auto
  obtain m where n: "n = Suc m" using Cons.prems(3) by (cases n) auto
  let ?todo = "if in_range (m_realpos s) topos i then todo_insert (it_pos i) a todo else todo"
  have "sorted (map fst ?todo)" "distinct (map snd ?todo)" "snd ` set ?todo \<inter> set xs = {}"
    using Cons.prems(2,4-6) todo_insert_sorted by auto
  then obtain ts where ts: "todo_list topos m (m_next i) ?todo s = (Inr ts, s)" "sorted (map fst ts)" "distinct (map snd ts)"
    "set ts = set ?todo \<union> {(it_pos i, a) | a i. a \<in> set xs \<and> mem s a = Some i \<and> in_range (m_realpos s) topos i}"
    using Cons.IH [OF i(3), of m ?todo] Cons.prems(2,3) n by auto
  moreover have "todo_list topos n p todo s = todo_list topos m (m_next i) ?todo s"
    using i(1,2) n by (simp add: bnd_def gets_def it_get_ok in_range_def)
  moreover have "set ts = set todo \<union> {(it_pos i, b) | b i. b \<in> set (a # xs) \<and> mem s b = Some i \<and> in_range (m_realpos s) topos i}"
    using ts(4) i(2) by auto
  ultimately show ?case by metis
qed

lemma memory_long_enough:
  assumes "registered s xs"
  shows "length xs \<le> length (memory s)"
proof -
  have "set xs \<subseteq> fst ` set (memory s)"
  proof
    fix a assume "a \<in> set xs"
    then obtain i where "mem s a = Some i" using registered_attached [OF assms] by blast
    then show "a \<in> fst ` set (memory s)" using omap_get_key [of a "memory s"] by auto
  qed
  then have "card (set xs) \<le> card (fst ` set (memory s))" by (intro card_mono) auto
  also have "\<dots> \<le> length (memory s)" by (meson card_image_le card_length finite_set le_trans)
  finally show ?thesis using assms by (simp add: registered_def distinct_card)
qed

section \<open>The invariant of a stream and its iterators\<close>

text \<open>
  Positions are whole strides, and an iterator whose position the stream has passed holds the
  block there.
\<close>

definition it_ok :: "int \<Rightarrow> (int \<Rightarrow> nat \<Rightarrow> string) \<Rightarrow> int \<Rightarrow> int \<Rightarrow> int \<Rightarrow> icit \<Rightarrow> bool" where
  "it_ok N tab k realpos reqpos i \<longleftrightarrow> 0 \<le> it_pos i \<and> it_pos i \<le> reqpos \<and> it_pos i mod k = 0 \<and>
     (realpos \<le> it_pos i \<or> shows_block N tab k (it_pos i) (m_here i))"

definition stream_inv ::
  "'w env \<Rightarrow> handle \<Rightarrow> string \<Rightarrow> int \<Rightarrow> ('w \<Rightarrow> int) \<Rightarrow> (int \<Rightarrow> nat \<Rightarrow> string) \<Rightarrow> int \<Rightarrow> ('w, 'z) icstream_scheme \<Rightarrow> bool" where
  "stream_inv env h nm N posn tab k s \<longleftrightarrow>
     in_step env h nm N posn s \<and> at_realpos N s \<and> m_stride s = k \<and> linked s \<and>
     0 \<le> m_reqpos s \<and> m_reqpos s \<le> 2 ^ 62 \<and> m_reqpos s mod k = 0 \<and> m_realpos s \<le> m_reqpos s + k \<and>
     (\<forall>a i. mem s a = Some i \<longrightarrow> it_attached i \<longrightarrow> it_ok N tab k (m_realpos s) (m_reqpos s) i)"

lemma multiples_apart:
  assumes "(p :: int) mod k = 0" "q mod k = 0" "p < q" "0 < k"
  shows "p + k \<le> q"
proof -
  obtain x y where x: "p = k * x" "q = k * y" using assms(1,2) by (metis mod_0_imp_dvd dvdE)
  then have "x < y" using assms(3,4) by simp
  then have "k * (x + 1) \<le> k * y" using assms(4) by simp
  then show ?thesis using x by (simp add: distrib_left)
qed

lemma sorted_apart:
  assumes "sorted (map fst ts)" "0 < k" "\<forall>x \<in> set ts. fst x mod k = 0"
  shows "apart k ts"
  using assms
proof (induction ts)
  case (Cons x ts)
  have "fst x = fst y \<or> fst x + k \<le> fst y" if "y \<in> set ts" for y
    using Cons.prems that multiples_apart [of "fst x" k "fst y"] by (cases "fst x = fst y") auto
  then show ?case using Cons by (simp add: apart_def)
qed (simp add: apart_def)

text \<open>What the stream does to the iterators when it serves the ones in a list.\<close>

definition serves_list ::
  "int \<Rightarrow> (int \<Rightarrow> nat \<Rightarrow> string) \<Rightarrow> int \<Rightarrow> (int \<times> addr) list \<Rightarrow> ('w, 'z) icstream_scheme \<Rightarrow> ('w, 'z) icstream_scheme \<Rightarrow> bool"
where
  "serves_list N tab k ts s t \<longleftrightarrow>
     (\<forall>p. (\<forall>x \<in> set ts. fst x + k \<le> p) \<longrightarrow> m_realpos s \<le> p \<longrightarrow> m_realpos t \<le> p) \<and>
     (\<forall>b. b \<notin> snd ` set ts \<longrightarrow> mem t b = mem s b) \<and>
     (\<forall>(p, a) \<in> set ts. filled N tab k p (mem s a) (mem t a))"

text \<open>The list has the attached iterators with a position in range, each with its position.\<close>

definition lists_todo :: "int \<Rightarrow> (int \<times> addr) list \<Rightarrow> ('w, 'z) icstream_scheme \<Rightarrow> bool" where
  "lists_todo topos ts s \<longleftrightarrow>
     (\<forall>(p, a) \<in> set ts. \<exists>i. mem s a = Some i \<and> it_attached i \<and> p = it_pos i \<and> in_range (m_realpos s) topos i) \<and>
     (\<forall>a i. mem s a = Some i \<longrightarrow> it_attached i \<longrightarrow> in_range (m_realpos s) topos i \<longrightarrow> a \<in> snd ` set ts)"

lemma lists_todoD:
  "lists_todo topos ts s \<Longrightarrow> (p, a) \<in> set ts \<Longrightarrow>
   \<exists>i. mem s a = Some i \<and> it_attached i \<and> p = it_pos i \<and> in_range (m_realpos s) topos i"
  unfolding lists_todo_def by blast

lemma todo_list_todo:
  assumes "linked s"
  shows "\<exists>ts. todo_list topos (length (memory s)) (m_iterators s) [] s = (Inr ts, s) \<and> sorted (map fst ts) \<and>
    distinct (map snd ts) \<and> lists_todo topos ts s"
proof -
  obtain xs where r: "registered s xs" using assms unfolding linked_def by blast
  then obtain l where d: "dseg (mem s) (m_iterators s) None xs None l" "distinct xs" unfolding registered_def by blast
  obtain ts where ts: "todo_list topos (length (memory s)) (m_iterators s) [] s = (Inr ts, s)" "sorted (map fst ts)"
    "distinct (map snd ts)" "set ts = {(it_pos i, a) | a i. a \<in> set xs \<and> mem s a = Some i \<and> in_range (m_realpos s) topos i}"
    using todo_list_found [OF d memory_long_enough [OF r], of "[]" topos] by auto
  have "\<exists>i. mem s a = Some i \<and> it_attached i \<and> p = it_pos i \<and> in_range (m_realpos s) topos i" if "(p, a) \<in> set ts" for p a
    using that ts(4) registered_attached [OF r] by auto
  moreover have "a \<in> snd ` set ts" if "mem s a = Some i" "it_attached i" "in_range (m_realpos s) topos i" for a i
  proof -
    have "a \<in> set xs" using registered_attached [OF r] that(1,2) by blast
    then show ?thesis using ts(4) that(1,3) by force
  qed
  ultimately show ?thesis using ts(1-3) unfolding lists_todo_def by blast
qed

lemma service_serves:
  assumes "cursor_server env h nm N posn tab" "0 < k" "k \<le> 2 ^ 62" "stream_inv env h nm N posn tab k s" "topos \<le> 2 ^ 62"
    and "m_realpos s \<le> topos"
  shows "\<exists>ts t. service_iterators env topos s = (Inr (), t) \<and> in_step env h nm N posn t \<and> at_realpos N t \<and> m_stride t = k \<and>
    m_reqpos t = m_reqpos s \<and> links t = links s \<and> lists_todo topos ts s \<and> serves_list N tab k ts s t"
proof -
  have st: "in_step env h nm N posn s" "at_realpos N s" "m_stride s = k" and lk: "linked s"
    and ok: "\<And>a i. mem s a = Some i \<Longrightarrow> it_attached i \<Longrightarrow> it_ok N tab k (m_realpos s) (m_reqpos s) i"
    using assms(4) by (simp_all add: stream_inv_def)
  obtain ts where ts: "todo_list topos (length (memory s)) (m_iterators s) [] s = (Inr ts, s)" "sorted (map fst ts)"
    "distinct (map snd ts)" "lists_todo topos ts s"
    using todo_list_todo [OF lk] by blast
  have each: "p mod k = 0 \<and> m_realpos s \<le> p \<and> 0 \<le> p \<and> p \<le> 2 ^ 62 \<and> mem s a \<noteq> None" if q: "(p, a) \<in> set ts" for p a
  proof -
    obtain i where i: "mem s a = Some i" "it_attached i" "p = it_pos i" "in_range (m_realpos s) topos i"
      using lists_todoD [OF ts(4) q] by blast
    then show ?thesis using ok [OF i(1,2)] assms(5) by (auto simp: in_range_def it_ok_def)
  qed
  have "\<forall>x \<in> set ts. fst x mod k = 0" using each by fastforce
  then have ap: "apart k ts" by (rule sorted_apart [OF ts(2) assms(2)])
  have live: "\<forall>(p, a) \<in> set ts. m_realpos s \<le> p \<and> 0 \<le> p \<and> p \<le> 2 ^ 62 \<and> mem s a \<noteq> None" using each by blast
  obtain t where t: "serve env ts s = (Inr (), t)" "in_step env h nm N posn t" "at_realpos N t" "m_stride t = k"
    "m_reqpos t = m_reqpos s" "serves_list N tab k ts s t"
    using serve_served [OF assms(1-3) st ap ts(3) live] unfolding serves_list_def by blast
  have "service_iterators env topos s = (Inr (), t)"
    using assms(6) ts(1) t(1) by (simp add: service_iterators_def cond_def step_simps) (simp add: bnd_def)
  moreover have "links t = links s" using frameD [OF links_serve] t(1) by (metis snd_conv)
  ultimately show ?thesis using t(2-6) ts(4) by blast
qed

text \<open>After it an iterator is where it was, and has its block when it was in range.\<close>

lemma served_iterator:
  assumes "0 < k" "stream_inv env h nm N posn tab k s" "lists_todo topos ts s" "serves_list N tab k ts s t" "mem s a = Some i"
  shows "\<exists>j. mem t a = Some j \<and> it_pos j = it_pos i \<and> it_attached j = it_attached i \<and> (\<not> it_attached i \<longrightarrow> j = i) \<and>
    (it_attached i \<longrightarrow> it_pos i \<le> topos \<longrightarrow> shows_block N tab k (it_pos i) (m_here j)) \<and>
    (it_attached i \<longrightarrow> it_ok N tab k (m_realpos t) (m_reqpos s) j)"
proof -
  have ok: "it_ok N tab k (m_realpos s) (m_reqpos s) i" if "mem s a = Some i" "it_attached i" for a i
    using assms(2) that by (simp add: stream_inv_def)
  show ?thesis
  proof (cases "a \<in> snd ` set ts")
    case True
    then obtain p where p: "(p, a) \<in> set ts" by auto
    then have "it_attached i" "p = it_pos i" using lists_todoD [OF assms(3) p] assms(5) by auto
    moreover have "filled N tab k p (mem s a) (mem t a)" using assms(4) p unfolding serves_list_def by blast
    ultimately show ?thesis using ok [OF assms(5)] assms(5) by (auto simp: it_ok_def filled_def)
  next
    case False
    then have m: "mem t a = Some i" using assms(4,5) by (simp add: serves_list_def)
    show ?thesis
    proof (cases "it_attached i")
      case True
      then have "\<not> in_range (m_realpos s) topos i" using False assms(3,5) unfolding lists_todo_def by blast
      then have c: "it_pos i < m_realpos s \<or> m_realpos s \<le> it_pos i \<and> topos < it_pos i"
        unfolding in_range_def by arith
      note o = ok [OF assms(5) True]
      have "m_realpos t \<le> it_pos i" if ge: "m_realpos s \<le> it_pos i" "topos < it_pos i"
      proof -
        have "fst x + k \<le> it_pos i" if x: "x \<in> set ts" for x
        proof -
          obtain p b where "x = (p, b)" by (cases x)
          then obtain j where j: "mem s b = Some j" "it_attached j" "fst x = it_pos j" "it_pos j \<le> topos"
            using lists_todoD [OF assms(3), of p b] x by (auto simp: in_range_def)
          then show ?thesis
            using multiples_apart [of "it_pos j" k "it_pos i"] ok [OF j(1,2)] o ge assms(1) by (simp add: it_ok_def)
        qed
        then show ?thesis using assms(4) ge(1) unfolding serves_list_def by blast
      qed
      then show ?thesis using m o True c by (auto simp: it_ok_def)
    qed (use m in simp)
  qed
qed

lemma served_invariant:
  assumes "stream_inv env h nm N posn tab k s" "in_step env h nm N posn t" "at_realpos N t" "m_stride t = k"
    and "m_reqpos t = m_reqpos s" "links t = links s" "lists_todo topos ts s" "serves_list N tab k ts s t" "0 < k"
  shows "stream_inv env h nm N posn tab k t" "mem s a = None \<Longrightarrow> mem t a = None"
proof -
  have none: "mem t a = None" if "mem s a = None" for a
  proof -
    have "a \<notin> snd ` set ts" using that lists_todoD [OF assms(7)] by force
    then show ?thesis using assms(8) that by (simp add: serves_list_def)
  qed
  then show "mem s a = None \<Longrightarrow> mem t a = None" .
  have "linked t" using assms(1) registered_links [OF assms(6)] unfolding linked_def stream_inv_def by blast
  moreover have "it_ok N tab k (m_realpos t) (m_reqpos t) j" if j: "mem t a = Some j" "it_attached j" for a j
  proof -
    have "mem s a \<noteq> None" using none [of a] j(1) by auto
    then obtain i where "mem s a = Some i" by blast
    then show ?thesis using served_iterator [OF assms(9,1,7,8)] j assms(5) by fastforce
  qed
  moreover have "m_realpos t \<le> m_reqpos s + k"
  proof -
    have "fst x + k \<le> m_reqpos s + k" if x: "x \<in> set ts" for x
    proof -
      obtain p b where "x = (p, b)" by (cases x)
      then obtain j where "mem s b = Some j" "it_attached j" "fst x = it_pos j" using lists_todoD [OF assms(7), of p b] x by auto
      then show ?thesis using assms(1) by (fastforce simp: stream_inv_def it_ok_def)
    qed
    then show ?thesis using assms(1,8) unfolding serves_list_def stream_inv_def by blast
  qed
  ultimately show "stream_inv env h nm N posn tab k t" using assms(1-5) by (simp add: stream_inv_def)
qed

lemma service_served:
  assumes "cursor_server env h nm N posn tab" "0 < k" "k \<le> 2 ^ 62" "stream_inv env h nm N posn tab k s" "topos \<le> 2 ^ 62"
  shows "\<exists>t. service_iterators env topos s = (Inr (), t) \<and> stream_inv env h nm N posn tab k t \<and> links t = links s \<and>
    m_reqpos t = m_reqpos s \<and>
    (\<forall>a i. mem s a = Some i \<longrightarrow> (\<exists>j. mem t a = Some j \<and> it_pos j = it_pos i \<and> it_attached j = it_attached i \<and>
       (\<not> it_attached i \<longrightarrow> j = i) \<and>
       (it_attached i \<longrightarrow> it_pos i \<le> topos \<longrightarrow> shows_block N tab k (it_pos i) (m_here j)))) \<and>
    (\<forall>a. mem s a = None \<longrightarrow> mem t a = None)"
proof (cases "topos < m_realpos s")
  case True
  then have "service_iterators env topos s = (Inr (), s)" by (simp add: service_iterators_def cond_def skip_def ret_def)
  moreover have "shows_block N tab k (it_pos i) (m_here i)" if "mem s a = Some i" "it_attached i" "it_pos i \<le> topos" for a i
    using assms(4) that True by (fastforce simp: it_ok_def stream_inv_def)
  ultimately show ?thesis using assms(4) by auto
next
  case False
  then obtain ts t where run: "service_iterators env topos s = (Inr (), t)"
    and t: "in_step env h nm N posn t" "at_realpos N t" "m_stride t = k" "m_reqpos t = m_reqpos s" "links t = links s"
      "lists_todo topos ts s" "serves_list N tab k ts s t"
    using service_serves [OF assms] by auto
  note inv = served_invariant [OF assms(4) t assms(2)]
  show ?thesis
    using run inv t(4,5) served_iterator [OF assms(2,4) t(6,7)] by (intro exI [of _ t] conjI allI impI) blast+
qed

text \<open>
  Calls as the documentation wants them: a new iterator is put on the stream only while no other has read
  from the place where it starts, and positions stay within the integers.
\<close>

definition it_ordinary :: "it_call \<Rightarrow> ('w, 'z) icstream_scheme \<Rightarrow> bool" where
  "it_ordinary c s \<longleftrightarrow> it_valid c s \<and>
     (case c of Attach _ \<Rightarrow> m_realpos s \<le> m_reqpos s
      | Preinc _ \<Rightarrow> m_reqpos s + m_stride s \<le> 2 ^ 62 | Postinc _ _ \<Rightarrow> m_reqpos s + m_stride s \<le> 2 ^ 62
      | Advance _ n \<Rightarrow> m_reqpos s + n * m_stride s \<le> 2 ^ 62 | _ \<Rightarrow> True)"

lemma it_ok_mono: "it_ok N tab k r q i \<Longrightarrow> q \<le> q' \<Longrightarrow> it_ok N tab k r q' i"
  by (auto simp: it_ok_def)

text \<open>Linking and unlinking change pointers only.\<close>

definition body :: "icit \<Rightarrow> bool \<times> result \<times> int" where
  "body i = (it_attached i, m_here i, it_pos i)"

definition bodies :: "('w, 'z) icstream_scheme \<Rightarrow> addr \<Rightarrow> (bool \<times> result \<times> int) option" where
  "bodies s a = map_option body (mem s a)"

definition stream_part :: "('w, 'z) icstream_scheme \<Rightarrow> ('w, 'z) icstream_scheme" where
  "stream_part s = s\<lparr>memory := [], m_iterators := None\<rparr>"

definition core :: "('w, 'z) icstream_scheme \<Rightarrow> ('w, 'z) icstream_scheme \<times> (addr \<Rightarrow> (bool \<times> result \<times> int) option)" where
  "core s = (stream_part s, bodies s)"

lemma core_it_upd [frame_intros]: "(\<And>i. body (f i) = body i) \<Longrightarrow> frame core (it_upd a f)"
proof (rule frameI)
  fix s :: "('a, 'b) icstream_scheme"
  assume b: "\<And>i. body (f i) = body i"
  show "core (snd (it_upd a f s)) = core s"
  proof (cases "mem s a")
    case None
    then show ?thesis by (simp add: it_upd_def bnd_def it_get_bad)
  next
    case (Some i)
    then show ?thesis using b
      by (simp add: it_upd_ok core_def stream_part_def bodies_def fun_eq_iff upd_mem_def omap_get_put)
  qed
qed

lemma core_it_get [frame_intros]: "frame core (it_get a)"
  by (auto simp: frame_def it_get_def bnd_def gets_def ret_def throw_def split: option.split)

lemma core_pointers [frame_intros]:
  "frame core (modify (\<lambda>s. s\<lparr>m_iterators := p\<rparr>))" "frame core (set_next a p)" "frame core (set_prev a p)"
proof -
  show "frame core (modify (\<lambda>s. s\<lparr>m_iterators := p\<rparr>))"
    by (rule frame_modify) (simp add: core_def stream_part_def bodies_def fun_eq_iff)
qed (unfold set_next_def set_prev_def, (intro frame_intros, simp add: body_def)+)

lemma core_insert [frame_intros]: "frame core (insert_iterator a)"
  unfolding insert_iterator_def by (auto intro!: frame_intros split: option.split)

lemma core_remove [frame_intros]: "frame core (remove_iterator a)"
  unfolding remove_iterator_def by (auto intro!: frame_intros split: option.split)

lemma core_fields:
  assumes "core t = core s"
  shows "in_step env h nm N posn t = in_step env h nm N posn s" "at_realpos N t = at_realpos N s"
    "m_stride t = m_stride s" "m_realpos t = m_realpos s" "m_reqpos t = m_reqpos s"
    "map_option body (mem t a) = map_option body (mem s a)"
proof -
  have p: "stream_part t = stream_part s" and b: "bodies t = bodies s" using assms by (simp_all add: core_def)
  have "in_step env h nm N posn (stream_part u) = in_step env h nm N posn u" for u :: "('a, 'b) icstream_scheme"
    by (simp add: stream_part_def in_step_fields)
  then show "in_step env h nm N posn t = in_step env h nm N posn s" using p by metis
  have "m_stride (stream_part u) = m_stride u" "m_realpos (stream_part u) = m_realpos u" "m_reqpos (stream_part u) = m_reqpos u"
    "m_pos (stream_part u) = m_pos u" for u :: "('a, 'b) icstream_scheme" by (simp_all add: stream_part_def)
  then show "m_stride t = m_stride s" "m_realpos t = m_realpos s" "m_reqpos t = m_reqpos s" "at_realpos N t = at_realpos N s"
    using p unfolding at_realpos_def by metis+
  show "map_option body (mem t a) = map_option body (mem s a)" using fun_cong [OF b, of a] by (simp add: bodies_def)
qed

lemma it_ok_body: "body i = body j \<Longrightarrow> it_ok N tab k r q i = it_ok N tab k r q j"
  by (simp add: body_def it_ok_def)

text \<open>The invariant but for the links, with the two positions named.\<close>

definition pos_inv ::
  "'w env \<Rightarrow> handle \<Rightarrow> string \<Rightarrow> int \<Rightarrow> ('w \<Rightarrow> int) \<Rightarrow> (int \<Rightarrow> nat \<Rightarrow> string) \<Rightarrow> int \<Rightarrow> int \<Rightarrow> int \<Rightarrow>
   ('w, 'z) icstream_scheme \<Rightarrow> bool" where
  "pos_inv env h nm N posn tab k r q s \<longleftrightarrow>
     in_step env h nm N posn s \<and> at_realpos N s \<and> m_stride s = k \<and> m_realpos s = r \<and> m_reqpos s = q \<and>
     0 \<le> q \<and> q \<le> 2 ^ 62 \<and> q mod k = 0 \<and> r \<le> q + k \<and>
     (\<forall>a i. mem s a = Some i \<longrightarrow> it_attached i \<longrightarrow> it_ok N tab k r q i)"

lemma stream_inv_pos:
  "stream_inv env h nm N posn tab k s \<longleftrightarrow> linked s \<and> pos_inv env h nm N posn tab k (m_realpos s) (m_reqpos s) s"
  unfolding stream_inv_def pos_inv_def by blast

lemma pos_inv_core:
  assumes "core t = core s" "pos_inv env h nm N posn tab k r q s"
  shows "pos_inv env h nm N posn tab k r q t"
proof -
  note c = core_fields [OF assms(1)]
  have "it_ok N tab k r q j" if j: "mem t a = Some j" "it_attached j" for a j
  proof -
    obtain i where i: "mem s a = Some i" "body i = body j" using c(6) [of a] j(1) by (cases "mem s a") auto
    then have "it_attached i" using j(2) by (simp add: body_def)
    then show ?thesis using assms(2) i it_ok_body [OF i(2)] unfolding pos_inv_def by blast
  qed
  then show ?thesis using assms(2) c(1-5) unfolding pos_inv_def by simp
qed

lemma pos_inv_frame: "frame core m \<Longrightarrow> keeps (pos_inv env h nm N posn tab k r q) m"
  using pos_inv_core unfolding keeps_def frame_def by blast

lemma pos_inv_put:
  assumes "pos_inv env h nm N posn tab k r q s" "it_attached i \<Longrightarrow> it_ok N tab k r q i"
  shows "pos_inv env h nm N posn tab k r q (upd_mem a i s)"
proof -
  have "in_step env h nm N posn (upd_mem a i s) = in_step env h nm N posn s"
    "at_realpos N (upd_mem a i s) = at_realpos N s" "m_stride (upd_mem a i s) = m_stride s"
    "m_realpos (upd_mem a i s) = m_realpos s" "m_reqpos (upd_mem a i s) = m_reqpos s"
    by (simp_all add: upd_mem_def in_step_fields at_realpos_def)
  then show ?thesis using assms unfolding pos_inv_def by simp
qed

lemma pos_inv_erase:
  assumes "pos_inv env h nm N posn tab k r q s"
  shows "pos_inv env h nm N posn tab k r q (s\<lparr>memory := omap_erase a (memory s)\<rparr>)"
  using assms by (simp add: pos_inv_def in_step_fields at_realpos_def omap_get_erase)

lemma pos_inv_ok:
  "pos_inv env h nm N posn tab k r q s \<Longrightarrow> mem s a = Some i \<Longrightarrow> it_attached i \<Longrightarrow> it_ok N tab k r q i"
  unfolding pos_inv_def by blast

lemma pos_inv_run: "keeps (pos_inv env h nm N posn tab k r q) m \<Longrightarrow> pos_inv env h nm N posn tab k r q s \<Longrightarrow>
    pos_inv env h nm N posn tab k r q (snd (m s))"
  by (simp add: keeps_def)

lemma pos_inv_seq_put:
  assumes "pos_inv env h nm N posn tab k r q s" "it_attached i \<Longrightarrow> it_ok N tab k r q i" "frame core m"
  shows "pos_inv env h nm N posn tab k r q (snd (seq (it_put a i) m s))"
proof -
  have "seq (it_put a i) m s = m (upd_mem a i s)" by (simp add: seq_def bnd_def it_put_ok)
  then show ?thesis using pos_inv_run [OF pos_inv_frame [OF assms(3)] pos_inv_put [OF assms(1,2)]] by simp
qed

lemma pos_inv_reqpos:
  assumes "pos_inv env h nm N posn tab k r q s" "q \<le> p" "p \<le> 2 ^ 62" "p mod k = 0"
  shows "pos_inv env h nm N posn tab k r p (s\<lparr>m_reqpos := p\<rparr>)"
proof -
  have "it_ok N tab k r p j" if "mem s b = Some j" "it_attached j" for b j
    using it_ok_mono [OF pos_inv_ok [OF assms(1) that] assms(2)] .
  then show ?thesis using assms unfolding pos_inv_def in_step_fields at_realpos_def by simp
qed

lemma pos_inv_move:
  assumes "pos_inv env h nm N posn tab k r q s" "mem s a = Some i" "it_attached i" "0 < n" "0 < k" "q + n * k \<le> 2 ^ 62"
  shows "\<exists>t. iter_move a n s = (Inr (), t) \<and> pos_inv env h nm N posn tab k r (q + n * k) t"
proof -
  have f: "m_reqpos s = q" "m_stride s = k" "q mod k = 0" "0 \<le> q" "r \<le> q + k" using assms(1) by (simp_all add: pos_inv_def)
  let ?s = "s\<lparr>m_reqpos := q + n * k\<rparr>" and ?i = "i\<lparr>it_pos := q + n * k, m_here := empty_result\<rparr>"
  have k: "k \<le> n * k" using assms(4,5) by simp
  have m: "(q + n * k) mod k = 0" using f(3) by simp
  have "pos_inv env h nm N posn tab k r (q + n * k) ?s"
    by (rule pos_inv_reqpos [OF assms(1) _ assms(6) m]) (use k assms(5) in linarith)
  moreover have "r \<le> q + n * k" "0 \<le> q + n * k" using f(4,5) k assms(5) by linarith+
  then have "it_ok N tab k r (q + n * k) ?i" using m unfolding it_ok_def by simp
  ultimately have "pos_inv env h nm N posn tab k r (q + n * k) (upd_mem a ?i ?s)" using pos_inv_put by blast
  moreover have "iter_move a n s = (Inr (), upd_mem a ?i ?s)"
  proof -
    have g: "forward n s = (Inr (q + n * k), ?s)" using f by (simp add: forward_def seq_def bnd_def modify_def gets_def)
    have "it_upd a (\<lambda>i. i\<lparr>it_pos := q + n * k, m_here := empty_result\<rparr>) ?s = (Inr (), upd_mem a ?i ?s)"
      by (rule it_upd_ok) (simp add: assms(2))
    then show ?thesis using assms(3) g by (simp add: iter_move_def bnd_def it_get_ok [OF assms(2)])
  qed
  ultimately show ?thesis by blast
qed

lemma copy_core:
  assumes "mem s b = Some i"
  shows "pos_inv env h nm N posn tab k r q s \<Longrightarrow> pos_inv env h nm N posn tab k r q (snd (iter_copy a b s))"
proof -
  assume p: "pos_inv env h nm N posn tab k r q s"
  have "frame core (if it_attached i then insert_iterator a else skip)" by (intro frame_intros)
  then have "pos_inv env h nm N posn tab k r q (snd (seq (it_put a (fresh_icit (it_attached i) (m_here i) (it_pos i)))
      (if it_attached i then insert_iterator a else skip) s))"
    by (rule pos_inv_seq_put [OF p, rotated]) (use pos_inv_ok [OF p assms] in \<open>simp add: fresh_icit_def it_ok_def\<close>)
  then show ?thesis by (simp add: iter_copy_def bnd_def it_get_ok [OF assms] fresh_icit_def)
qed

lemma attach_core:
  assumes "pos_inv env h nm N posn tab k r q s" "r \<le> q"
  shows "pos_inv env h nm N posn tab k r q (snd (iter_stream a s))"
proof -
  have "pos_inv env h nm N posn tab k r q
      (snd (seq (it_put a (fresh_icit True empty_result (m_reqpos s))) (insert_iterator a) s))"
    by (rule pos_inv_seq_put [OF assms(1) _ core_insert]) (use assms in \<open>simp add: pos_inv_def it_ok_def fresh_icit_def\<close>)
  then show ?thesis by (simp add: iter_stream_def forward_def bnd_def seq_def modify_def gets_def fresh_icit_def)
qed

lemma delete_core:
  assumes "pos_inv env h nm N posn tab k r q s" "mem s a = Some i"
  shows "pos_inv env h nm N posn tab k r q (snd (iter_delete a s))"
proof -
  have "frame core (bnd (it_get a) (\<lambda>i. if it_attached i then remove_iterator a else skip))" by (intro frame_intros)
  note p = pos_inv_run [OF pos_inv_frame [OF this] assms(1)]
  show ?thesis
  proof (cases "bnd (it_get a) (\<lambda>i. if it_attached i then remove_iterator a else skip) s")
    case (Pair x t)
    then show ?thesis using p pos_inv_erase [of env h nm N posn tab k r q t a]
      by (cases x) (simp_all add: iter_delete_def seq_def bnd_def [of "bnd (it_get a) _"] modify_def)
  qed
qed

lemma assign_core:
  assumes "pos_inv env h nm N posn tab k r q s" "mem s a = Some i" "mem s b = Some j"
  shows "pos_inv env h nm N posn tab k r q (snd (iter_assign a b s))"
proof (cases "it_attached j = it_attached i")
  case True
  have "it_ok N tab k r q (i\<lparr>m_here := m_here j, it_pos := it_pos j\<rparr>)" if "it_attached i"
    using pos_inv_ok [OF assms(1,3)] True that by (simp add: it_ok_def)
  then have "pos_inv env h nm N posn tab k r q (upd_mem a (i\<lparr>m_here := m_here j, it_pos := it_pos j\<rparr>) s)"
    by (intro pos_inv_put [OF assms(1)]) simp
  then show ?thesis using True
    by (simp add: iter_assign_def bnd_def it_get_ok [OF assms(2)] it_get_ok [OF assms(3)] it_upd_ok [OF assms(2)])
next
  case False
  let ?I = "pos_inv env h nm N posn tab k r q"
  let ?f = "\<lambda>i. i\<lparr>m_here := m_here j, it_pos := it_pos j, it_attached := it_attached j\<rparr>"
  have "keeps ?I (it_upd a ?f)"
  proof (rule keepsI)
    fix u
    assume u: "?I u"
    have "it_ok N tab k r q (?f x)" if "it_attached j" for x
      using pos_inv_ok [OF assms(1,3) that] by (simp add: it_ok_def)
    then show "?I (snd (it_upd a ?f u))"
      using u pos_inv_put [OF u, of "?f _" a] by (cases "mem u a") (simp_all add: it_upd_def bnd_def it_get_bad it_get_ok it_put_ok)
  qed
  moreover have "keeps ?I (if it_attached i then remove_iterator a else skip)"
      "keeps ?I (if it_attached j then insert_iterator a else skip)"
    by (rule pos_inv_frame, intro frame_intros)+
  ultimately have "keeps ?I (seq (if it_attached i then remove_iterator a else skip)
      (seq (it_upd a ?f) (if it_attached j then insert_iterator a else skip)))"
    by (intro keeps_seq)
  note run = pos_inv_run [OF this assms(1)]
  have "iter_assign a b s = seq (if it_attached i then remove_iterator a else skip)
      (seq (it_upd a ?f) (if it_attached j then insert_iterator a else skip)) s"
    using False unfolding iter_assign_def bnd_def by (simp only: it_get_ok [OF assms(2)] it_get_ok [OF assms(3)] split_conv sum.case if_False)
  then show ?thesis using run by simp
qed

text \<open>A copy leaves the original as it was.\<close>

lemma copy_mem:
  assumes "mem s b = Some i" "a \<noteq> b"
  shows "map_option body (mem (snd (iter_copy a b s)) b) = Some (body i)"
proof -
  let ?i = "fresh_icit (it_attached i) (m_here i) (it_pos i)" and ?m = "if it_attached i then insert_iterator a else skip"
  have "frame core ?m" by (intro frame_intros)
  then have "core (snd (?m (upd_mem a ?i s))) = core (upd_mem a ?i s)" by (rule frameD)
  from core_fields(6) [OF this, of b]
  have "map_option body (mem (snd (?m (upd_mem a ?i s))) b) = Some (body i)" using assms by simp
  moreover have "iter_copy a b s = ?m (upd_mem a ?i s)"
    by (simp add: iter_copy_def bnd_def seq_def it_get_ok [OF assms(1)] it_put_ok fresh_icit_def)
  ultimately show ?thesis by simp
qed

text \<open>Reading serves the iterators up to the one that is read.\<close>

lemma refresh_served:
  assumes "cursor_server env h nm N posn tab" "0 < k" "k \<le> 2 ^ 62" "stream_inv env h nm N posn tab k s" "mem s a = Some i"
  shows "\<exists>t j. refresh env a s = (Inr (), t) \<and> stream_inv env h nm N posn tab k t \<and> mem t a = Some j \<and>
    (it_attached i \<longrightarrow> shows_block N tab k (it_pos i) (m_here j))"
proof (cases "it_attached i")
  case True
  have "it_ok N tab k (m_realpos s) (m_reqpos s) i" "m_reqpos s \<le> 2 ^ 62"
    using assms(4,5) True unfolding stream_inv_def by blast+
  then have "it_pos i \<le> 2 ^ 62" by (simp add: it_ok_def)
  from service_served [OF assms(1-4) this]
  obtain t where t: "service_iterators env (it_pos i) s = (Inr (), t)" "stream_inv env h nm N posn tab k t"
    and each: "\<And>b x. mem s b = Some x \<Longrightarrow> \<exists>j. mem t b = Some j \<and> it_pos j = it_pos x \<and> it_attached j = it_attached x \<and>
       (\<not> it_attached x \<longrightarrow> j = x) \<and> (it_attached x \<longrightarrow> it_pos x \<le> it_pos i \<longrightarrow> shows_block N tab k (it_pos x) (m_here j))"
    by blast
  have "refresh env a s = (Inr (), t)" using True t(1) by (simp add: refresh_def bnd_def it_get_ok [OF assms(5)])
  then show ?thesis using each [OF assms(5)] t(2) True by auto
next
  case False
  then have "refresh env a s = (Inr (), s)" by (simp add: refresh_def bnd_def it_get_ok [OF assms(5)] skip_def ret_def)
  then show ?thesis using assms(4,5) False by blast
qed

lemma refresh_keeps:
  assumes "cursor_server env h nm N posn tab" "0 < k" "k \<le> 2 ^ 62"
  shows "keeps (stream_inv env h nm N posn tab k) (refresh env a)"
proof (rule keepsI)
  fix s
  assume inv: "stream_inv env h nm N posn tab k s"
  show "stream_inv env h nm N posn tab k (snd (refresh env a s))"
  proof (cases "mem s a")
    case None
    then show ?thesis using inv by (simp add: refresh_def bnd_def it_get_bad)
  next
    case (Some i)
    then show ?thesis using refresh_served [OF assms inv] by fastforce
  qed
qed

lemma get_keeps: "keeps I (it_get a)"
  by (rule keepsI) (simp add: it_get_def bnd_def gets_def ret_def throw_def split: option.split)

lemma reads_keep:
  assumes "cursor_server env h nm N posn tab" "0 < k" "k \<le> 2 ^ 62"
  shows "keeps (stream_inv env h nm N posn tab k) (iter_deref env a)" "keeps (stream_inv env h nm N posn tab k) (iter_eq env a b)"
    "keeps (stream_inv env h nm N posn tab k) (iter_less env a b)"
  unfolding iter_deref_def iter_eq_def iter_less_def by (intro keeps_intros get_keeps refresh_keeps [OF assms])+

text \<open>The calls that move an iterator.\<close>

lemma advance_pos_inv:
  assumes "pos_inv env h nm N posn tab k r q s" "0 < k" "it_ordinary (Advance a n) s" "q = m_reqpos s"
  shows "\<exists>q'. pos_inv env h nm N posn tab k r q' (snd (it_do env (Advance a n) s))"
proof (cases "0 < n")
  case True
  have k: "m_stride s = k" using assms(1) by (simp add: pos_inv_def)
  obtain i where i: "mem s a = Some i" "it_attached i" using assms(3) by (auto simp: it_ordinary_def split: option.splits)
  have "q + n * k \<le> 2 ^ 62" using assms(3) by (simp add: it_ordinary_def assms(4) k)
  from pos_inv_move [OF assms(1) i True assms(2) this]
  obtain t where "it_do env (Advance a n) s = (Inr (), t)" "pos_inv env h nm N posn tab k r (q + n * k) t"
    using True by (auto simp: iter_advance_def)
  then show ?thesis by (metis snd_conv)
next
  case False
  then have "snd (it_do env (Advance a n) s) = s" by (simp add: iter_advance_def skip_def ret_def throw_def)
  then show ?thesis using assms(1) by metis
qed

lemma preinc_pos_inv:
  assumes "pos_inv env h nm N posn tab k r q s" "0 < k" "it_ordinary (Preinc a) s" "q = m_reqpos s"
  shows "\<exists>q'. pos_inv env h nm N posn tab k r q' (snd (it_do env (Preinc a) s))"
proof -
  have k: "m_stride s = k" using assms(1) by (simp add: pos_inv_def)
  obtain i where i: "mem s a = Some i" "it_attached i" using assms(3) by (auto simp: it_ordinary_def split: option.splits)
  have "q + 1 * k \<le> 2 ^ 62" using assms(3) by (simp add: it_ordinary_def assms(4) k)
  from pos_inv_move [OF assms(1) i _ assms(2) this]
  obtain t where "it_do env (Preinc a) s = (Inr (), t)" "pos_inv env h nm N posn tab k r (q + 1 * k) t"
    by (auto simp: iter_preinc_def)
  then show ?thesis by (metis snd_conv)
qed

lemma postinc_pos_inv:
  assumes "pos_inv env h nm N posn tab k r q s" "0 < k" "linked s" "it_ordinary (Postinc a b) s" "q = m_reqpos s"
  shows "\<exists>q'. pos_inv env h nm N posn tab k r q' (snd (it_do env (Postinc a b) s))"
proof -
  have k: "m_stride s = k" using assms(1) by (simp add: pos_inv_def)
  obtain i where i: "mem s a = Some i" "it_attached i" and b: "mem s b = None"
    using assms(4) by (auto simp: it_ordinary_def split: option.splits)
  obtain t where t: "iter_copy b a s = (Inr (), t)" using copy_links [OF assms(3) b i(1)] by (metis prod.collapse)
  have p: "pos_inv env h nm N posn tab k r q t" using copy_core [OF i(1) assms(1), of b] t by simp
  have m: "q + 1 * k \<le> 2 ^ 62" using assms(4) by (simp add: it_ordinary_def assms(5) k)
  have "b \<noteq> a" using b i(1) by auto
  then have "map_option body (mem t a) = Some (body i)" using copy_mem [OF i(1)] t by (metis snd_conv)
  then obtain i' where i': "mem t a = Some i'" "it_attached i'" using i(2) by (auto simp: body_def)
  from pos_inv_move [OF p i' _ assms(2) m]
  obtain u where "it_do env (Postinc a b) s = (Inr (), u)" "pos_inv env h nm N posn tab k r (q + 1 * k) u"
    using t by (auto simp: iter_postinc_def seq_def bnd_def)
  then show ?thesis by (metis snd_conv)
qed

lemma stream_inv_step:
  assumes "cursor_server env h nm N posn tab" "0 < k" "k \<le> 2 ^ 62" "stream_inv env h nm N posn tab k s" "it_ordinary c s"
  shows "stream_inv env h nm N posn tab k (snd (it_do env c s))"
proof -
  define r q where "r = m_realpos s" and "q = m_reqpos s"
  have p: "pos_inv env h nm N posn tab k r q s" and l: "linked s" using assms(4) unfolding stream_inv_pos r_def q_def by blast+
  have v: "it_valid c s" using assms(5) by (simp add: it_ordinary_def)
  have l': "linked (snd (it_do env c s))" using it_do_linked [OF l v] .
  have by_pos: "stream_inv env h nm N posn tab k (snd (it_do env c s))"
    if "pos_inv env h nm N posn tab k r q' (snd (it_do env c s))" for q'
    using that l' unfolding stream_inv_pos pos_inv_def by metis
  show ?thesis
  proof (cases c)
    case (New a)
    have "pos_inv env h nm N posn tab k r q (upd_mem a (fresh_icit False empty_result 0) s)"
      by (rule pos_inv_put [OF p]) simp
    then have "pos_inv env h nm N posn tab k r q (snd (it_do env c s))"
      using New by (simp add: iter_default_def it_put_ok fresh_icit_def)
    then show ?thesis by (rule by_pos)
  next
    case (Attach a)
    then have "r \<le> q" using assms(5) by (simp add: it_ordinary_def r_def q_def)
    then have "pos_inv env h nm N posn tab k r q (snd (it_do env c s))" using attach_core [OF p] Attach by simp
    then show ?thesis by (rule by_pos)
  next
    case (Copy a b)
    then obtain i where "mem s b = Some i" using v by auto
    then have "pos_inv env h nm N posn tab k r q (snd (it_do env c s))" using copy_core [OF _ p] Copy by simp
    then show ?thesis by (rule by_pos)
  next
    case (Delete a)
    then obtain i where "mem s a = Some i" using v by auto
    then have "pos_inv env h nm N posn tab k r q (snd (it_do env c s))" using delete_core [OF p] Delete by simp
    then show ?thesis by (rule by_pos)
  next
    case (Assign a b)
    then obtain i j where "mem s a = Some i" "mem s b = Some j" using v by auto
    then have "pos_inv env h nm N posn tab k r q (snd (it_do env c s))" using assign_core [OF p] Assign by simp
    then show ?thesis by (rule by_pos)
  next
    case (Preinc a)
    then show ?thesis using preinc_pos_inv [OF p assms(2)] assms(5) by_pos q_def by blast
  next
    case (Advance a n)
    then show ?thesis using advance_pos_inv [OF p assms(2)] assms(5) by_pos q_def by blast
  next
    case (Postinc a b)
    then show ?thesis using postinc_pos_inv [OF p assms(2) l] assms(5) by_pos q_def by blast
  next
    case (Deref a)
    then show ?thesis using keepsD [OF reads_keep(1) [OF assms(1-3)] assms(4)] by simp
  next
    case (Equal a b)
    then show ?thesis using keepsD [OF reads_keep(2) [OF assms(1-3)] assms(4)] by simp
  next
    case (Less a b)
    then show ?thesis using keepsD [OF reads_keep(3) [OF assms(1-3)] assms(4)] by simp
  qed
qed

section \<open>Properties\<close>

lemma reach_linked:
  assumes "it_reach it_valid env s0 s" "m_iterators s0 = None" "memory s0 = []"
  shows "linked s"
  using assms(1)
proof (induction rule: it_reach.induct)
  case start
  then show ?case using assms(2,3) by (auto simp: linked_def registered_def intro!: exI [of _ "[]"])
next
  case (step s c)
  then show ?case using it_do_linked by blast
qed

text \<open>
  C13: however a stream's iterators are made, copied, assigned, moved, read and destroyed, in whatever order, the list
  that the stream keeps of them holds each attached iterator exactly once, its links agree in
  both directions, and detached iterators have none.
\<close>

theorem iterators_stay_linked:
  assumes "it_reach it_valid env s0 s" "m_iterators s0 = None" "memory s0 = []"
  shows "\<exists>xs l. dseg (mem s) (m_iterators s) None xs None l \<and> distinct xs \<and>
    set xs = {a. \<exists>i. mem s a = Some i \<and> it_attached i}"
proof -
  obtain xs where r: "registered s xs" using reach_linked [OF assms] unfolding linked_def by blast
  then have "set xs = {a. \<exists>i. mem s a = Some i \<and> it_attached i}" using registered_attached by blast
  then show ?thesis using r unfolding registered_def by blast
qed

lemma reach_inv:
  assumes "cursor_server env h nm N posn tab" "0 < k" "k \<le> 2 ^ 62"
    and "it_reach it_ordinary env s0 s" "stream_inv env h nm N posn tab k s0"
  shows "stream_inv env h nm N posn tab k s"
  using assms(4)
proof (induction rule: it_reach.induct)
  case start
  show ?case by (rule assms(5))
next
  case (step s c)
  show ?case by (rule stream_inv_step [OF assms(1-3) step.IH step.hyps(2)])
qed

text \<open>A stream over the three rows of the sample cursor, two rows at a time.\<close>

definition sample_stream :: "int icstream" where
  "sample_stream = snd (init_stream 2 (curs.extend (sample_cursor 0)
     \<lparr>m_stride = 0, m_realpos = 0, m_reqpos = 0, m_iterators = None, m_done = False, memory = []\<rparr>))"

lemma sample_stream_fields [simp]:
  "m_stride sample_stream = 2" "m_realpos sample_stream = 0" "m_reqpos sample_stream = 0"
  "m_iterators sample_stream = None" "memory sample_stream = []" "m_pos sample_stream = 0"
  by (simp_all add: sample_stream_def init_stream_def modify_def curs.extend_def sample_cursor_def tx.extend_def)

lemma sample_stream_in_step: "in_step cursor_env (Some 1) ''c'' 3 (\<lambda>w. w) sample_stream"
  by (simp add: sample_stream_def init_stream_def modify_def curs.extend_def in_step_def sample_cursor_def
      tx.extend_def sample_tx_def new_tx_def conn.extend_def open_conn_def connection_base_def is_open_def
      Status_def cursor_env_def quiet_env_def place_at_def place_of_def)

lemmas it_run = iter_stream_def forward_def step_simps it_put_def insert_iterator_def set_next_def set_prev_def it_upd_def
  it_get_def seq_def bnd_def modify_def gets_def ret_def skip_def fresh_icit_def

definition one_iterator :: "int icstream" where
  "one_iterator = snd (it_do cursor_env (Attach 1) sample_stream)"

definition two_iterators :: "int icstream" where
  "two_iterators = snd (it_do cursor_env (Attach 2) one_iterator)"

lemma one_iterator_fields:
  "memory one_iterator = [(1, fresh_icit True empty_result 0)]" "m_iterators one_iterator = Some 1"
  "m_reqpos one_iterator = 0" "m_realpos one_iterator = 0" "m_stride one_iterator = 2"
  by (simp_all add: one_iterator_def it_run)

lemma two_iterators_fields:
  "memory two_iterators = [(1, fresh_icit True empty_result 0\<lparr>m_prev := Some 2\<rparr>),
      (2, fresh_icit True empty_result 0\<lparr>m_next := Some 1\<rparr>)]"
  "m_iterators two_iterators = Some 2" "m_reqpos two_iterators = 0" "m_realpos two_iterators = 0"
  "m_stride two_iterators = 2"
  using one_iterator_fields by (simp_all add: two_iterators_def it_run)

lemma two_iterators_reached:
  assumes "V (Attach 1) sample_stream" "V (Attach 2) one_iterator"
  shows "it_reach V cursor_env sample_stream two_iterators"
proof -
  have "it_reach V cursor_env sample_stream one_iterator"
    unfolding one_iterator_def by (rule it_reach.step, rule it_reach.start, rule assms(1))
  then show ?thesis unfolding two_iterators_def by (rule it_reach.step) (rule assms(2))
qed

theorem iterators_stay_linked_witness:
  "let s = snd (it_do cursor_env (Delete 1) two_iterators) in
   m_iterators s = Some 2 \<and> (\<exists>xs l. dseg (mem s) (m_iterators s) None xs None l \<and> distinct xs \<and>
    set xs = {a. \<exists>i. mem s a = Some i \<and> it_attached i})"
proof -
  define s where "s = snd (it_do cursor_env (Delete 1) two_iterators)"
  have i: "m_iterators s = Some 2"
    using two_iterators_fields by (simp add: s_def iter_delete_def remove_iterator_def cond_def it_run)
  have "it_reach it_valid cursor_env sample_stream two_iterators"
    by (rule two_iterators_reached) (simp_all add: one_iterator_fields)
  then have "it_reach it_valid cursor_env sample_stream s"
    unfolding s_def by (rule it_reach.step) (simp add: two_iterators_fields)
  from iterators_stay_linked [OF this] show ?thesis using i unfolding s_def Let_def by simp
qed



text \<open>
  A new iterator stands at the place the iterators have asked for. When the block there has been read
  before, through another iterator or from the stream itself, the new one is never served: it shows an
  empty result, as at the end of the data.
\<close>

theorem late_iterator_shows_nothing:
  assumes "it_reach it_valid env s0 s" "m_iterators s0 = None" "memory s0 = []"
    and "m_reqpos s < m_realpos s" "mem s a = None"
  shows "\<exists>t. seq (iter_stream a) (iter_deref env a) s = (Inr empty_result, t)"
proof -
  let ?s = "upd_mem a (fresh_icit True empty_result (m_reqpos s)) s"
  obtain t where t: "iter_stream a s = (Inr (), t)"
    using stream_links [OF reach_linked [OF assms(1-3)] assms(5)] by (metis prod.collapse)
  have "iter_stream a s = insert_iterator a ?s"
    by (simp add: iter_stream_def forward_def bnd_def seq_def modify_def gets_def fresh_icit_def it_put_ok)
  then have "insert_iterator a ?s = (Inr (), t)" using t by simp
  then have "core t = core ?s" using frameD [OF core_insert, of a ?s] by simp
  note c = core_fields(4,6) [OF this]
  obtain j where j: "mem t a = Some j" "body j = (True, empty_result, m_reqpos s)"
    using c(2) [of a] by (cases "mem t a") (auto simp: body_def fresh_icit_def)
  have "m_realpos t = m_realpos s" using c(1) by simp
  then have "refresh env a t = (Inr (), t)"
    using j assms(4)
    by (simp add: refresh_def bnd_def it_get_ok [OF j(1)] body_def service_iterators_def cond_def skip_def ret_def)
  then show ?thesis
    using t j by (simp add: iter_deref_def seq_def bnd_def it_get_ok [OF j(1)] ret_def body_def)
qed

theorem late_iterator_shows_nothing_witness:
  "\<exists>s t. s = snd (fetchblock cursor_env sample_stream) \<and> m_pos s = 2 \<and>
     seq (iter_stream 1) (iter_deref cursor_env 1) s = (Inr empty_result, t)"
proof -
  have "at_realpos 3 sample_stream" by (simp add: at_realpos_def)
  then obtain s R where s: "fetchblock cursor_env sample_stream = (Inr R, s)" "at_realpos 3 s" "m_pos s = 2"
    "same_iters sample_stream s"
    using fetchblock_served [OF cursor_env_serves sample_stream_in_step, of 2] by fastforce
  then have "\<exists>t. seq (iter_stream 1) (iter_deref cursor_env 1) s = (Inr empty_result, t)"
    by (intro late_iterator_shows_nothing [OF it_reach.start]) (simp_all add: same_iters_def at_realpos_def)
  then show ?thesis using s by simp
qed

end
