(* ===== verification/Largeobject.thy ===== *)
theory Largeobject
  imports Focus
begin

text \<open>
  Large objects (\<^verbatim>\<open>src/largeobject.cxx\<close>, \<^verbatim>\<open>include/pqxx/largeobject.hxx\<close>): their identity, access to an
  opened one, and the stream buffer over it with its get and put areas. libpq's large object
  functions are a parameter, like the rest of libpq. The stream buffer's own part of the standard
  library (\<^verbatim>\<open>sputc\<close>, \<^verbatim>\<open>sgetc\<close>, \<^verbatim>\<open>sbumpc\<close> and the like, which call the virtual functions) is written out.
\<close>

section \<open>libpq's large object functions\<close>

record 'w lo_api =
  lo_creat :: "handle \<Rightarrow> int \<Rightarrow> 'w \<Rightarrow> int \<times> 'w"
  lo_import :: "handle \<Rightarrow> string \<Rightarrow> 'w \<Rightarrow> int \<times> 'w"
  lo_export :: "handle \<Rightarrow> int \<Rightarrow> string \<Rightarrow> 'w \<Rightarrow> int \<times> 'w"
  lo_unlink :: "handle \<Rightarrow> int \<Rightarrow> 'w \<Rightarrow> int \<times> 'w"
  lo_open :: "handle \<Rightarrow> int \<Rightarrow> int \<Rightarrow> 'w \<Rightarrow> int \<times> 'w"
  lo_close :: "handle \<Rightarrow> int \<Rightarrow> 'w \<Rightarrow> 'w"
  lo_lseek :: "handle \<Rightarrow> int \<Rightarrow> int \<Rightarrow> int \<Rightarrow> 'w \<Rightarrow> int \<times> 'w"
  lo_write :: "handle \<Rightarrow> int \<Rightarrow> string \<Rightarrow> 'w \<Rightarrow> int \<times> 'w"
  lo_read :: "handle \<Rightarrow> int \<Rightarrow> nat \<Rightarrow> 'w \<Rightarrow> (int \<times> string) \<times> 'w"
  lo_tell :: "handle \<Rightarrow> int \<Rightarrow> 'w \<Rightarrow> int \<times> 'w"
  errno :: "'w \<Rightarrow> int"
  strerror_r :: "int \<Rightarrow> string"

definition INV_WRITE :: int where "INV_WRITE = 0x00020000"
definition INV_READ :: int where "INV_READ = 0x00040000"
definition ENOMEM :: int where "ENOMEM = 12"
definition oid_none :: int where "oid_none = 0"

datatype seekdir = dir_beg | dir_cur | dir_end

text \<open>An open mode is whether it is for input and whether it is for output.\<close>

type_synonym openmode = "bool \<times> bool"

definition StdModeToPQMode :: "openmode \<Rightarrow> int" where
  "StdModeToPQMode mode = (if fst mode then INV_READ else 0) + (if snd mode then INV_WRITE else 0)"

text \<open>The values of \<^verbatim>\<open>SEEK_SET\<close>, \<^verbatim>\<open>SEEK_CUR\<close> and \<^verbatim>\<open>SEEK_END\<close>.\<close>

definition StdDirToPQDir :: "seekdir \<Rightarrow> int" where
  "StdDirToPQDir dir = (case dir of dir_beg \<Rightarrow> 0 | dir_cur \<Rightarrow> 1 | dir_end \<Rightarrow> 2)"

section \<open>State\<close>

text \<open>
  An access object in its transaction. The largeobject base class is the member \<open>m_ID\<close>; an access
  object that is not opened has descriptor -1, as has one that is only an identity.
\<close>

record 'w lobj = "'w tx" +
  m_ID :: int
  m_fd :: int

type_synonym ('w, 'z, 'a) lprog = "(('w, 'z) lobj_scheme, 'a) cxx"

definition lo_call :: "(handle \<Rightarrow> 'w \<Rightarrow> 'a \<times> 'w) \<Rightarrow> ('w, 'z, 'a) lprog" where
  "lo_call f = call (\<lambda>s. let (r, w) = f (m_Conn s) (world s) in (r, s\<lparr>world := w\<rparr>))"

definition lo_text :: "int \<Rightarrow> string" where
  "lo_text ID = to_string_integer uint_t ID"

definition largeobject_Reason :: "'w lo_api \<Rightarrow> int \<Rightarrow> int \<Rightarrow> string" where
  "largeobject_Reason api ID err =
     (if err = ENOMEM then ''Out of memory''
      else if ID = oid_none then ''No object selected''
      else strerror_r api err)"

definition access_Reason :: "'w lo_api \<Rightarrow> int \<Rightarrow> ('w, 'z) lobj_scheme \<Rightarrow> string" where
  "access_Reason api err s = (if m_fd s = -1 then ''No object opened'' else largeobject_Reason api (m_ID s) err)"

text \<open>What every failing call does: out of memory is its own exception, the rest is a message.\<close>

definition lo_fail :: "'w lo_api \<Rightarrow> (int \<Rightarrow> ('w, 'z) lobj_scheme \<Rightarrow> string) \<Rightarrow> ('w, 'z, 'a) lprog" where
  "lo_fail api msg =
     bnd (gets (\<lambda>s. errno api (world s))) (\<lambda>err.
       if err = ENOMEM then throw (plain Std_bad_alloc []) else bnd (gets (msg err)) (\<lambda>m. throw (failure m)))"

section \<open>Identity\<close>

definition largeobject_create :: "'w lo_api \<Rightarrow> ('w, 'z, unit) lprog" where
  "largeobject_create api =
     seq (bnd (lo_call (\<lambda>c. lo_creat api c (INV_READ + INV_WRITE))) (\<lambda>r. modify (\<lambda>s. s\<lparr>m_ID := r\<rparr>)))
         (cond (\<lambda>s. m_ID s = oid_none)
            (lo_fail api (\<lambda>err s. ''Could not create large object: '' @ largeobject_Reason api (m_ID s) err)) skip)"

definition largeobject_import :: "'w lo_api \<Rightarrow> string \<Rightarrow> ('w, 'z, unit) lprog" where
  "largeobject_import api File =
     seq (bnd (lo_call (\<lambda>c. lo_import api c (c_str File))) (\<lambda>r. modify (\<lambda>s. s\<lparr>m_ID := r\<rparr>)))
         (cond (\<lambda>s. m_ID s = oid_none)
            (lo_fail api (\<lambda>err s. ''Could not import file '' @ quoted File @ '' to large object: '' @
               largeobject_Reason api (m_ID s) err)) skip)"

definition to_file :: "'w lo_api \<Rightarrow> string \<Rightarrow> ('w, 'z, unit) lprog" where
  "to_file api File =
     bnd (gets m_ID) (\<lambda>ID. bnd (lo_call (\<lambda>c. lo_export api c ID (c_str File))) (\<lambda>r.
       if r = -1 then
         lo_fail api (\<lambda>err s. ''Could not export large object '' @ lo_text ID @ '' '' @ ''to file '' @ quoted File @
           '': '' @ largeobject_Reason api ID err)
       else skip))"

definition remove :: "'w lo_api \<Rightarrow> ('w, 'z, unit) lprog" where
  "remove api =
     bnd (gets m_ID) (\<lambda>ID. bnd (lo_call (\<lambda>c. lo_unlink api c ID)) (\<lambda>r.
       if r = -1 then
         lo_fail api (\<lambda>err s. ''Could not delete large object '' @ lo_text ID @ '': '' @ largeobject_Reason api ID err)
       else skip))"

section \<open>Access\<close>

definition lo_open_access :: "'w lo_api \<Rightarrow> openmode \<Rightarrow> ('w, 'z, unit) lprog" where
  "lo_open_access api mode =
     bnd (gets m_ID) (\<lambda>ID.
     seq (bnd (lo_call (\<lambda>c. lo_open api c ID (StdModeToPQMode mode))) (\<lambda>r. modify (\<lambda>s. s\<lparr>m_fd := r\<rparr>)))
         (cond (\<lambda>s. m_fd s < 0)
            (lo_fail api (\<lambda>err s. ''Could not open large object '' @ lo_text ID @ '': '' @ access_Reason api err s))
            skip))"

definition access_close :: "'w lo_api \<Rightarrow> ('w, 'z, unit) lprog" where
  "access_close api =
     cond (\<lambda>s. m_fd s \<ge> 0)
       (bnd (gets m_fd) (\<lambda>fd. lo_call (\<lambda>c w. ((), lo_close api c fd w)))) skip"

text \<open>The four constructors: a new object, an identity (an oid or a \<^verbatim>\<open>largeobject\<close>), a file.\<close>

definition access_new :: "'w lo_api \<Rightarrow> openmode \<Rightarrow> ('w, 'z, unit) lprog" where
  "access_new api mode =
     seq (largeobject_create api) (seq (modify (\<lambda>s. s\<lparr>m_fd := -1\<rparr>)) (lo_open_access api mode))"

definition access_existing :: "'w lo_api \<Rightarrow> int \<Rightarrow> openmode \<Rightarrow> ('w, 'z, unit) lprog" where
  "access_existing api Obj mode =
     seq (modify (\<lambda>s. s\<lparr>m_ID := Obj, m_fd := -1\<rparr>)) (lo_open_access api mode)"

definition access_import :: "'w lo_api \<Rightarrow> string \<Rightarrow> openmode \<Rightarrow> ('w, 'z, unit) lprog" where
  "access_import api File mode =
     seq (largeobject_import api File) (seq (modify (\<lambda>s. s\<lparr>m_fd := -1\<rparr>)) (lo_open_access api mode))"

definition cseek :: "'w lo_api \<Rightarrow> int \<Rightarrow> seekdir \<Rightarrow> ('w, 'z, int) lprog" where
  "cseek api dest dir =
     bnd (gets m_fd) (\<lambda>fd. lo_call (\<lambda>c. lo_lseek api c fd (convert int_t dest) (StdDirToPQDir dir)))"

definition cwrite :: "'w lo_api \<Rightarrow> string \<Rightarrow> ('w, 'z, int) lprog" where
  "cwrite api Buf =
     bnd (gets m_fd) (\<lambda>fd. bnd (lo_call (\<lambda>c. lo_write api c fd Buf)) (\<lambda>r. ret (max r (-1))))"

text \<open>The answer of a read with what it put at the start of the buffer.\<close>

definition cread :: "'w lo_api \<Rightarrow> nat \<Rightarrow> ('w, 'z, int \<times> string) lprog" where
  "cread api Bytes =
     bnd (gets m_fd) (\<lambda>fd. bnd (lo_call (\<lambda>c. lo_read api c fd Bytes)) (\<lambda>(r, d). ret (max r (-1), take (nat r) d)))"

definition ctell :: "'w lo_api \<Rightarrow> ('w, 'z, int) lprog" where
  "ctell api = bnd (gets m_fd) (\<lambda>fd. lo_call (\<lambda>c. lo_tell api c fd))"

definition access_seek :: "'w lo_api \<Rightarrow> int \<Rightarrow> seekdir \<Rightarrow> ('w, 'z, int) lprog" where
  "access_seek api dest dir =
     bnd (cseek api dest dir) (\<lambda>Result.
       if Result = -1 then lo_fail api (\<lambda>err s. ''Error seeking in large object: '' @ access_Reason api err s)
       else ret Result)"

definition access_write :: "'w lo_api \<Rightarrow> string \<Rightarrow> ('w, 'z, unit) lprog" where
  "access_write api Buf =
     bnd (cwrite api Buf) (\<lambda>Bytes.
       if Bytes < int (length Buf) then
         lo_fail api (\<lambda>err s.
           if Bytes < 0 then ''Error writing to large object #'' @ lo_text (m_ID s) @ '': '' @ access_Reason api err s
           else if Bytes = 0 then
             ''Could not write to large object #'' @ lo_text (m_ID s) @ '': '' @ access_Reason api err s
           else ''Wanted to write '' @ to_string_long (int (length Buf)) @ '' bytes '' @ ''to large object #'' @
             lo_text (m_ID s) @ ''; '' @ ''could only write '' @ to_string_long Bytes)
       else skip)"

definition access_read :: "'w lo_api \<Rightarrow> nat \<Rightarrow> ('w, 'z, string) lprog" where
  "access_read api Len =
     bnd (cread api Len) (\<lambda>(Bytes, Buf).
       if Bytes < 0 then
         lo_fail api (\<lambda>err s. ''Error reading from large object #'' @ lo_text (m_ID s) @ '': '' @ access_Reason api err s)
       else ret Buf)"

definition access_tell :: "'w lo_api \<Rightarrow> ('w, 'z, int) lprog" where
  "access_tell api =
     bnd (ctell api) (\<lambda>res.
       if res = -1 then
         bnd (gets (\<lambda>s. access_Reason api (errno api (world s)) s)) (\<lambda>m. throw (failure m))
       else ret res)"

section \<open>The stream buffer\<close>

text \<open>
  The get area is what it holds between \<^verbatim>\<open>eback\<close> and \<^verbatim>\<open>egptr\<close> and the place of \<^verbatim>\<open>gptr\<close> in it, the put
  area what was put between \<^verbatim>\<open>pbase\<close> and \<^verbatim>\<open>pptr\<close>; each is there for its mode only. The end of a
  file is -1.
\<close>

record 'w lobuf = "'w lobj" +
  m_BufSize :: nat
  get_area :: "string option"
  get_at :: nat
  put_area :: "string option"

type_synonym ('w, 'z, 'a) bprog = "(('w, 'z) lobuf_scheme, 'a) cxx"

definition EoF :: int where "EoF = -1"

definition initialize :: "openmode \<Rightarrow> nat \<Rightarrow> ('w, 'z, unit) bprog" where
  "initialize mode BufSize =
     modify (\<lambda>s. s\<lparr>m_BufSize := BufSize, get_area := (if fst mode then Some [] else None), get_at := 0,
       put_area := (if snd mode then Some [] else None)\<rparr>)"

definition streambuf_new :: "'w lo_api \<Rightarrow> int \<Rightarrow> openmode \<Rightarrow> nat \<Rightarrow> ('w, 'z, unit) bprog" where
  "streambuf_new api Obj mode BufSize = seq (access_existing api Obj mode) (initialize mode BufSize)"

definition streambuf_delete :: "'w lo_api \<Rightarrow> ('w, 'z, unit) bprog" where
  "streambuf_delete api = access_close api"

text \<open>The character that would not fit is stored after the area has been written out.\<close>

definition overflow :: "'w lo_api \<Rightarrow> char option \<Rightarrow> ('w, 'z, int) bprog" where
  "overflow api ch =
     bnd (gets put_area) (\<lambda>p. case p of
       None \<Rightarrow> ret EoF
     | Some buf \<Rightarrow>
         bnd (if buf \<noteq> [] then bnd (cwrite api buf) (\<lambda>r. ret (convert int_t r)) else ret 0) (\<lambda>res.
         seq (modify (\<lambda>s. s\<lparr>put_area := Some []\<rparr>))
         (seq (case ch of None \<Rightarrow> skip
               | Some c \<Rightarrow> cond (\<lambda>s. m_BufSize s = 0) (throw undefined_behaviour)
                   (modify (\<lambda>s. s\<lparr>put_area := Some [c]\<rparr>)))
              (ret res))))"

definition sync :: "'w lo_api \<Rightarrow> ('w, 'z, int) bprog" where
  "sync api = seq (modify (\<lambda>s. s\<lparr>get_at := 0\<rparr>)) (overflow api None)"

text \<open>The first character of the new area is returned as a \<open>char\<close>, which is signed.\<close>

definition underflow :: "'w lo_api \<Rightarrow> ('w, 'z, int) bprog" where
  "underflow api =
     bnd (gets get_area) (\<lambda>g. case g of
       None \<Rightarrow> ret EoF
     | Some _ \<Rightarrow>
         bnd (gets m_BufSize) (\<lambda>n. bnd (cread api n) (\<lambda>(r, d).
         seq (modify (\<lambda>s. s\<lparr>get_area := Some d, get_at := 0\<rparr>))
             (ret (if d = [] then EoF else char_value (hd d))))))"

definition seekoff :: "'w lo_api \<Rightarrow> int \<Rightarrow> seekdir \<Rightarrow> ('w, 'z, int) bprog" where
  "seekoff api offset dir = cseek api offset dir"

definition seekpos :: "'w lo_api \<Rightarrow> int \<Rightarrow> ('w, 'z, int) bprog" where
  "seekpos api pos = cseek api pos dir_beg"

section \<open>The standard library's part\<close>

definition to_int_type :: "char \<Rightarrow> int" where
  "to_int_type c = of_char c"

definition sputc :: "'w lo_api \<Rightarrow> char \<Rightarrow> ('w, 'z, int) bprog" where
  "sputc api c =
     bnd (gets (\<lambda>s. (put_area s, m_BufSize s))) (\<lambda>(p, n). case p of
       None \<Rightarrow> overflow api (Some c)
     | Some buf \<Rightarrow>
         if length buf < n then seq (modify (\<lambda>s. s\<lparr>put_area := Some (buf @ [c])\<rparr>)) (ret (to_int_type c))
         else overflow api (Some c))"

text \<open>\<^verbatim>\<open>sputn\<close> puts characters until one fails, and counts them.\<close>

fun sputn :: "'w lo_api \<Rightarrow> string \<Rightarrow> ('w, 'z, nat) bprog" where
  "sputn api [] = ret 0"
| "sputn api (c # cs) =
     bnd (sputc api c) (\<lambda>r. if r = EoF then ret 0 else bnd (sputn api cs) (\<lambda>n. ret (Suc n)))"

definition in_avail :: "('w, 'z) lobuf_scheme \<Rightarrow> char option" where
  "in_avail s = (case get_area s of None \<Rightarrow> None
     | Some buf \<Rightarrow> if get_at s < length buf then Some (buf ! get_at s) else None)"

definition sgetc :: "'w lo_api \<Rightarrow> ('w, 'z, int) bprog" where
  "sgetc api = bnd (gets in_avail) (\<lambda>c. case c of Some c \<Rightarrow> ret (to_int_type c) | None \<Rightarrow> underflow api)"

definition take_next :: "('w, 'z, int) bprog" where
  "take_next = bnd (gets in_avail) (\<lambda>c. case c of
     None \<Rightarrow> throw undefined_behaviour
   | Some c \<Rightarrow> seq (modify (\<lambda>s. s\<lparr>get_at := Suc (get_at s)\<rparr>)) (ret (to_int_type c)))"

definition sbumpc :: "'w lo_api \<Rightarrow> ('w, 'z, int) bprog" where
  "sbumpc api = bnd (gets in_avail) (\<lambda>c. case c of
     Some c \<Rightarrow> take_next
   | None \<Rightarrow> bnd (underflow api) (\<lambda>r. if r = EoF then ret EoF else take_next))"

text \<open>\<^verbatim>\<open>sgetn\<close> takes characters until the end, but \<open>n\<close> at most.\<close>

fun sgetn :: "'w lo_api \<Rightarrow> nat \<Rightarrow> ('w, 'z, string) bprog" where
  "sgetn api 0 = ret []"
| "sgetn api (Suc n) =
     bnd (sbumpc api) (\<lambda>r. if r = EoF then ret []
       else bnd (sgetn api n) (\<lambda>cs. ret (char_of r # cs)))"

section \<open>Streams\<close>

text \<open>The stream classes: an \<^verbatim>\<open>olostream\<close> or \<^verbatim>\<open>lostream\<close> syncs twice when it is destroyed.\<close>

definition ilostream_new :: "'w lo_api \<Rightarrow> int \<Rightarrow> nat \<Rightarrow> ('w, 'z, unit) bprog" where
  "ilostream_new api Obj BufSize = streambuf_new api Obj (True, False) BufSize"

definition olostream_new :: "'w lo_api \<Rightarrow> int \<Rightarrow> nat \<Rightarrow> ('w, 'z, unit) bprog" where
  "olostream_new api Obj BufSize = streambuf_new api Obj (False, True) BufSize"

definition lostream_new :: "'w lo_api \<Rightarrow> int \<Rightarrow> nat \<Rightarrow> ('w, 'z, unit) bprog" where
  "lostream_new api Obj BufSize = streambuf_new api Obj (True, True) BufSize"

definition olostream_delete :: "'w env \<Rightarrow> 'w lo_api \<Rightarrow> ('w, 'z, unit) bprog" where
  "olostream_delete env api =
     seq (catch_std (seq (sync api) (bnd (sync api) (\<lambda>_. skip))) (\<lambda>e. process_notice env (what e)))
         (streambuf_delete api)"

end
