(* ===== verification/Largeobject_Facts.thy ===== *)
theory Largeobject_Facts
  imports Largeobject
begin

text \<open>
  What the stream buffer over a large object does to the object: text put into it arrives there
  whole, in place and in order, whatever the size of the buffer; what it reads is what the object
  holds. The server is described by the content of the object and the place of the descriptor.
\<close>

section \<open>A server that keeps an object\<close>

definition overwrite :: "string \<Rightarrow> nat \<Rightarrow> string \<Rightarrow> string" where
  "overwrite c p b =
     (if b = [] then c else take p c @ replicate (p - length c) (CHR 0x00) @ b @ drop (p + length b) c)"

definition lo_server :: "'w lo_api \<Rightarrow> handle \<Rightarrow> int \<Rightarrow> ('w \<Rightarrow> string \<times> nat) \<Rightarrow> bool" where
  "lo_server api h fd view \<longleftrightarrow>
     (\<forall>w b. int (length b) \<le> tmax int_t \<longrightarrow>
        fst (lo_write api h fd b w) = int (length b) \<and>
        view (snd (lo_write api h fd b w)) =
          (overwrite (fst (view w)) (snd (view w)) b, snd (view w) + length b)) \<and>
     (\<forall>w n. let d = take n (drop (snd (view w)) (fst (view w))) in
        fst (lo_read api h fd n w) = (int (length d), d) \<and>
        view (snd (lo_read api h fd n w)) = (fst (view w), snd (view w) + length d)) \<and>
     (\<forall>w p. 0 \<le> p \<longrightarrow> p \<le> tmax int_t \<longrightarrow>
        fst (lo_lseek api h fd p 0 w) = p \<and> view (snd (lo_lseek api h fd p 0 w)) = (fst (view w), nat p))"

text \<open>A buffer on a descriptor, with areas of a size that an \<open>int\<close> can count.\<close>

definition on_object :: "handle \<Rightarrow> int \<Rightarrow> nat \<Rightarrow> ('w, 'z) lobuf_scheme \<Rightarrow> bool" where
  "on_object h fd B s \<longleftrightarrow> m_Conn s = h \<and> m_fd s = fd \<and> m_BufSize s = B"

lemma overwrite_nil [simp]: "overwrite c p [] = c"
  by (simp add: overwrite_def)

lemma overwrite_append: "overwrite (overwrite c p a) (p + length a) b = overwrite c p (a @ b)"
proof (cases "a = [] \<or> b = []")
  case False
  let ?l = "take p c @ replicate (p - length c) (CHR 0x00)"
  have l: "length ?l = p" by simp
  have o: "overwrite c p x = ?l @ x @ drop (p + length x) c" if "x \<noteq> []" for x using that by (simp add: overwrite_def)
  have "overwrite (?l @ a @ drop (p + length a) c) (p + length a) b = ?l @ a @ b @ drop (p + length a + length b) c"
    using l False by (simp add: overwrite_def add.commute)
  then show ?thesis using False by (simp add: o add.assoc)
qed auto

section \<open>Writing\<close>

text \<open>What has arrived when the put area has been written out.\<close>

definition arrived :: "('w \<Rightarrow> string \<times> nat) \<Rightarrow> ('w, 'z) lobuf_scheme \<Rightarrow> string \<times> nat" where
  "arrived view s = (let b = the (put_area s); (c, p) = view (world s) in (overwrite c p b, p + length b))"

definition writing :: "handle \<Rightarrow> int \<Rightarrow> nat \<Rightarrow> ('w, 'z) lobuf_scheme \<Rightarrow> bool" where
  "writing h fd B s \<longleftrightarrow> on_object h fd B s \<and> (\<exists>b. put_area s = Some b \<and> length b \<le> B)"

lemma overflow_served:
  assumes "lo_server api h fd view" "writing h fd B s" "0 < B" "int B \<le> tmax int_t"
  shows "\<exists>r t. overflow api ch s = (Inr r, t) \<and> 0 \<le> r \<and> writing h fd B t \<and>
    put_area t = Some (case ch of None \<Rightarrow> [] | Some c \<Rightarrow> [c]) \<and> (the (put_area s) = [] \<longrightarrow> world t = world s) \<and>
    (the (put_area s) \<noteq> [] \<longrightarrow> view (world t) = arrived view s) \<and>
    get_area t = get_area s \<and> get_at t = get_at s"
proof -
  obtain b where b: "put_area s = Some b" "length b \<le> B" using assms(2) unfolding writing_def by blast
  have o: "m_Conn s = h" "m_fd s = fd" "m_BufSize s = B" using assms(2) unfolding writing_def on_object_def by blast+
  have lb: "int (length b) \<le> tmax int_t" using b(2) assms(4) by simp
  define w where "w = (if b = [] then world s else snd (lo_write api h fd b (world s)))"
  define t where "t = s\<lparr>world := w, put_area := Some (case ch of None \<Rightarrow> [] | Some c \<Rightarrow> [c])\<rparr>"
  have wr: "fst (lo_write api h fd b (world s)) = int (length b)"
    "view (snd (lo_write api h fd b (world s))) = arrived view s"
    using assms(1) lb b(1) unfolding lo_server_def arrived_def by (simp_all add: prod.case_eq_if)
  have cv: "convert int_t (int (length b)) = int (length b)"
    using lb by (simp add: convert_def int_t_def tmax_def)
  have "overflow api ch s = (Inr (if b = [] then 0 else int (length b)), t)"
    using wr(1) cv assms(3)
    by (cases ch; cases "lo_write api h fd b (world s)")
      (simp_all add: overflow_def step_simps b(1) cwrite_def o lo_call_def bnd_def call_def ret_def gets_def
        seq_def modify_def cond_def t_def w_def skip_def)
  moreover have "writing h fd B t"
    using o assms(3) unfolding t_def writing_def on_object_def by (cases ch) auto
  ultimately show ?thesis using b wr by (auto simp: t_def w_def)
qed

lemma to_int_type_range: "0 \<le> to_int_type c" "to_int_type c < 256"
proof -
  have "to_int_type c = int (of_char c)" unfolding to_int_type_def by (rule of_nat_of_char [symmetric])
  moreover have "of_char c < (256 :: nat)" by simp
  ultimately show "0 \<le> to_int_type c" "to_int_type c < 256" by simp_all
qed

lemma sputc_served:
  assumes "lo_server api h fd view" "writing h fd B s" "0 < B" "int B \<le> tmax int_t"
  shows "\<exists>r t. sputc api c s = (Inr r, t) \<and> r \<noteq> EoF \<and> writing h fd B t \<and>
    arrived view t = (overwrite (fst (arrived view s)) (snd (arrived view s)) [c], Suc (snd (arrived view s))) \<and>
    get_area t = get_area s \<and> get_at t = get_at s"
proof -
  obtain b where b: "put_area s = Some b" "length b \<le> B" and o: "on_object h fd B s"
    using assms(2) unfolding writing_def by blast
  have B: "m_BufSize s = B" using o unfolding on_object_def by blast
  show ?thesis
  proof (cases "length b < B")
    case True
    let ?t = "s\<lparr>put_area := Some (b @ [c])\<rparr>"
    have "sputc api c s = (Inr (to_int_type c), ?t)"
      using True by (simp add: sputc_def step_simps b(1) B) (simp add: ret_def)
    moreover have "writing h fd B ?t" using o True unfolding writing_def on_object_def by simp
    moreover have "arrived view ?t = (overwrite (fst (arrived view s)) (snd (arrived view s)) [c], Suc (snd (arrived view s)))"
      by (simp add: arrived_def b(1) prod.case_eq_if overwrite_append)
    moreover have "to_int_type c \<noteq> EoF" using to_int_type_range [of c] by (simp add: EoF_def)
    ultimately show ?thesis by simp
  next
    case False
    then have ne: "b \<noteq> []" using assms(3) by auto
    obtain r t where t: "overflow api (Some c) s = (Inr r, t)" "0 \<le> r" "writing h fd B t" "put_area t = Some [c]"
      "view (world t) = arrived view s" "get_area t = get_area s" "get_at t = get_at s"
      using overflow_served [OF assms, of "Some c"] b ne by auto
    have "sputc api c s = (Inr r, t)" using False t(1) by (simp add: sputc_def step_simps b(1) B)
    moreover have "arrived view t = (overwrite (fst (arrived view s)) (snd (arrived view s)) [c], Suc (snd (arrived view s)))"
      using t(4,5) by (simp add: arrived_def [of view t] prod.case_eq_if)
    ultimately show ?thesis using t(2,3,6,7) by (auto simp: EoF_def)
  qed
qed

lemma sputn_served:
  assumes "lo_server api h fd view" "writing h fd B s" "0 < B" "int B \<le> tmax int_t"
  shows "\<exists>t. sputn api cs s = (Inr (length cs), t) \<and> writing h fd B t \<and>
    arrived view t = (overwrite (fst (arrived view s)) (snd (arrived view s)) cs, snd (arrived view s) + length cs) \<and>
    get_area t = get_area s \<and> get_at t = get_at s"
  using assms(2)
proof (induction cs arbitrary: s)
  case Nil
  then show ?case by (auto simp: ret_def)
next
  case (Cons c cs)
  obtain r t where t: "sputc api c s = (Inr r, t)" "r \<noteq> EoF" "writing h fd B t"
    "arrived view t = (overwrite (fst (arrived view s)) (snd (arrived view s)) [c], Suc (snd (arrived view s)))"
    "get_area t = get_area s" "get_at t = get_at s"
    using sputc_served [OF assms(1) Cons.prems assms(3,4)] by blast
  obtain u where u: "sputn api cs t = (Inr (length cs), u)" "writing h fd B u"
    "arrived view u = (overwrite (fst (arrived view t)) (snd (arrived view t)) cs, snd (arrived view t) + length cs)"
    "get_area u = get_area t" "get_at u = get_at t"
    using Cons.IH [OF t(3)] by blast
  have "sputn api (c # cs) s = (Inr (length (c # cs)), u)"
    using t(1,2) u(1) by (simp add: bnd_def ret_def)
  moreover have "overwrite (overwrite C P [c]) (Suc P) cs = overwrite C P (c # cs)" for C P
    using overwrite_append [of C P "[c]" cs] by simp
  ultimately show ?case using u t(4-6) by auto
qed

text \<open>Synchronizing twice, as the destructor does, leaves nothing behind in the buffer.\<close>

lemma sync_served:
  assumes "lo_server api h fd view" "writing h fd B s" "0 < B" "int B \<le> tmax int_t"
  shows "\<exists>r t. sync api s = (Inr r, t) \<and> writing h fd B t \<and> put_area t = Some [] \<and> view (world t) = arrived view s \<and>
    get_area t = get_area s \<and> get_at t = 0"
proof -
  let ?s = "s\<lparr>get_at := 0\<rparr>"
  have w: "writing h fd B ?s" using assms(2) by (simp add: writing_def on_object_def)
  obtain r t where t: "overflow api None ?s = (Inr r, t)" "writing h fd B t" "put_area t = Some []"
    "the (put_area ?s) = [] \<longrightarrow> world t = world ?s" "the (put_area ?s) \<noteq> [] \<longrightarrow> view (world t) = arrived view ?s"
    "get_area t = get_area ?s" "get_at t = get_at ?s"
    using overflow_served [OF assms(1) w assms(3,4), of None] by auto
  have "view (world t) = arrived view s"
    using t(4,5) by (cases "the (put_area s) = []") (simp_all add: arrived_def prod.case_eq_if)
  then show ?thesis using t by (auto simp: sync_def step_simps)
qed

section \<open>Reading\<close>

definition reading :: "handle \<Rightarrow> int \<Rightarrow> nat \<Rightarrow> ('w, 'z) lobuf_scheme \<Rightarrow> bool" where
  "reading h fd B s \<longleftrightarrow> on_object h fd B s \<and> (\<exists>g. get_area s = Some g \<and> get_at s \<le> length g)"

text \<open>What is still to come: the rest of the get area and of the object.\<close>

definition to_come :: "('w \<Rightarrow> string \<times> nat) \<Rightarrow> ('w, 'z) lobuf_scheme \<Rightarrow> string" where
  "to_come view s = drop (get_at s) (the (get_area s)) @ drop (snd (view (world s))) (fst (view (world s)))"

text \<open>No block that is yet to be read from the object begins with the character 255.\<close>

definition blocks_clear :: "nat \<Rightarrow> string \<Rightarrow> bool" where
  "blocks_clear B c \<longleftrightarrow> (\<forall>k. k * B < length c \<longrightarrow> c ! (k * B) \<noteq> CHR 0xFF)"

lemma blocks_clear_drop: "blocks_clear B c \<Longrightarrow> blocks_clear B (drop B c)"
proof -
  assume b: "blocks_clear B c"
  have "drop B c ! (k * B) \<noteq> CHR 0xFF" if k: "k * B < length (drop B c)" for k
  proof -
    have "Suc k * B < length c" using k by simp
    moreover have "drop B c ! (k * B) = c ! (Suc k * B)" using k by (simp add: nth_drop)
    ultimately show ?thesis using b [unfolded blocks_clear_def, rule_format, of "Suc k"] by simp
  qed
  then show ?thesis unfolding blocks_clear_def by blast
qed

lemma char_value_EoF: "char_value c = EoF \<longleftrightarrow> c = CHR 0xFF"
proof -
  have "c = CHR 0xFF \<longleftrightarrow> of_char c = (of_char (CHR 0xFF) :: nat)" by (simp only: of_char_eq_iff)
  also have "\<dots> \<longleftrightarrow> int (of_char c) = 255" by auto
  also have "int (of_char c) = to_int_type c" unfolding to_int_type_def by (rule of_nat_of_char)
  finally show ?thesis using to_int_type_range [of c] by (auto simp: char_value_def to_int_type_def EoF_def)
qed

lemma drop_taken: "drop (q + length (take B (drop q x))) x = drop B (drop q x)"
  by (simp add: add.commute min_def)

lemma underflow_served:
  assumes "lo_server api h fd view" "reading h fd B s" "in_avail s = None" "0 < B"
  shows "\<exists>t. underflow api s = (Inr (if to_come view s = [] then EoF else char_value (hd (to_come view s))), t) \<and>
    reading h fd B t \<and> to_come view t = to_come view s \<and> get_area t = Some (take B (to_come view s)) \<and> get_at t = 0 \<and>
    drop (snd (view (world t))) (fst (view (world t))) = drop B (to_come view s) \<and> put_area t = put_area s \<and>
    fst (view (world t)) = fst (view (world s))"
proof -
  obtain g where g: "get_area s = Some g" "get_at s \<le> length g" using assms(2) unfolding reading_def by blast
  have o: "m_Conn s = h" "m_fd s = fd" "m_BufSize s = B" using assms(2) unfolding reading_def on_object_def by blast+
  have "get_at s = length g" using g assms(3) by (auto simp: in_avail_def split: if_splits)
  then have c: "to_come view s = drop (snd (view (world s))) (fst (view (world s)))" using g by (simp add: to_come_def)
  define d where "d = take B (to_come view s)"
  define w where "w = snd (lo_read api h fd B (world s))"
  have r: "fst (lo_read api h fd B (world s)) = (int (length d), d)"
    "view w = (fst (view (world s)), snd (view (world s)) + length d)"
    using assms(1) unfolding lo_server_def Let_def d_def c w_def by blast+
  let ?t = "s\<lparr>world := w, get_area := Some d, get_at := 0\<rparr>"
  have m: "max (int (length d)) (-1) = int (length d)" by simp
  have "underflow api s = (Inr (if d = [] then EoF else char_value (hd d)), ?t)"
    using r(1) by (cases "lo_read api h fd B (world s)")
      (simp add: underflow_def step_simps g(1) cread_def o lo_call_def bnd_def call_def ret_def gets_def
        seq_def modify_def w_def)
  moreover have "(if d = [] then EoF else char_value (hd d)) =
      (if to_come view s = [] then EoF else char_value (hd (to_come view s)))"
    using assms(4) by (auto simp: d_def)
  moreover have "reading h fd B ?t" using o unfolding reading_def on_object_def by simp
  moreover have "drop (snd (view w)) (fst (view w)) = drop B (to_come view s)"
    unfolding r(2) fst_conv snd_conv d_def c by (rule drop_taken)
  moreover have "to_come view ?t = to_come view s"
    using calculation(4) unfolding to_come_def [of view ?t] by (simp add: d_def)
  ultimately show ?thesis unfolding d_def using r(2) by auto
qed

text \<open>Of the next \<open>n\<close> characters, those that would be first in a block of their own are clear.\<close>

definition clear_for :: "nat \<Rightarrow> ('w \<Rightarrow> string \<times> nat) \<Rightarrow> nat \<Rightarrow> ('w, 'z) lobuf_scheme \<Rightarrow> bool" where
  "clear_for B view n s \<longleftrightarrow> blocks_clear B
     (take (n - length (drop (get_at s) (the (get_area s)))) (drop (snd (view (world s))) (fst (view (world s)))))"

lemma in_avail_reading:
  assumes "reading h fd B s"
  shows "in_avail s = (case drop (get_at s) (the (get_area s)) of [] \<Rightarrow> None | c # _ \<Rightarrow> Some c)"
proof -
  obtain g where g: "get_area s = Some g" "get_at s \<le> length g" using assms unfolding reading_def by blast
  then show ?thesis by (auto simp: in_avail_def Cons_nth_drop_Suc [symmetric] split: list.split)
qed

lemma take_next_served:
  assumes "reading h fd B s" "drop (get_at s) (the (get_area s)) = c # cs"
  shows "\<exists>t. take_next s = (Inr (to_int_type c), t) \<and> reading h fd B t \<and> drop (get_at t) (the (get_area t)) = cs \<and>
    world t = world s \<and> put_area t = put_area s"
proof -
  let ?t = "s\<lparr>get_at := Suc (get_at s)\<rparr>"
  obtain g where g: "get_area s = Some g" "get_at s \<le> length g" using assms(1) unfolding reading_def by blast
  have "get_at s < length g" using assms(2) g by (metis drop_all list.distinct(1) linorder_not_le option.sel)
  then have "reading h fd B ?t" using assms(1) g unfolding reading_def on_object_def by simp
  moreover have "drop (Suc (get_at s)) g = cs" using assms(2) g by (simp add: drop_Suc tl_drop [symmetric])
  moreover have "take_next s = (Inr (to_int_type c), ?t)"
    using in_avail_reading [OF assms(1)] assms(2) by (simp add: take_next_def step_simps) (simp add: ret_def)
  ultimately show ?thesis using g by auto
qed

lemma sbumpc_served:
  assumes "lo_server api h fd view" "reading h fd B s" "0 < B" "clear_for B view (Suc n) s"
  shows "\<exists>t. sbumpc api s = (Inr (case to_come view s of [] \<Rightarrow> EoF | c # _ \<Rightarrow> to_int_type c), t) \<and> reading h fd B t \<and>
    to_come view t = tl (to_come view s) \<and> clear_for B view n t \<and> put_area t = put_area s"
proof (cases "drop (get_at s) (the (get_area s))")
  case (Cons c cs)
  obtain t where t: "take_next s = (Inr (to_int_type c), t)" "reading h fd B t" "drop (get_at t) (the (get_area t)) = cs"
    "world t = world s" "put_area t = put_area s"
    using take_next_served [OF assms(2) Cons] by blast
  have "sbumpc api s = (Inr (to_int_type c), t)"
    using t(1) in_avail_reading [OF assms(2)] Cons by (simp add: sbumpc_def step_simps)
  moreover have "clear_for B view n t" using assms(4) t(3,4) Cons by (simp add: clear_for_def)
  ultimately show ?thesis using t Cons by (auto simp: to_come_def)
next
  case Nil
  have av: "in_avail s = None" using in_avail_reading [OF assms(2)] Nil by simp
  define r where "r = to_come view s"
  have r: "r = drop (snd (view (world s))) (fst (view (world s)))" by (simp add: r_def to_come_def Nil)
  obtain t where t: "underflow api s = (Inr (if r = [] then EoF else char_value (hd r)), t)" "reading h fd B t"
    "to_come view t = r" "get_area t = Some (take B r)" "get_at t = 0"
    "drop (snd (view (world t))) (fst (view (world t))) = drop B r" "put_area t = put_area s"
    using underflow_served [OF assms(1,2) av assms(3)] unfolding r_def by blast
  show ?thesis
  proof (cases r)
    case Nil
    then have "sbumpc api s = (Inr EoF, t)" using t(1) av by (simp add: sbumpc_def bnd_def gets_def ret_def)
    moreover have "clear_for B view n t" using t(6) Nil by (simp add: clear_for_def blocks_clear_def)
    ultimately show ?thesis using t Nil unfolding r_def by auto
  next
    case (Cons c cs)
    have cl: "blocks_clear B (take (Suc n) r)" using assms(4) Nil r by (simp add: clear_for_def)
    then have "c \<noteq> CHR 0xFF" using Cons by (force simp: blocks_clear_def dest: spec [of _ 0])
    then have ne: "char_value (hd r) \<noteq> EoF" using Cons by (simp add: char_value_EoF)
    have d: "drop (get_at t) (the (get_area t)) = c # take (B - 1) cs" using t(4,5) Cons assms(3) by (simp add: take_Cons')
    obtain u where u: "take_next t = (Inr (to_int_type c), u)" "reading h fd B u" "drop (get_at u) (the (get_area u)) = take (B - 1) cs"
      "world u = world t" "put_area u = put_area t"
      using take_next_served [OF t(2) d] by blast
    have "sbumpc api s = (Inr (to_int_type c), u)"
      using t(1) u(1) ne av Cons by (simp add: sbumpc_def bnd_def gets_def)
    moreover have "to_come view u = cs"
      using t(6) Cons assms(3) by (simp add: to_come_def u(3,4) drop_Cons')
    moreover have "clear_for B view n u"
    proof (cases "B \<le> length r")
      case True
      then have "n - length (take (B - 1) cs) = Suc n - B" using Cons assms(3) by simp
      then have "take (n - length (take (B - 1) cs)) (drop B r) = drop B (take (Suc n) r)" by (simp add: drop_take)
      then show ?thesis using blocks_clear_drop [OF cl] t(6) by (simp add: clear_for_def u(3,4) del: length_take)
    qed (use t(6) in \<open>simp add: clear_for_def u(3,4) blocks_clear_def\<close>)
    ultimately show ?thesis using u t(7) Cons unfolding r_def by auto
  qed
qed

lemma sgetn_served:
  assumes "lo_server api h fd view" "reading h fd B s" "0 < B" "clear_for B view n s"
  shows "\<exists>t. sgetn api n s = (Inr (take n (to_come view s)), t) \<and> reading h fd B t \<and>
    to_come view t = drop n (to_come view s) \<and> put_area t = put_area s"
  using assms(2,4)
proof (induction n arbitrary: s)
  case 0
  then show ?case by (auto simp: ret_def)
next
  case (Suc n)
  obtain t where t: "sbumpc api s = (Inr (case to_come view s of [] \<Rightarrow> EoF | c # _ \<Rightarrow> to_int_type c), t)" "reading h fd B t"
    "to_come view t = tl (to_come view s)" "clear_for B view n t" "put_area t = put_area s"
    using sbumpc_served [OF assms(1) Suc.prems(1) assms(3) Suc.prems(2)] by blast
  show ?case
  proof (cases "to_come view s")
    case Nil
    then show ?thesis using t by (auto simp: bnd_def ret_def)
  next
    case (Cons c cs)
    obtain u where u: "sgetn api n t = (Inr (take n cs), u)" "reading h fd B u" "to_come view u = drop n cs" "put_area u = put_area t"
      using Suc.IH [OF t(2,4)] t(3) Cons by auto
    have "to_int_type c \<noteq> EoF" using to_int_type_range [of c] by (simp add: EoF_def)
    then have "sgetn api (Suc n) s = (Inr (c # take n cs), u)"
      using t(1) u(1) Cons by (simp add: bnd_def ret_def to_int_type_def)
    then show ?thesis using u t(5) Cons by simp
  qed
qed

lemma seekpos_served:
  assumes "lo_server api h fd view" "on_object h fd B s" "int p \<le> tmax int_t"
  shows "\<exists>t. seekpos api (int p) s = (Inr (int p), t) \<and> t = s\<lparr>world := world t\<rparr> \<and> view (world t) = (fst (view (world s)), p)"
proof -
  define w where "w = snd (lo_lseek api h fd (int p) 0 (world s))"
  have l: "fst (lo_lseek api h fd (int p) 0 (world s)) = int p" "view w = (fst (view (world s)), p)"
    using assms(1,3) unfolding lo_server_def w_def by (metis nat_int of_nat_0_le_iff)+
  have cv: "convert int_t (int p) = int p" using assms(3) by (simp add: convert_def int_t_def tmax_def)
  have "seekpos api (int p) s = (Inr (int p), s\<lparr>world := w\<rparr>)"
    using l(1) assms(2) cv by (cases "lo_lseek api h fd (int p) 0 (world s)")
      (simp add: seekpos_def cseek_def step_simps lo_call_def call_def StdDirToPQDir_def on_object_def w_def)
  then show ?thesis using l(2) by auto
qed

section \<open>Properties\<close>

text \<open>
  C10: whatever is put into a large object stream is in the object, at the place where the stream stood,
  after the two synchronizations of the stream's destructor: all of it and nothing else, for every
  size of the buffer.
\<close>

theorem stream_write_reaches_object:
  assumes "lo_server api h fd view" "0 < B" "int B \<le> tmax int_t"
    and "on_object h fd B s" "put_area s = Some []" "view (world s) = (c, p)"
  shows "\<exists>t u r r'. sputn api cs s = (Inr (length cs), t) \<and>
    seq (sync api) (sync api) t = (Inr r', u) \<and> view (world u) = (overwrite c p cs, p + length cs)"
proof -
  have w: "writing h fd B s" using assms(4,5) by (simp add: writing_def)
  have a: "arrived view s = (c, p)" using assms(5,6) by (simp add: arrived_def)
  obtain t where t: "sputn api cs s = (Inr (length cs), t)" "writing h fd B t"
    "arrived view t = (overwrite c p cs, p + length cs)"
    using sputn_served [OF assms(1) w assms(2,3), of cs] a by auto
  obtain r u where u: "sync api t = (Inr r, u)" "writing h fd B u" "put_area u = Some []" "view (world u) = arrived view t"
    using sync_served [OF assms(1) t(2) assms(2,3)] by blast
  obtain r' v where v: "sync api u = (Inr r', v)" "view (world v) = arrived view u"
    using sync_served [OF assms(1) u(2) assms(2,3)] by blast
  have "arrived view u = view (world u)" using u(3) by (simp add: arrived_def prod.case_eq_if)
  then have "view (world v) = (overwrite c p cs, p + length cs)" using v(2) u(4) t(3) by simp
  moreover have "seq (sync api) (sync api) t = (Inr r', v)" using u(1) v(1) by (simp add: seq_def bnd_def)
  ultimately show ?thesis using t(1) by blast
qed


text \<open>
  The character 255 as the first of a block ends the stream: it is reported as the end of the
  object although it and all that follows have just been read into the buffer.
\<close>

theorem byte_255_ends_stream:
  assumes "lo_server api h fd view" "0 < B" "reading h fd B s" "in_avail s = None"
    and "to_come view s = CHR 0xFF # cs"
  shows "\<exists>t. sgetn api n s = (Inr [], t) \<and> (n \<noteq> 0 \<longrightarrow> the (get_area t) = CHR 0xFF # take (B - 1) cs)"
proof (cases n)
  case (Suc m)
  obtain t where t: "underflow api s = (Inr (char_value (CHR 0xFF)), t)" "get_area t = Some (take B (to_come view s))"
    using underflow_served [OF assms(1,3,4,2)] assms(5) by auto
  have "char_value (CHR 0xFF) = EoF" by (simp add: char_value_EoF)
  then have "sgetn api n s = (Inr [], t)"
    using Suc t(1) assms(4) by (simp add: sbumpc_def bnd_def gets_def ret_def)
  then show ?thesis using t(2) assms(2,5) by (simp add: take_Cons')
qed (auto simp: ret_def)

text \<open>
  C36: writing to an opened object is all or nothing for the caller: the call returns exactly if the server
  took every byte, and otherwise throws, out of memory as itself and everything else as a
  failure that names the object.
\<close>

theorem access_write_complete_or_throws:
  assumes "lo_write api (m_Conn s) (m_fd s) buf (world s) = (n, w)"
  shows "if n \<ge> int (length buf) then access_write api buf s = (Inr (), s\<lparr>world := w\<rparr>)
    else \<exists>e. access_write api buf s = (Inl e, s\<lparr>world := w\<rparr>) \<and>
      (if errno api w = ENOMEM then cls e = Std_bad_alloc else cls e = Failure)"
proof -
  let ?t = "s\<lparr>world := w\<rparr>"
  have c: "cwrite api buf s = (Inr (max n (-1)), ?t)"
    using assms by (simp add: cwrite_def bnd_def gets_def lo_call_def call_def ret_def)
  have f: "\<exists>e. lo_fail api m ?t = (Inl e, ?t) \<and> (if errno api w = ENOMEM then cls e = Std_bad_alloc else cls e = Failure)" for m
    by (simp add: lo_fail_def step_simps) (simp add: throw_def plain_def failure_def)
  show ?thesis
  proof (cases "n \<ge> int (length buf)")
    case True
    then show ?thesis using c by (simp add: access_write_def bnd_def skip_def ret_def)
  next
    case False
    then have "max n (-1) < int (length buf)" by auto
    then obtain m where "access_write api buf s = lo_fail api m ?t" using c by (simp add: access_write_def bnd_def)
    then show ?thesis using f [of m] False by simp
  qed
qed

text \<open>
  When an object cannot be opened, the exception does not say why: the descriptor is already
  the failed one when the reason is asked for, and the message is that no object is opened.
\<close>

theorem open_failure_reason_lost:
  assumes "lo_open api (m_Conn s) (m_ID s) (StdModeToPQMode mode) (world s) = (-1, w)" "errno api w \<noteq> ENOMEM"
  shows "fst (lo_open_access api mode s) =
    Inl (failure (''Could not open large object '' @ lo_text (m_ID s) @ '': No object opened''))"
  using assms
  by (simp add: lo_open_access_def step_simps lo_call_def call_def bnd_def seq_def modify_def cond_def lo_fail_def
      gets_def access_Reason_def throw_def)

section \<open>Witnesses\<close>

text \<open>A server whose state is the object's content and the descriptor's place in it.\<close>

definition sample_lo :: "(string \<times> nat) lo_api" where
  "sample_lo = \<lparr>lo_creat = (\<lambda>_ _ w. (7, w)), lo_import = (\<lambda>_ _ w. (7, w)), lo_export = (\<lambda>_ _ _ w. (1, w)),
     lo_unlink = (\<lambda>_ _ w. (1, w)), lo_open = (\<lambda>_ ID _ (c, p). if ID = 7 then (0, (c, 0)) else (-1, (c, p))),
     lo_close = (\<lambda>_ _ w. w),
     lo_lseek = (\<lambda>_ _ off _ (c, p). (off, (c, nat off))),
     lo_write = (\<lambda>_ _ b (c, p). (int (length b), (overwrite c p b, p + length b))),
     lo_read = (\<lambda>_ _ n (c, p). let d = take n (drop p c) in ((int (length d), d), (c, p + length d))),
     lo_tell = (\<lambda>_ _ (c, p). (int p, (c, p))), errno = (\<lambda>_. 2), strerror_r = (\<lambda>_. ''No such file'')\<rparr>"

lemma sample_lo_serves: "lo_server sample_lo (Some 1) 0 (\<lambda>w. w)"
  unfolding lo_server_def sample_lo_def by (auto simp: Let_def prod.case_eq_if)

definition sample_lostream :: "string \<Rightarrow> nat \<Rightarrow> nat \<Rightarrow> (string \<times> nat) lobuf" where
  "sample_lostream c p B = lobj.extend (tx.extend (sample_tx (c, p) st_active) \<lparr>m_ID = 7, m_fd = 0\<rparr>)
     \<lparr>m_BufSize = B, get_area = Some [], get_at = 0, put_area = Some []\<rparr>"

lemma sample_lostream_fields [simp]:
  "m_BufSize (sample_lostream c p B) = B" "put_area (sample_lostream c p B) = Some []"
  "get_area (sample_lostream c p B) = Some []" "get_at (sample_lostream c p B) = 0"
  "world (sample_lostream c p B) = (c, p)" "m_Conn (sample_lostream c p B) = Some 1"
  "m_ID (sample_lostream c p B) = 7" "m_fd (sample_lostream c p B) = 0"
  by (simp_all add: sample_lostream_def lobj.extend_def tx.extend_def sample_tx_def new_tx_def
      conn.extend_def open_conn_def connection_base_def)

theorem stream_write_reaches_object_witness:
  "\<exists>t u r. sputn sample_lo ''three'' (sample_lostream ''one two'' 4 2) = (Inr 5, t) \<and>
     seq (sync sample_lo) (sync sample_lo) t = (Inr r, u) \<and> world u = (''one three'', 9)"
proof -
  have "\<exists>t u r r'. sputn sample_lo ''three'' (sample_lostream ''one two'' 4 2) = (Inr (length ''three''), t) \<and>
    seq (sync sample_lo) (sync sample_lo) t = (Inr r', u) \<and>
    (\<lambda>w. w) (world u) = (overwrite ''one two'' 4 ''three'', 4 + length ''three'')"
    by (rule stream_write_reaches_object [OF sample_lo_serves, where B = 2]) (simp_all add: on_object_def tmax_def int_t_def)
  then show ?thesis by (auto simp: overwrite_def)
qed


theorem byte_255_ends_stream_witness:
  "\<exists>t. sgetn sample_lo 9 (sample_lostream [CHR 0x61, CHR 0xFF, CHR 0x62] 1 2) = (Inr [], t) \<and>
     the (get_area t) = [CHR 0xFF, CHR 0x62]"
proof -
  let ?s = "sample_lostream [CHR 0x61, CHR 0xFF, CHR 0x62] 1 2"
  have "\<exists>t. sgetn sample_lo 9 ?s = (Inr [], t) \<and>
      ((9 :: nat) \<noteq> 0 \<longrightarrow> the (get_area t) = CHR 0xFF # take (2 - 1) [CHR 0x62])"
    by (rule byte_255_ends_stream [OF sample_lo_serves, where B = 2])
      (simp_all add: on_object_def reading_def in_avail_def to_come_def)
  then show ?thesis by simp
qed

theorem access_write_complete_or_throws_witness:
  "let api = sample_lo\<lparr>lo_write := \<lambda>_ _ b w. (1, w)\<rparr> in
   \<exists>e. fst (access_write api ''ab'' (sample_lostream [] 0 4)) = Inl e \<and> cls e = Failure"
proof -
  let ?api = "sample_lo\<lparr>lo_write := \<lambda>_ _ b w. (1, w)\<rparr>" and ?s = "sample_lostream [] 0 4"
  have "lo_write ?api (m_Conn ?s) (m_fd ?s) ''ab'' (world ?s) = (1, world ?s)" by simp
  moreover have "errno ?api (world ?s) \<noteq> ENOMEM" by (simp add: ENOMEM_def sample_lo_def)
  ultimately have "\<exists>e. access_write ?api ''ab'' ?s = (Inl e, ?s\<lparr>world := world ?s\<rparr>) \<and> cls e = Failure"
    using access_write_complete_or_throws [of ?api ?s "''ab''" 1 "world ?s"] by simp
  then show ?thesis unfolding Let_def by (metis fst_conv)
qed

theorem open_failure_reason_lost_witness:
  "fst (lo_open_access sample_lo (True, False) ((sample_lostream [] 0 4)\<lparr>m_ID := 8\<rparr>)) =
     Inl (failure (''Could not open large object 8: No object opened''))"
proof -
  let ?s = "(sample_lostream [] 0 4)\<lparr>m_ID := 8\<rparr>"
  have "lo_text 8 = ''8''" by code_simp
  moreover have "lo_open sample_lo (m_Conn ?s) (m_ID ?s) (StdModeToPQMode (True, False)) (world ?s) = (-1, ([], 0))"
    by (simp add: sample_lo_def)
  ultimately show ?thesis using open_failure_reason_lost [of sample_lo ?s "(True, False)" "([], 0)"]
    by (simp add: ENOMEM_def sample_lo_def)
qed

end
