(* ===== verification/Transactor.thy ===== *)
theory Transactor
  imports Transaction_Facts
begin

text \<open>
  \<^verbatim>\<open>connection_base::perform\<close> (\<^verbatim>\<open>include/pqxx/transactor.hxx\<close>): runs a transactor, an object with the code
  of one transaction, again and again on a fresh copy until it succeeds or the attempts run out. The
  transactor and its transaction class are the application's: parameters. The state is the connection
  with the transaction of the attempt on it, and the attempt's copy of the transactor.
\<close>

section \<open>The transaction class and the transactor\<close>

record ('w, 'u) perf = "'w tx" +
  T2 :: 'u

type_synonym ('w, 'u, 'z, 'a) aprog = "(('w, 'u, 'z) perf_scheme, 'a) cxx"

text \<open>\<^verbatim>\<open>TRANSACTOR::argument_type\<close>: its constructor, given a name, and its virtual functions.\<close>

record ('w, 'u, 'z) argument_type =
  construct :: "string \<Rightarrow> ('w, 'u, 'z, unit) aprog"
  virtuals :: "('w, ('u, 'z) perf_ext) hooks"

record ('w, 'u, 'z) transactor =
  t_Name :: string
  t_body :: "('w, 'u, 'z, unit) aprog"
  on_abort :: "string \<Rightarrow> ('w, 'u, 'z, unit) aprog"
  on_commit :: "('w, 'u, 'z, unit) aprog"
  on_doubt :: "('w, 'u, 'z, unit) aprog"

text \<open>The class \<^verbatim>\<open>transaction<ISOLATIONLEVEL, READWRITE>\<close>, in its constructor with a name.\<close>

definition fresh_transaction ::
  "nat \<Rightarrow> isolation_level \<Rightarrow> readwrite_policy \<Rightarrow> string \<Rightarrow> ('w, 'z, unit) tprog" where
  "fresh_transaction a il rw TName =
     modify (\<lambda>s. s\<lparr>this_trans := \<lparr>addr = a, classname = fullname ''transaction'' (isolation_name il), name = TName\<rparr>,
       tx_avoidance := 0, m_Focus := None, m_Status := st_nascent, m_Registered := False, tx_Vars := [],
       m_PendingError := [], m_StartCmd := generate_set_transaction rw (isolation_name il), parent_avoidance := 0\<rparr>)"

definition plain_transaction ::
  "'w env \<Rightarrow> nat \<Rightarrow> isolation_level \<Rightarrow> readwrite_policy \<Rightarrow> ('w, 'u, 'z) argument_type" where
  "plain_transaction env a il rw =
     \<lparr>construct = (\<lambda>TName. seq (fresh_transaction a il rw TName) (transaction_new env)), virtuals = basic_hooks env\<rparr>"

section \<open>The loop\<close>

text \<open>The \<^verbatim>\<open>try\<close> block: construct, run, commit; the transaction is destroyed at its end either way.\<close>

definition attempt ::
  "'w env \<Rightarrow> ('w, 'u, 'z) argument_type \<Rightarrow> ('w, 'u, 'z) transactor \<Rightarrow> ('w, 'u, 'z, unit) aprog" where
  "attempt env A T =
     seq (construct A (t_Name T))
     (seq (catch_all (seq (t_body T) (commit env (virtuals A)))
            (\<lambda>e. seq (transaction_delete env (virtuals A)) (throw e)))
          (transaction_delete env (virtuals A)))"

text \<open>The handlers: the value says whether to go on.\<close>

definition attempt_failed :: "('w, 'u, 'z) transactor \<Rightarrow> nat \<Rightarrow> exn \<Rightarrow> ('w, 'u, 'z, bool) aprog" where
  "attempt_failed T Attempts e =
     (if cls e \<in> {Undefined_behaviour, Terminated, Diverged} then throw e
      else if caught_as In_doubt_error e then seq (on_doubt T) (throw e)
      else if caught_as Std_exception e then
        seq (on_abort T (what e)) (if Attempts = 0 then throw e else ret False)
      else seq (on_abort T ''Unknown exception'') (throw e))"

fun perform_loop ::
  "'w env \<Rightarrow> ('w, 'u, 'z) argument_type \<Rightarrow> ('w, 'u, 'z) transactor \<Rightarrow> 'u \<Rightarrow> nat \<Rightarrow> ('w, 'u, 'z, unit) aprog" where
  "perform_loop env A T prototype 0 = skip"
| "perform_loop env A T prototype (Suc Attempts) =
     seq (modify (\<lambda>s. s\<lparr>T2 := prototype\<rparr>))
     (bnd (catch (seq (attempt env A T) (ret True)) (attempt_failed T Attempts)) (\<lambda>Done.
        if Done then on_commit T else perform_loop env A T prototype Attempts))"

definition perform ::
  "'w env \<Rightarrow> ('w, 'u, 'z) argument_type \<Rightarrow> ('w, 'u, 'z) transactor \<Rightarrow> 'u \<Rightarrow> int \<Rightarrow> ('w, 'u, 'z, unit) aprog" where
  "perform env A T prototype Attempts =
     (if Attempts \<le> 0 then skip else perform_loop env A T prototype (nat Attempts))"

section \<open>What an attempt leaves behind\<close>

lemma seq_returned: "seq m n s = (Inr x, t) \<Longrightarrow> \<exists>a u. m s = (Inr a, u) \<and> n u = (Inr x, t)"
  by (auto simp: seq_def bnd_def split: prod.splits sum.splits)

lemma bnd_returned: "bnd m k s = (Inr x, t) \<Longrightarrow> \<exists>a u. m s = (Inr a, u) \<and> k a u = (Inr x, t)"
  by (auto simp: bnd_def split: prod.splits sum.splits)

lemma seq_threw: "seq m n s = (Inl e, t) \<Longrightarrow> m s = (Inl e, t) \<or> (\<exists>a u. m s = (Inr a, u) \<and> n u = (Inl e, t))"
  by (auto simp: seq_def bnd_def split: prod.splits sum.splits)

lemma catch_rethrown:
  assumes "catch_all m (\<lambda>e. seq n (throw e)) s = (Inr x, t)"
  shows "m s = (Inr x, t)"
proof (cases "m s")
  case (Pair r u)
  then show ?thesis using assms
    by (cases r) (auto simp: catch_all_def catch_def throw_def seq_def bnd_def split: if_splits prod.splits sum.splits)
qed

definition uncommitted :: "status set" where
  "uncommitted = {st_nascent, st_active, st_aborted}"

lemma status_base_delete [keeps_intros]: "keeps (status_in X) (transaction_base_delete env)"
  unfolding transaction_base_delete_def by (intro keeps_intros)

lemma base_delete_returns: "\<exists>t. transaction_base_delete env s = (Inr (), t)"
proof -
  let ?err = "cond (\<lambda>s. m_PendingError s \<noteq> []) (bnd (gets m_PendingError) (\<lambda>m.
    process_notice_string env (''UNPROCESSED ERROR: '' @ m @ nl))) skip :: ('a, 'b, unit) tprog"
  let ?reg = "cond m_Registered (bnd (gets this_trans) (\<lambda>g.
    seq (process_notice_string env (description g @ '' was never closed properly!'' @ nl))
      (UnregisterTransaction env g))) skip :: ('a, 'b, unit) tprog"
  have e: "\<exists>t. ?err s = (Inr (), t)" for s
    using process_notice_string_returns [of "''UNPROCESSED ERROR: '' @ m_PendingError s @ nl" env s]
    by (auto simp: cond_def step_simps skip_def ret_def)
  have r: "\<exists>t. ?reg s = (Inr (), t)" for s
  proof (cases "m_Registered s")
    case True
    obtain n where n: "process_notice_string env (description (this_trans s) @ '' was never closed properly!'' @ nl) s =
        (Inr (), s\<lparr>notices := n\<rparr>)"
      using process_notice_string_returns [of "description (this_trans s) @ '' was never closed properly!'' @ nl" env s] by auto
    have "this_trans s = this_trans (s\<lparr>notices := n\<rparr>)" by simp
    then obtain t where "UnregisterTransaction env (this_trans s) (s\<lparr>notices := n\<rparr>) = (Inr (), t)"
      using UnregisterTransaction_returns [of env "s\<lparr>notices := n\<rparr>"] by metis
    then show ?thesis using True n by (simp add: cond_def step_simps) (simp add: seq_def bnd_def)
  qed (simp add: cond_def skip_def ret_def)
  define a where "a = s\<lparr>tx_avoidance := 0\<rparr>"
  obtain t where t: "?err a = (Inr (), t)" using e by blast
  obtain u where u: "?reg t = (Inr (), u)" using r by blast
  have "seq reactivation_avoidance_clear (seq ?err ?reg) s = (Inr (), u)"
    by (rule seqI, simp add: reactivation_avoidance_clear_def modify_def, fold a_def, rule seqI, rule t, rule u)
  then show ?thesis unfolding transaction_base_delete_def by (simp add: catch_class_def catch_def)
qed

lemma fresh_uncommitted: "keeps (status_in uncommitted) (fresh_transaction a il rw n)"
  unfolding fresh_transaction_def by (rule keeps_modify) (simp add: status_in_def uncommitted_def)

text \<open>
  A class whose objects are active once constructed, and whose constructor never commits. The rest
  is the contract of the virtual functions.
\<close>

locale transaction_class = transaction_hooks env "virtuals A"
  for env :: "'w env" and A :: "('w, 'u, 'z) argument_type" +
  assumes begins: "construct A n s = (Inr (), t) \<Longrightarrow> m_Status t = st_active"
    and constructs: "construct A n s = (Inl e, t) \<Longrightarrow> m_Status t \<in> uncommitted"
begin

lemma delete_returns:
  assumes "m_Status s \<in> over"
  shows "\<exists>t. transaction_delete env (virtuals A) s = (Inr (), t) \<and> m_Status t = m_Status s"
proof -
  obtain t where t: "End env (do_abort (virtuals A)) s = (Inr (), t)" "m_Status t = m_Status s"
    using assms End_not_active [of s env "do_abort (virtuals A)"] End_closed_returns [of env s] closed_fields
    by (fastforce simp: over_def)
  obtain u where u: "transaction_base_delete env t = (Inr (), u)" using base_delete_returns by blast
  have "m_Status u = m_Status t"
    using keepsD [OF status_base_delete, of "{m_Status t}" t env] u by (simp add: status_in_def)
  then show ?thesis using t u by (simp add: transaction_delete_def seq_def bnd_def)
qed

lemma delete_uncommitted: "keeps (status_in uncommitted) (transaction_delete env (virtuals A))"
  unfolding transaction_delete_def by (intro keeps_intros End_status) (simp add: uncommitted_def)

lemma commit_returned:
  assumes "commit env (virtuals A) s = (Inr (), t)" "m_Status s \<noteq> st_nascent"
  shows "m_Status t = st_committed"
proof -
  have p: "m_PendingError s = []"
    using assms(1) by (auto simp: commit_def seq_def bnd_def CheckPendingError_cases throw_def split: if_splits)
  show ?thesis
  proof (cases "m_Status s = st_active")
    case True
    then have f: "m_Focus s = None" "is_open env s"
      using assms(1) p by (auto simp: commit_def seq_def bnd_def gets_def CheckPendingError_cases skip_def ret_def cond_def
          throw_def split: option.splits if_splits)
    consider s1 s' where "commit env (virtuals A) s = (Inr (), s')" "closed (s1\<lparr>m_Status := st_committed,
        m_Vars := fold (\<lambda>(k, v). omap_put string_less k v) (tx_Vars s1) (m_Vars s1)\<rparr>) s'"
      | e x where "commit env (virtuals A) s = (Inl e, x)"
      using commit_outcome [OF True p f, of "virtuals A"] by metis
    then show ?thesis using assms(1) closed_fields by cases fastforce+
  next
    case False
    then have "m_Status s = st_committed"
      using assms p by (cases "m_Status s")
        (auto simp: commit_def seq_def bnd_def gets_def CheckPendingError_cases skip_def ret_def throw_def)
    moreover have "m_Status (snd (commit env (virtuals A) s)) = m_Status s"
      using closed_calls [of s env "virtuals A" Call_commit] calculation by (simp add: perform_call_def over_def)
    ultimately show ?thesis using assms(1) by simp
  qed
qed

lemma commit_threw:
  assumes "commit env (virtuals A) s = (Inl e, t)" "m_Status s \<in> {st_active, st_aborted}"
  shows "m_Status t \<in> uncommitted \<or> caught_as In_doubt_error e"
proof (cases "m_Status s = st_active \<and> m_PendingError s = [] \<and> m_Focus s = None \<and> is_open env s")
  case True
  consider s' where "commit env (virtuals A) s = (Inr (), s')"
    | e' s1 where "do_commit (virtuals A) s = (Inl e', s1)" "commit env (virtuals A) s = (Inl e',
       if caught_as In_doubt_error e' then s1\<lparr>m_Status := st_in_doubt\<rparr>
       else if caught_as Std_exception e' then s1\<lparr>m_Status := st_aborted\<rparr> else s1)"
    using commit_outcome [of s env "virtuals A"] True by metis
  then show ?thesis
  proof cases
    case 2
    have "lifecycle s1 = lifecycle s" using frameD [OF commit_frame, of s] 2(1) by simp
    then have "m_Status s1 = st_active" using True by (simp add: lifecycle_def)
    then show ?thesis using 2(2) assms(1) by (auto simp: uncommitted_def split: if_splits)
  qed (use assms(1) in simp)
next
  case False
  then have "m_Status t = m_Status s"
    using assms by (auto simp: commit_def seq_def bnd_def gets_def CheckPendingError_cases skip_def ret_def cond_def
        throw_def split: option.splits if_splits)
  then show ?thesis using assms(2) by (auto simp: uncommitted_def)
qed

text \<open>
  An attempt that returns has committed its transaction. One that throws has not, and is not in doubt
  either, unless the exception says so; this is for a body that leaves the commit to the loop.
\<close>

lemma attempt_returned:
  assumes "attempt env A T s = (Inr (), t)" "keeps (status_in {st_active, st_aborted}) (t_body T)"
  shows "m_Status t = st_committed"
proof -
  obtain a where a: "construct A (t_Name T) s = (Inr (), a)"
    and r: "seq (catch_all (seq (t_body T) (commit env (virtuals A)))
        (\<lambda>e. seq (transaction_delete env (virtuals A)) (throw e))) (transaction_delete env (virtuals A)) a = (Inr (), t)"
    using seq_returned [OF assms(1) [unfolded attempt_def]] by auto
  obtain c where c: "seq (t_body T) (commit env (virtuals A)) a = (Inr (), c)"
    and d: "transaction_delete env (virtuals A) c = (Inr (), t)"
    using seq_returned [OF r] catch_rethrown by fastforce
  obtain b where b: "t_body T a = (Inr (), b)" "commit env (virtuals A) b = (Inr (), c)"
    using seq_returned [OF c] by auto
  have "m_Status b \<in> {st_active, st_aborted}"
    using keepsD [OF assms(2), of a] begins [OF a] b(1) by (simp add: status_in_def)
  then have "m_Status c = st_committed" using commit_returned [OF b(2)] by auto
  then show ?thesis using delete_returns [of c] d by (auto simp: over_def)
qed

lemma body_threw:
  assumes "seq (t_body T) (commit env (virtuals A)) a = (Inl e, u)" "m_Status a = st_active"
    and "keeps (status_in {st_active, st_aborted}) (t_body T)"
  shows "m_Status u \<in> uncommitted \<or> caught_as In_doubt_error e"
proof (cases "t_body T a")
  case (Pair r b)
  have b: "m_Status b \<in> {st_active, st_aborted}"
    using keepsD [OF assms(3), of a] assms(2) Pair by (simp add: status_in_def)
  show ?thesis
  proof (cases r)
    case Inl
    then have "u = b" using assms(1) Pair by (simp add: seq_def bnd_def)
    then show ?thesis using b by (auto simp: uncommitted_def)
  next
    case Inr
    then have "commit env (virtuals A) b = (Inl e, u)" using assms(1) Pair by (simp add: seq_def bnd_def)
    then show ?thesis using commit_threw b by blast
  qed
qed

lemma uncommitted_or_over: "m_Status u \<in> uncommitted \<or> m_Status u \<in> over"
  by (cases "m_Status u") (simp_all add: uncommitted_def over_def)

lemma deleted_uncommitted:
  "transaction_delete env (virtuals A) u = (r, t) \<Longrightarrow> m_Status u \<in> uncommitted \<Longrightarrow> m_Status t \<in> uncommitted"
  using keepsD [OF delete_uncommitted, of u] by (simp add: status_in_def)

text \<open>Leaving the block by an exception destroys the transaction first.\<close>

lemma guarded_threw:
  assumes "catch_all (seq (t_body T) (commit env (virtuals A))) (\<lambda>e. seq (transaction_delete env (virtuals A)) (throw e)) a = (Inl e, t)"
    and "m_Status a = st_active" "keeps (status_in {st_active, st_aborted}) (t_body T)"
    and "cls e \<notin> {Undefined_behaviour, Terminated, Diverged}"
  shows "m_Status t \<in> uncommitted \<or> caught_as In_doubt_error e"
proof -
  let ?del = "transaction_delete env (virtuals A)"
  let ?run = "seq (t_body T) (commit env (virtuals A))"
  obtain e' u where tr: "?run a = (Inl e', u)"
    using assms(1) by (cases "?run a") (auto simp: catch_all_def catch_def split: sum.splits)
  have "cls e' \<notin> {Undefined_behaviour, Terminated, Diverged}"
    using assms(1,4) tr by (auto simp: catch_all_def catch_def throw_def)
  then have d: "seq ?del (throw e') u = (Inl e :: exn + unit, t)" using assms(1) tr by (simp add: catch_all_def catch_def)
  show ?thesis
  proof (cases "m_Status u \<in> uncommitted")
    case True
    have "snd (?del u) = t" using d by (auto simp: seq_def bnd_def throw_def split: prod.splits sum.splits)
    then show ?thesis using deleted_uncommitted [of u "fst (?del u)" t] True by (metis prod.collapse)
  next
    case False
    then obtain v where "?del u = (Inr (), v)" using uncommitted_or_over delete_returns by blast
    then have "e = e'" using d by (simp add: seq_def bnd_def throw_def)
    then show ?thesis using body_threw [OF tr assms(2,3)] False by simp
  qed
qed

lemma attempt_threw:
  assumes "attempt env A T s = (Inl e, t)" "keeps (status_in {st_active, st_aborted}) (t_body T)"
    and "cls e \<notin> {Undefined_behaviour, Terminated, Diverged}"
  shows "m_Status t \<in> uncommitted \<or> caught_as In_doubt_error e"
proof (cases "construct A (t_Name T) s")
  case (Pair r a)
  let ?del = "transaction_delete env (virtuals A)"
  let ?guarded = "catch_all (seq (t_body T) (commit env (virtuals A))) (\<lambda>e. seq ?del (throw e))"
  show ?thesis
  proof (cases r)
    case Inl
    then have "construct A (t_Name T) s = (Inl e, t)" using assms(1) Pair by (simp add: attempt_def seq_def bnd_def)
    then show ?thesis using constructs by blast
  next
    case (Inr x)
    then have c: "construct A (t_Name T) s = (Inr (), a)" using Pair by simp
    have r: "seq ?guarded ?del a = (Inl e, t)" using assms(1) c by (simp add: attempt_def seq_def bnd_def)
    consider "?guarded a = (Inl e, t)" | c where "?guarded a = (Inr (), c)" "?del c = (Inl e, t)"
      using seq_threw [OF r] by auto
    then show ?thesis
    proof cases
      case 1
      then show ?thesis using begins [OF c] assms(2,3) by (rule guarded_threw)
    next
      case 2
      then have "m_Status c \<in> uncommitted" using uncommitted_or_over [of c] delete_returns [of c] by auto
      then show ?thesis using deleted_uncommitted [OF 2(2)] by blast
    qed
  qed
qed

end

section \<open>The plain transaction is such a class\<close>

lemma Begin_active:
  assumes "Begin env b a s = (Inr (), t)"
  shows "m_Status t = st_active"
proof -
  have "cond (\<lambda>s. m_Status s \<noteq> st_nascent) (throw x) m s = (Inr (), t) \<Longrightarrow> m s = (Inr (), t)" for x and m :: "('a, 'b, unit) tprog"
    by (auto simp: cond_def throw_def split: if_splits)
  then have "catch_std (bnd (get_notifs env) (\<lambda>_. seq b (set_Status st_active))) (\<lambda>e. seq (End env a) (throw e)) s = (Inr (), t)"
    using assms unfolding Begin_def by blast
  then have "bnd (get_notifs env) (\<lambda>_. seq b (set_Status st_active)) s = (Inr (), t)"
    by (cases "bnd (get_notifs env) (\<lambda>_. seq b (set_Status st_active)) s")
      (auto simp: catch_class_def catch_def throw_def seq_def bnd_def split: sum.splits if_splits prod.splits)
  then obtain u where "seq b (set_Status st_active) u = (Inr (), t)" using bnd_returned by metis
  then obtain v where "set_Status st_active v = (Inr (), t)" using seq_returned by metis
  then show ?thesis by (auto simp: set_Status_def modify_def)
qed

lemma Begin_uncommitted: "keeps (status_in uncommitted) (Begin env (db_begin env) (db_abort env))"
  using basic.Begin_status [of uncommitted env] by (simp add: basic_hooks_def uncommitted_def)

lemma transaction_new_uncommitted: "keeps (status_in uncommitted) (transaction_new env)"
proof -
  have "keeps (status_in uncommitted) (transaction_base_init True)"
    unfolding transaction_base_init_def RegisterTransaction_def lift_exn_def
    by (intro keeps_intros keeps_if; simp add: status_in_def)
  then show ?thesis unfolding transaction_new_def by (intro keeps_intros Begin_uncommitted)
qed

interpretation plain: transaction_class env "plain_transaction env a il rw" for env a il rw
proof unfold_locales
  let ?A = "plain_transaction env a il rw"
  show "frame lifecycle (do_begin (virtuals ?A))" "frame lifecycle (do_commit (virtuals ?A))" "frame lifecycle (do_abort (virtuals ?A))"
    by (simp_all add: plain_transaction_def basic.begin_frame basic.commit_frame basic.abort_frame)
  show "keeps (status_in X) (do_exec (virtuals ?A) Q)" if "st_aborted \<in> X" for X Q
    using basic.exec_moves [OF that] by (simp add: plain_transaction_def)
  show "m_Status t = st_active" if "construct ?A n s = (Inr (), t)" for n s t
  proof -
    have "seq (fresh_transaction a il rw n) (transaction_new env) s = (Inr (), t)" using that by (simp add: plain_transaction_def)
    then obtain u where "transaction_new env u = (Inr (), t)" using seq_returned by metis
    then obtain v where "catch_all (Begin env (db_begin env) (db_abort env))
        (\<lambda>e. seq (transaction_base_delete env) (throw e)) v = (Inr (), t)"
      unfolding transaction_new_def using seq_returned by metis
    then show ?thesis by (rule Begin_active [OF catch_rethrown])
  qed
  show "m_Status t \<in> uncommitted" if "construct ?A n s = (Inl e, t)" for n s e t
  proof -
    have "seq (fresh_transaction a il rw n) (transaction_new env) s = (Inl e, t)" using that by (simp add: plain_transaction_def)
    then have "transaction_new env (snd (fresh_transaction a il rw n s)) = (Inl e, t)"
      by (simp add: fresh_transaction_def seq_def bnd_def modify_def)
    moreover have "status_in uncommitted (snd (fresh_transaction a il rw n s))"
      by (simp add: fresh_transaction_def modify_def status_in_def uncommitted_def)
    ultimately show ?thesis using keepsD [OF transaction_new_uncommitted, of "snd (fresh_transaction a il rw n s)" env]
      by (simp add: status_in_def)
  qed
qed

section \<open>Runs of attempts\<close>

text \<open>
  Attempts that failed and were followed by another one: each on a fresh copy, each told to the
  copy's \<open>on_abort\<close>, none in doubt. The list has how each left its transaction.
\<close>

inductive retried ::
  "'w env \<Rightarrow> ('w, 'u, 'z) argument_type \<Rightarrow> ('w, 'u, 'z) transactor \<Rightarrow> 'u \<Rightarrow> status list \<Rightarrow>
   ('w, 'u, 'z) perf_scheme \<Rightarrow> ('w, 'u, 'z) perf_scheme \<Rightarrow> bool"
  for env A T prototype where
  none: "retried env A T prototype [] s s"
| again: "attempt env A T (s\<lparr>T2 := prototype\<rparr>) = (Inl e, a) \<Longrightarrow> caught_as Std_exception e \<Longrightarrow>
    \<not> caught_as In_doubt_error e \<Longrightarrow> on_abort T (what e) a = (Inr (), b) \<Longrightarrow> retried env A T prototype sts b t \<Longrightarrow>
    retried env A T prototype (m_Status a # sts) s t"

lemma std_not_special: "caught_as Std_exception e \<Longrightarrow> cls e \<notin> {Undefined_behaviour, Terminated, Diverged}"
  by (cases "cls e") (auto simp: caught_as_def derives_from_eval)

lemma loop_after_retries:
  assumes "retried env A T prototype sts s t" "length sts < n"
  shows "perform_loop env A T prototype n s = perform_loop env A T prototype (n - length sts) t"
  using assms
proof (induction arbitrary: n rule: retried.induct)
  case (again s e a b sts t)
  obtain m where n: "n = Suc m" "m \<noteq> 0" using again.prems by (cases n) auto
  have "catch (seq (attempt env A T) (ret True)) (attempt_failed T m) (s\<lparr>T2 := prototype\<rparr>) = (Inr False, b)"
    using again.hyps(1-4) n(2) std_not_special [OF again.hyps(2)]
    by (simp add: catch_def seq_def bnd_def attempt_failed_def ret_def)
  then have "perform_loop env A T prototype n s = perform_loop env A T prototype m b"
    by (simp add: n(1) step_simps) (simp add: bnd_def)
  then show ?case using again.IH [of m] again.prems n by simp
qed simp

text \<open>How the loop goes: some attempts are retried, then there is one that decides.\<close>

definition decided ::
  "'w env \<Rightarrow> ('w, 'u, 'z) argument_type \<Rightarrow> ('w, 'u, 'z) transactor \<Rightarrow> 'u \<Rightarrow> ('w, 'u, 'z) perf_scheme \<Rightarrow>
   (exn + unit) \<times> ('w, 'u, 'z) perf_scheme \<Rightarrow> bool"
where
  "decided env A T prototype t x \<longleftrightarrow>
    (case attempt env A T (t\<lparr>T2 := prototype\<rparr>) of
       (Inr u, v) \<Rightarrow> x = on_commit T v
     | (Inl e, v) \<Rightarrow> \<exists>e' w. x = (Inl e', w))"

lemma failed_attempt_throws:
  assumes "n = 0 \<or> \<not> (caught_as Std_exception e \<and> \<not> caught_as In_doubt_error e \<and> (\<exists>b. on_abort T (what e) a = (Inr (), b)))"
  shows "\<exists>e' w. attempt_failed T n e a = (Inl e', w)"
  using assms
  by (auto simp: attempt_failed_def throw_def seq_def bnd_def ret_def split: prod.splits sum.splits)

lemma last_attempt_decides:
  assumes "n = 0 \<or> \<not> (\<exists>e a b. attempt env A T (s\<lparr>T2 := prototype\<rparr>) = (Inl e, a) \<and> caught_as Std_exception e \<and>
    \<not> caught_as In_doubt_error e \<and> on_abort T (what e) a = (Inr (), b))"
  shows "decided env A T prototype s (perform_loop env A T prototype (Suc n) s)"
proof (cases "attempt env A T (s\<lparr>T2 := prototype\<rparr>)")
  case (Pair r v)
  show ?thesis
  proof (cases r)
    case (Inl e)
    then have "n = 0 \<or> \<not> (caught_as Std_exception e \<and> \<not> caught_as In_doubt_error e \<and> (\<exists>b. on_abort T (what e) v = (Inr (), b)))"
      using assms Pair by blast
    then obtain e' w where "attempt_failed T n e v = (Inl e', w)" using failed_attempt_throws by blast
    then have "perform_loop env A T prototype (Suc n) s = (Inl e', w)"
      using Pair Inl by (simp add: step_simps) (simp add: seq_def bnd_def catch_def)
    then show ?thesis using Pair Inl by (simp add: decided_def)
  next
    case Inr
    then have "perform_loop env A T prototype (Suc n) s = on_commit T v"
      using Pair by (simp add: step_simps) (simp add: seq_def bnd_def catch_def ret_def)
    then show ?thesis using Pair Inr by (simp add: decided_def)
  qed
qed

lemma loop_decides:
  "\<exists>sts t. retried env A T prototype sts s t \<and> length sts < Suc n \<and>
    decided env A T prototype t (perform_loop env A T prototype (Suc n) s)"
proof (induction n arbitrary: s)
  case 0
  show ?case
    by (rule exI [of _ "[]"], rule exI [of _ s], intro conjI, rule retried.none, simp, rule last_attempt_decides, simp)
next
  case (Suc n)
  let ?a = "attempt env A T (s\<lparr>T2 := prototype\<rparr>)"
  show ?case
  proof (cases "\<exists>e a b. ?a = (Inl e, a) \<and> caught_as Std_exception e \<and> \<not> caught_as In_doubt_error e \<and>
      on_abort T (what e) a = (Inr (), b)")
    case True
    then obtain e a b where r: "?a = (Inl e, a)" "caught_as Std_exception e" "\<not> caught_as In_doubt_error e"
      "on_abort T (what e) a = (Inr (), b)" by blast
    have one: "perform_loop env A T prototype (Suc (Suc n)) s = perform_loop env A T prototype (Suc n) b"
      using loop_after_retries [OF retried.again [OF r retried.none], of "Suc (Suc n)"] by simp
    obtain sts t where t: "retried env A T prototype sts b t" "length sts < Suc n"
      and o: "decided env A T prototype t (perform_loop env A T prototype (Suc n) b)"
      using Suc.IH [of b] by blast
    have "retried env A T prototype (m_Status a # sts) s t" "length (m_Status a # sts) < Suc (Suc n)"
      using retried.again [OF r t(1)] t(2) by simp_all
    then show ?thesis using o unfolding one
      by (intro exI [of _ "m_Status a # sts"] exI [of _ t] conjI)
  next
    case False
    show ?thesis
      by (rule exI [of _ "[]"], rule exI [of _ s], intro conjI, rule retried.none, simp, rule last_attempt_decides)
        (use False in blast)
  qed
qed

lemma retried_uncommitted:
  assumes "retried env (plain_transaction env a il rw) T prototype sts s t"
    and "keeps (status_in {st_active, st_aborted}) (t_body T)" "st \<in> set sts"
  shows "st \<in> uncommitted"
  using assms(1,3)
proof (induction rule: retried.induct)
  case (again s e a b sts t)
  then show ?case
    using plain.attempt_threw [OF again.hyps(1) assms(2) std_not_special [OF again.hyps(2)]] by auto
qed simp

section \<open>Properties\<close>

text \<open>
  C8: when \<open>perform\<close> returns, its work has been committed once: all attempts but the last one failed without
  committing anything and without doubt, the last one, on a fresh copy of the transactor, committed, and
  \<open>on_commit\<close> was called after that and after nothing else. For a body that leaves the
  commit to \<open>perform\<close>.
\<close>

theorem perform_commits_once:
  assumes "perform env (plain_transaction env a il rw) T prototype n s = (Inr (), u)" "0 < n"
    and "keeps (status_in {st_active, st_aborted}) (t_body T)"
  shows "\<exists>sts t v. retried env (plain_transaction env a il rw) T prototype sts s t \<and> int (length sts) < n \<and>
    set sts \<subseteq> uncommitted \<and> attempt env (plain_transaction env a il rw) T (t\<lparr>T2 := prototype\<rparr>) = (Inr (), v) \<and>
    m_Status v = st_committed \<and> on_commit T v = (Inr (), u)"
proof -
  let ?A = "plain_transaction env a il rw"
  obtain m where m: "nat n = Suc m" using assms(2) by (cases "nat n") auto
  have l: "perform_loop env ?A T prototype (Suc m) s = (Inr (), u)" using assms(1,2) m by (simp add: perform_def)
  obtain sts t where t: "retried env ?A T prototype sts s t" "length sts < Suc m"
    and o: "decided env ?A T prototype t (perform_loop env ?A T prototype (Suc m) s)"
    using loop_decides [of env ?A T prototype s m] by blast
  obtain v where v: "attempt env ?A T (t\<lparr>T2 := prototype\<rparr>) = (Inr (), v)" "on_commit T v = (Inr (), u)"
    using o l by (cases "attempt env ?A T (t\<lparr>T2 := prototype\<rparr>)") (auto simp: decided_def split: sum.splits)
  have "m_Status v = st_committed" using plain.attempt_returned [OF v(1) assms(3)] .
  moreover have "set sts \<subseteq> uncommitted" using retried_uncommitted [OF t(1) assms(3)] by blast
  moreover have "int (length sts) < n" using t(2) m by simp
  ultimately show ?thesis using t(1) v by blast
qed

text \<open>
  C18: a failure in doubt ends it: after any number of retried attempts, the copy is told by \<open>on_doubt\<close>, the
  exception is passed on, and no other attempt is made.
\<close>

theorem perform_stops_in_doubt:
  assumes "retried env A T prototype sts s t" "int (length sts) < n"
    and "attempt env A T (t\<lparr>T2 := prototype\<rparr>) = (Inl e, v)" "caught_as In_doubt_error e"
  shows "perform env A T prototype n s = seq (on_doubt T) (throw e) v"
proof -
  have n: "length sts < nat n" using assms(2) by simp
  then obtain m where m: "nat n - length sts = Suc m" by (cases "nat n - length sts") auto
  have "cls e \<notin> {Undefined_behaviour, Terminated, Diverged}"
    using assms(4) by (cases "cls e") (auto simp: caught_as_def derives_from_eval)
  then have f: "attempt_failed T m e v = seq (on_doubt T) (throw e) v" using assms(4) by (simp add: attempt_failed_def)
  have "perform_loop env A T prototype (Suc m) t = seq (on_doubt T) (throw e) v"
    using assms(3) f by (simp add: step_simps)
      (auto simp: seq_def bnd_def catch_def throw_def split: prod.splits sum.splits)
  moreover have "\<not> n \<le> 0" using assms(2) by simp
  ultimately show ?thesis using loop_after_retries [OF assms(1) n] m by (simp add: perform_def del: perform_loop.simps)
qed

text \<open>
  C22: as long as attempts are left, failures do not matter: if the attempts retried are fewer than allowed and the
  next one succeeds, \<open>perform\<close> ends with \<open>on_commit\<close>.
\<close>

theorem perform_succeeds_eventually:
  assumes "retried env A T prototype sts s t" "int (length sts) < n"
    and "attempt env A T (t\<lparr>T2 := prototype\<rparr>) = (Inr (), v)"
  shows "perform env A T prototype n s = on_commit T v"
proof -
  have n: "length sts < nat n" using assms(2) by simp
  then obtain m where m: "nat n - length sts = Suc m" by (cases "nat n - length sts") auto
  have "perform_loop env A T prototype (Suc m) t = on_commit T v"
    using assms(3) by (simp add: step_simps) (simp add: seq_def bnd_def catch_def ret_def)
  moreover have "\<not> n \<le> 0" using assms(2) by simp
  ultimately show ?thesis using loop_after_retries [OF assms(1) n] m by (simp add: perform_def del: perform_loop.simps)
qed

section \<open>Witnesses\<close>

lemma quiet_query:
  assumes "m_Conn s = Some 1" "m_Completed s" "m_Trans s \<noteq> None" "m_PendingError s = []"
  shows "\<exists>R. DirectExec quiet_env Q n s = (Inr R, s)"
proof -
  have o: "is_open quiet_env s" using assms(1,2) by (simp add: is_open_def Status_def quiet_env_def)
  have "Exec quiet_env Q n s = (case CheckStatus (make_result_object (Some (sample_rows [] 0)) 3 Q 6) of
      Inl e \<Rightarrow> (Inl e, s\<lparr>world := world s\<rparr>) | Inr _ \<Rightarrow>
      (Inr (make_result_object (Some (sample_rows [] 0)) 3 Q 6), s\<lparr>world := world s\<rparr>))"
    by (rule Exec_answered [OF o assms(3)]) (simp_all add: quiet_env_def)
  then show ?thesis using assms(4)
    by (simp add: DirectExec_def seq_def bnd_def CheckPendingError_cases make_result_object_def CheckStatus_def StatusError_def
        sample_rows_def)
qed

lemma quiet_attempt:
  assumes "m_Conn s = Some 1" "m_Completed s" "m_Trans s = None" "t_body T = skip"
  shows "\<exists>v. attempt quiet_env (plain_transaction quiet_env a il rw) T s = (Inr (), v)"
proof -
  let ?A = "plain_transaction quiet_env a il rw"
  define b where "b = snd (fresh_transaction a il rw (t_Name T) s)"
  define c where "c = b\<lparr>m_Trans := Some (this_trans b), m_Registered := True\<rparr>"
  define d where "d = c\<lparr>m_Status := st_active\<rparr>"
  have b: "m_Conn b = Some 1" "m_Completed b" "m_Trans b = None" "m_PendingError b = []" "m_Status b = st_nascent" "m_Focus b = None"
    using assms(1-3) by (simp_all add: b_def fresh_transaction_def modify_def)
  have reg: "transaction_base_init True b = (Inr (), c)"
    using b(3) by (simp add: transaction_base_init_def RegisterTransaction_def seq_def bnd_def gets_def modify_def
        lift_exn_def unique_Register_def CheckUniqueRegistration_def ret_def c_def)
  have n: "get_notifs quiet_env c = (Inr 0, c)"
    using get_notifs_in_transaction [of quiet_env c "world c"] b
    by (simp add: c_def is_open_def Status_def quiet_env_def)
  obtain R where R: "DirectExec quiet_env (m_StartCmd c) (if m_reactivation_avoidance c \<noteq> 0 then 0 else 2) c = (Inr R, c)"
    using quiet_query [of c] b by (auto simp: c_def)
  have db: "db_begin quiet_env c = (Inr (), c)" using R by (auto simp: db_begin_def seq_def bnd_def gets_def skip_def ret_def split: if_splits)
  have beg: "Begin quiet_env (db_begin quiet_env) (db_abort quiet_env) c = (Inr (), d)"
    using n db b(5) by (simp add: Begin_def cond_def catch_class_def catch_def bnd_def seq_def set_Status_def modify_def c_def d_def)
  have con: "construct ?A (t_Name T) s = (Inr (), d)"
  proof -
    have "fresh_transaction a il rw (t_Name T) s = (Inr (), b)" by (simp add: b_def fresh_transaction_def modify_def)
    then show ?thesis using reg beg
      by (simp add: plain_transaction_def transaction_new_def seq_def bnd_def catch_all_def catch_def)
  qed
  have d: "m_Status d = st_active" "m_PendingError d = []" "m_Focus d = None" "is_open quiet_env d"
    using b by (simp_all add: d_def c_def is_open_def Status_def quiet_env_def)
  obtain R' where "DirectExec quiet_env sql_commit_work 0 d = (Inr R', d)"
    using quiet_query [of d sql_commit_work 0] b by (auto simp: d_def c_def)
  then have "do_commit (virtuals ?A) d = (Inr (), d)"
    by (simp add: plain_transaction_def basic_hooks_def basic_commit_def catch_class_def catch_def bnd_def skip_def ret_def)
  then obtain e where e: "commit quiet_env (virtuals ?A) d = (Inr (), e)"
    using commit_outcome [OF d, of "virtuals ?A"] by auto
  have "m_Status e = st_committed" using plain.commit_returned [OF e] d(1) by simp
  then obtain v where "transaction_delete quiet_env (virtuals ?A) e = (Inr (), v)"
    using plain.delete_returns [of e quiet_env a il rw] by (auto simp: over_def)
  then have "attempt quiet_env ?A T s = (Inr (), v)"
    using con e assms(4) by (simp add: attempt_def seq_def bnd_def catch_all_def catch_def skip_def ret_def)
  then show ?thesis by blast
qed

text \<open>A job that only counts its callbacks, and a connection to a quiet server.\<close>

definition counting_job :: "(nat, unit, unit) transactor" where
  "counting_job = \<lparr>t_Name = ''job'', t_body = skip, on_abort = (\<lambda>_. modify (\<lambda>s. s\<lparr>world := world s + 1\<rparr>)),
     on_commit = skip, on_doubt = modify (\<lambda>s. s\<lparr>world := world s + 100\<rparr>)\<rparr>"

lemma T2_unit [simp]: "(s :: (nat, unit) perf)\<lparr>T2 := ()\<rparr> = s"
  by (cases s) simp

lemma counting_on_commit [simp]: "on_commit counting_job = ret ()"
  by (simp add: counting_job_def skip_def)

lemma counting_body [simp]: "t_body counting_job = skip"
  by (simp add: counting_job_def)

definition job_conn :: "nat \<Rightarrow> (nat, unit) perf" where
  "job_conn w = tx.extend (new_tx (open_conn w) \<lparr>addr = 1, classname = [], name = []\<rparr> []) \<lparr>T2 = ()\<rparr>"

lemma job_conn_fields [simp]:
  "m_Conn (job_conn w) = Some 1" "m_Completed (job_conn w)" "m_Trans (job_conn w) = None" "world (job_conn w) = w"
  by (simp_all add: job_conn_def tx.extend_def new_tx_def conn.extend_def open_conn_def connection_base_def)

theorem perform_commits_once_witness:
  "\<exists>u sts t v. perform quiet_env (plain_transaction quiet_env 1 Read_committed Read_write) counting_job () 3 (job_conn 0) = (Inr (), u) \<and>
     retried quiet_env (plain_transaction quiet_env 1 Read_committed Read_write) counting_job () sts (job_conn 0) t \<and>
     int (length sts) < 3 \<and> attempt quiet_env (plain_transaction quiet_env 1 Read_committed Read_write) counting_job (t\<lparr>T2 := ()\<rparr>) =
       (Inr (), v) \<and> m_Status v = st_committed"
proof -
  let ?A = "plain_transaction quiet_env 1 Read_committed Read_write"
  obtain v where v: "attempt quiet_env ?A counting_job (job_conn 0) = (Inr (), v)"
    using quiet_attempt [of "job_conn 0" counting_job 1 Read_committed Read_write] counting_body by auto
  have p: "perform quiet_env ?A counting_job () 3 (job_conn 0) = (Inr (), v)"
    using v by (simp add: perform_def eval_nat_numeral step_simps)
      (simp add: seq_def bnd_def catch_def ret_def)
  have k: "keeps (status_in {st_active, st_aborted}) (t_body counting_job)" by (simp add: keeps_skip)
  have pos: "0 < (3 :: int)" by simp
  obtain sts t w where "retried quiet_env ?A counting_job () sts (job_conn 0) t" "int (length sts) < 3"
    and "attempt quiet_env ?A counting_job (t\<lparr>T2 := ()\<rparr>) = (Inr (), w)" and "m_Status w = st_committed"
    using perform_commits_once [OF p pos k] by (elim exE conjE) (rule that)
  then show ?thesis using p by (intro exI [of _ v] exI [of _ sts] exI [of _ t] exI [of _ w] conjI)
qed

text \<open>A class whose constructor fails while the server cannot be reached.\<close>

definition unreachable :: "exn \<Rightarrow> (nat, unit, unit) argument_type" where
  "unreachable e0 = (plain_transaction quiet_env 1 Read_committed Read_write)\<lparr>construct := \<lambda>n s.
     if world s < 2 then (Inl (failure ''unreachable''), s)
     else if world s = 2 then construct (plain_transaction quiet_env 1 Read_committed Read_write) n s
     else (Inl e0, s)\<rparr>"

lemma unreachable_retried:
  "w < 2 \<Longrightarrow> retried quiet_env (unreachable e) counting_job () sts (job_conn (Suc w)) t \<Longrightarrow>
     retried quiet_env (unreachable e) counting_job () (st_nascent # sts) (job_conn w) t"
proof -
  assume w: "w < 2" and r: "retried quiet_env (unreachable e) counting_job () sts (job_conn (Suc w)) t"
  have "attempt quiet_env (unreachable e) counting_job ((job_conn w)\<lparr>T2 := ()\<rparr>) = (Inl (failure ''unreachable''), job_conn w)"
    using w by (simp add: attempt_def seq_def bnd_def unreachable_def)
  moreover have "m_Status (job_conn w) = st_nascent" by (simp add: job_conn_def tx.extend_def new_tx_def conn.extend_def)
  moreover have "on_abort counting_job m (job_conn w) = (Inr (), job_conn (Suc w))" for m
    by (simp add: counting_job_def modify_def job_conn_def tx.extend_def new_tx_def conn.extend_def open_conn_def connection_base_def)
  ultimately show ?thesis
    using retried.again [of quiet_env "unreachable e" counting_job "()" "job_conn w" "failure ''unreachable''" "job_conn w"
        "job_conn (Suc w)" sts t] r
    by (simp add: caught_as_def failure_def plain_def derives_from_eval)
qed

lemma unreachable_third:
  "attempt quiet_env (unreachable e) counting_job ((job_conn 2)\<lparr>T2 := ()\<rparr>) =
     attempt quiet_env (plain_transaction quiet_env 1 Read_committed Read_write) counting_job (job_conn 2)"
  by (simp add: attempt_def seq_def bnd_def unreachable_def)

theorem perform_succeeds_eventually_witness:
  "\<exists>v. perform quiet_env (unreachable (failure ''down'')) counting_job () 3 (job_conn 0) = on_commit counting_job v"
proof -
  have r: "retried quiet_env (unreachable (failure ''down'')) counting_job () [st_nascent, st_nascent] (job_conn 0) (job_conn 2)"
    by (intro unreachable_retried) (simp_all add: retried.none numeral_2_eq_2)
  obtain v where "attempt quiet_env (unreachable (failure ''down'')) counting_job ((job_conn 2)\<lparr>T2 := ()\<rparr>) = (Inr (), v)"
    using quiet_attempt [of "job_conn 2" counting_job 1 Read_committed Read_write] unreachable_third by auto
  from perform_succeeds_eventually [OF r _ this] show ?thesis by auto
qed

theorem perform_stops_in_doubt_witness:
  "fst (perform quiet_env (unreachable (in_doubt_error ''lost'')) counting_job () 5 (job_conn 3)) =
     Inl (in_doubt_error ''lost'')"
proof -
  have "attempt quiet_env (unreachable (in_doubt_error ''lost'')) counting_job ((job_conn 3)\<lparr>T2 := ()\<rparr>) =
      (Inl (in_doubt_error ''lost''), job_conn 3)"
    by (simp add: attempt_def seq_def bnd_def unreachable_def)
  from perform_stops_in_doubt [OF retried.none _ this] show ?thesis
    by (simp add: caught_as_def in_doubt_error_def plain_def derives_from_eval seq_def bnd_def counting_job_def modify_def throw_def)
qed

end
