(* ===== verification/Copy_Codec.thy ===== *)
theory Copy_Codec
  imports Util
begin

text \<open>
  The text format of COPY: \<^verbatim>\<open>Escape\<close> and its helpers of \<^verbatim>\<open>src/tablewriter.cxx\<close>, the line generator of
  \<^verbatim>\<open>include/pqxx/tablewriter.hxx\<close>, and \<^verbatim>\<open>extract_field\<close> and \<^verbatim>\<open>tokenize\<close> of
  \<^verbatim>\<open>src/tablereader.cxx\<close> and \<^verbatim>\<open>include/pqxx/tablereader.hxx\<close>, which read a line back. The reader works on
  an index into the line, as the source does.
\<close>

abbreviation tab :: char where "tab \<equiv> CHR 0x09"
abbreviation newline :: char where "newline \<equiv> CHR 0x0A"
abbreviation backslash :: char where "backslash \<equiv> CHR 0x5C"

section \<open>Writing a field\<close>

definition escapechar :: "char \<Rightarrow> char" where
  "escapechar i =
     (if i = CHR 0x08 then CHR ''b''
      else if i = CHR 0x0B then CHR ''v''
      else if i = CHR 0x0C then CHR ''f''
      else if i = newline then CHR ''n''
      else if i = tab then CHR ''t''
      else if i = CHR 0x0D then CHR ''r''
      else if i = backslash then backslash
      else CHR 0x00)"

definition unprintable :: "char \<Rightarrow> bool" where
  "unprintable i \<longleftrightarrow> char_value i < char_value (CHR '' '') \<or> char_value i > char_value (CHR ''~'')"

text \<open>Octal digit number \<open>n\<close> of a character, read as \<^verbatim>\<open>unsigned char\<close>.\<close>

definition tooctdigit :: "char \<Rightarrow> nat \<Rightarrow> char" where
  "tooctdigit c n = number_to_digit (of_char c div 8 ^ n mod 8)"

definition escape_char :: "char \<Rightarrow> string" where
  "escape_char c =
     (if escapechar c \<noteq> CHR 0x00 then [backslash, escapechar c]
      else if unprintable c
        then [backslash, backslash] @ [tooctdigit c 2, tooctdigit c 1, tooctdigit c 0]
      else [c])"

definition Escape :: "string \<Rightarrow> string \<Rightarrow> string" where
  "Escape s null =
     (if s = null then [backslash, CHR ''N'']
      else if s = [] then s
      else concat (map escape_char s))"

text \<open>\<^verbatim>\<open>EscapeAny\<close> for C strings: a null pointer is written as a null field.\<close>

definition EscapeAny :: "string option \<Rightarrow> string \<Rightarrow> string" where
  "EscapeAny s null = (case s of Some t \<Rightarrow> Escape t null | None \<Rightarrow> [backslash, CHR ''N''])"

definition generate :: "string \<Rightarrow> string list \<Rightarrow> string" where
  "generate null tuple = separated_list [tab] (map (\<lambda>f. Escape f null) tuple)"

section \<open>Reading a field\<close>

definition is_octalchar :: "char \<Rightarrow> bool" where
  "is_octalchar c \<longleftrightarrow> 48 \<le> char_value c \<and> char_value c \<le> 55"

definition findtab :: "string \<Rightarrow> nat \<Rightarrow> nat" where
  "findtab Line start =
     (if start < length Line
      then start + length (takeWhile (\<lambda>c. c \<noteq> tab) (drop start Line))
      else length Line)"

text \<open>\<^verbatim>\<open>char((d<<6) | (d1<<3) | d2)\<close>: the sum of the digits' weights, cut to eight bits.\<close>

definition octal_char :: "char \<Rightarrow> char \<Rightarrow> char \<Rightarrow> char" where
  "octal_char n n1 n2 =
     char_of (digit_to_number n * 64 + digit_to_number n1 * 8 + digit_to_number n2)"

definition simple_escape :: "char \<Rightarrow> char option" where
  "simple_escape n =
     (if n = CHR ''b'' then Some (CHR 0x08)
      else if n = CHR ''v'' then Some (CHR 0x0B)
      else if n = CHR ''f'' then Some (CHR 0x0C)
      else if n = CHR ''n'' then Some newline
      else if n = CHR ''t'' then Some tab
      else if n = CHR ''r'' then Some (CHR 0x0D)
      else None)"

lemma findtab_le: "findtab Line start \<le> length Line"
  using length_takeWhile_le [of "\<lambda>c. c \<noteq> tab" "drop start Line"] by (auto simp: findtab_def)

text \<open>
  The loop of \<^verbatim>\<open>extract_field\<close>: position \<open>i\<close>, current end of the field \<open>stop\<close>, text \<open>R\<close> so far.
  A newline ends the row: the source sets \<open>i\<close> to \<open>stop\<close> and the loop increments it once more.
\<close>

function ef_loop ::
  "string \<Rightarrow> string \<Rightarrow> nat \<Rightarrow> nat \<Rightarrow> string \<Rightarrow> bool \<Rightarrow> exn + string \<times> bool \<times> nat" where
  "ef_loop null Line i stop R isnull =
     (if \<not> i < stop then Inr (R, isnull, i)
      else let c = Line ! i in
        if c = newline then Inr (R, isnull, Suc stop)
        else if c = backslash then
          if Suc i \<ge> length Line then Inl (failure ''Row ends in backslash'')
          else let n = Line ! Suc i in
            if n = CHR ''N'' then
              if R \<noteq> [] then Inl (failure ''Null sequence found in nonempty field'')
              else ef_loop null Line (i + 2) stop null True
            else if is_octalchar n then
              if i + 3 \<ge> length Line then Inl (failure ''Row ends in middle of octal value'')
              else let n1 = Line ! (i + 2); n2 = Line ! (i + 3) in
                if \<not> is_octalchar n1 \<or> \<not> is_octalchar n2
                then Inl (failure ''Invalid octal in encoded table stream'')
                else ef_loop null Line (i + 4) stop (R @ [octal_char n n1 n2]) isnull
            else case simple_escape n of
                Some e \<Rightarrow> ef_loop null Line (i + 2) stop (R @ [e]) isnull
              | None \<Rightarrow>
                  if Suc i = stop then
                    if i + 2 \<ge> length Line
                    then Inl (internal_error ''COPY line ends in backslash'')
                    else ef_loop null Line (i + 2) (findtab Line (i + 2)) (R @ [n]) isnull
                  else ef_loop null Line (i + 2) stop (R @ [n]) isnull
        else ef_loop null Line (Suc i) stop (R @ [c]) isnull)"
  by pat_completeness auto
termination
  by (relation "measure (\<lambda>(null, Line, i, stop, R, isnull). max stop (length Line) - i)")
    (auto simp: max_def intro: diff_less_mono2 findtab_le [THEN order_trans])

declare ef_loop.simps [simp del]

definition extract_field :: "string \<Rightarrow> string \<Rightarrow> nat \<Rightarrow> exn + string \<times> nat" where
  "extract_field null Line i =
     (case ef_loop null Line i (findtab Line i) [] False of
        Inl e \<Rightarrow> Inl e
      | Inr (R, isnull, j) \<Rightarrow>
          if isnull \<and> length R \<noteq> length null
          then Inl (failure ''Field contains data behind null sequence'')
          else Inr (R, Suc j))"

lemma ef_loop_progress: "ef_loop null Line i stop R isnull = Inr (R', b, j) \<Longrightarrow> i \<le> j"
proof (induction null Line i stop R isnull rule: ef_loop.induct)
  case (1 null Line i stop R isnull)
  show ?case
    using "1.prems" "1.IH"
    by (subst (asm) ef_loop.simps)
      (fastforce simp: Let_def split: if_splits option.splits dest: Suc_leD)
qed

lemma extract_field_progress: "extract_field null Line i = Inr (R, j) \<Longrightarrow> i < j"
  by (auto simp: extract_field_def split: sum.splits if_splits dest: ef_loop_progress)

text \<open>\<^verbatim>\<open>tokenize\<close>: every field makes progress, so the loop ends.\<close>

function tokenize_from :: "string \<Rightarrow> string \<Rightarrow> nat \<Rightarrow> exn + string list" where
  "tokenize_from null Line here =
     (if here < length Line then
        (case extract_field null Line here of
           Inl e \<Rightarrow> Inl e
         | Inr (R, there) \<Rightarrow>
             (case tokenize_from null Line there of
                Inl e \<Rightarrow> Inl e | Inr rest \<Rightarrow> Inr (R # rest)))
      else Inr [])"
  by pat_completeness auto
termination
  by (relation "measure (\<lambda>(null, Line, here). length Line - here)")
    (auto dest!: extract_field_progress)

declare tokenize_from.simps [simp del]

definition tokenize :: "string \<Rightarrow> string \<Rightarrow> exn + string list" where
  "tokenize null Line = tokenize_from null Line 0"

section \<open>What a written character is read back as\<close>

text \<open>
  An unprintable byte is written as two backslashes and three octal digits, so the reader sees
  an escaped backslash followed by three ordinary digits.
\<close>

definition reread_char :: "char \<Rightarrow> string" where
  "reread_char c =
     (if escapechar c \<noteq> CHR 0x00 then [c]
      else if unprintable c then [backslash, tooctdigit c 2, tooctdigit c 1, tooctdigit c 0]
      else [c])"

definition reread :: "string \<Rightarrow> string \<Rightarrow> string" where
  "reread s null = (if s = null then s else concat (map reread_char s))"

definition clean_char :: "char \<Rightarrow> bool" where
  "clean_char c \<longleftrightarrow> escapechar c \<noteq> CHR 0x00 \<or> \<not> unprintable c"

lemma reread_clean: "list_all clean_char s \<Longrightarrow> reread s null = s"
proof -
  assume "list_all clean_char s"
  then have "concat (map reread_char s) = s"
    by (induction s) (auto simp: reread_char_def clean_char_def)
  then show ?thesis by (simp add: reread_def)
qed

lemma octdigit_range: "\<exists>i. 0 \<le> i \<and> i \<le> 7 \<and> tooctdigit c n = number_to_digit i"
  by (rule exI [of _ "of_char c div 8 ^ n mod 8"]) (simp add: tooctdigit_def)

lemma octdigit_plain:
  "tooctdigit c n \<noteq> newline" "tooctdigit c n \<noteq> backslash" "tooctdigit c n \<noteq> tab"
  "is_octalchar (tooctdigit c n)"
proof -
  obtain i where i: "0 \<le> i" "i \<le> 7" "tooctdigit c n = number_to_digit i"
    using octdigit_range by blast
  then have "char_value (tooctdigit c n) = i + 48"
    by (simp add: number_to_digit_def char_value_small)
  then show "tooctdigit c n \<noteq> newline" "tooctdigit c n \<noteq> backslash" "tooctdigit c n \<noteq> tab"
    "is_octalchar (tooctdigit c n)"
    using i(1,2) by (auto simp: char_value_def is_octalchar_def)
qed

lemma escape_char_no_separator: "tab \<notin> set (escape_char c)" "newline \<notin> set (escape_char c)"
  using octdigit_plain [of c] octdigit_plain(3) [of c, symmetric] octdigit_plain(1) [of c, symmetric]
  by (auto simp: escape_char_def escapechar_def split: if_splits)

lemma Escape_no_separator: "tab \<notin> set (Escape s null)" "newline \<notin> set (Escape s null)"
  using escape_char_no_separator by (auto simp: Escape_def)

lemma escapechar_nonzero:
  assumes "escapechar c \<noteq> CHR 0x00"
  shows "escapechar c \<noteq> CHR ''N'' \<and> \<not> is_octalchar (escapechar c) \<and>
    (simple_escape (escapechar c) = Some c \<or>
     c = backslash \<and> escapechar c = backslash \<and> simple_escape backslash = None)"
  using assms
  by (auto simp: escapechar_def simple_escape_def is_octalchar_def char_value_def split: if_splits)

lemma escapechar_newline_backslash [simp]:
  "escapechar newline = CHR ''n''" "escapechar backslash = backslash"
  by (simp_all add: escapechar_def)

lemma ef_loop_plain:
  assumes "i < stop" "Line ! i = c" "c \<noteq> newline" "c \<noteq> backslash"
  shows "ef_loop null Line i stop R b = ef_loop null Line (Suc i) stop (R @ [c]) b"
  using assms by (subst ef_loop.simps) (simp add: Let_def)

lemma ef_loop_backslash:
  assumes "Suc i < stop" "stop \<le> length Line" "Line ! i = backslash" "Line ! Suc i = n"
    and "n \<noteq> CHR ''N''" "\<not> is_octalchar n"
    and "simple_escape n = Some e \<or> simple_escape n = None \<and> e = n"
  shows "ef_loop null Line i stop R b = ef_loop null Line (i + 2) stop (R @ [e]) b"
  using assms by (subst ef_loop.simps) (auto simp: Let_def)

lemma ef_loop_escape_char:
  assumes "Line = pre @ escape_char c @ post"
    and "length pre + length (escape_char c) \<le> stop" "stop \<le> length Line"
  shows "ef_loop null Line (length pre) stop R b =
    ef_loop null Line (length pre + length (escape_char c)) stop (R @ reread_char c) b"
proof -
  let ?i = "length pre"
  consider (esc) "escapechar c \<noteq> CHR 0x00"
    | (oct) "escapechar c = CHR 0x00" "unprintable c"
    | (plain) "escapechar c = CHR 0x00" "\<not> unprintable c" by blast
  then show ?thesis
  proof cases
    case esc
    have "ef_loop null Line ?i stop R b = ef_loop null Line (?i + 2) stop (R @ [c]) b"
      using esc assms escapechar_nonzero [OF esc]
      by (intro ef_loop_backslash [where n = "escapechar c"])
        (auto simp: escape_char_def nth_append)
    then show ?thesis using esc by (simp add: escape_char_def reread_char_def)
  next
    case oct
    have L: "Line ! ?i = backslash" "Line ! Suc ?i = backslash"
      "Line ! (?i + 2) = tooctdigit c 2" "Line ! (?i + 3) = tooctdigit c 1"
      "Line ! (?i + 4) = tooctdigit c 0" "?i + 5 \<le> stop"
      using oct assms by (auto simp: escape_char_def nth_append)
    have "ef_loop null Line ?i stop R b = ef_loop null Line (?i + 2) stop (R @ [backslash]) b"
      using L assms(3) by (intro ef_loop_backslash [where n = backslash])
        (auto simp: is_octalchar_def char_value_def simple_escape_def)
    also have "\<dots> = ef_loop null Line (?i + 3) stop (R @ [backslash, tooctdigit c 2]) b"
      using L octdigit_plain by (subst ef_loop_plain [where c = "tooctdigit c 2"]) (auto simp: numeral_eq_Suc)
    also have "\<dots> = ef_loop null Line (?i + 4) stop
        (R @ [backslash, tooctdigit c 2, tooctdigit c 1]) b"
      using L octdigit_plain by (subst ef_loop_plain [where c = "tooctdigit c 1"]) (auto simp: numeral_eq_Suc)
    also have "\<dots> = ef_loop null Line (?i + 5) stop
        (R @ [backslash, tooctdigit c 2, tooctdigit c 1, tooctdigit c 0]) b"
      using L octdigit_plain by (subst ef_loop_plain [where c = "tooctdigit c 0"]) (auto simp: numeral_eq_Suc)
    finally show ?thesis using oct by (simp add: escape_char_def reread_char_def eval_nat_numeral)
  next
    case plain
    then have "c \<noteq> newline" "c \<noteq> backslash" by auto
    then show ?thesis
      using plain assms by (subst ef_loop_plain [where c = c])
        (auto simp: escape_char_def reread_char_def)
  qed
qed

lemma ef_loop_escaped:
  assumes "Line = pre @ concat (map escape_char s) @ post"
    and "stop = length pre + length (concat (map escape_char s))"
  shows "ef_loop null Line (length pre) stop R b = Inr (R @ concat (map reread_char s), b, stop)"
  using assms
proof (induction s arbitrary: pre R)
  case Nil
  then show ?case by (subst ef_loop.simps) simp
next
  case (Cons c s)
  have "ef_loop null Line (length pre) stop R b =
      ef_loop null Line (length (pre @ escape_char c)) stop (R @ reread_char c) b"
    using Cons.prems
    by (subst ef_loop_escape_char [where post = "concat (map escape_char s) @ post"]) auto
  then show ?case
    using Cons.IH [of "pre @ escape_char c" "R @ reread_char c"] Cons.prems by simp
qed

lemma ef_loop_null:
  assumes "Line ! i = backslash" "Line ! Suc i = CHR ''N''" "Suc i < length Line"
  shows "ef_loop null Line i (i + 2) [] b = Inr (null, True, i + 2)"
proof -
  have "ef_loop null Line (i + 2) (i + 2) null True = Inr (null, True, i + 2)"
    by (subst ef_loop.simps) simp
  then show ?thesis using assms by (subst ef_loop.simps) (simp add: Let_def)
qed

lemma findtab_field:
  assumes "Line = pre @ w @ post" "tab \<notin> set w" "post = [] \<or> (\<exists>q. post = tab # q)"
  shows "findtab Line (length pre) = length pre + length w"
proof -
  have "takeWhile (\<lambda>c. c \<noteq> tab) (w @ post) = w"
    using assms(2,3) by (subst takeWhile_append2) auto
  then show ?thesis using assms by (auto simp: findtab_def)
qed

lemma extract_field_Escape:
  assumes "Line = pre @ Escape s null @ post" "post = [] \<or> (\<exists>q. post = tab # q)"
  shows "extract_field null Line (length pre) =
    Inr (reread s null, Suc (length pre + length (Escape s null)))"
proof -
  have stop: "findtab Line (length pre) = length pre + length (Escape s null)"
    using assms Escape_no_separator by (intro findtab_field) auto
  show ?thesis
  proof (cases "s = null")
    case True
    then have "ef_loop null Line (length pre) (length pre + 2) [] False =
        Inr (null, True, length pre + 2)"
      using assms by (intro ef_loop_null) (auto simp: Escape_def nth_append)
    then show ?thesis
      using True stop by (simp add: extract_field_def Escape_def reread_def)
  next
    case False
    have e: "Escape s null = concat (map escape_char s)" using False by (simp add: Escape_def)
    show ?thesis
      using False stop ef_loop_escaped [of Line pre s post "findtab Line (length pre)" null "[]" False]
        assms e
      by (simp add: extract_field_def reread_def)
  qed
qed

section \<open>A whole line\<close>

lemma generate_Cons:
  "generate null (f # g # fs) = Escape f null @ tab # generate null (g # fs)"
  by (simp add: generate_def)

text \<open>
  \<^verbatim>\<open>tokenize\<close> stops at the end of the line, before it would read an empty last field.
\<close>

definition read_fields :: "string \<Rightarrow> string list \<Rightarrow> string list" where
  "read_fields null tuple =
     (if tuple \<noteq> [] \<and> Escape (last tuple) null = [] then butlast tuple else tuple)"

lemma tokenize_from_generate:
  "tokenize_from null (pre @ generate null tuple) (length pre) =
    Inr (map (\<lambda>f. reread f null) (read_fields null tuple))"
proof (induction tuple arbitrary: pre rule: induct_list012)
  case 1
  then show ?case by (subst tokenize_from.simps) (simp add: generate_def read_fields_def)
next
  case (2 f)
  let ?L = "pre @ generate null [f]"
  have end_: "tokenize_from null ?L (Suc (length ?L)) = Inr []"
    by (subst tokenize_from.simps) simp
  show ?case
  proof (cases "Escape f null = []")
    case True
    then show ?thesis by (subst tokenize_from.simps) (simp add: generate_def read_fields_def)
  next
    case False
    have "extract_field null ?L (length pre) = Inr (reread f null, Suc (length ?L))"
      using extract_field_Escape [of ?L pre f null "[]"] by (simp add: generate_def)
    then show ?thesis
      using False end_ by (subst tokenize_from.simps) (simp add: generate_def read_fields_def)
  qed
next
  case (3 f g fs)
  let ?L = "pre @ generate null (f # g # fs)"
  let ?pre = "pre @ Escape f null @ [tab]"
  have L: "?L = ?pre @ generate null (g # fs)" by (simp add: generate_Cons)
  have "extract_field null ?L (length pre) = Inr (reread f null, length ?pre)"
    using extract_field_Escape [of ?L pre f null "tab # generate null (g # fs)"]
    by (simp add: generate_Cons)
  moreover have "tokenize_from null ?L (length ?pre) =
      Inr (map (\<lambda>f. reread f null) (read_fields null (g # fs)))"
    unfolding L by (rule "3.IH"(2))
  ultimately show ?case
    by (subst tokenize_from.simps) (simp add: generate_Cons read_fields_def)
qed

lemma tokenize_generate:
  "tokenize null (generate null tuple) = Inr (map (\<lambda>f. reread f null) (read_fields null tuple))"
  using tokenize_from_generate [of null "[]" tuple] by (simp add: tokenize_def)

section \<open>Properties\<close>

text \<open>
  A tuple written as one COPY line is read back as the same fields, when its fields hold
  printable characters and the control characters that have a letter escape, and the last
  field is not written as the empty text. Null fields come back as the null string.
\<close>

theorem copy_line_roundtrip:
  assumes "\<forall>f \<in> set tuple. list_all clean_char f" "tuple \<noteq> []" "Escape (last tuple) null \<noteq> []"
  shows "tokenize null (generate null tuple) = Inr tuple"
proof -
  have "map (\<lambda>f. reread f null) tuple = tuple"
    using assms(1) by (auto intro!: map_idI reread_clean)
  then show ?thesis using assms(2,3) by (simp add: tokenize_generate read_fields_def)
qed

theorem copy_line_roundtrip_witness:
  "tokenize [] (generate [] [''a'' @ [tab] @ ''b'', [], ''c'' @ [backslash]]) =
     Inr [''a'' @ [tab] @ ''b'', [], ''c'' @ [backslash]]"
  by (rule copy_line_roundtrip) (simp_all add: clean_char_def escapechar_def unprintable_def
      char_value_def Escape_def escape_char_def)

text \<open>
  What any written line is read back as, without conditions: unprintable bytes come back
  as a backslash and three digits, and an empty last field is lost.
\<close>

theorem copy_line_reread:
  "tokenize null (generate null tuple) =
     Inr (map (\<lambda>f. reread f null)
       (if tuple \<noteq> [] \<and> Escape (last tuple) null = [] then butlast tuple else tuple))"
  using tokenize_generate by (simp add: read_fields_def)

text \<open>
  A byte that has no letter escape and is not printable does not survive the trip: the
  field that holds it is read back as a different text.
\<close>

theorem unprintable_byte_lost:
  assumes "escapechar c = CHR 0x00" "unprintable c" "null \<noteq> [c]"
  shows "tokenize null (generate null [[c]]) =
      Inr [[backslash, tooctdigit c 2, tooctdigit c 1, tooctdigit c 0]] \<and>
    tokenize null (generate null [[c]]) \<noteq> Inr [[c]]"
  using assms by (auto simp: tokenize_generate read_fields_def reread_def reread_char_def
      Escape_def escape_char_def)

theorem unprintable_byte_lost_witness:
  "tokenize [] (generate [] [[CHR 0xE9]]) =
      Inr [[backslash, tooctdigit (CHR 0xE9) 2, tooctdigit (CHR 0xE9) 1, tooctdigit (CHR 0xE9) 0]] \<and>
    tokenize [] (generate [] [[CHR 0xE9]]) \<noteq> Inr [[CHR 0xE9]]"
  by (rule unprintable_byte_lost) (simp_all add: escapechar_def unprintable_def char_value_def)

text \<open>
  A written field never contains the field separator or the row separator, so no field
  can be mistaken for two.
\<close>

theorem escaped_field_has_no_separator:
  "tab \<notin> set (Escape s null) \<and> newline \<notin> set (Escape s null)"
  using Escape_no_separator by simp

text \<open>
  Reading a field always moves past at least one position, which is what makes the loop of
  \<^verbatim>\<open>tokenize\<close> end.
\<close>

theorem extract_field_advances:
  assumes "extract_field null Line i = Inr (R, j)"
  shows "i < j"
  using assms by (rule extract_field_progress)

theorem extract_field_advances_witness: "(0::nat) < 3"
  by (rule extract_field_advances [where null = "[]" and Line = "''ab''" and R = "''ab''"])
    (simp add: extract_field_def findtab_def ef_loop.simps Let_def)

end
