(* ===== verification/Tablestream.thy ===== *)
theory Tablestream
  imports Focus Copy_Codec
begin

text \<open>
  Table streams (\<^verbatim>\<open>src/tablestream.cxx\<close>, \<^verbatim>\<open>src/tablereader.cxx\<close>, \<^verbatim>\<open>src/tablewriter.cxx\<close>): a COPY
  command as a stream of lines. The texts of the lines are those of theory Copy_Codec; here are the
  streams themselves, which hold the focus of their transaction from their setup until they are closed.
\<close>

section \<open>The common part\<close>

record 'w tstream = "'w focus" +
  m_Null :: string
  m_Finished :: bool

type_synonym ('w, 'z, 'a) sprog = "(('w, 'z) tstream_scheme, 'a) cxx"
type_synonym ('w, 'z) shooks = "('w, ('z tstream_ext) focus_ext) hooks"

definition tablestream_new :: "namedclass \<Rightarrow> string \<Rightarrow> ('w, 'z, unit) sprog" where
  "tablestream_new this Null =
     modify (\<lambda>s. s\<lparr>this_focus := this, f_registered := False, m_Null := Null, m_Finished := False\<rparr>)"

definition base_close :: "'w env \<Rightarrow> ('w, 'z, unit) sprog" where
  "base_close env = cond m_Finished skip (seq (modify (\<lambda>s. s\<lparr>m_Finished := True\<rparr>)) (unregister_me env))"

definition columnlist :: "string list \<Rightarrow> string" where
  "columnlist columns = separated_list '','' columns"

section \<open>\<open>tablereader\<close>\<close>

record 'w treader = "'w tstream" +
  m_Done :: bool

type_synonym ('w, 'z, 'a) rprog = "(('w, 'z) treader_scheme, 'a) cxx"
type_synonym ('w, 'z) rhooks = "('w, 'z treader_ext) shooks"

definition reader_setup :: "'w env \<Rightarrow> ('w, 'z) rhooks \<Rightarrow> string \<Rightarrow> string \<Rightarrow> ('w, 'z, unit) rprog" where
  "reader_setup env h Name Columns =
     seq (BeginCopyRead env h Name Columns)
     (seq register_me
          (modify (\<lambda>s. s\<lparr>m_Done := False\<rparr>)))"

definition tablereader_new ::
  "'w env \<Rightarrow> ('w, 'z) rhooks \<Rightarrow> nat \<Rightarrow> string \<Rightarrow> string \<Rightarrow> ('w, 'z, unit) rprog" where
  "tablereader_new env h a Name Null =
     seq (tablestream_new \<lparr>addr = a, classname = ''tablereader'', name = Name\<rparr> Null)
     (seq (modify (\<lambda>s. s\<lparr>m_Done := True\<rparr>))
          (reader_setup env h Name []))"

text \<open>With a list of columns: the constructor hands \<^verbatim>\<open>namedclass\<close> its arguments the other way round.\<close>

definition tablereader_new_columns ::
  "'w env \<Rightarrow> ('w, 'z) rhooks \<Rightarrow> nat \<Rightarrow> string \<Rightarrow> string list \<Rightarrow> string \<Rightarrow> ('w, 'z, unit) rprog" where
  "tablereader_new_columns env h a Name columns Null =
     seq (tablestream_new \<lparr>addr = a, classname = Name, name = ''tablereader''\<rparr> Null)
     (seq (modify (\<lambda>s. s\<lparr>m_Done := True\<rparr>))
          (reader_setup env h Name (columnlist columns)))"

text \<open>The line, or nothing when the stream is done.\<close>

definition get_raw_line :: "'w env \<Rightarrow> ('w, 'z, string option) rprog" where
  "get_raw_line env =
     cond m_Done (ret None)
       (bnd (catch_std (ReadCopyLine env) (\<lambda>e. seq (modify (\<lambda>s. s\<lparr>m_Done := True\<rparr>)) (throw e))) (\<lambda>Line.
        seq (modify (\<lambda>s. s\<lparr>m_Done := (Line = None)\<rparr>)) (ret Line)))"

text \<open>\<^verbatim>\<open>while (get_raw_line(Dummy)) ;\<close>, for the given number of rounds.\<close>

fun skip_lines :: "'w env \<Rightarrow> nat \<Rightarrow> ('w, 'z, unit) rprog" where
  "skip_lines env 0 = throw diverged"
| "skip_lines env (Suc n) =
     bnd (get_raw_line env) (\<lambda>Line. case Line of None \<Rightarrow> skip | Some _ \<Rightarrow> skip_lines env n)"

definition reader_close :: "'w env \<Rightarrow> ('w, 'z, unit) rprog" where
  "reader_close env =
     cond m_Finished skip
       (seq (base_close env)
         (cond m_Done skip
           (catch (skip_lines env (rounds env)) (\<lambda>e.
              if caught_as Broken_connection e then
                seq (catch_std (base_close env) (\<lambda>_. skip)) (throw e)
              else if caught_as Std_exception e then reg_pending_error (what e)
              else throw e))))"

definition reader_complete :: "'w env \<Rightarrow> ('w, 'z, unit) rprog" where
  "reader_complete env = reader_close env"

definition tablereader_delete :: "'w env \<Rightarrow> ('w, 'z, unit) rprog" where
  "tablereader_delete env = catch_std (reader_close env) (\<lambda>e. reg_pending_error (what e))"

text \<open>\<^verbatim>\<open>operator>>\<close>: the fields of the next line, at the back of the tuple.\<close>

definition read_tuple :: "'w env \<Rightarrow> string list \<Rightarrow> ('w, 'z, string list) rprog" where
  "read_tuple env T =
     bnd (get_raw_line env) (\<lambda>l. case l of
       None \<Rightarrow> ret T
     | Some Line \<Rightarrow> bnd (gets m_Null) (\<lambda>NullStr. case tokenize NullStr Line of
         Inl e \<Rightarrow> throw e | Inr fs \<Rightarrow> ret (T @ fs)))"

section \<open>\<open>tablewriter\<close>\<close>

definition writer_setup :: "'w env \<Rightarrow> ('w, 'z) shooks \<Rightarrow> string \<Rightarrow> string \<Rightarrow> ('w, 'z, unit) sprog" where
  "writer_setup env h WName Columns = seq (BeginCopyWrite env h WName Columns) register_me"

definition tablewriter_new ::
  "'w env \<Rightarrow> ('w, 'z) shooks \<Rightarrow> nat \<Rightarrow> string \<Rightarrow> string \<Rightarrow> ('w, 'z, unit) sprog" where
  "tablewriter_new env h a WName Null =
     seq (tablestream_new \<lparr>addr = a, classname = ''tablewriter'', name = WName\<rparr> Null)
         (writer_setup env h WName [])"

definition tablewriter_new_columns ::
  "'w env \<Rightarrow> ('w, 'z) shooks \<Rightarrow> nat \<Rightarrow> string \<Rightarrow> string list \<Rightarrow> string \<Rightarrow> ('w, 'z, unit) sprog" where
  "tablewriter_new_columns env h a WName columns Null =
     seq (tablestream_new \<lparr>addr = a, classname = ''tablewriter'', name = WName\<rparr> Null)
         (writer_setup env h WName (columnlist columns))"

definition write_raw_line :: "'w env \<Rightarrow> string \<Rightarrow> ('w, 'z, unit) sprog" where
  "write_raw_line env Line =
     WriteCopyLine env (if Line = [] \<or> last Line \<noteq> newline then Line else butlast Line)"

definition writer_insert :: "'w env \<Rightarrow> string list \<Rightarrow> ('w, 'z, unit) sprog" where
  "writer_insert env T = bnd (gets m_Null) (\<lambda>NullStr. write_raw_line env (generate NullStr T))"

definition writer_push_back :: "'w env \<Rightarrow> string list \<Rightarrow> ('w, 'z, unit) sprog" where
  "writer_push_back env T = writer_insert env T"

definition writer_close :: "'w env \<Rightarrow> ('w, 'z, unit) sprog" where
  "writer_close env =
     cond m_Finished skip
       (seq (base_close env)
            (catch_std (EndCopyWrite env) (\<lambda>e.
               seq (catch_std (base_close env) (\<lambda>_. skip)) (throw e))))"

definition writer_complete :: "'w env \<Rightarrow> ('w, 'z, unit) sprog" where
  "writer_complete env = writer_close env"

definition tablewriter_delete :: "'w env \<Rightarrow> ('w, 'z, unit) sprog" where
  "tablewriter_delete env = catch_std (writer_close env) (\<lambda>e. reg_pending_error (what e))"

section \<open>From a reader into a writer\<close>

text \<open>
  The two streams belong to transactions on two connections, so the state is a pair. Both talk to the
  one outside world: each sees the world as the other left it.
\<close>

type_synonym ('w, 'y, 'z, 'a) ccprog = "(('w, 'y) treader_scheme \<times> ('w, 'z) tstream_scheme, 'a) cxx"

definition on_reader :: "('w, 'y, 'a) rprog \<Rightarrow> ('w, 'y, 'z, 'a) ccprog" where
  "on_reader m = (\<lambda>(r, w). case m r of (x, r') \<Rightarrow> (x, (r', w\<lparr>world := world r'\<rparr>)))"

definition on_writer :: "('w, 'z, 'a) sprog \<Rightarrow> ('w, 'y, 'z, 'a) ccprog" where
  "on_writer m = (\<lambda>(r, w). case m w of (x, w') \<Rightarrow> (x, (r\<lparr>world := world w'\<rparr>, w')))"

text \<open>\<^verbatim>\<open>while (R.get_raw_line(Line)) write_raw_line(Line)\<close>, for the given number of rounds.\<close>

fun copy_lines :: "'w env \<Rightarrow> nat \<Rightarrow> ('w, 'y, 'z, unit) ccprog" where
  "copy_lines env 0 = throw diverged"
| "copy_lines env (Suc n) =
     bnd (on_reader (get_raw_line env)) (\<lambda>l. case l of
       None \<Rightarrow> skip
     | Some Line \<Rightarrow> seq (on_writer (write_raw_line env Line)) (copy_lines env n))"

definition writer_from_reader :: "'w env \<Rightarrow> ('w, 'y, 'z, unit) ccprog" where
  "writer_from_reader env = copy_lines env (rounds env)"

end
