(* ===== verification/Tablestream_Facts.thy ===== *)
theory Tablestream_Facts
  imports Tablestream
begin

text \<open>
  What the table streams promise: they give the focus of their transaction back however they end, an
  error of theirs is not lost, and the lines and tuples that go in on one side come out on the other.
\<close>

section \<open>The life of a stream\<close>

text \<open>A stream that is set up holds the focus until it is finished.\<close>

definition stream_wf :: "('w, 'z) tstream_scheme \<Rightarrow> bool" where
  "stream_wf s \<longleftrightarrow> focus_wf s \<and> f_registered s = (\<not> m_Finished s)"

lemma base_close_wf:
  assumes "stream_wf s"
  shows "base_close env s = (Inr (), if m_Finished s then s
    else s\<lparr>m_Finished := True, m_Focus := None, f_registered := False\<rparr>)"
proof (cases "m_Finished s")
  case False
  let ?s = "s\<lparr>m_Finished := True\<rparr>"
  have "focus_wf ?s" "f_registered ?s" using assms False by (simp_all add: stream_wf_def focus_wf_def)
  then have "unregister_me env ?s = (Inr (), ?s\<lparr>m_Focus := None, f_registered := False\<rparr>)"
    by (rule unregister_me_held)
  then show ?thesis using False by (simp add: base_close_def cond_def step_simps)
qed (simp add: base_close_def cond_def skip_def ret_def)

lemma base_close_finished: "m_Finished s \<Longrightarrow> base_close env s = (Inr (), s)"
  by (simp add: base_close_def cond_def skip_def ret_def)

text \<open>The view of the stream that reading and writing leave alone.\<close>

definition life :: "('w, 'z) tstream_scheme \<Rightarrow> status \<times> namedclass \<times> namedclass option \<times> bool \<times> bool \<times> string" where
  "life s = (m_Status s, this_focus s, m_Focus s, f_registered s, m_Finished s, m_Null s)"

lemma life_more: "conn.more t = conn.more s \<Longrightarrow> life t = life s"
  by (cases s; cases t) (simp add: life_def)

lemma calm_life:
  fixes m :: "('w, 'z, 'a) sprog"
  assumes "\<And>g x d. keeps (calm g x d) m"
  shows "frame life m"
  by (rule frameI, rule life_more) (rule calmD(2) [OF assms])

lemma life_pending [frame_intros]: "frame life (reg_pending_error m)"
  unfolding reg_pending_error_def RegisterPendingError_def
  by (intro frame_intros frame_modify; simp add: life_def)

lemma life_copy [frame_intros]:
  "frame life (ReadCopyLine env)" "frame life (EndCopyWrite env)" "frame life (WriteCopyLine env l)"
  by (rule calm_life, intro keeps_intros)+

lemma life_get_raw_line [frame_intros]: "frame life (get_raw_line env)"
  unfolding get_raw_line_def by (intro frame_intros frame_modify) (simp_all add: life_def)

lemma frame_case_option [frame_intros]:
  "frame f a \<Longrightarrow> (\<And>x. frame f (b x)) \<Longrightarrow> frame f (case_option a b t)"
  by (cases t) simp_all

lemma life_skip_lines [frame_intros]: "frame life (skip_lines env n)"
  by (induction n) (auto intro!: frame_intros)

definition closed_stream :: "('w, 'z) tstream_scheme \<Rightarrow> bool" where
  "closed_stream s \<longleftrightarrow> m_Finished s \<and> \<not> f_registered s \<and> m_Focus s = None"

lemma closed_life: "frame life m \<Longrightarrow> keeps closed_stream m"
  by (simp add: frame_def keeps_def life_def closed_stream_def)

lemma base_close_closed: "keeps closed_stream (base_close env)"
  by (rule keepsI) (simp add: closed_stream_def base_close_finished)

lemma closed_wf: "stream_wf s \<Longrightarrow> m_Finished s \<Longrightarrow> closed_stream s"
  by (simp add: stream_wf_def focus_wf_def closed_stream_def)

lemma after_base_close:
  assumes "stream_wf s" "keeps closed_stream m"
  shows "closed_stream (snd (seq (base_close env) m s))"
proof -
  obtain t where t: "base_close env s = (Inr (), t)" "closed_stream t"
    using base_close_wf [OF assms(1), of env] closed_wf [OF assms(1)]
    by (cases "m_Finished s") (simp_all add: closed_stream_def)
  then show ?thesis using keepsD [OF assms(2) t(2)] by (simp add: seq_def bnd_def)
qed

lemma reader_close_closes:
  assumes "stream_wf s"
  shows "closed_stream (snd (reader_close env s))"
proof (cases "m_Finished s")
  case True
  then show ?thesis using closed_wf [OF assms] by (simp add: reader_close_def cond_def skip_def ret_def)
next
  case False
  then show ?thesis unfolding reader_close_def cond_def [of m_Finished]
    by (simp, intro after_base_close [OF assms])
      (intro keeps_intros base_close_closed closed_life frame_intros)
qed

lemma writer_close_closes:
  assumes "stream_wf s"
  shows "closed_stream (snd (writer_close env s))"
proof (cases "m_Finished s")
  case True
  then show ?thesis using closed_wf [OF assms] by (simp add: writer_close_def cond_def skip_def ret_def)
next
  case False
  then show ?thesis unfolding writer_close_def cond_def [of m_Finished]
    by (simp, intro after_base_close [OF assms])
      (intro keeps_intros base_close_closed closed_life frame_intros)
qed

lemma destructor_returns:
  "case catch_std m (\<lambda>e. reg_pending_error (what e)) s of (Inr _, t) \<Rightarrow> True | (Inl e, t) \<Rightarrow> \<not> caught_as Std_exception e"
  by (simp add: catch_class_def catch_def reg_pending_error_def RegisterPendingError_def throw_def cond_def modify_def
      skip_def ret_def split: prod.splits sum.splits)

lemma destructor_closes:
  assumes "closed_stream (snd (m s))"
  shows "closed_stream (snd (catch_std m (\<lambda>e. reg_pending_error (what e)) s))"
  using assms keepsD [OF closed_life [OF life_pending]]
  by (auto simp: catch_class_def catch_def throw_def split: prod.splits sum.splits)

section \<open>Lines out of the server\<close>

text \<open>
  The server of a COPY TO on the connection \<open>c\<close>: \<open>left\<close> are the lines it still has to send, \<open>to_come\<close> the
  results it sends after them, \<open>other\<close> what reading does not change.
\<close>

definition sends_line :: "'w env \<Rightarrow> handle \<Rightarrow> ('w \<Rightarrow> string list) \<Rightarrow> ('w \<Rightarrow> nat) \<Rightarrow> ('w \<Rightarrow> 'x) \<Rightarrow> 'w \<Rightarrow> bool" where
  "sends_line env c left to_come other w \<longleftrightarrow>
     (let ((code, Buf), w') = PQgetCopyData env c w in
        (case left w of [] \<Rightarrow> code = -1 | l # _ \<Rightarrow> 0 < code \<and> Buf = Some l) \<and>
        left w' = tl (left w) \<and> to_come w' = to_come w \<and> other w' = other w \<and>
        (\<forall>d. PQstatus env d w' = PQstatus env d w))"

definition sends_result :: "'w env \<Rightarrow> handle \<Rightarrow> ('w \<Rightarrow> string list) \<Rightarrow> ('w \<Rightarrow> nat) \<Rightarrow> ('w \<Rightarrow> 'x) \<Rightarrow> 'w \<Rightarrow> bool" where
  "sends_result env c left to_come other w \<longleftrightarrow>
     (let (R, w') = PQgetResult env c w in
        (case to_come w of 0 \<Rightarrow> R = None | Suc _ \<Rightarrow> (\<exists>p. R = Some p \<and> PQresultStatus p = PGRES_COMMAND_OK)) \<and>
        left w' = left w \<and> to_come w' = to_come w - 1 \<and> other w' = other w \<and>
        (\<forall>d. PQstatus env d w' = PQstatus env d w))"

definition copy_out :: "'w env \<Rightarrow> handle \<Rightarrow> ('w \<Rightarrow> string list) \<Rightarrow> ('w \<Rightarrow> nat) \<Rightarrow> ('w \<Rightarrow> 'x) \<Rightarrow> bool" where
  "copy_out env c left to_come other \<longleftrightarrow>
     (\<forall>w. sends_line env c left to_come other w \<and> sends_result env c left to_come other w)"

text \<open>The connection is open, and the server has \<open>ls\<close> and then \<open>n\<close> results on it.\<close>

definition at_line ::
  "'w env \<Rightarrow> handle \<Rightarrow> ('w \<Rightarrow> string list) \<Rightarrow> ('w \<Rightarrow> nat) \<Rightarrow> ('w \<Rightarrow> 'x) \<Rightarrow> string list \<Rightarrow> nat \<Rightarrow> 'x \<Rightarrow>
     ('w, 'z) conn_scheme \<Rightarrow> bool" where
  "at_line env c left to_come other ls n x s \<longleftrightarrow> copy_out env c left to_come other \<and> is_open env s \<and> m_Conn s = c \<and>
     left (world s) = ls \<and> to_come (world s) = n \<and> other (world s) = x"

lemma get_data_served:
  assumes "at_line env c left to_come other ls n x s"
  obtains k B w where "PQgetCopyData env c (world s) = ((k, B), w)"
    "case ls of [] \<Rightarrow> k = -1 | l # _ \<Rightarrow> 0 < k \<and> B = Some l"
    "at_line env c left to_come other (tl ls) n x (s\<lparr>world := w\<rparr>)"
proof -
  obtain k B w where g: "PQgetCopyData env c (world s) = ((k, B), w)" by (metis prod.exhaust)
  from assms have "copy_out env c left to_come other" by (simp add: at_line_def)
  from this [unfolded copy_out_def, rule_format, THEN conjunct1, of "world s", unfolded sends_line_def] g assms
  show ?thesis by (intro that [OF g]) (auto simp: at_line_def is_open_def Status_def)
qed

lemma get_result_served:
  assumes "at_line env c left to_come other ls n x s"
  obtains R w where "PQgetResult env c (world s) = (R, w)"
    "case n of 0 \<Rightarrow> R = None | Suc _ \<Rightarrow> \<exists>p. R = Some p \<and> PQresultStatus p = PGRES_COMMAND_OK"
    "at_line env c left to_come other ls (n - 1) x (s\<lparr>world := w\<rparr>)"
proof -
  obtain R w where g: "PQgetResult env c (world s) = (R, w)" by (metis prod.exhaust)
  from assms have "copy_out env c left to_come other" by (simp add: at_line_def)
  from this [unfolded copy_out_def, rule_format, THEN conjunct2, of "world s", unfolded sends_result_def] g assms
  show ?thesis by (intro that [OF g]) (auto simp: at_line_def is_open_def Status_def)
qed

lemma check_result_fine:
  "is_open env s \<Longrightarrow> PQresultStatus p = PGRES_COMMAND_OK \<Longrightarrow>
     check_result env (make_result_object (Some p) v q e) s = (Inr (), s)"
  using CheckStatus_fine [of p v q e]
  by (simp add: check_result_def cond_def skip_def ret_def seq_def bnd_def lift_exn_def result_bool_def
      make_result_object_def)

lemma drain_checked_served:
  assumes "at_line env c left to_come other ls n x s" "n < k" "0 < rounds env"
  shows "\<exists>w. drain_checked env k s = (Inr (), s\<lparr>world := w\<rparr>) \<and> at_line env c left to_come other ls 0 x (s\<lparr>world := w\<rparr>)"
  using assms(1,2)
proof (induction k arbitrary: n s)
  case (Suc k)
  obtain R w where r: "PQgetResult env c (world s) = (R, w)"
      "case n of 0 \<Rightarrow> R = None | Suc _ \<Rightarrow> \<exists>p. R = Some p \<and> PQresultStatus p = PGRES_COMMAND_OK"
    and a: "at_line env c left to_come other ls (n - 1) x (s\<lparr>world := w\<rparr>)"
    using get_result_served [OF Suc.prems(1)] by blast
  have o: "is_open env (s\<lparr>world := w\<rparr>)" "m_Conn s = c" using a Suc.prems(1) by (simp_all add: at_line_def)
  let ?R = "make_result_object R (protocol_version env (s\<lparr>world := w\<rparr>)) ''[END COPY]''
    (PQclientEncoding env (m_Conn s) w)"
  have step: "drain_checked env (Suc k) s =
      (if result_bool ?R then seq (check_result env ?R) (drain_checked env k) else skip) (s\<lparr>world := w\<rparr>)"
    using make_result_open [OF o(1) assms(3)] o(2) r(1) by (simp add: bnd_def gets_def wcall_def call_def)
  show ?case
  proof (cases n)
    case 0
    then show ?thesis using step r(2) a
      by (intro exI [of _ w]) (simp add: result_bool_def make_result_object_def skip_def ret_def)
  next
    case (Suc m)
    then obtain p where p: "R = Some p" "PQresultStatus p = PGRES_COMMAND_OK" using r(2) by auto
    have "check_result env ?R (s\<lparr>world := w\<rparr>) = (Inr (), s\<lparr>world := w\<rparr>)"
      using check_result_fine [OF o(1) p(2)] p(1) by simp
    then have "drain_checked env (Suc k) s = drain_checked env k (s\<lparr>world := w\<rparr>)"
      using step p(1) by (simp add: result_bool_def make_result_object_def seq_def bnd_def)
    then show ?thesis using Suc.IH [OF a] Suc.prems(2) Suc by auto
  qed
qed simp

lemma ReadCopyLine_served:
  assumes "at_line env c left to_come other ls n x s" "n < rounds env"
  shows "\<exists>w. ReadCopyLine env s = (Inr (case ls of [] \<Rightarrow> None | l # _ \<Rightarrow> Some l), s\<lparr>world := w\<rparr>) \<and>
    at_line env c left to_come other (tl ls) (case ls of [] \<Rightarrow> 0 | _ \<Rightarrow> n) x (s\<lparr>world := w\<rparr>)"
proof -
  obtain k B w where g: "PQgetCopyData env c (world s) = ((k, B), w)" "case ls of [] \<Rightarrow> k = -1 | l # _ \<Rightarrow> 0 < k \<and> B = Some l"
    and a: "at_line env c left to_come other (tl ls) n x (s\<lparr>world := w\<rparr>)"
    using get_data_served [OF assms(1)] by blast
  have o: "is_open env s" "m_Conn s = c" using assms(1) by (simp_all add: at_line_def)
  show ?thesis
  proof (cases ls)
    case Nil
    obtain v where "drain_checked env (rounds env) (s\<lparr>world := w\<rparr>) = (Inr (), s\<lparr>world := w, world := v\<rparr>)"
      and v: "at_line env c left to_come other (tl ls) 0 x (s\<lparr>world := w, world := v\<rparr>)"
      using drain_checked_served [OF a assms(2)] assms(2) by auto
    then show ?thesis using o g Nil
      by (intro exI [of _ v]) (simp add: ReadCopyLine_def cond_def bnd_def gets_def wcall_def call_def seq_def ret_def)
  next
    case (Cons l ls')
    then show ?thesis using o g a
      by (intro exI [of _ w]) (simp add: ReadCopyLine_def cond_def bnd_def gets_def wcall_def call_def ret_def)
  qed
qed

lemma open_stream [simp]:
  "is_open env (s\<lparr>m_Finished := b\<rparr>) = is_open env s" "is_open env (r\<lparr>m_Done := b\<rparr>) = is_open env r"
  "is_open env (s\<lparr>m_Focus := f\<rparr>) = is_open env s" "is_open env (s\<lparr>f_registered := b\<rparr>) = is_open env s"
  by (simp_all add: is_open_def Status_def)

lemma at_line_done [simp]: "at_line env c left to_come other ls n x (s\<lparr>m_Done := b\<rparr>) = at_line env c left to_come other ls n x s"
  by (simp add: at_line_def)

lemma at_line_done_world [simp]:
  "at_line env c left to_come other ls n x (s\<lparr>m_Done := b, world := v\<rparr>) = at_line env c left to_come other ls n x (s\<lparr>world := v\<rparr>)"
  by (simp add: at_line_def is_open_def Status_def)

lemma get_raw_line_served:
  assumes "at_line env c left to_come other ls n x s" "n < rounds env" "\<not> m_Done s"
  shows "\<exists>w. get_raw_line env s = (Inr (case ls of [] \<Rightarrow> None | l # _ \<Rightarrow> Some l), s\<lparr>world := w, m_Done := (ls = [])\<rparr>) \<and>
    at_line env c left to_come other (tl ls) (case ls of [] \<Rightarrow> 0 | _ \<Rightarrow> n) x (s\<lparr>world := w\<rparr>)"
proof -
  obtain w where "ReadCopyLine env s = (Inr (case ls of [] \<Rightarrow> None | l # _ \<Rightarrow> Some l), s\<lparr>world := w\<rparr>)"
    and a: "at_line env c left to_come other (tl ls) (case ls of [] \<Rightarrow> 0 | _ \<Rightarrow> n) x (s\<lparr>world := w\<rparr>)"
    using ReadCopyLine_served [OF assms(1,2)] by blast
  then show ?thesis using assms(3)
    by (intro exI [of _ w])
      (simp add: get_raw_line_def cond_def catch_class_def catch_def bnd_def seq_def modify_def ret_def split: list.splits)
qed

lemma skip_lines_served:
  assumes "at_line env c left to_come other ls n x s" "n < rounds env" "\<not> m_Done s" "length ls < k"
  shows "\<exists>w. skip_lines env k s = (Inr (), s\<lparr>world := w, m_Done := True\<rparr>) \<and>
    at_line env c left to_come other [] 0 x (s\<lparr>world := w\<rparr>)"
  using assms(1,3,4)
proof (induction k arbitrary: ls s)
  case (Suc k)
  obtain w where w: "get_raw_line env s = (Inr (case ls of [] \<Rightarrow> None | l # _ \<Rightarrow> Some l), s\<lparr>world := w, m_Done := (ls = [])\<rparr>)"
    and a: "at_line env c left to_come other (tl ls) (case ls of [] \<Rightarrow> 0 | _ \<Rightarrow> n) x (s\<lparr>world := w\<rparr>)"
    using get_raw_line_served [OF Suc.prems(1) assms(2) Suc.prems(2)] by blast
  show ?case
  proof (cases ls)
    case Nil
    then show ?thesis using w a by (intro exI [of _ w]) (simp add: bnd_def skip_def ret_def)
  next
    case (Cons l ls')
    let ?s = "s\<lparr>world := w, m_Done := False\<rparr>"
    have "at_line env c left to_come other ls' n x ?s" using a Cons by simp
    then obtain v where "skip_lines env k ?s = (Inr (), ?s\<lparr>world := v, m_Done := True\<rparr>)"
      and "at_line env c left to_come other [] 0 x (?s\<lparr>world := v\<rparr>)"
      using Suc.IH [of ls' ?s] Suc.prems(3) Cons by auto
    then show ?thesis using w Cons by (intro exI [of _ v]) (auto simp: bnd_def at_line_def is_open_def Status_def)
  qed
qed simp

section \<open>Lines into the server\<close>

text \<open>The server of a COPY FROM on the connection \<open>c\<close>: \<open>rows\<close> are the lines it has received.\<close>

definition copy_in :: "'w env \<Rightarrow> handle \<Rightarrow> ('w \<Rightarrow> string list) \<Rightarrow> ('w \<Rightarrow> 'x) \<Rightarrow> bool" where
  "copy_in env c rows other \<longleftrightarrow> (\<forall>L w. let (code, w') = PQputCopyData env c L w in
     0 < code \<and> rows w' = rows w @ [L] \<and> other w' = other w \<and> (\<forall>d. PQstatus env d w' = PQstatus env d w))"

definition taking ::
  "'w env \<Rightarrow> handle \<Rightarrow> ('w \<Rightarrow> string list) \<Rightarrow> ('w \<Rightarrow> 'x) \<Rightarrow> string list \<Rightarrow> 'x \<Rightarrow> ('w, 'z) conn_scheme \<Rightarrow> bool" where
  "taking env c rows other ls x s \<longleftrightarrow> copy_in env c rows other \<and> is_open env s \<and> m_Conn s = c \<and>
     rows (world s) = ls \<and> other (world s) = x"

text \<open>A line with one newline at its end.\<close>

definition terminated_line :: "string \<Rightarrow> string" where
  "terminated_line l = (if l = [] \<or> last l \<noteq> newline then l @ nl else l)"

lemma newline_nl: "nl = [newline]"
  by (simp add: nl_def)

lemma write_raw_line_served:
  assumes "taking env c rows other ls x s"
  shows "\<exists>w. write_raw_line env l s = (Inr (), s\<lparr>world := w\<rparr>) \<and>
    taking env c rows other (ls @ [terminated_line l]) x (s\<lparr>world := w\<rparr>)"
proof -
  let ?L = "(if l = [] \<or> last l \<noteq> newline then l else butlast l) @ nl"
  have "butlast l @ [newline] = l" if "l \<noteq> []" "last l = newline" using append_butlast_last_id [OF that(1)] that(2) by simp
  then have L: "?L = terminated_line l" by (auto simp: terminated_line_def newline_nl)
  obtain k w where p: "PQputCopyData env c ?L (world s) = (k, w)" by (metis prod.exhaust)
  have o: "is_open env s" "m_Conn s = c" and i: "copy_in env c rows other" using assms by (simp_all add: taking_def)
  have "0 < k \<and> taking env c rows other (ls @ [terminated_line l]) x (s\<lparr>world := w\<rparr>)"
    using i [unfolded copy_in_def, rule_format, of ?L "world s"] p assms unfolding L
    by (auto simp: taking_def is_open_def Status_def)
  then show ?thesis using o p
    by (intro exI [of _ w]) (simp add: write_raw_line_def WriteCopyLine_def cond_def bnd_def gets_def wcall_def call_def
        skip_def ret_def)
qed

section \<open>Terminated lines\<close>

text \<open>
  The server sends a line back with its newline, which ends the last field: here no field is lost.
\<close>

lemma findtab_last:
  assumes "Line = pre @ w @ nl" "tab \<notin> set w"
  shows "findtab Line (length pre) = Suc (length pre + length w)"
proof -
  have "takeWhile (\<lambda>c. c \<noteq> tab) (w @ nl) = w @ nl" using assms(2) by (intro takeWhile_all) (auto simp: newline_nl)
  then show ?thesis using assms(1) by (simp add: findtab_def newline_nl)
qed

lemma ef_loop_newline:
  "i < stop \<Longrightarrow> Line ! i = newline \<Longrightarrow> ef_loop null Line i stop R b = Inr (R, b, Suc stop)"
  by (subst ef_loop.simps) simp

lemma ef_loop_escaped_line:
  assumes "Line = pre @ concat (map escape_char s) @ nl"
  shows "ef_loop null Line (length pre) (length Line) R b = Inr (R @ concat (map reread_char s), b, Suc (length Line))"
  using assms
proof (induction s arbitrary: pre R)
  case Nil
  then show ?case by (simp add: ef_loop_newline newline_nl)
next
  case (Cons c s)
  have "ef_loop null Line (length pre) (length Line) R b =
      ef_loop null Line (length (pre @ escape_char c)) (length Line) (R @ reread_char c) b"
    using Cons.prems
    by (subst ef_loop_escape_char [where post = "concat (map escape_char s) @ nl"]) auto
  then show ?case using Cons.IH [of "pre @ escape_char c" "R @ reread_char c"] Cons.prems by simp
qed

lemma extract_last_field:
  assumes "Line = pre @ Escape s null @ nl"
  shows "extract_field null Line (length pre) = Inr (reread s null, Suc (Suc (length Line)))"
proof -
  have stop: "findtab Line (length pre) = length Line"
    using findtab_last [OF assms Escape_no_separator(1)] assms by (simp add: newline_nl)
  show ?thesis
  proof (cases "s = null")
    case True
    have L: "Line = pre @ [backslash, CHR ''N''] @ nl" using assms True by (simp add: Escape_def)
    have "ef_loop null Line (length pre + 2) (length Line) null True = Inr (null, True, Suc (length Line))"
      by (rule ef_loop_newline) (simp_all add: L newline_nl nth_append)
    then have "ef_loop null Line (length pre) (length Line) [] False = Inr (null, True, Suc (length Line))"
      by (subst ef_loop.simps) (simp add: L Let_def newline_nl nth_append)
    then show ?thesis using True stop by (simp add: extract_field_def reread_def)
  next
    case False
    then have "Line = pre @ concat (map escape_char s) @ nl" using assms by (simp add: Escape_def)
    from ef_loop_escaped_line [OF this, of null "[]" False] show ?thesis
      using False stop by (simp add: extract_field_def reread_def)
  qed
qed

lemma tokenize_from_line:
  "tuple \<noteq> [] \<Longrightarrow> tokenize_from null (pre @ generate null tuple @ nl) (length pre) =
    Inr (map (\<lambda>f. reread f null) tuple)"
proof (induction tuple arbitrary: pre rule: induct_list012)
  case (2 f)
  let ?L = "pre @ generate null [f] @ nl"
  have "extract_field null ?L (length pre) = Inr (reread f null, Suc (Suc (length ?L)))"
    by (rule extract_last_field) (simp add: generate_def)
  moreover have "tokenize_from null ?L (Suc (Suc (length ?L))) = Inr []"
    by (subst tokenize_from.simps) simp
  ultimately show ?case by (subst tokenize_from.simps) (simp add: newline_nl)
next
  case (3 f g fs)
  let ?L = "pre @ generate null (f # g # fs) @ nl"
  let ?pre = "pre @ Escape f null @ [tab]"
  have L: "?L = ?pre @ generate null (g # fs) @ nl" by (simp add: generate_Cons)
  have "extract_field null ?L (length pre) = Inr (reread f null, length ?pre)"
    using extract_field_Escape [of ?L pre f null "tab # generate null (g # fs) @ nl"]
    by (simp add: generate_Cons)
  moreover have "tokenize_from null ?L (length ?pre) = Inr (map (\<lambda>f. reread f null) (g # fs))"
    unfolding L by (rule "3.IH"(2)) simp
  ultimately show ?case by (subst tokenize_from.simps) (simp add: generate_Cons)
qed simp

lemma tokenize_line:
  assumes "tuple \<noteq> []" "\<forall>f \<in> set tuple. list_all clean_char f"
  shows "tokenize null (generate null tuple @ nl) = Inr tuple"
proof -
  have "map (\<lambda>f. reread f null) tuple = tuple" using assms(2) by (auto intro!: map_idI reread_clean)
  then show ?thesis using tokenize_from_line [OF assms(1), of null "[]"] by (simp add: tokenize_def)
qed

lemma generate_terminated: "terminated_line (generate null tuple) = generate null tuple @ nl"
proof -
  have "newline \<notin> set (generate null tuple)"
    by (induction tuple rule: induct_list012) (simp_all add: generate_def Escape_no_separator)
  then have "generate null tuple = [] \<or> last (generate null tuple) \<noteq> newline" by (metis last_in_set)
  then show ?thesis by (simp add: terminated_line_def)
qed

section \<open>Tuples\<close>

lemma inserts_served:
  assumes "taking env c rows other ls x s"
  shows "\<exists>w. for_each ts (writer_insert env) s = (Inr (), s\<lparr>world := w\<rparr>) \<and>
    taking env c rows other (ls @ map (\<lambda>t. generate (m_Null s) t @ nl) ts) x (s\<lparr>world := w\<rparr>)"
  using assms
proof (induction ts arbitrary: ls s)
  case Nil
  then show ?case by (intro exI [of _ "world s"]) (simp add: skip_def ret_def)
next
  case (Cons t ts)
  obtain w where w: "write_raw_line env (generate (m_Null s) t) s = (Inr (), s\<lparr>world := w\<rparr>)"
    and t: "taking env c rows other (ls @ [generate (m_Null s) t @ nl]) x (s\<lparr>world := w\<rparr>)"
    using write_raw_line_served [OF Cons.prems, of "generate (m_Null s) t"] by (auto simp: generate_terminated)
  obtain v where "for_each ts (writer_insert env) (s\<lparr>world := w\<rparr>) = (Inr (), s\<lparr>world := w, world := v\<rparr>)"
    and "taking env c rows other (ls @ map (\<lambda>t. generate (m_Null s) t @ nl) (t # ts)) x (s\<lparr>world := w, world := v\<rparr>)"
    using Cons.IH [OF t] by auto
  moreover have "writer_insert env t s = (Inr (), s\<lparr>world := w\<rparr>)"
    using w by (simp add: writer_insert_def step_simps)
  ultimately show ?case by (intro exI [of _ v]) (simp add: seq_def bnd_def)
qed

text \<open>An application that reads \<open>n\<close> tuples.\<close>

fun read_tuples :: "'w env \<Rightarrow> nat \<Rightarrow> ('w, 'z, string list list) rprog" where
  "read_tuples env 0 = ret []"
| "read_tuples env (Suc n) = bnd (read_tuple env []) (\<lambda>t. bnd (read_tuples env n) (\<lambda>ts. ret (t # ts)))"

definition storable :: "string list \<Rightarrow> bool" where
  "storable t \<longleftrightarrow> t \<noteq> [] \<and> list_all (list_all clean_char) t"

lemma read_tuples_served:
  assumes "at_line env c left to_come other (map (\<lambda>t. generate (m_Null s) t @ nl) ts) n x s" "n < rounds env" "\<not> m_Done s"
    and "list_all storable ts"
  shows "\<exists>w. read_tuples env (length ts) s = (Inr ts, s\<lparr>world := w, m_Done := False\<rparr>) \<and>
    at_line env c left to_come other [] n x (s\<lparr>world := w\<rparr>)"
  using assms(1,3,4)
proof (induction ts arbitrary: s)
  case Nil
  then show ?case by (intro exI [of _ "world s"]) (simp add: ret_def)
next
  case (Cons t ts)
  obtain w where w: "get_raw_line env s = (Inr (Some (generate (m_Null s) t @ nl)), s\<lparr>world := w, m_Done := False\<rparr>)"
    and a: "at_line env c left to_come other (map (\<lambda>t. generate (m_Null s) t @ nl) ts) n x (s\<lparr>world := w\<rparr>)"
    using get_raw_line_served [OF Cons.prems(1) assms(2) Cons.prems(2)] by auto
  let ?s = "s\<lparr>world := w, m_Done := False\<rparr>"
  have "tokenize (m_Null s) (generate (m_Null s) t @ nl) = Inr t"
    using Cons.prems(3) by (intro tokenize_line) (auto simp: storable_def list_all_iff)
  then have r: "read_tuple env [] s = (Inr t, ?s)"
    using w by (simp add: read_tuple_def bnd_def gets_def ret_def)
  have "at_line env c left to_come other (map (\<lambda>t. generate (m_Null ?s) t @ nl) ts) n x ?s" using a by simp
  then obtain v where "read_tuples env (length ts) ?s = (Inr ts, ?s\<lparr>world := v, m_Done := False\<rparr>)"
    and v: "at_line env c left to_come other [] n x (?s\<lparr>world := v\<rparr>)"
    using Cons.IH [of ?s] Cons.prems(3) by auto
  then have "read_tuples env (length (t # ts)) s = (Inr (t # ts), s\<lparr>world := v, m_Done := False\<rparr>)"
    using r by (simp add: bnd_def ret_def)
  moreover have "at_line env c left to_come other [] n x (s\<lparr>world := v\<rparr>)" using v by simp
  ultimately show ?case by blast
qed

section \<open>Both streams at once\<close>

definition with_status :: "'w env \<Rightarrow> ('w \<Rightarrow> 'x) \<Rightarrow> 'w \<Rightarrow> 'x \<times> (handle \<Rightarrow> conn_status)" where
  "with_status env other w = (other w, \<lambda>d. PQstatus env d w)"

lemma copy_out_status: "copy_out env c left to_come other \<Longrightarrow> copy_out env c left to_come (with_status env other)"
  unfolding copy_out_def sends_line_def sends_result_def with_status_def by (simp add: case_prod_beta)

lemma copy_in_status: "copy_in env c rows other \<Longrightarrow> copy_in env c rows (with_status env other)"
  by (auto simp: copy_in_def with_status_def split: prod.splits)

lemma copy_lines_served:
  assumes "copy_out env (m_Conn r) left to_come rows" "copy_in env (m_Conn s) rows (\<lambda>w. (left w, to_come w))"
    and "is_open env r" "is_open env s" "world r = world s" "\<not> m_Done r" "to_come (world r) < rounds env"
    and "length (left (world r)) < k"
  shows "\<exists>v. copy_lines env k (r, s) = (Inr (), (r\<lparr>world := v, m_Done := True\<rparr>, s\<lparr>world := v\<rparr>)) \<and>
    rows v = rows (world s) @ map terminated_line (left (world r)) \<and> left v = []"
  using assms
proof (induction k arbitrary: r s)
  case (Suc k)
  let ?o = "with_status env rows" and ?i = "with_status env (\<lambda>w. (left w, to_come w))"
  have "at_line env (m_Conn r) left to_come ?o (left (world r)) (to_come (world r)) (?o (world r)) r"
    using Suc.prems(3) copy_out_status [OF Suc.prems(1)] by (simp add: at_line_def)
  from get_raw_line_served [OF this Suc.prems(7,6)] obtain w where
    g: "get_raw_line env r = (Inr (case left (world r) of [] \<Rightarrow> None | l # _ \<Rightarrow> Some l),
      r\<lparr>world := w, m_Done := (left (world r) = [])\<rparr>)" and
    a: "at_line env (m_Conn r) left to_come ?o (tl (left (world r))) (case left (world r) of [] \<Rightarrow> 0 | _ \<Rightarrow> to_come (world r))
      (?o (world r)) (r\<lparr>world := w\<rparr>)" by blast
  have w: "rows w = rows (world r)" "\<And>d. PQstatus env d w = PQstatus env d (world r)" "left w = tl (left (world r))"
    using a by (auto simp: at_line_def with_status_def fun_eq_iff)
  show ?case
  proof (cases "left (world r)")
    case Nil
    then show ?thesis using g w Suc.prems(5)
      by (intro exI [of _ w]) (simp add: on_reader_def bnd_def skip_def ret_def)
  next
    case (Cons l ls)
    let ?r = "r\<lparr>world := w, m_Done := False\<rparr>" and ?s = "s\<lparr>world := w\<rparr>"
    have t: "taking env (m_Conn s) rows ?i (rows w) (?i w) ?s"
      using Suc.prems(4,5) copy_in_status [OF Suc.prems(2)] w(2) by (simp add: taking_def is_open_def Status_def)
    from write_raw_line_served [OF t, of l] obtain u where
      u: "write_raw_line env l ?s = (Inr (), s\<lparr>world := u\<rparr>)" and
      b: "taking env (m_Conn s) rows ?i (rows w @ [terminated_line l]) (?i w) (s\<lparr>world := u\<rparr>)" by auto
    have v: "left u = ls" "to_come u = to_come w" "\<And>d. PQstatus env d u = PQstatus env d (world r)"
      "rows u = rows (world r) @ [terminated_line l]"
      using b w Cons by (auto simp: taking_def with_status_def fun_eq_iff)
    have tc: "to_come w = to_come (world r)" using a Cons by (simp add: at_line_def)
    let ?r' = "?r\<lparr>world := u\<rparr>" and ?s' = "s\<lparr>world := u\<rparr>"
    have "\<exists>x. copy_lines env k (?r', ?s') = (Inr (), (?r'\<lparr>world := x, m_Done := True\<rparr>, ?s'\<lparr>world := x\<rparr>)) \<and>
        rows x = rows (world ?s') @ map terminated_line (left (world ?r')) \<and> left x = []"
      using Suc.prems Cons v tc by (intro Suc.IH) (simp_all add: is_open_def Status_def)
    then show ?thesis using g u v Cons Suc.prems(5)
      by (simp add: on_reader_def on_writer_def bnd_def seq_def)
  qed
qed simp

section \<open>Setting a stream up\<close>

text \<open>The statements of a plain transaction do not touch the stream they are for.\<close>

lemma more_calm:
  fixes m :: "('w, 'z, 'a) tprog"
  assumes "\<And>g x d. keeps (calm g x d) m"
  shows "frame tx.more m"
proof (rule frameI)
  fix s :: "('w, 'z) tx_scheme"
  show "tx.more (snd (m s)) = tx.more s" using tx_fields_more [OF calmD(2) [OF assms]] by blast
qed

lemma more_conn [frame_intros]:
  "frame tx.more (Exec env Q n)" "frame tx.more (get_notifs env)" "frame tx.more (process_notice env m)"
  "frame tx.more (process_notice_string env m)" "frame tx.more (add_reactivation_avoidance_count k)" "frame tx.more (lift_exn r)"
  by (rule more_calm, intro keeps_intros)+

lemma more_small [frame_intros]:
  "frame tx.more CheckPendingError" "frame tx.more (set_Status st)" "frame tx.more reactivation_avoidance_clear"
  "frame tx.more (UnregisterTransaction env g)"
  unfolding CheckPendingError_def set_Status_def reactivation_avoidance_clear_def UnregisterTransaction_def
  by (intro frame_intros frame_modify; simp)+

lemma more_DirectExec [frame_intros]: "frame tx.more (DirectExec env Q n)"
  unfolding DirectExec_def by (intro frame_intros)

lemma more_End_closed [frame_intros]: "frame tx.more (End_head env)" "frame tx.more (End_closed env)"
  unfolding End_closed_def End_guard_def End_head_def by (intro frame_intros frame_modify; simp)+

lemma more_db_abort [frame_intros]: "frame tx.more (db_abort env)"
  unfolding db_abort_def by (intro frame_intros)

lemma frame_case_status [frame_intros]:
  "frame f a \<Longrightarrow> frame f b \<Longrightarrow> frame f c \<Longrightarrow> frame f d \<Longrightarrow> frame f e \<Longrightarrow>
   frame f (case st of st_nascent \<Rightarrow> a | st_active \<Rightarrow> b | st_aborted \<Rightarrow> c | st_committed \<Rightarrow> d | st_in_doubt \<Rightarrow> e)"
  by (cases st) simp_all

lemma more_abort [frame_intros]: "frame tx.more (abort env (db_abort env))"
  unfolding abort_def by (intro frame_intros)

lemma more_End [frame_intros]: "frame tx.more (End env (db_abort env))"
  unfolding End_def End_guard_def by (intro frame_intros)

lemma more_db_begin [frame_intros]: "frame tx.more (db_begin env)"
  unfolding db_begin_def by (intro frame_intros)

lemma more_exec: "frame tx.more (exec env (basic_hooks env) Q d)"
  unfolding exec_def basic_hooks_def tx_activate_def Begin_def db_exec_def Let_def
  by (simp only: hooks.select_convs, intro frame_intros)

lemma stream_more:
  "tx.more t = tx.more s \<Longrightarrow> this_focus t = this_focus s \<and> f_registered t = f_registered s \<and>
     m_Finished t = m_Finished s \<and> m_Null t = m_Null s"
  by (cases s; cases t) simp

lemma reader_more: "tx.more t = tx.more s \<Longrightarrow> m_Done t = m_Done s"
  by (cases s; cases t) simp

lemma copy_begin_more:
  "frame tx.more (BeginCopyRead env (basic_hooks env) T C)" "frame tx.more (BeginCopyWrite env (basic_hooks env) T C)"
  unfolding BeginCopyRead_def BeginCopyWrite_def by (intro frame_intros more_exec)+

lemma register_me_cases:
  "case register_me s of
     (Inr _, t) \<Rightarrow> t = s\<lparr>m_Focus := Some (this_focus s), f_registered := True\<rparr>
   | (Inl _, t) \<Rightarrow> t = s"
  by (cases "m_Focus s")
    (auto simp: register_me_def seq_def bnd_def gets_def modify_def RegisterFocus_def unique_Register_def
      CheckUniqueRegistration_def lift_exn_def ret_def throw_def)

lemma setup_cases:
  assumes "frame tx.more m" "this_focus s = g" "\<not> f_registered s" "\<not> m_Finished s" "m_Null s = N"
  shows "case seq m register_me s of
     (Inr _, t) \<Rightarrow> stream_wf t \<and> \<not> m_Finished t \<and> m_Null t = N \<and> m_Focus t = Some g \<and>
       (\<exists>u. tx.more u = tx.more s \<and> t = u\<lparr>m_Focus := Some g, f_registered := True\<rparr>)
   | (Inl _, t) \<Rightarrow> \<not> f_registered t \<and> tx.more t = tx.more s"
proof (cases "m s")
  case (Pair r u)
  have u: "tx.more u = tx.more s" using frameD [OF assms(1), of s] Pair by simp
  from stream_more [OF this] have f: "this_focus u = g" "\<not> f_registered u" "\<not> m_Finished u" "m_Null u = N" using assms(2-5) by simp_all
  show ?thesis
  proof (cases r)
    case (Inl e)
    then show ?thesis using Pair f u by (simp add: seq_def bnd_def)
  next
    case (Inr x)
    then show ?thesis using Pair f u register_me_cases [of u]
      by (auto simp: seq_def bnd_def stream_wf_def focus_wf_def split: prod.splits sum.splits)
  qed
qed

lemma seq_assoc: "seq m (seq n p) = seq (seq m n) p"
  by (simp add: seq_def bnd_assoc)

lemma reader_new_wf:
  "case tablereader_new env (basic_hooks env) a nm Null r of
     (Inr _, t) \<Rightarrow> stream_wf t \<and> \<not> m_Finished t \<and> \<not> m_Done t \<and> m_Null t = Null
   | (Inl _, t) \<Rightarrow> \<not> f_registered t \<and> m_Done t"
proof -
  define g where "g = \<lparr>addr = a, classname = ''tablereader'', name = nm\<rparr>"
  define b where "b = r\<lparr>this_focus := g, f_registered := False, m_Null := Null, m_Finished := False, m_Done := True\<rparr>"
  have b: "this_focus b = g" "\<not> f_registered b" "\<not> m_Finished b" "m_Null b = Null" "m_Done b" by (simp_all add: b_def)
  let ?m = "seq (BeginCopyRead env (basic_hooks env) nm []) register_me"
  have n: "tablereader_new env (basic_hooks env) a nm Null r = seq ?m (modify (\<lambda>s. s\<lparr>m_Done := False\<rparr>)) b"
    by (simp add: tablereader_new_def tablestream_new_def reader_setup_def seq_assoc)
      (simp add: seq_def bnd_def modify_def b_def g_def)
  show ?thesis
    using setup_cases [OF copy_begin_more(1) b(1-4), of env nm "[]"] b(5) unfolding n
    by (cases "?m b") (auto simp: seq_def [of ?m] bnd_def [of ?m] modify_def stream_wf_def focus_wf_def dest: reader_more
        split: sum.splits)
qed

lemma writer_new_wf:
  "case tablewriter_new env (basic_hooks env) a nm Null s of
     (Inr _, t) \<Rightarrow> stream_wf t \<and> \<not> m_Finished t \<and> m_Null t = Null
   | (Inl _, t) \<Rightarrow> \<not> f_registered t"
proof -
  define g where "g = \<lparr>addr = a, classname = ''tablewriter'', name = nm\<rparr>"
  define b where "b = s\<lparr>this_focus := g, f_registered := False, m_Null := Null, m_Finished := False\<rparr>"
  have b: "this_focus b = g" "\<not> f_registered b" "\<not> m_Finished b" "m_Null b = Null" by (simp_all add: b_def)
  let ?m = "seq (BeginCopyWrite env (basic_hooks env) nm []) register_me"
  have n: "tablewriter_new env (basic_hooks env) a nm Null s = ?m b"
    by (simp add: tablewriter_new_def tablestream_new_def writer_setup_def step_simps b_def g_def)
  show ?thesis
    using setup_cases [OF copy_begin_more(2) b, of env nm "[]"] unfolding n
    by (cases "?m b") (auto split: sum.splits)
qed

lemma wf_life: "frame life m \<Longrightarrow> keeps stream_wf m"
  by (simp add: frame_def keeps_def life_def stream_wf_def focus_wf_def)

lemma closed_stream_wf: "closed_stream s \<Longrightarrow> stream_wf s"
  by (simp add: closed_stream_def stream_wf_def focus_wf_def)

lemma life_streams [frame_intros]:
  "frame life (read_tuple env T)" "frame life (write_raw_line env l)" "frame life (writer_insert env T)"
  unfolding read_tuple_def write_raw_line_def writer_insert_def by (auto intro!: frame_intros split: sum.split option.split)

lemma stream_ops_wf:
  "keeps stream_wf (get_raw_line env)" "keeps stream_wf (read_tuple env T)"
  "keeps stream_wf (write_raw_line env l)" "keeps stream_wf (writer_insert env T)"
  "keeps stream_wf (reader_complete env)" "keeps stream_wf (writer_complete env)"
  by ((rule wf_life, intro frame_intros)+)[4]
    (auto simp: reader_complete_def writer_complete_def intro!: keepsI closed_stream_wf reader_close_closes writer_close_closes)

section \<open>A concrete server\<close>

text \<open>The world: the lines and the results still to be sent, and the lines received.\<close>

type_synonym copy_world = "string list \<times> nat \<times> string list"

definition lines_left :: "copy_world \<Rightarrow> string list" where "lines_left w = fst w"
definition results_left :: "copy_world \<Rightarrow> nat" where "results_left w = fst (snd w)"
definition lines_in :: "copy_world \<Rightarrow> string list" where "lines_in w = snd (snd w)"

definition copy_env :: "copy_world env" where
  "copy_env = quiet_env
     \<lparr>PQgetCopyData := (\<lambda>_ (l, n, r). ((if l = [] then -1 else 1, if l = [] then None else Some (hd l)), (tl l, n, r))),
      PQgetResult := (\<lambda>_ (l, n, r).
        (if n = 0 then None else Some ((sample_rows [] 0)\<lparr>PQresultStatus := PGRES_COMMAND_OK\<rparr>), (l, n - 1, r))),
      PQputCopyData := (\<lambda>_ L (l, n, r). (1, (l, n, r @ [L])))\<rparr>"

definition sample_table :: "copy_world \<Rightarrow> 'z \<Rightarrow> (copy_world, 'z) tstream_scheme" where
  "sample_table w z = tx.extend ((sample_tx w st_active)\<lparr>m_Focus := Some \<lparr>addr = 2, classname = ''tablestream'', name = ''t''\<rparr>\<rparr>)
     \<lparr>this_focus = \<lparr>addr = 2, classname = ''tablestream'', name = ''t''\<rparr>, f_registered = True, m_Null = [], m_Finished = False, \<dots> = z\<rparr>"

lemma copy_env_out: "copy_out copy_env c lines_left results_left lines_in"
  by (simp add: copy_out_def sends_line_def sends_result_def copy_env_def lines_left_def results_left_def lines_in_def
      quiet_env_def case_prod_beta split: list.splits nat.splits)

lemma copy_env_in: "copy_in copy_env c lines_in (\<lambda>w. (lines_left w, results_left w))"
  by (simp add: copy_in_def copy_env_def lines_left_def results_left_def lines_in_def quiet_env_def case_prod_beta)

lemma copy_env_rounds: "rounds copy_env = 5"
  by (simp add: copy_env_def quiet_env_def)

lemma sample_table_fields [simp]:
  "m_Conn (sample_table w z) = Some 1" "world (sample_table w z) = w" "m_Null (sample_table w z) = []"
  "\<not> m_Finished (sample_table w z)" "is_open copy_env (sample_table w z)"
  by (simp_all add: sample_table_def tx.extend_def is_open_def Status_def copy_env_def quiet_env_def sample_tx_def new_tx_def
      conn.extend_def open_conn_def connection_base_def)

lemma sample_table_wf: "stream_wf (sample_table w z)"
  by (simp add: sample_table_def tx.extend_def stream_wf_def focus_wf_def)

lemma sample_table_done [simp]: "m_Done (sample_table w \<lparr>m_Done = b, \<dots> = z\<rparr>) = b"
  by (simp add: sample_table_def tx.extend_def)

section \<open>Properties\<close>

text \<open>
  C23: a stream on a plain transaction that comes out of its constructor holds the focus of the transaction and
  is ready, with its null string; one whose constructor throws never registered, so that no
  focus is left behind; and no operation on a stream that is set up breaks the agreement between the stream
  and its transaction about who holds the focus.
\<close>

theorem streams_well_formed:
  "(case tablereader_new env (basic_hooks env) a nm Null r of
      (Inr _, t) \<Rightarrow> stream_wf t \<and> \<not> m_Finished t \<and> \<not> m_Done t \<and> m_Null t = Null
    | (Inl _, t) \<Rightarrow> \<not> f_registered t \<and> m_Done t) \<and>
   (case tablewriter_new env (basic_hooks env) a nm Null s of
      (Inr _, t) \<Rightarrow> stream_wf t \<and> \<not> m_Finished t \<and> m_Null t = Null
    | (Inl _, t) \<Rightarrow> \<not> f_registered t) \<and>
   keeps stream_wf (get_raw_line env) \<and> keeps stream_wf (read_tuple env T) \<and> keeps stream_wf (reader_complete env) \<and>
   keeps stream_wf (write_raw_line env l) \<and> keeps stream_wf (writer_insert env T) \<and> keeps stream_wf (writer_complete env)"
  by (intro conjI reader_new_wf writer_new_wf stream_ops_wf)

text \<open>
  C24: however a table stream ends, its destructor gives the transaction its focus back, leaves the stream
  finished, and lets no exception of the library out: a lost connection, a failed read of the remaining
  lines or a failed end of the copy included.
\<close>

theorem stream_destructors_release:
  assumes "stream_wf r" "stream_wf s"
  shows "closed_stream (snd (tablereader_delete env r)) \<and> closed_stream (snd (tablewriter_delete env s)) \<and>
    (case fst (tablereader_delete env r) of Inr _ \<Rightarrow> True | Inl e \<Rightarrow> \<not> caught_as Std_exception e) \<and>
    (case fst (tablewriter_delete env s) of Inr _ \<Rightarrow> True | Inl e \<Rightarrow> \<not> caught_as Std_exception e)"
  using destructor_closes [of "reader_close env" r] reader_close_closes [OF assms(1)]
    destructor_closes [of "writer_close env" s] writer_close_closes [OF assms(2)]
    destructor_returns [of "reader_close env" r] destructor_returns [of "writer_close env" s]
  by (simp add: tablereader_delete_def tablewriter_delete_def split: prod.splits sum.splits)

theorem stream_destructors_release_witness:
  "closed_stream (snd (tablewriter_delete copy_env (sample_table ([], 0, []) ())))"
  using stream_destructors_release [OF sample_table_wf [of "([], 0, [])" "\<lparr>m_Done = False\<rparr>"]
    sample_table_wf [of "([], 0, [])" "()"], of copy_env] by blast

text \<open>
  C37: closing a reader before the end of the table reads the lines that remain, and the results behind
  them, so that the connection is ready for the next command; the focus is free again and no error is noted.
  As many rounds as there are lines are enough.
\<close>

theorem reader_close_drains:
  assumes "stream_wf s" "\<not> m_Finished s" "\<not> m_Done s" "is_open env s"
    and "copy_out env (m_Conn s) left to_come other"
    and "length (left (world s)) < rounds env" "to_come (world s) < rounds env"
  shows "\<exists>t. reader_close env s = (Inr (), t) \<and> left (world t) = [] \<and> to_come (world t) = 0 \<and>
    other (world t) = other (world s) \<and> m_Done t \<and> closed_stream t \<and> m_PendingError t = m_PendingError s"
proof -
  let ?s = "s\<lparr>m_Finished := True, m_Focus := None, f_registered := False\<rparr>"
  have "at_line env (m_Conn s) left to_come other (left (world s)) (to_come (world s)) (other (world s)) ?s"
    using assms(4,5) by (simp add: at_line_def)
  from skip_lines_served [OF this assms(7) _ assms(6)] assms(3) obtain w where
    w: "skip_lines env (rounds env) ?s = (Inr (), ?s\<lparr>world := w, m_Done := True\<rparr>)" and
    a: "at_line env (m_Conn s) left to_come other [] 0 (other (world s)) (?s\<lparr>world := w\<rparr>)" by auto
  have "reader_close env s = (Inr (), ?s\<lparr>world := w, m_Done := True\<rparr>)"
    using base_close_wf [OF assms(1), of env] assms(2,3) w
    by (simp add: reader_close_def cond_def seq_def bnd_def catch_def)
  then show ?thesis using a by (intro exI [of _ "?s\<lparr>world := w, m_Done := True\<rparr>"]) (simp add: at_line_def closed_stream_def)
qed

theorem reader_close_drains_witness:
  "\<exists>t. reader_close copy_env (sample_table ([''a'', ''b''], 1, []) \<lparr>m_Done = False\<rparr>) = (Inr (), t) \<and> closed_stream t"
proof -
  let ?s = "sample_table ([''a'', ''b''], 1, []) \<lparr>m_Done = False\<rparr>"
  have "length (lines_left (world ?s)) < rounds copy_env" "results_left (world ?s) < rounds copy_env"
    by (simp_all add: lines_left_def results_left_def copy_env_rounds)
  from reader_close_drains [OF sample_table_wf _ _ _ copy_env_out this] show ?thesis by auto
qed



text \<open>
  C4: tuples survive the trip through a table: what a writer sends for a list of tuples, a reader that is
  sent the same lines with the same null string reads back as the same tuples, whatever else the servers
  do, for tuples of at least one field without bytes that only an octal escape could write.
\<close>

theorem tuples_roundtrip:
  assumes "is_open env s" "copy_in env (m_Conn s) rows other" "list_all storable ts"
    and "is_open env' r" "copy_out env' (m_Conn r) left to_come other'" "\<not> m_Done r" "m_Null r = m_Null s"
    and "to_come (world r) < rounds env'"
  shows "\<exists>sent t. for_each ts (writer_insert env) s = (Inr (), t) \<and> rows (world t) = rows (world s) @ sent \<and>
    (left (world r) = sent \<longrightarrow> (\<exists>u. read_tuples env' (length ts) r = (Inr ts, u) \<and> left (world u) = []))"
proof -
  let ?sent = "map (\<lambda>t. generate (m_Null s) t @ nl) ts"
  have "taking env (m_Conn s) rows other (rows (world s)) (other (world s)) s" using assms(1,2) by (simp add: taking_def)
  from inserts_served [OF this, of ts] obtain w where "for_each ts (writer_insert env) s = (Inr (), s\<lparr>world := w\<rparr>)"
    and "rows w = rows (world s) @ ?sent" by (auto simp: taking_def)
  moreover have "\<exists>u. read_tuples env' (length ts) r = (Inr ts, u) \<and> left (world u) = []" if "left (world r) = ?sent"
  proof -
    have "at_line env' (m_Conn r) left to_come other' (map (\<lambda>t. generate (m_Null r) t @ nl) ts) (to_come (world r))
        (other' (world r)) r" using assms that by (simp add: at_line_def)
    from read_tuples_served [OF this assms(8,6,3)] obtain v where
      v: "read_tuples env' (length ts) r = (Inr ts, r\<lparr>world := v, m_Done := False\<rparr>)"
      "at_line env' (m_Conn r) left to_come other' [] (to_come (world r)) (other' (world r)) (r\<lparr>world := v\<rparr>)" by blast
    then show ?thesis by (intro exI [of _ "r\<lparr>world := v, m_Done := False\<rparr>"]) (simp add: at_line_def)
  qed
  ultimately show ?thesis by (intro exI [of _ ?sent] exI [of _ "s\<lparr>world := w\<rparr>"]) simp
qed

theorem tuples_roundtrip_witness:
  "let ts = [[''a'', []], [''b'' @ [tab]]] in
   \<exists>u. read_tuples copy_env 2 (sample_table (map (\<lambda>t. generate [] t @ nl) ts, 1, []) \<lparr>m_Done = False\<rparr>) = (Inr ts, u)"
proof -
  let ?ts = "[[''a'', []], [''b'' @ [tab]]]"
  let ?s = "sample_table ([], 0, []) ()" and ?r = "sample_table (map (\<lambda>t. generate [] t @ nl) ?ts, 1, []) \<lparr>m_Done = False\<rparr>"
  have t: "list_all storable ?ts"
    by (simp add: storable_def clean_char_def escapechar_def unprintable_def char_value_def)
  have "results_left (world ?r) < rounds copy_env" by (simp add: results_left_def copy_env_rounds)
  from tuples_roundtrip [OF _ copy_env_in t _ copy_env_out _ _ this, of ?s] obtain sent t where
    run: "for_each ?ts (writer_insert copy_env) ?s = (Inr (), t)" "lines_in (world t) = sent" and
    again: "lines_left (world ?r) = sent \<longrightarrow> (\<exists>u. read_tuples copy_env (length ?ts) ?r = (Inr ?ts, u))"
    by (auto simp: lines_in_def)
  have "taking copy_env (Some 1) lines_in (\<lambda>w. (lines_left w, results_left w)) [] ([], 0) ?s"
    by (simp add: taking_def copy_env_in) (simp add: lines_in_def lines_left_def results_left_def)
  from inserts_served [OF this, of ?ts] run have "sent = map (\<lambda>t. generate [] t @ nl) ?ts" by (auto simp: taking_def)
  then show ?thesis using again by (simp add: lines_left_def numeral_2_eq_2)
qed

text \<open>
  C38: \<open>writer << reader\<close> hands every line of the one table to the other, in order and once, each with one
  newline at its end, and ends when the reader is done; as many rounds as lines are enough.
\<close>

theorem writer_copies_reader:
  assumes "copy_out env (m_Conn r) left to_come rows" "copy_in env (m_Conn s) rows (\<lambda>w. (left w, to_come w))"
    and "is_open env r" "is_open env s" "world r = world s" "\<not> m_Done r"
    and "to_come (world r) < rounds env" "length (left (world r)) < rounds env"
  shows "\<exists>r' s'. writer_from_reader env (r, s) = (Inr (), (r', s')) \<and> m_Done r' \<and> left (world s') = [] \<and>
    rows (world s') = rows (world s) @ map terminated_line (left (world r))"
  using copy_lines_served [OF assms] by (auto simp: writer_from_reader_def)

theorem writer_copies_reader_witness:
  "let r = sample_table ([''a'', ''b'' @ nl], 1, []) \<lparr>m_Done = False\<rparr>; s = sample_table ([''a'', ''b'' @ nl], 1, []) () in
   \<exists>r' s'. writer_from_reader copy_env (r, s) = (Inr (), (r', s')) \<and> lines_in (world s') = [''a'' @ nl, ''b'' @ nl]"
proof -
  let ?w = "([''a'', ''b'' @ nl], 1 :: nat, [] :: string list)"
  let ?r = "sample_table ?w \<lparr>m_Done = False\<rparr>" and ?s = "sample_table ?w ()"
  have "results_left (world ?r) < rounds copy_env" "length (lines_left (world ?r)) < rounds copy_env"
    by (simp_all add: lines_left_def results_left_def copy_env_rounds)
  from writer_copies_reader [OF copy_env_out copy_env_in _ _ _ _ this, of ?s] show ?thesis
    by (auto simp: lines_left_def lines_in_def terminated_line_def newline_nl)
qed

end
