(* ===== verification/Palloc.thy ===== *)
theory Palloc
  imports Util
begin

text \<open>
  \<^verbatim>\<open>internal::PQAlloc\<close> (\<^verbatim>\<open>include/pqxx/util.hxx\<close>), the library's own reference-counted pointer, in the
  configuration without \<^verbatim>\<open>shared_ptr\<close>: results and binary strings share memory through it. The pointers
  to one block are the nodes of one ring (theory Util), and the pointer that leaves its ring last frees it.
  Pointers live at addresses; freeing a block that is not allocated has no meaning.
\<close>

section \<open>State\<close>

record 'v pstore =
  rc :: ring
  m_Obj :: "nat \<Rightarrow> nat option"
  blocks :: "nat \<Rightarrow> 'v option"

type_synonym ('v, 'z, 'a) psprog = "(('v, 'z) pstore_scheme, 'a) cxx"

definition empty_store :: "'v pstore" where
  "empty_store = \<lparr>rc = \<lparr>m_l = id, m_r = id\<rparr>, m_Obj = (\<lambda>_. None), blocks = (\<lambda>_. None)\<rparr>"

section \<open>Operations\<close>

definition pa_new :: "nat \<Rightarrow> ('v, 'z, unit) psprog" where
  "pa_new this = modify (\<lambda>s. s\<lparr>m_Obj := (m_Obj s)(this := None), rc := refcount_new this (rc s)\<rparr>)"

definition pa_own :: "nat \<Rightarrow> nat \<Rightarrow> ('v, 'z, unit) psprog" where
  "pa_own this obj = modify (\<lambda>s. s\<lparr>m_Obj := (m_Obj s)(this := Some obj), rc := refcount_new this (rc s)\<rparr>)"

definition DELETER :: "nat \<Rightarrow> ('v, 'z, unit) psprog" where
  "DELETER obj = cond (\<lambda>s. blocks s obj = None) (throw undefined_behaviour)
     (modify (\<lambda>s. s\<lparr>blocks := (blocks s)(obj := None)\<rparr>))"

definition pa_makeref :: "nat \<Rightarrow> nat \<Rightarrow> ('v, 'z, unit) psprog" where
  "pa_makeref this rhs =
     seq (modify (\<lambda>s. s\<lparr>m_Obj := (m_Obj s)(this := m_Obj s rhs)\<rparr>))
         (modify (\<lambda>s. s\<lparr>rc := refcount_makeref this rhs (rc s)\<rparr>))"

definition pa_loseref :: "nat \<Rightarrow> ('v, 'z, unit) psprog" where
  "pa_loseref this =
     seq (bnd (call (\<lambda>s. let (r, g) = refcount_loseref this (rc s) in (r, s\<lparr>rc := g\<rparr>))) (\<lambda>final.
          bnd (gets (\<lambda>s. m_Obj s this)) (\<lambda>obj.
            case obj of Some x \<Rightarrow> if final then DELETER x else skip | None \<Rightarrow> skip)))
         (modify (\<lambda>s. s\<lparr>m_Obj := (m_Obj s)(this := None)\<rparr>))"

definition pa_redoref :: "nat \<Rightarrow> nat \<Rightarrow> ('v, 'z, unit) psprog" where
  "pa_redoref this rhs =
     cond (\<lambda>s. m_Obj s rhs \<noteq> m_Obj s this) (seq (pa_loseref this) (pa_makeref this rhs)) skip"

definition pa_copy :: "nat \<Rightarrow> nat \<Rightarrow> ('v, 'z, unit) psprog" where
  "pa_copy this rhs = seq (pa_new this) (pa_makeref this rhs)"

definition pa_assign :: "nat \<Rightarrow> nat \<Rightarrow> ('v, 'z, unit) psprog" where
  "pa_assign this rhs = pa_redoref this rhs"

text \<open>The destructor, and after it that of the member \<^verbatim>\<open>m_rc\<close>.\<close>

definition pa_delete :: "nat \<Rightarrow> ('v, 'z, unit) psprog" where
  "pa_delete this = seq (pa_loseref this) (modify (\<lambda>s. s\<lparr>rc := snd (refcount_loseref this (rc s))\<rparr>))"

definition pa_swap :: "nat \<Rightarrow> nat \<Rightarrow> nat \<Rightarrow> ('v, 'z, unit) psprog" where
  "pa_swap tmp this rhs =
     seq (pa_copy tmp this) (seq (pa_assign this rhs) (seq (pa_assign rhs tmp) (pa_delete tmp)))"

definition pa_reset :: "nat \<Rightarrow> ('v, 'z, unit) psprog" where
  "pa_reset this = pa_loseref this"

text \<open>\<^verbatim>\<open>operator->\<close>: the block, or an exception for a null pointer.\<close>

definition pa_deref :: "nat \<Rightarrow> ('v, 'z, nat) psprog" where
  "pa_deref this = bnd (gets (\<lambda>s. m_Obj s this)) (\<lambda>obj. case obj of
     None \<Rightarrow> throw (plain Std_logic_error ''Null pointer dereferenced'') | Some x \<Rightarrow> ret x)"

text \<open>What application code does to own a new block: allocate it and hand it to a pointer.\<close>

definition pa_acquire :: "nat \<Rightarrow> nat \<Rightarrow> 'v \<Rightarrow> ('v, 'z, unit) psprog" where
  "pa_acquire this obj v = seq (modify (\<lambda>s. s\<lparr>blocks := (blocks s)(obj \<mapsto> v)\<rparr>)) (pa_own this obj)"

section \<open>Who owns what\<close>

definition owners :: "('v, 'z) pstore_scheme \<Rightarrow> nat \<Rightarrow> nat set" where
  "owners s obj = {p. m_Obj s p = Some obj}"

text \<open>
  The ring of a block is exactly its owners: linked pointers point to the same thing, and no part of the
  owners is closed under going right.
\<close>

definition linked :: "('v, 'z) pstore_scheme \<Rightarrow> bool" where
  "linked s \<longleftrightarrow> (\<forall>x. m_Obj s (m_r (rc s) x) = m_Obj s x) \<and>
     (\<forall>obj S. S \<noteq> {} \<longrightarrow> S \<subseteq> owners s obj \<longrightarrow> m_r (rc s) ` S \<subseteq> S \<longrightarrow> S = owners s obj)"

definition pa_inv :: "('v, 'z) pstore_scheme \<Rightarrow> bool" where
  "pa_inv s \<longleftrightarrow> ring_wf (rc s) \<and> linked s \<and> (\<forall>obj. blocks s obj \<noteq> None \<longleftrightarrow> owners s obj \<noteq> {})"

text \<open>An address at which no pointer has been constructed.\<close>

definition fresh :: "('v, 'z) pstore_scheme \<Rightarrow> nat \<Rightarrow> bool" where
  "fresh s p \<longleftrightarrow> alone (rc s) p \<and> m_Obj s p = None"

lemma linkedD: "linked s \<Longrightarrow> m_Obj s (m_r (rc s) x) = m_Obj s x"
  by (simp add: linked_def)

lemma linked_left: "ring_wf (rc s) \<Longrightarrow> linked s \<Longrightarrow> m_Obj s (m_l (rc s) x) = m_Obj s x"
  using linkedD [of s "m_l (rc s) x"] by (simp add: ring_wfD)

lemma linked_whole:
  "linked s \<Longrightarrow> x \<in> S \<Longrightarrow> S \<subseteq> owners s obj \<Longrightarrow> (\<And>y. y \<in> S \<Longrightarrow> m_r (rc s) y \<in> S) \<Longrightarrow> S = owners s obj"
  unfolding linked_def by blast

lemma alone_owner:
  assumes "ring_wf (rc s)" "linked s" "m_Obj s p = Some obj"
  shows "alone (rc s) p \<longleftrightarrow> owners s obj = {p}"
proof
  assume "alone (rc s) p"
  then show "owners s obj = {p}"
    using linked_whole [OF assms(2), of p "{p}" obj] assms(3) by (simp add: alone_def owners_def)
next
  assume o: "owners s obj = {p}"
  have "m_r (rc s) p \<in> owners s obj" using linkedD [OF assms(2)] assms(3) by (simp add: owners_def)
  then show "alone (rc s) p" using o ring_wfD(1) [OF assms(1), of p] by (simp add: alone_def)
qed

subsection \<open>Leaving and joining a ring\<close>

definition left_ring :: "nat \<Rightarrow> ('v, 'z) pstore_scheme \<Rightarrow> ('v, 'z) pstore_scheme" where
  "left_ring this s = s\<lparr>rc := snd (refcount_loseref this (rc s)), m_Obj := (m_Obj s)(this := None)\<rparr>"

definition joined_ring :: "nat \<Rightarrow> nat \<Rightarrow> ('v, 'z) pstore_scheme \<Rightarrow> ('v, 'z) pstore_scheme" where
  "joined_ring this rhs s = s\<lparr>rc := refcount_makeref this rhs (rc s), m_Obj := (m_Obj s)(this := m_Obj s rhs)\<rparr>"

lemma left_links:
  assumes "ring_wf (rc s)"
  shows "m_r (rc (left_ring this s)) = (m_r (rc s))(m_l (rc s) this := m_r (rc s) this, this := this)"
    "m_Obj (left_ring this s) = (m_Obj s)(this := None)"
  by (simp_all add: left_ring_def loseref_eq [OF assms])

lemma left_whole:
  assumes "ring_wf (rc s)" "linked s"
    and S: "S \<noteq> {}" "S \<subseteq> owners (left_ring this s) obj" "m_r (rc (left_ring this s)) ` S \<subseteq> S"
  shows "S = owners (left_ring this s) obj"
proof -
  let ?t = "left_ring this s" and ?l = "m_l (rc s) this"
  note r = left_links(1) [OF assms(1)] and o = left_links(2) [OF assms(1)]
  have own: "owners ?t obj = owners s obj - {this}" using o by (auto simp: owners_def)
  have cl: "m_r (rc ?t) x \<in> S" if "x \<in> S" for x using S(3) that by blast
  have nthis: "this \<notin> S" using S(2) own by blast
  let ?S = "if ?l \<in> S then insert this S else S"
  obtain x where x: "x \<in> S" using S(1) by blast
  have "?S = owners s obj"
  proof (rule linked_whole [OF assms(2)])
    show "x \<in> ?S" using x by simp
    have "m_Obj s this = Some obj" if "?l \<in> S"
      using that S(2) own linked_left [OF assms(1,2), of this] by (auto simp: owners_def)
    then show "?S \<subseteq> owners s obj" using S(2) own by (auto simp: owners_def)
    fix y
    assume y: "y \<in> ?S"
    show "m_r (rc s) y \<in> ?S"
    proof (cases "y = this")
      case True
      then have l: "?l \<in> S" using y nthis by (auto split: if_splits)
      then have "?l \<noteq> this" using nthis by auto
      then show ?thesis using True cl [OF l] l by (simp add: r)
    next
      case False
      then have "y \<in> S" using y by (auto split: if_splits)
      then show ?thesis using False cl [of y] nthis ring_wfD(2) [OF assms(1), of this] by (auto simp: r split: if_splits)
    qed
  qed
  then show ?thesis using own nthis by (auto split: if_splits)
qed

lemma left_ring_linked:
  assumes "ring_wf (rc s)" "linked s"
  shows "ring_wf (rc (left_ring this s)) \<and> linked (left_ring this s)"
proof -
  let ?t = "left_ring this s" and ?l = "m_l (rc s) this" and ?r = "m_r (rc s) this"
  note r = left_links(1) [OF assms(1)] and o = left_links(2) [OF assms(1)]
  have local: "m_Obj ?t (m_r (rc ?t) x) = m_Obj ?t x" for x
  proof (cases "x = this")
    case False
    have this_right: "m_r (rc s) x = this \<longleftrightarrow> x = ?l" using ring_wfD [OF assms(1)] by metis
    show ?thesis
    proof (cases "x = ?l")
      case True
      have "?r \<noteq> this" using True False ring_wfD(1) [OF assms(1), of this] by auto
      then show ?thesis using True False linkedD [OF assms(2), of this] linked_left [OF assms, of this] by (simp add: r o)
    next
      case neq: False
      then show ?thesis using False this_right linkedD [OF assms(2), of x] by (simp add: r o)
    qed
  qed (simp add: r o)
  have "ring_wf (rc ?t)" using loseref_wf [OF assms(1)] by (simp add: left_ring_def)
  then show ?thesis unfolding linked_def using local left_whole [OF assms] by blast
qed

lemma joined_links:
  assumes "ring_wf (rc s)" "fresh s this" "this \<noteq> rhs"
  shows "m_r (rc (joined_ring this rhs s)) = (m_r (rc s))(this := m_r (rc s) rhs, rhs := this)"
    "m_Obj (joined_ring this rhs s) = (m_Obj s)(this := m_Obj s rhs)"
    "x \<noteq> this \<Longrightarrow> m_r (rc s) x \<noteq> this"
proof -
  have a: "alone (rc s) this" using assms(2) by (simp add: fresh_def)
  show "m_r (rc (joined_ring this rhs s)) = (m_r (rc s))(this := m_r (rc s) rhs, rhs := this)"
    using makeref_eq [OF assms(1) a assms(3)] by (simp add: joined_ring_def)
  show "m_Obj (joined_ring this rhs s) = (m_Obj s)(this := m_Obj s rhs)" by (simp add: joined_ring_def)
  show "x \<noteq> this \<Longrightarrow> m_r (rc s) x \<noteq> this" using a ring_inj(1) [OF assms(1), of x this] by (auto simp: alone_def)
qed

text \<open>The ring that is joined, and any other one.\<close>

lemma joined_whole:
  assumes "ring_wf (rc s)" "linked s" "fresh s this" "this \<noteq> rhs" "m_Obj s rhs = Some obj"
    and S: "S \<noteq> {}" "S \<subseteq> owners (joined_ring this rhs s) obj" "m_r (rc (joined_ring this rhs s)) ` S \<subseteq> S"
  shows "S = owners (joined_ring this rhs s) obj"
proof -
  let ?t = "joined_ring this rhs s"
  note r = joined_links(1) [OF assms(1,3,4)] and o = joined_links(2) [OF assms(1,3,4)] and right = joined_links(3) [OF assms(1,3,4)]
  have own: "owners ?t obj = insert this (owners s obj)" using o assms(5) by (auto simp: owners_def)
  have cl: "m_r (rc ?t) x \<in> S" if "x \<in> S" for x using S(3) that by blast
  have "S \<noteq> {this}" using cl [of this] right [of rhs] assms(4) by (auto simp: r)
  then obtain x where x: "x \<in> S" "x \<noteq> this" using S(1) by blast
  have rest: "S - {this} = owners s obj"
  proof (rule linked_whole [OF assms(2)])
    show "x \<in> S - {this}" using x by simp
    show "S - {this} \<subseteq> owners s obj" using S(2) own by blast
    fix y
    assume y: "y \<in> S - {this}"
    then have ny: "m_r (rc s) y \<noteq> this" using right by simp
    show "m_r (rc s) y \<in> S - {this}"
    proof (cases "y = rhs")
      case True
      then have "this \<in> S" using cl [of y] y by (simp add: r)
      then show ?thesis using cl [of this] True ny assms(4) by (simp add: r)
    next
      case False
      then show ?thesis using cl [of y] y ny by (simp add: r)
    qed
  qed
  then have "rhs \<in> S" using assms(5) by (auto simp: owners_def)
  then have "this \<in> S" using cl [of rhs] by (simp add: r)
  then show ?thesis using own rest insert_Diff [of this S] by simp
qed

lemma joined_other_whole:
  assumes "ring_wf (rc s)" "linked s" "fresh s this" "this \<noteq> rhs" "m_Obj s rhs \<noteq> Some obj"
    and S: "S \<noteq> {}" "S \<subseteq> owners (joined_ring this rhs s) obj" "m_r (rc (joined_ring this rhs s)) ` S \<subseteq> S"
  shows "S = owners (joined_ring this rhs s) obj"
proof -
  let ?t = "joined_ring this rhs s"
  note r = joined_links(1) [OF assms(1,3,4)] and o = joined_links(2) [OF assms(1,3,4)]
  have a: "m_Obj s this = None" using assms(3) by (simp add: fresh_def)
  have own: "owners ?t obj = owners s obj" using o assms(5) a by (auto simp: owners_def)
  have n: "this \<notin> S" "rhs \<notin> S" using S(2) own a assms(5) by (auto simp: owners_def)
  obtain x where x: "x \<in> S" using S(1) by blast
  have "S = owners s obj"
  proof (rule linked_whole [OF assms(2) x])
    show "S \<subseteq> owners s obj" using S(2) own by simp
    fix y
    assume y: "y \<in> S"
    then have "m_r (rc ?t) y \<in> S" using S(3) by blast
    then show "m_r (rc s) y \<in> S" using y n by (auto simp: r split: if_splits)
  qed
  then show ?thesis using own by simp
qed

lemma joined_ring_linked:
  assumes "ring_wf (rc s)" "linked s" "fresh s this" "this \<noteq> rhs"
  shows "ring_wf (rc (joined_ring this rhs s)) \<and> linked (joined_ring this rhs s)"
proof -
  let ?t = "joined_ring this rhs s"
  note r = joined_links(1) [OF assms(1,3,4)] and o = joined_links(2) [OF assms(1,3,4)] and right = joined_links(3) [OF assms(1,3,4)]
  have local: "m_Obj ?t (m_r (rc ?t) x) = m_Obj ?t x" for x
  proof -
    consider "x = this" | "x = rhs" | "x \<noteq> this" "x \<noteq> rhs" by blast
    then show ?thesis
    proof cases
      case 1
      then show ?thesis using assms(4) right [of rhs] linkedD [OF assms(2), of rhs] by (simp add: r o)
    next
      case 2
      then show ?thesis using assms(4) by (simp add: r o)
    next
      case 3
      then show ?thesis using right [of x] linkedD [OF assms(2), of x] by (simp add: r o)
    qed
  qed
  have "ring_wf (rc ?t)" using makeref_wf [OF assms(1) _ assms(4)] assms(3) by (simp add: joined_ring_def fresh_def)
  moreover have "S = owners ?t obj" if "S \<noteq> {}" "S \<subseteq> owners ?t obj" "m_r (rc ?t) ` S \<subseteq> S" for S obj
    using joined_whole [OF assms _ that] joined_other_whole [OF assms _ that] by (cases "m_Obj s rhs = Some obj") simp_all
  ultimately show ?thesis unfolding linked_def using local by blast
qed

section \<open>The specification: pointers and blocks\<close>

text \<open>Each pointer points to a block or to nothing; a block goes when its last owner lets go of it.\<close>

type_synonym 'v owning = "(nat \<Rightarrow> nat option) \<times> (nat \<Rightarrow> 'v option)"

definition owning :: "('v, 'z) pstore_scheme \<Rightarrow> 'v owning" where
  "owning s = (m_Obj s, blocks s)"

definition drop_pointer :: "nat \<Rightarrow> 'v owning \<Rightarrow> 'v owning" where
  "drop_pointer p = (\<lambda>(w, b). (w(p := None),
     case w p of None \<Rightarrow> b | Some x \<Rightarrow> if {q. w q = Some x} = {p} then b(x := None) else b))"

definition point_to :: "nat \<Rightarrow> nat option \<Rightarrow> 'v owning \<Rightarrow> 'v owning" where
  "point_to p x = (\<lambda>(w, b). (w(p := x), b))"

definition assign_pointer :: "nat \<Rightarrow> nat \<Rightarrow> 'v owning \<Rightarrow> 'v owning" where
  "assign_pointer p q a = (if fst a q = fst a p then a else point_to p (fst a q) (drop_pointer p a))"

lemma pa_inv_parts: "pa_inv s \<Longrightarrow> ring_wf (rc s)" "pa_inv s \<Longrightarrow> linked s"
  "pa_inv s \<Longrightarrow> blocks s obj \<noteq> None \<longleftrightarrow> owners s obj \<noteq> {}"
  by (simp_all add: pa_inv_def)

lemma linked_blocks [simp]: "linked (s\<lparr>blocks := b\<rparr>) = linked s"
  by (simp add: linked_def owners_def)

lemma left_ring_fields:
  "m_Obj (left_ring this s) = (m_Obj s)(this := None)" "blocks (left_ring this s) = blocks s"
  by (simp_all add: left_ring_def)

lemma joined_ring_fields:
  "m_Obj (joined_ring this rhs s) = (m_Obj s)(this := m_Obj s rhs)" "blocks (joined_ring this rhs s) = blocks s"
  by (simp_all add: joined_ring_def)

definition dropped :: "nat \<Rightarrow> ('v, 'z) pstore_scheme \<Rightarrow> ('v, 'z) pstore_scheme" where
  "dropped this s = (left_ring this s)\<lparr>blocks := snd (drop_pointer this (owning s))\<rparr>"

lemma pa_loseref_runs:
  assumes "pa_inv s"
  shows "pa_loseref this s = (Inr (), dropped this s)"
proof -
  note parts = pa_inv_parts [OF assms]
  obtain g where g: "refcount_loseref this (rc s) = (alone (rc s) this, g)" by (simp add: loseref_eq [OF parts(1)])
  show ?thesis
  proof (cases "m_Obj s this")
    case None
    then show ?thesis using g
      by (simp add: pa_loseref_def seq_def bnd_def call_def gets_def modify_def skip_def ret_def dropped_def left_ring_def
          drop_pointer_def owning_def)
  next
    case (Some x)
    have "owners s x \<noteq> {}" using Some by (auto simp: owners_def)
    then obtain v where v: "blocks s x = Some v" using parts(3) [of x] by auto
    have a: "alone (rc s) this \<longleftrightarrow> {q. m_Obj s q = Some x} = {this}"
      using alone_owner [OF parts(1,2) Some] by (simp add: owners_def)
    show ?thesis using g Some v a
      by (simp add: pa_loseref_def seq_def bnd_def call_def gets_def modify_def skip_def ret_def dropped_def left_ring_def
          drop_pointer_def owning_def DELETER_def cond_def)
  qed
qed

lemma dropped_fields: "owning (dropped this s) = drop_pointer this (owning s)" "m_Obj (dropped this s) = (m_Obj s)(this := None)"
  by (simp_all add: dropped_def owning_def left_ring_def drop_pointer_def)

lemma dropped_inv:
  assumes "pa_inv s"
  shows "pa_inv (dropped this s)" "fresh (dropped this s) this"
proof -
  note parts = pa_inv_parts [OF assms]
  note l = left_ring_linked [OF parts(1,2), of this]
  have "blocks (dropped this s) obj \<noteq> None \<longleftrightarrow> owners (dropped this s) obj \<noteq> {}" for obj
  proof -
    have o: "owners (dropped this s) obj = owners s obj - {this}" by (auto simp: owners_def dropped_fields)
    show ?thesis
    proof (cases "m_Obj s this = Some obj")
      case True
      have b: "blocks (dropped this s) obj = (if owners s obj = {this} then None else blocks s obj)"
        using True by (simp add: dropped_def drop_pointer_def owning_def owners_def)
      have "this \<in> owners s obj" using True by (simp add: owners_def)
      then show ?thesis using b o parts(3) [of obj] by auto
    next
      case False
      then have "blocks (dropped this s) obj = blocks s obj"
        by (simp add: dropped_def drop_pointer_def owning_def left_ring_def split: option.split)
      moreover have "this \<notin> owners s obj" using False by (simp add: owners_def)
      ultimately show ?thesis using o parts(3) [of obj] by auto
    qed
  qed
  then show "pa_inv (dropped this s)" using l by (simp add: pa_inv_def dropped_def)
  show "fresh (dropped this s) this"
    using loseref_alone [OF parts(1), of this] by (simp add: fresh_def dropped_def left_ring_def)
qed

lemma pa_makeref_runs: "pa_makeref this rhs s = (Inr (), joined_ring this rhs s)"
  by (simp add: pa_makeref_def seq_def bnd_def modify_def joined_ring_def)

lemma joined_inv:
  assumes "pa_inv s" "fresh s this" "this \<noteq> rhs"
  shows "pa_inv (joined_ring this rhs s)"
proof -
  note parts = pa_inv_parts [OF assms(1)]
  have "owners (joined_ring this rhs s) obj = (if m_Obj s rhs = Some obj then insert this (owners s obj) else owners s obj)" for obj
    using assms(2) by (auto simp: owners_def joined_ring_fields fresh_def)
  then have "owners (joined_ring this rhs s) obj \<noteq> {} \<longleftrightarrow> owners s obj \<noteq> {}" for obj
    by (auto simp: owners_def)
  then show ?thesis
    using joined_ring_linked [OF parts(1,2) assms(2,3)] parts(3) by (simp add: pa_inv_def joined_ring_fields)
qed

lemma owning_joined: "owning (joined_ring this rhs s) = point_to this (m_Obj s rhs) (owning s)"
  by (simp add: owning_def joined_ring_fields point_to_def)

section \<open>Each operation implements its specification\<close>

definition meets :: "('v, 'z, 'a) psprog \<Rightarrow> ('v, 'z) pstore_scheme \<Rightarrow> ('v owning \<Rightarrow> 'v owning) \<Rightarrow> bool" where
  "meets m s f \<longleftrightarrow> (\<exists>x t. m s = (Inr x, t) \<and> pa_inv t \<and> owning t = f (owning s))"

lemma refcount_new_fresh: "alone (rc s) this \<Longrightarrow> refcount_new this (rc s) = rc s"
  by (simp add: refcount_new_def alone_def fun_upd_idem)

lemma pa_new_runs: "fresh s this \<Longrightarrow> pa_new this s = (Inr (), s)"
  by (simp add: pa_new_def modify_def fresh_def refcount_new_fresh fun_upd_idem)

lemma meets_new: "pa_inv s \<Longrightarrow> fresh s this \<Longrightarrow> meets (pa_new this) s id"
  by (simp add: meets_def pa_new_runs)

lemma meets_reset: "pa_inv s \<Longrightarrow> meets (pa_reset this) s (drop_pointer this)"
  by (simp add: meets_def pa_reset_def pa_loseref_runs dropped_inv dropped_fields)

lemma loseref_lone: "ring_wf r \<Longrightarrow> alone r this \<Longrightarrow> snd (refcount_loseref this r) = r"
  by (simp add: loseref_eq alone_def fun_upd_idem)

lemma pa_delete_runs:
  assumes "pa_inv s"
  shows "pa_delete this s = (Inr (), dropped this s)"
proof -
  have "snd (refcount_loseref this (rc (dropped this s))) = rc (dropped this s)"
    using dropped_inv [OF assms, of this] by (intro loseref_lone) (simp_all add: fresh_def pa_inv_parts)
  then show ?thesis using pa_loseref_runs [OF assms, of this]
    by (simp add: pa_delete_def seq_def bnd_def modify_def)
qed

lemma meets_delete: "pa_inv s \<Longrightarrow> meets (pa_delete this) s (drop_pointer this)"
  by (simp add: meets_def pa_delete_runs dropped_inv dropped_fields)

lemma pa_copy_runs: "fresh s this \<Longrightarrow> pa_copy this rhs s = (Inr (), joined_ring this rhs s)"
  by (simp add: pa_copy_def seq_def bnd_def pa_new_runs pa_makeref_runs)

lemma meets_copy:
  "pa_inv s \<Longrightarrow> fresh s this \<Longrightarrow> this \<noteq> rhs \<Longrightarrow> meets (pa_copy this rhs) s (\<lambda>a. point_to this (fst a rhs) a)"
  by (simp add: meets_def pa_copy_runs joined_inv owning_joined) (simp add: owning_def)

definition assigned :: "nat \<Rightarrow> nat \<Rightarrow> ('v, 'z) pstore_scheme \<Rightarrow> ('v, 'z) pstore_scheme" where
  "assigned this rhs s = (if m_Obj s rhs = m_Obj s this then s else joined_ring this rhs (dropped this s))"

lemma pa_assign_runs: "pa_inv s \<Longrightarrow> pa_assign this rhs s = (Inr (), assigned this rhs s)"
  by (simp add: pa_assign_def pa_redoref_def cond_def seq_def bnd_def skip_def ret_def pa_loseref_runs pa_makeref_runs
      assigned_def)

lemma assigned_inv: "pa_inv s \<Longrightarrow> pa_inv (assigned this rhs s)"
  by (auto simp: assigned_def intro!: joined_inv dropped_inv)

lemma owning_assigned: "owning (assigned this rhs s) = assign_pointer this rhs (owning s)"
  by (auto simp: assigned_def assign_pointer_def owning_joined dropped_fields) (auto simp: owning_def)

lemma meets_assign: "pa_inv s \<Longrightarrow> meets (pa_assign this rhs) s (assign_pointer this rhs)"
  by (simp add: meets_def pa_assign_runs assigned_inv owning_assigned)

lemma owning_pointer: "fst (owning s) p = m_Obj s p"
  by (simp add: owning_def)

definition exchange :: "nat \<Rightarrow> nat \<Rightarrow> 'v owning \<Rightarrow> 'v owning" where
  "exchange p q = (\<lambda>(w, b). (w(p := w q, q := w p), b))"

text \<open>The temporary holds on to the first block while its pointer changes over, so nothing is freed.\<close>

lemma swap_spec:
  assumes "fst a tmp = None" "tmp \<noteq> p" "tmp \<noteq> q"
  shows "drop_pointer tmp (assign_pointer q tmp (assign_pointer p q (point_to tmp (fst a p) a))) = exchange p q a"
proof -
  obtain w b where a: "a = (w, b)" by (cases a) simp
  have t: "w tmp = None" using assms(1) a by simp
  have other: "(if {x. v x = Some y} = {z} then b(y := None) else b) = b" if "v x = Some y" "x \<noteq> z" for v :: "nat \<Rightarrow> nat option" and x y z
    using that by auto
  show ?thesis
  proof (cases "w q = w p")
    case True
    then have "drop_pointer tmp (w(tmp := w p), b) = (w, b)"
      using t assms(2) other [of "w(tmp := w p)" p _ tmp] by (auto simp: drop_pointer_def fun_upd_idem split: option.split)
    then show ?thesis using True assms
      by (simp add: a point_to_def assign_pointer_def exchange_def fun_upd_idem)
  next
    case False
    then have pq: "p \<noteq> q" by auto
    let ?w1 = "w(tmp := w p)" let ?w2 = "?w1(p := w q)" let ?w3 = "?w2(q := w p)"
    have 1: "assign_pointer p q (?w1, b) = (?w2, b)"
      using False assms(2,3) pq other [of ?w1 tmp _ p]
      by (auto simp: assign_pointer_def drop_pointer_def point_to_def split: option.split)
    have 2: "assign_pointer q tmp (?w2, b) = (?w3, b)"
      using False assms(2,3) pq other [of ?w2 p _ q]
      by (auto simp: assign_pointer_def drop_pointer_def point_to_def split: option.split)
    have 3: "drop_pointer tmp (?w3, b) = (w(p := w q, q := w p), b)"
      using False assms(2,3) pq t other [of ?w3 q _ tmp]
      by (auto simp: drop_pointer_def fun_eq_iff split: option.split)
    show ?thesis using 1 2 3 by (simp add: a point_to_def exchange_def)
  qed
qed

lemma pa_swap_runs:
  assumes "pa_inv s" "fresh s tmp" "tmp \<noteq> this" "tmp \<noteq> rhs"
  shows "\<exists>t. pa_swap tmp this rhs s = (Inr (), t) \<and> pa_inv t \<and> owning t = exchange this rhs (owning s)"
proof -
  let ?a = "joined_ring tmp this s" let ?b = "assigned this rhs ?a" let ?c = "assigned rhs tmp ?b"
  have a: "pa_inv ?a" using joined_inv assms by blast
  have b: "pa_inv ?b" using assigned_inv [OF a] .
  have c: "pa_inv ?c" using assigned_inv [OF b] .
  have "pa_swap tmp this rhs s = (Inr (), dropped tmp ?c)"
    by (simp add: pa_swap_def seq_def bnd_def pa_copy_runs [OF assms(2)] pa_assign_runs [OF a] pa_assign_runs [OF b]
        pa_delete_runs [OF c])
  moreover have "owning (dropped tmp ?c) = exchange this rhs (owning s)"
    using swap_spec [of "owning s" tmp this rhs] assms
    by (simp add: dropped_fields owning_assigned owning_joined owning_pointer fresh_def)
  ultimately show ?thesis using dropped_inv(1) [OF c] by blast
qed

lemma meets_swap:
  "pa_inv s \<Longrightarrow> fresh s tmp \<Longrightarrow> tmp \<noteq> this \<Longrightarrow> tmp \<noteq> rhs \<Longrightarrow> meets (pa_swap tmp this rhs) s (exchange this rhs)"
  using pa_swap_runs unfolding meets_def by blast

definition acquire_block :: "nat \<Rightarrow> nat \<Rightarrow> 'v \<Rightarrow> 'v owning \<Rightarrow> 'v owning" where
  "acquire_block p obj v = (\<lambda>(w, b). (w(p := Some obj), b(obj \<mapsto> v)))"

lemma meets_acquire:
  assumes "pa_inv s" "fresh s this" "blocks s obj = None"
  shows "meets (pa_acquire this obj v) s (acquire_block this obj v)"
proof -
  note parts = pa_inv_parts [OF assms(1)]
  let ?t = "s\<lparr>blocks := (blocks s)(obj \<mapsto> v), m_Obj := (m_Obj s)(this := Some obj)\<rparr>"
  have a: "alone (rc s) this" "m_Obj s this = None" using assms(2) by (simp_all add: fresh_def)
  have none: "owners s obj = {}" using parts(3) [of obj] assms(3) by simp
  have own: "owners ?t x = (if x = obj then {this} else owners s x)" for x
    using none a(2) by (auto simp: owners_def)
  have right: "m_r (rc s) x = this \<longleftrightarrow> x = this" for x
    using a(1) ring_inj(1) [OF parts(1), of x this] by (auto simp: alone_def)
  have "linked ?t"
    unfolding linked_def
  proof (intro conjI allI impI)
    show "m_Obj ?t (m_r (rc ?t) x) = m_Obj ?t x" for x using right [of x] linkedD [OF parts(2), of x] by simp
    fix x S
    assume S: "S \<noteq> {}" "S \<subseteq> owners ?t x" "m_r (rc ?t) ` S \<subseteq> S"
    show "S = owners ?t x"
    proof (cases "x = obj")
      case False
      then show ?thesis using S parts(2) own by (simp add: linked_def)
    qed (use S own in auto)
  qed
  moreover have "blocks ?t x \<noteq> None \<longleftrightarrow> owners ?t x \<noteq> {}" for x using parts(3) [of x] own [of x] by simp
  ultimately have "pa_inv ?t" using parts(1) by (simp add: pa_inv_def)
  moreover have "pa_acquire this obj v s = (Inr (), ?t)"
    using refcount_new_fresh [OF a(1)] by (simp add: pa_acquire_def pa_own_def seq_def bnd_def modify_def)
  ultimately show ?thesis by (simp add: meets_def acquire_block_def owning_def)
qed

section \<open>What a client of shared pointers relies on\<close>

text \<open>
  The interface that the classes with shared memory see: what a pointer shows, and that copying, assigning and
  destroying pointers changes what the named pointer shows and nothing else.
\<close>

locale shared_pointers =
  fixes good :: "'s \<Rightarrow> bool" and unused :: "'s \<Rightarrow> 'p \<Rightarrow> bool" and view :: "'s \<Rightarrow> 'p \<Rightarrow> 'v option"
    and copy :: "'p \<Rightarrow> 'p \<Rightarrow> ('s, unit) cxx" and assign :: "'p \<Rightarrow> 'p \<Rightarrow> ('s, unit) cxx"
    and destroy :: "'p \<Rightarrow> ('s, unit) cxx"
  assumes copy_law: "good s \<Longrightarrow> unused s p \<Longrightarrow> p \<noteq> q \<Longrightarrow>
      \<exists>t. copy p q s = (Inr (), t) \<and> good t \<and> view t = (view s)(p := view s q)"
    and assign_law: "good s \<Longrightarrow> \<exists>t. assign p q s = (Inr (), t) \<and> good t \<and> view t = (view s)(p := view s q)"
    and destroy_law: "good s \<Longrightarrow> \<exists>t. destroy p s = (Inr (), t) \<and> good t \<and> unused t p \<and> view t = (view s)(p := None)"
begin

text \<open>A copy goes on showing what the original showed after the original is gone.\<close>

lemma copy_outlives:
  assumes "good s" "unused s p" "p \<noteq> q"
  shows "\<exists>t. seq (copy p q) (destroy q) s = (Inr (), t) \<and> good t \<and> view t = (view s)(p := view s q, q := None)"
proof -
  obtain u where u: "copy p q s = (Inr (), u)" "good u" "view u = (view s)(p := view s q)" using copy_law [OF assms] by blast
  obtain t where "destroy q u = (Inr (), t)" "good t" "view t = (view u)(q := None)" using destroy_law [OF u(2)] by blast
  then show ?thesis using u by (intro exI [of _ t]) (simp add: seq_def bnd_def)
qed

lemma assign_outlives:
  assumes "good s" "p \<noteq> q"
  shows "\<exists>t. seq (assign p q) (destroy q) s = (Inr (), t) \<and> good t \<and> view t = (view s)(p := view s q, q := None)"
proof -
  obtain u where u: "assign p q s = (Inr (), u)" "good u" "view u = (view s)(p := view s q)" using assign_law [OF assms(1)] by blast
  obtain t where "destroy q u = (Inr (), t)" "good t" "view t = (view u)(q := None)" using destroy_law [OF u(2)] by blast
  then show ?thesis using u by (intro exI [of _ t]) (simp add: seq_def bnd_def)
qed

end

definition block_of :: "('v, 'z) pstore_scheme \<Rightarrow> nat \<Rightarrow> 'v option" where
  "block_of s p = Option.bind (m_Obj s p) (blocks s)"

definition shown :: "'v owning \<Rightarrow> nat \<Rightarrow> 'v option" where
  "shown a p = Option.bind (fst a p) (snd a)"

lemma block_of_shown: "block_of s = shown (owning s)"
  by (rule ext) (simp add: block_of_def shown_def owning_def)

lemma shown_drop: "shown (drop_pointer p a) = (shown a)(p := None)"
proof (rule ext)
  obtain w b where a: "a = (w, b)" by (cases a) simp
  fix q
  show "shown (drop_pointer p a) q = ((shown a)(p := None)) q"
  proof (cases "q = p")
    case False
    have "{r. w r = Some y} \<noteq> {p}" if "w q = Some y" for y using that False by auto
    then show ?thesis using False by (cases "w q"; cases "w p") (auto simp: a shown_def drop_pointer_def)
  qed (simp add: a shown_def drop_pointer_def)
qed

lemma shown_point: "shown (point_to p x a) = (shown a)(p := Option.bind x (snd a))"
  by (cases a) (simp add: shown_def point_to_def fun_eq_iff)

lemma shown_assign: "shown (assign_pointer p q a) = (shown a)(p := shown a q)"
proof (cases "fst a q = fst a p")
  case True
  then have "shown a p = shown a q" by (simp add: shown_def)
  then show ?thesis using True by (simp add: assign_pointer_def fun_upd_idem)
next
  case False
  have "shown (drop_pointer p a) q = shown a q" using False by (subst shown_drop) auto
  moreover have "fst (drop_pointer p a) q = fst a q" using False by (cases a) (auto simp: drop_pointer_def)
  ultimately have "Option.bind (fst a q) (snd (drop_pointer p a)) = shown a q"
    by (simp add: shown_def)
  then show ?thesis using False by (simp add: assign_pointer_def shown_point shown_drop)
qed

lemma shown_exchange: "shown (exchange p q a) = (shown a)(p := shown a q, q := shown a p)"
  by (cases a) (auto simp: shown_def exchange_def fun_eq_iff)

interpretation palloc: shared_pointers "pa_inv :: ('v, 'z) pstore_scheme \<Rightarrow> bool" fresh block_of pa_copy pa_assign pa_delete
proof
  fix s :: "('v, 'z) pstore_scheme" and p q
  show "\<exists>t. pa_copy p q s = (Inr (), t) \<and> pa_inv t \<and> block_of t = (block_of s)(p := block_of s q)"
    if "pa_inv s" "fresh s p" "p \<noteq> q"
    using meets_copy [OF that] by (auto simp: meets_def block_of_shown shown_point shown_def)
  show "\<exists>t. pa_assign p q s = (Inr (), t) \<and> pa_inv t \<and> block_of t = (block_of s)(p := block_of s q)" if "pa_inv s"
    using meets_assign [OF that, of p q] by (auto simp: meets_def block_of_shown shown_assign)
  show "\<exists>t. pa_delete p s = (Inr (), t) \<and> pa_inv t \<and> fresh t p \<and> block_of t = (block_of s)(p := None)" if "pa_inv s"
    by (intro exI [of _ "dropped p s"])
      (simp add: that pa_delete_runs dropped_inv block_of_shown dropped_fields shown_drop)
qed

section \<open>Any sequence of operations\<close>

datatype 'v pa_op = Construct nat | Acquire nat nat 'v | Copy nat nat | Assign nat nat | Swap nat nat nat | Reset nat | Destroy nat

text \<open>Construction takes an address without a pointer, a new block one without a block.\<close>

fun allowed :: "('v, 'z) pstore_scheme \<Rightarrow> 'v pa_op \<Rightarrow> bool" where
  "allowed s (Construct p) = fresh s p"
| "allowed s (Acquire p obj v) = (fresh s p \<and> blocks s obj = None)"
| "allowed s (Copy p q) = (fresh s p \<and> p \<noteq> q)"
| "allowed s (Swap tmp p q) = (fresh s tmp \<and> tmp \<noteq> p \<and> tmp \<noteq> q)"
| "allowed s (Assign p q) = True"
| "allowed s (Reset p) = True"
| "allowed s (Destroy p) = True"

fun run_op :: "'v pa_op \<Rightarrow> ('v, 'z, unit) psprog" where
  "run_op (Construct p) = pa_new p"
| "run_op (Acquire p obj v) = pa_acquire p obj v"
| "run_op (Copy p q) = pa_copy p q"
| "run_op (Swap tmp p q) = pa_swap tmp p q"
| "run_op (Assign p q) = pa_assign p q"
| "run_op (Reset p) = pa_reset p"
| "run_op (Destroy p) = pa_delete p"

fun op_spec :: "'v pa_op \<Rightarrow> 'v owning \<Rightarrow> 'v owning" where
  "op_spec (Construct p) a = a"
| "op_spec (Acquire p obj v) a = acquire_block p obj v a"
| "op_spec (Copy p q) a = point_to p (fst a q) a"
| "op_spec (Swap tmp p q) a = exchange p q a"
| "op_spec (Assign p q) a = assign_pointer p q a"
| "op_spec (Reset p) a = drop_pointer p a"
| "op_spec (Destroy p) a = drop_pointer p a"

inductive pa_reach :: "'v pstore \<Rightarrow> bool" where
  start: "pa_reach empty_store"
| step: "pa_reach s \<Longrightarrow> allowed s x \<Longrightarrow> run_op x s = (r, t) \<Longrightarrow> pa_reach t"

lemma run_op_meets: "pa_inv s \<Longrightarrow> allowed s x \<Longrightarrow> meets (run_op x) s (op_spec x)"
  using meets_new [of s] meets_acquire [of s] meets_copy [of s] meets_swap [of s] meets_assign [of s] meets_reset [of s]
    meets_delete [of s]
  by (cases x) (auto simp: meets_def)

lemma empty_store_inv: "pa_inv empty_store"
  by (simp add: pa_inv_def empty_store_def ring_wf_def linked_def owners_def)

lemma pa_reach_inv: "pa_reach s \<Longrightarrow> pa_inv s"
proof (induction rule: pa_reach.induct)
  case (step s x r t)
  then show ?case using run_op_meets [OF step.IH step.hyps(2)] by (auto simp: meets_def)
qed (rule empty_store_inv)

section \<open>Properties\<close>

text \<open>
  C7: whatever sequence of constructions, copies, assignments, swaps, resets and destructions the shared
  pointers go through, no operation frees a block that is already free, a block is allocated exactly
  while some pointer owns it, and each operation does to pointers and blocks what its specification says:
  the block goes with its last owner, a swap frees nothing.
\<close>

theorem shared_blocks_safe:
  assumes "pa_reach s"
  shows "(\<forall>obj. blocks s obj \<noteq> None \<longleftrightarrow> (\<exists>p. m_Obj s p = Some obj)) \<and>
    (\<forall>x. allowed s x \<longrightarrow> (\<exists>t. run_op x s = (Inr (), t) \<and> owning t = op_spec x (owning s)))"
proof -
  have i: "pa_inv s" using pa_reach_inv [OF assms] .
  have "blocks s obj \<noteq> None \<longleftrightarrow> (\<exists>p. m_Obj s p = Some obj)" for obj
    using pa_inv_parts(3) [OF i, of obj] by (auto simp: owners_def)
  moreover have "\<exists>t. run_op x s = (Inr (), t) \<and> owning t = op_spec x (owning s)" if "allowed s x" for x
    using run_op_meets [OF i that] by (auto simp: meets_def)
  ultimately show ?thesis by blast
qed

theorem shared_blocks_safe_witness:
  "\<exists>s t :: string pstore. pa_reach s \<and> m_Obj s 2 = Some 7 \<and> blocks s 7 = Some ''x'' \<and>
     run_op (Destroy 1) s = (Inr (), t) \<and> blocks t 7 = Some ''x''"
proof -
  have f: "allowed (empty_store :: string pstore) (Acquire 1 7 ''x'')" "m_Obj empty_store p = None" for p
    by (simp_all add: fresh_def empty_store_def alone_def)
  obtain u where u: "run_op (Acquire 1 7 ''x'') empty_store = (Inr (), u)"
    "owning u = op_spec (Acquire 1 7 ''x'') (owning empty_store)"
    using shared_blocks_safe [OF pa_reach.start, THEN conjunct2, rule_format, OF f(1)] by (elim exE conjE) (rule that)
  have ru: "pa_reach u" by (rule pa_reach.step [OF pa_reach.start f(1) u(1)])
  have ou: "m_Obj u = (\<lambda>_. None)(1 := Some 7)" "blocks u = (\<lambda>_. None)(7 \<mapsto> ''x'')"
    using u(2) by (simp_all add: owning_def acquire_block_def empty_store_def)
  have "rc u = rc empty_store"
    using u(1) refcount_new_fresh [of "empty_store :: string pstore" 1]
    by (auto simp: pa_acquire_def pa_own_def seq_def bnd_def modify_def empty_store_def alone_def)
  then have c: "allowed u (Copy 2 1)" using ou by (simp add: fresh_def alone_def empty_store_def)
  obtain v where v: "run_op (Copy 2 1) u = (Inr (), v)" "owning v = op_spec (Copy 2 1) (owning u)"
    using shared_blocks_safe [OF ru, THEN conjunct2, rule_format, OF c] by (elim exE conjE) (rule that)
  have rv: "pa_reach v" by (rule pa_reach.step [OF ru c v(1)])
  have ov: "m_Obj v = (\<lambda>_. None)(1 := Some 7, 2 := Some 7)" "blocks v = (\<lambda>_. None)(7 \<mapsto> ''x'')"
    using v(2) ou by (simp_all add: owning_def point_to_def)
  have d: "allowed v (Destroy 1)" by simp
  obtain t where t: "run_op (Destroy 1) v = (Inr (), t)" "owning t = op_spec (Destroy 1) (owning v)"
    using shared_blocks_safe [OF rv, THEN conjunct2, rule_format, OF d] by (elim exE conjE) (rule that)
  have two: "2 \<in> {q. m_Obj v q = Some 7}" using ov by simp
  have "{q. m_Obj v q = Some 7} \<noteq> {1}"
  proof
    assume "{q. m_Obj v q = Some 7} = {1}"
    from two [unfolded this] show False by simp
  qed
  moreover have "m_Obj v 1 = Some 7" using ov by simp
  ultimately have "blocks t 7 = Some ''x''" using t(2) ov(2) by (simp add: owning_def drop_pointer_def)
  then show ?thesis using rv ov t(1) by (intro exI [of _ v] exI [of _ t]) simp
qed

end
