(* ===== verification/Binarystring.thy ===== *)
theory Binarystring
  imports Palloc Libpq Row
begin

text \<open>
  \<^verbatim>\<open>binarystring\<close> (\<^verbatim>\<open>src/binarystring.cxx\<close>): bytes that may hold zeroes. The object holds a shared pointer
  (theory Palloc) to a buffer with one zero byte more than the string is long, and the length. The addresses
  that \<^verbatim>\<open>new\<close>, the stack and \<^verbatim>\<open>malloc\<close> give are arguments; \<^verbatim>\<open>malloc\<close> may give none.
\<close>

section \<open>Construction\<close>

record bstr =
  m_buf :: nat
  m_size :: nat

type_synonym 'a bsprog = "(string pstore, 'a) cxx"

definition nul :: char where "nul = CHR 0x00"

definition to_buffer :: "nat option \<Rightarrow> string \<Rightarrow> (nat \<times> nat) bsprog" where
  "to_buffer output data = (case output of
     None \<Rightarrow> throw (plain Std_bad_alloc [])
   | Some p \<Rightarrow> seq (modify (\<lambda>s. s\<lparr>blocks := (blocks s)(p \<mapsto> data @ [nul])\<rparr>)) (ret (p, length data)))"

text \<open>libpq allocates the buffer of the unescaped text, and ends it with a zero byte.\<close>

definition unescape :: "'w env \<Rightarrow> nat option \<Rightarrow> string \<Rightarrow> (nat \<times> nat) bsprog" where
  "unescape env output escaped = to_buffer output (PQunescapeBytea env escaped)"

text \<open>\<^verbatim>\<open>m_buf = smart_pointer_type(p)\<close>, by way of a temporary pointer.\<close>

definition hold_buffer :: "nat \<Rightarrow> nat \<Rightarrow> nat \<Rightarrow> unit bsprog" where
  "hold_buffer buf tmp p = seq (pa_own tmp p) (seq (pa_assign buf tmp) (pa_delete tmp))"

definition binarystring_string :: "nat \<Rightarrow> nat \<Rightarrow> nat option \<Rightarrow> string \<Rightarrow> bstr bsprog" where
  "binarystring_string buf tmp output str =
     seq (pa_new buf) (bnd (to_buffer output str) (\<lambda>(p, _).
       seq (hold_buffer buf tmp p) (ret \<lparr>m_buf = buf, m_size = length str\<rparr>)))"

definition binarystring_data :: "nat \<Rightarrow> nat \<Rightarrow> nat option \<Rightarrow> string \<Rightarrow> nat \<Rightarrow> bstr bsprog" where
  "binarystring_data buf tmp output data len =
     seq (pa_new buf) (if length data < len then throw undefined_behaviour else
       bnd (to_buffer output (take len data)) (\<lambda>(p, _).
         seq (hold_buffer buf tmp p) (ret \<lparr>m_buf = buf, m_size = len\<rparr>)))"

definition binarystring_field :: "'w env \<Rightarrow> nat \<Rightarrow> nat \<Rightarrow> nat option \<Rightarrow> field \<Rightarrow> bstr bsprog" where
  "binarystring_field env buf tmp output F =
     seq (pa_new buf) (bnd (unescape env output (field_c_str F)) (\<lambda>(p, n).
       seq (hold_buffer buf tmp p) (ret \<lparr>m_buf = buf, m_size = n\<rparr>)))"

definition binarystring_copy :: "nat \<Rightarrow> bstr \<Rightarrow> bstr bsprog" where
  "binarystring_copy buf rhs = seq (pa_copy buf (m_buf rhs)) (ret \<lparr>m_buf = buf, m_size = m_size rhs\<rparr>)"

definition binarystring_delete :: "bstr \<Rightarrow> unit bsprog" where
  "binarystring_delete b = pa_delete (m_buf b)"

definition binarystring_assign :: "bstr \<Rightarrow> bstr \<Rightarrow> bstr bsprog" where
  "binarystring_assign this rhs = seq (pa_assign (m_buf this) (m_buf rhs)) (ret (this\<lparr>m_size := m_size rhs\<rparr>))"

definition binarystring_swap :: "nat \<Rightarrow> bstr \<Rightarrow> bstr \<Rightarrow> (bstr \<times> bstr) bsprog" where
  "binarystring_swap tmp this rhs =
     seq (pa_swap tmp (m_buf this) (m_buf rhs))
         (ret (this\<lparr>m_size := m_size rhs\<rparr>, rhs\<lparr>m_size := m_size this\<rparr>))"

section \<open>Access\<close>

text \<open>\<^verbatim>\<open>data()[i]\<close>.\<close>

definition bytes_at :: "bstr \<Rightarrow> nat \<Rightarrow> char bsprog" where
  "bytes_at b i = bnd (gets (\<lambda>s. block_of s (m_buf b))) (\<lambda>d. case d of
     None \<Rightarrow> throw undefined_behaviour
   | Some d \<Rightarrow> if i < length d then ret (d ! i) else throw undefined_behaviour)"

definition out_of_range :: "string \<Rightarrow> exn" where
  "out_of_range m = plain Std_out_of_range m"

definition binarystring_at :: "bstr \<Rightarrow> nat \<Rightarrow> char bsprog" where
  "binarystring_at b n =
     (if n \<ge> m_size b then
        if m_size b = 0 then throw (out_of_range ''Accessing empty binarystring'')
        else throw (out_of_range (''binarystring index out of range: '' @ to_string_integer ulong_t (int n) @
          '' (should be below '' @ to_string_integer ulong_t (int (m_size b)) @ '')''))
      else bytes_at b n)"

definition binarystring_empty :: "bstr \<Rightarrow> bool" where
  "binarystring_empty b \<longleftrightarrow> m_size b = 0"

definition binarystring_front :: "bstr \<Rightarrow> char bsprog" where
  "binarystring_front b = bytes_at b 0"

definition binarystring_back :: "bstr \<Rightarrow> char bsprog" where
  "binarystring_back b = (if m_size b = 0 then throw undefined_behaviour else bytes_at b (m_size b - 1))"

fun equal_from :: "bstr \<Rightarrow> bstr \<Rightarrow> nat \<Rightarrow> nat \<Rightarrow> bool bsprog" where
  "equal_from this rhs i 0 = ret True"
| "equal_from this rhs i (Suc n) =
     bnd (bytes_at rhs i) (\<lambda>x. bnd (bytes_at this i) (\<lambda>y.
       if x \<noteq> y then ret False else equal_from this rhs (Suc i) n))"

definition binarystring_equal :: "bstr \<Rightarrow> bstr \<Rightarrow> bool bsprog" where
  "binarystring_equal this rhs =
     (if m_size rhs \<noteq> m_size this then ret False else equal_from this rhs 0 (m_size this))"

definition binarystring_str :: "bstr \<Rightarrow> string bsprog" where
  "binarystring_str b = bnd (gets (\<lambda>s. block_of s (m_buf b))) (\<lambda>d. case d of
     None \<Rightarrow> throw undefined_behaviour
   | Some d \<Rightarrow> if m_size b \<le> length d then ret (take (m_size b) d) else throw undefined_behaviour)"

section \<open>What the object stands for\<close>

definition holds :: "string pstore \<Rightarrow> bstr \<Rightarrow> string \<Rightarrow> bool" where
  "holds s b d \<longleftrightarrow> block_of s (m_buf b) = Some (d @ [nul]) \<and> m_size b = length d"

lemma bytes_at_held: "holds s b d \<Longrightarrow> i < length d \<Longrightarrow> bytes_at b i s = (Inr (d ! i), s)"
  by (simp add: holds_def bytes_at_def step_simps nth_append ret_def)

lemma str_held: "holds s b d \<Longrightarrow> binarystring_str b s = (Inr d, s)"
  by (simp add: holds_def binarystring_str_def step_simps ret_def)

lemma equal_from_held:
  assumes "holds s a x" "holds s b y" "i + n = length x" "length y = length x"
  shows "equal_from a b i n s = (Inr (drop i x = drop i y), s)"
  using assms(3)
proof (induction n arbitrary: i)
  case 0
  then show ?case using assms(4) by (simp add: ret_def)
next
  case (Suc n)
  have i: "i < length x" "i < length y" using Suc.prems assms(4) by simp_all
  have "(drop i x = drop i y) = (x ! i = y ! i \<and> drop (Suc i) x = drop (Suc i) y)"
    using Cons_nth_drop_Suc [OF i(1)] Cons_nth_drop_Suc [OF i(2)] by (metis list.inject)
  then show ?case using Suc.IH [of "Suc i"] Suc.prems bytes_at_held [OF assms(2) i(2)] bytes_at_held [OF assms(1) i(1)]
    by (auto simp: bnd_def ret_def)
qed

text \<open>Owning a new buffer shows its bytes, and nothing else changes.\<close>

lemma acquire_shows:
  assumes "pa_inv s" "fresh s p" "blocks s obj = None"
  shows "\<exists>t. pa_acquire p obj v s = (Inr (), t) \<and> pa_inv t \<and> block_of t = (block_of s)(p \<mapsto> v)"
proof -
  obtain t where t: "pa_acquire p obj v s = (Inr (), t)" "pa_inv t" "owning t = acquire_block p obj v (owning s)"
    using meets_acquire [OF assms, of v] by (auto simp: meets_def)
  have "m_Obj s q \<noteq> Some obj" for q using pa_inv_parts(3) [OF assms(1), of obj] assms(3) by (auto simp: owners_def)
  then have "shown (acquire_block p obj v (owning s)) q = ((shown (owning s))(p \<mapsto> v)) q" for q
    by (cases "m_Obj s q") (auto simp: shown_def acquire_block_def owning_def)
  then have "block_of t = (block_of s)(p \<mapsto> v)" by (intro ext) (simp add: block_of_shown t(3))
  then show ?thesis using t by blast
qed

lemma hold_new_buffer:
  assumes "pa_inv s" "fresh s buf" "fresh s tmp" "buf \<noteq> tmp" "blocks s p = None"
  shows "\<exists>t. seq (modify (\<lambda>s. s\<lparr>blocks := (blocks s)(p \<mapsto> v)\<rparr>)) (hold_buffer buf tmp p) s = (Inr (), t) \<and>
    pa_inv t \<and> block_of t = (block_of s)(buf \<mapsto> v, tmp := None)"
proof -
  obtain u where u: "pa_acquire tmp p v s = (Inr (), u)" "pa_inv u" "block_of u = (block_of s)(tmp \<mapsto> v)"
    using acquire_shows [OF assms(1,3,5)] by blast
  obtain t where t: "seq (pa_assign buf tmp) (pa_delete tmp) u = (Inr (), t)" "pa_inv t"
    "block_of t = (block_of u)(buf := block_of u tmp, tmp := None)"
    using palloc.assign_outlives [OF u(2) assms(4)] by blast
  have "block_of t = (block_of s)(buf \<mapsto> v, tmp := None)" using t(3) u(3) assms(4) by (auto simp: fun_eq_iff)
  moreover have "seq (modify (\<lambda>s. s\<lparr>blocks := (blocks s)(p \<mapsto> v)\<rparr>)) (hold_buffer buf tmp p) s = (Inr (), t)"
    using u(1) t(1) by (simp add: hold_buffer_def pa_acquire_def seq_def bnd_def modify_def)
  ultimately show ?thesis using t(2) by blast
qed

lemma string_made:
  assumes "pa_inv s" "fresh s buf" "fresh s tmp" "buf \<noteq> tmp" "blocks s p = None"
  shows "\<exists>t. binarystring_string buf tmp (Some p) str s = (Inr \<lparr>m_buf = buf, m_size = length str\<rparr>, t) \<and>
    pa_inv t \<and> block_of t = (block_of s)(buf \<mapsto> str @ [nul], tmp := None)"
proof -
  obtain t where t: "seq (modify (\<lambda>s. s\<lparr>blocks := (blocks s)(p \<mapsto> str @ [nul])\<rparr>)) (hold_buffer buf tmp p) s = (Inr (), t)"
    "pa_inv t" "block_of t = (block_of s)(buf \<mapsto> str @ [nul], tmp := None)"
    using hold_new_buffer [OF assms] by blast
  then have "binarystring_string buf tmp (Some p) str s = (Inr \<lparr>m_buf = buf, m_size = length str\<rparr>, t)"
    using pa_new_runs [OF assms(2)]
    by (simp add: binarystring_string_def to_buffer_def seq_def bnd_def modify_def ret_def)
  then show ?thesis using t by blast
qed

text \<open>A store with one string in it, for the witnesses.\<close>

definition one_string :: "string \<Rightarrow> string pstore" where
  "one_string d = \<lparr>rc = \<lparr>m_l = id, m_r = id\<rparr>, m_Obj = (\<lambda>_. None)(1 := Some 7), blocks = (\<lambda>_. None)(7 \<mapsto> d @ [nul])\<rparr>"

lemma one_string_inv: "pa_inv (one_string d)" "p \<noteq> 1 \<Longrightarrow> fresh (one_string d) p"
proof -
  have "owners (one_string d) x = (if x = 7 then {1} else {})" for x by (auto simp: owners_def one_string_def)
  then show "pa_inv (one_string d)"
    by (auto simp: pa_inv_def linked_def one_string_def ring_wf_def split: if_splits)
qed (simp add: fresh_def one_string_def alone_def)

lemma one_string_holds: "holds (one_string d) \<lparr>m_buf = 1, m_size = length d\<rparr> d"
  by (simp add: holds_def one_string_def block_of_def)

section \<open>Properties\<close>

text \<open>
  C40: a binary string made from a text, zero bytes included, gives the same text back, and every one of its bytes,
  with an exception of the documented kind and message past the end; the strings that were there before
  hold what they held.
\<close>

theorem binarystring_roundtrip:
  assumes "pa_inv s" "fresh s buf" "fresh s tmp" "buf \<noteq> tmp" "blocks s p = None"
  shows "\<exists>b t. binarystring_string buf tmp (Some p) str s = (Inr b, t) \<and> pa_inv t \<and>
    binarystring_str b t = (Inr str, t) \<and>
    (\<forall>n. binarystring_at b n t = (if n < length str then (Inr (str ! n), t) else
       (Inl (out_of_range (if str = [] then ''Accessing empty binarystring''
          else ''binarystring index out of range: '' @ to_string_integer ulong_t (int n) @ '' (should be below '' @
            to_string_integer ulong_t (int (length str)) @ '')'')), t))) \<and>
    (\<forall>c d. m_buf c \<notin> {buf, tmp} \<longrightarrow> holds s c d \<longrightarrow> holds t c d)"
proof -
  let ?b = "\<lparr>m_buf = buf, m_size = length str\<rparr>"
  obtain t where t: "binarystring_string buf tmp (Some p) str s = (Inr ?b, t)" "pa_inv t"
    "block_of t = (block_of s)(buf \<mapsto> str @ [nul], tmp := None)"
    using string_made [OF assms] by blast
  have h: "holds t ?b str" using t(3) assms(4) by (simp add: holds_def)
  have "binarystring_at ?b n t = (if n < length str then (Inr (str ! n), t) else
       (Inl (out_of_range (if str = [] then ''Accessing empty binarystring''
          else ''binarystring index out of range: '' @ to_string_integer ulong_t (int n) @ '' (should be below '' @
            to_string_integer ulong_t (int (length str)) @ '')'')), t))" for n
    using bytes_at_held [OF h, of n] by (simp add: binarystring_at_def throw_def)
  moreover have "holds t c d" if "m_buf c \<notin> {buf, tmp}" "holds s c d" for c d
    using that t(3) by (simp add: holds_def)
  ultimately show ?thesis using t(1,2) str_held [OF h] by blast
qed

theorem binarystring_roundtrip_witness:
  "\<exists>b t. binarystring_string 2 3 (Some 8) [CHR ''a'', CHR 0x00, CHR ''b''] (one_string ''x'') = (Inr b, t) \<and>
     binarystring_str b t = (Inr [CHR ''a'', CHR 0x00, CHR ''b''], t)"
proof -
  have "blocks (one_string ''x'') 8 = None" "(2 :: nat) \<noteq> 1" "(3 :: nat) \<noteq> 1" "(2 :: nat) \<noteq> 3" by (simp_all add: one_string_def)
  from binarystring_roundtrip [OF one_string_inv(1) one_string_inv(2) [OF this(2)] one_string_inv(2) [OF this(3)] this(4,1),
      of "[CHR ''a'', CHR 0x00, CHR ''b'']"]
  show ?thesis by blast
qed

text \<open>
  Two binary strings are equal exactly when they stand for the same bytes, and comparing them changes nothing.
\<close>

theorem binarystring_equal_iff:
  assumes "holds s a x" "holds s b y"
  shows "binarystring_equal a b s = (Inr (x = y), s)"
proof (cases "length y = length x")
  case True
  then show ?thesis using assms equal_from_held [OF assms, of 0 "length x"]
    by (simp add: binarystring_equal_def holds_def)
next
  case False
  then show ?thesis using assms by (auto simp: binarystring_equal_def holds_def ret_def)
qed

theorem binarystring_equal_iff_witness:
  "binarystring_equal \<lparr>m_buf = 1, m_size = 2\<rparr> \<lparr>m_buf = 1, m_size = 2\<rparr> (one_string ''ab'') = (Inr (''ab'' = ''ab''), one_string ''ab'')"
proof -
  have h: "holds (one_string ''ab'') \<lparr>m_buf = 1, m_size = 2\<rparr> ''ab''" using one_string_holds [of "''ab''"] by (simp add: numeral_2_eq_2)
  show ?thesis by (rule binarystring_equal_iff [OF h h])
qed



end
