(* ===== verification/Traits.thy ===== *)
theory Traits
  imports Row
begin

text \<open>
  The conversions of \<^verbatim>\<open>include/pqxx/strconv.hxx\<close> for any type that has string traits, the traits of
  the built-in types, and the conversions of a field. A C string is None where it is the null
  pointer; the traits of a type are a record of their functions.
\<close>

section \<open>String traits\<close>

record 'a string_traits =
  tr_name :: string
  has_null :: bool
  is_null :: "'a \<Rightarrow> bool"
  null :: "exn + 'a"
  tr_from_string :: "string \<Rightarrow> exn + 'a"
  tr_to_string :: "'a \<Rightarrow> exn + string"

text \<open>The built-in types have no null and differ in their name and conversions.\<close>

definition builtin_traits :: "string \<Rightarrow> (string \<Rightarrow> exn + 'a) \<Rightarrow> ('a \<Rightarrow> string) \<Rightarrow> 'a string_traits" where
  "builtin_traits n rd wr =
     \<lparr>tr_name = n, has_null = False, is_null = (\<lambda>_. False), null = Inl (throw_null_conversion n),
      tr_from_string = rd, tr_to_string = (\<lambda>x. Inr (wr x))\<rparr>"

definition bool_traits :: "bool string_traits" where
  "bool_traits = builtin_traits ''bool'' from_string_bool to_string_bool"

definition integer_traits :: "string \<Rightarrow> inttype \<Rightarrow> int string_traits" where
  "integer_traits n T = builtin_traits n (from_string_integer T) (to_string_integer T)"

definition float_traits :: "string \<Rightarrow> 'f floattype \<Rightarrow> 'f string_traits" where
  "float_traits n F = builtin_traits n (from_string_float F) (to_string_float F)"

text \<open>A C string has the null pointer for a null; making a string of it has no meaning.\<close>

definition c_string_traits :: "string option string_traits" where
  "c_string_traits =
     \<lparr>tr_name = ''const char *'', has_null = True, is_null = (\<lambda>t. t = None), null = Inr None,
      tr_from_string = (\<lambda>Str. Inr (Some Str)),
      tr_to_string = (\<lambda>Obj. case Obj of None \<Rightarrow> Inl undefined_behaviour | Some s \<Rightarrow> Inr (c_str s))\<rparr>"

definition std_string_traits :: "string string_traits" where
  "std_string_traits =
     \<lparr>tr_name = ''string'', has_null = False, is_null = (\<lambda>_. False), null = Inl (throw_null_conversion ''string''),
      tr_from_string = (\<lambda>Str. Inr (c_str Str)), tr_to_string = (\<lambda>Obj. Inr Obj)\<rparr>"

section \<open>Conversions\<close>

definition read_null :: exn where
  "read_null = plain Std_runtime_error ''Attempt to read NULL string''"

definition from_c_string :: "'a string_traits \<Rightarrow> string option \<Rightarrow> exn + 'a" where
  "from_c_string tr Str = (case Str of None \<Rightarrow> Inl read_null | Some s \<Rightarrow> tr_from_string tr s)"

text \<open>With a length, which only strings take notice of.\<close>

definition from_c_string_len :: "'a string_traits \<Rightarrow> string option \<Rightarrow> nat \<Rightarrow> exn + 'a" where
  "from_c_string_len tr Str n = from_c_string tr Str"

definition string_from_c_string_len :: "string option \<Rightarrow> nat \<Rightarrow> exn + string" where
  "string_from_c_string_len Str n = (case Str of None \<Rightarrow> Inl read_null | Some s \<Rightarrow> Inr (take n s))"

definition from_std_string :: "'a string_traits \<Rightarrow> string \<Rightarrow> exn + 'a" where
  "from_std_string tr Str = from_c_string tr (Some (c_str Str))"

definition string_from_std_string :: "string \<Rightarrow> exn + string" where
  "string_from_std_string Str = Inr Str"

definition to_string_of :: "'a string_traits \<Rightarrow> 'a \<Rightarrow> exn + string" where
  "to_string_of tr Obj = tr_to_string tr Obj"

section \<open>Fields\<close>

definition from_field :: "'a string_traits \<Rightarrow> field \<Rightarrow> exn + 'a" where
  "from_field tr F = from_c_string_len tr (Some (field_c_str F)) (field_size F)"

definition string_of_field :: "field \<Rightarrow> string" where
  "string_of_field Obj = take (field_size Obj) (field_c_str Obj)"

text \<open>Writing a field to a stream adds its bytes to what has been written.\<close>

definition write_field :: "string \<Rightarrow> field \<Rightarrow> string" where
  "write_field S F = S @ take (field_size F) (field_c_str F)"

definition field_to_c_string :: "field \<Rightarrow> string option" where
  "field_to_c_string F = (if field_is_null F then None else Some (field_c_str F))"

text \<open>
  \<open>as\<close> of a field for a type that has no specialisation of \<open>to\<close>; the ones of strings are
  \<open>field_to_c_string\<close> and \<open>field_to_string\<close>.
\<close>

definition field_as_type :: "'a string_traits \<Rightarrow> field \<Rightarrow> exn + 'a" where
  "field_as_type tr F = field_as (\<lambda>s. from_c_string tr (Some s)) (null tr) F"

section \<open>What a field gives back\<close>

text \<open>
  The contract of a type's traits: for the values in \<open>vals\<close> the text that is written is a C string and
  is read as the value again. Everything that goes through traits keeps to it.
\<close>

locale faithful_traits =
  fixes tr :: "'a string_traits" and vals :: "'a set"
  assumes read_written: "x \<in> vals \<Longrightarrow> \<exists>s. tr_to_string tr x = Inr s \<and> c_str s = s \<and> tr_from_string tr s = Inr x"
begin

lemma text_read_back:
  assumes "x \<in> vals" "to_string_of tr x = Inr s"
  shows "from_std_string tr s = Inr x" "from_c_string tr (Some s) = Inr x" "from_c_string_len tr (Some s) n = Inr x"
  using read_written [OF assms(1)] assms(2)
  by (auto simp: to_string_of_def from_std_string_def from_c_string_def from_c_string_len_def)

lemma field_read_back:
  assumes "x \<in> vals" "to_string_of tr x = Inr (field_c_str F)"
  shows "from_field tr F = Inr x" "\<not> field_is_null F \<Longrightarrow> field_as_type tr F = Inr x"
  using text_read_back [OF assms]
  by (simp_all add: from_field_def field_as_type_def field_as_def field_to_def Let_def)

end

lemma c_str_id: "CHR 0x00 \<notin> set s \<Longrightarrow> c_str s = s"
  by (auto simp: c_str_def takeWhile_eq_all_conv)

lemma digits_no_nul: "all_digits ds \<Longrightarrow> CHR 0x00 \<notin> set ds"
  by (induction ds) (auto simp: isdigit_def char_value_def)

interpretation ints: faithful_traits "integer_traits n T" "{x. wide_enough T \<and> fits T x}" for n T
proof
  fix x
  assume "x \<in> {x. wide_enough T \<and> fits T x}"
  then have x: "wide_enough T" "from_string_integer T (to_string_integer T x) = Inr x"
    using integer_text_read_back by auto
  have "CHR 0x00 \<notin> set (to_string_integer T x)"
    using from_string_integer_accepts [OF x] digits_no_nul by auto
  then show "\<exists>s. tr_to_string (integer_traits n T) x = Inr s \<and> c_str s = s \<and> tr_from_string (integer_traits n T) s = Inr x"
    using x(2) c_str_id by (simp add: integer_traits_def builtin_traits_def)
qed

interpretation bools: faithful_traits bool_traits UNIV
  by unfold_locales (auto simp: bool_traits_def builtin_traits_def to_string_bool_def from_string_bool_def c_str_def)

interpretation strings: faithful_traits std_string_traits "{s. CHR 0x00 \<notin> set s}"
  by unfold_locales (simp add: std_string_traits_def c_str_id)

interpretation c_strings: faithful_traits c_string_traits "{t. \<exists>s. t = Some s \<and> CHR 0x00 \<notin> set s}"
  by unfold_locales (auto simp: c_string_traits_def c_str_id)

text \<open>A null in the database is an error for a type without nulls, and its null for the others.\<close>

lemma null_field_as_builtin:
  assumes "field_is_null F" "field_c_str F = []"
  shows "field_as_type (builtin_traits n rd wr) F = Inl (throw_null_conversion n)"
    "field_as_type c_string_traits F = Inr None" "field_to_c_string F = None"
  using assms
  by (simp_all add: field_as_type_def field_as_def field_to_def builtin_traits_def c_string_traits_def field_to_c_string_def Let_def)

lemma null_pointer_not_read: "from_c_string tr None = Inl read_null" "string_from_c_string_len None n = Inl read_null"
  by (simp_all add: from_c_string_def string_from_c_string_len_def)

text \<open>As strings a field is what it prints as, NULs included where its length says so.\<close>

lemma field_text:
  "\<not> field_is_null F \<Longrightarrow> field_to_string F = Some (string_of_field F)"
  "string_from_c_string_len (Some (field_c_str F)) (field_size F) = Inr (string_of_field F)"
  "write_field S F = S @ string_of_field F"
  by (simp_all add: field_to_string_def string_of_field_def string_from_c_string_len_def write_field_def Let_def)

end
