(* ===== verification/Osutil.thy ===== *)
theory Osutil
  imports Strconv "HOL-Library.Word"
begin

text \<open>
  The operating-system helpers of \<^verbatim>\<open>src/util.cxx\<close>: the thread-safety report, the pause and the
  wrapper around \<^verbatim>\<open>strerror\<close>. What the preprocessor decides is a record of the build; the
  system calls are a parameter. A character buffer is the list of its characters.
\<close>

section \<open>The build\<close>

record build =
  have_strerror_r :: bool
  have_strerror_r_gnu :: bool
  have_strerror_s :: bool
  have_strlcpy :: bool
  have_sleep :: bool
  have_shared_ptr :: bool

section \<open>Thread safety\<close>

record thread_safety_model =
  have_safe_strerror :: bool
  safe_libpq :: bool
  safe_query_cancel :: bool
  safe_result_copy :: bool
  safe_kerberos :: bool
  safety_description :: string

definition describe_thread_safety :: "build \<Rightarrow> bool \<Rightarrow> thread_safety_model" where
  "describe_thread_safety B PQisthreadsafe =
     (let strerror_ok = have_strerror_r B \<or> have_strerror_s B in
      \<lparr>have_safe_strerror = strerror_ok, safe_libpq = PQisthreadsafe, safe_query_cancel = True,
       safe_result_copy = have_shared_ptr B, safe_kerberos = False,
       safety_description =
         (if strerror_ok then [] else ''The available strerror() may not be thread-safe.'' @ nl) @
         (if PQisthreadsafe then [] else ''Using a libpq build that is not thread-safe.'' @ nl) @
         (if have_shared_ptr B then []
          else ''Built without shared_ptr.  Copying & destroying results is unsafe.'' @ nl) @
         ''Kerberos is not thread-safe.  If your application uses Kerberos, '' @
         ''protect all calls to Kerberos or libpqxx using a global lock.'' @ nl\<rparr>)"

section \<open>System calls\<close>

datatype errno = EINVAL | EINTR | ENOMEM | Other_errno int

text \<open>
  What the helpers ask of the system. The three functions that describe an error take the number, the
  buffer and its length and leave a new buffer: the GNU one answers a string, the others a code.
\<close>

record 'w os =
  os_sleep :: "32 word \<Rightarrow> 'w \<Rightarrow> 'w"
  os_select :: "int \<Rightarrow> 'w \<Rightarrow> errno option \<times> 'w"
  strerror :: "int \<Rightarrow> string"
  strerror_r_gnu :: "int \<Rightarrow> string \<Rightarrow> nat \<Rightarrow> string \<times> string"
  strerror_r_sus :: "int \<Rightarrow> string \<Rightarrow> nat \<Rightarrow> int \<times> string"
  strerror_s :: "int \<Rightarrow> string \<Rightarrow> nat \<Rightarrow> int \<times> string"

definition sleep_seconds :: "build \<Rightarrow> 'w os \<Rightarrow> int \<Rightarrow> 'w \<Rightarrow> (exn + unit) \<times> 'w" where
  "sleep_seconds B S s w =
     (if s \<le> 0 then (Inr (), w)
      else if have_sleep B then (Inr (), os_sleep S (word_of_int s) w)
      else (case os_select S s w of
          (None, w') \<Rightarrow> (Inr (), w')
        | (Some e, w') \<Rightarrow>
            ((case e of
                EINVAL \<Rightarrow> Inl (range_error (''Invalid timeout value: '' @ to_string_int s))
              | EINTR \<Rightarrow> Inr ()
              | ENOMEM \<Rightarrow> Inl (plain Std_bad_alloc ''std::bad_alloc'')
              | Other_errno _ \<Rightarrow> Inl (internal_error ''select() failed for unknown reason'')), w')))"

section \<open>Copying messages\<close>

abbreviation NUL :: char where
  "NUL \<equiv> CHR 0x00"

text \<open>The two library functions on a buffer \<open>buf\<close> that has room for \<open>n\<close> characters.\<close>

definition strncpy :: "string \<Rightarrow> string \<Rightarrow> nat \<Rightarrow> string" where
  "strncpy buf input n = take n (c_str input @ replicate n NUL) @ drop n buf"

definition strlcpy :: "string \<Rightarrow> string \<Rightarrow> nat \<Rightarrow> string" where
  "strlcpy buf input n =
     (if n = 0 then buf
      else (let k = take (n - 1) (c_str input) in k @ NUL # drop (Suc (length k)) buf))"

definition cpymsg :: "build \<Rightarrow> string \<Rightarrow> string \<Rightarrow> nat \<Rightarrow> string" where
  "cpymsg B buf input buflen =
     (if have_strlcpy B then strlcpy buf input buflen
      else (let b = strncpy buf input buflen in
            if buflen \<noteq> 0 then b[buflen - 1 := NUL] else b))"

text \<open>The message, read as a C string, and the buffer as it is left; no buffer is None.\<close>

definition strerror_wrapper :: "build \<Rightarrow> 'w os \<Rightarrow> int \<Rightarrow> string option \<Rightarrow> nat \<Rightarrow> string \<times> string option" where
  "strerror_wrapper B S err buf len =
     (case buf of
        None \<Rightarrow> (''No buffer provided for error message!'', None)
      | Some b \<Rightarrow>
          if len = 0 then (''No buffer provided for error message!'', Some b)
          else if \<not> have_strerror_r B \<and> \<not> have_strerror_s B then
            (let b' = cpymsg B b (strerror S err) len in (c_str b', Some b'))
          else if have_strerror_r_gnu B then
            (let (m, b') = strerror_r_gnu S err b len in (c_str m, Some b'))
          else if have_strerror_s B then
            (let (r, b') = strerror_s S err b len;
                 b'' = (if r = 0 then b' else cpymsg B b' ''Unknown error'' len)
             in (c_str b'', Some b''))
          else
            (let (r, b') = strerror_r_sus S err b len;
                 b'' = (if r = 0 then b'
                        else if r = -1 then cpymsg B b' ''Unknown error'' len
                        else cpymsg B b' (''Unexpected result from strerror_r()!  '' @
                               ''Is it really SUS-compliant?'') len)
             in (c_str b'', Some b'')))"

section \<open>Lemmas\<close>

lemma c_str_no_nul: "NUL \<notin> set (c_str s)"
  by (auto simp: c_str_def dest: set_takeWhileD)

lemma c_str_append_nul: "NUL \<notin> set s \<Longrightarrow> c_str (s @ NUL # t) = s"
  by (induction s) (auto simp: c_str_def)

lemma take_c_str_no_nul: "NUL \<notin> set (take n (c_str s))"
  using c_str_no_nul in_set_takeD by metis

lemma strlcpy_length: "0 < n \<Longrightarrow> n \<le> length buf \<Longrightarrow> length (strlcpy buf input n) = length buf"
  by (simp add: strlcpy_def Let_def min_def)

lemma strncpy_length: "n \<le> length buf \<Longrightarrow> length (strncpy buf input n) = length buf"
  by (simp add: strncpy_def)

text \<open>
  Either function leaves the buffer as long as it was and in it, as a C string, as much of the message
  as fits in front of the NUL.
\<close>

lemma strncpy_terminated:
  assumes "0 < n" "n \<le> length buf"
  shows "\<exists>t. (strncpy buf input n)[n - 1 := NUL] = take (n - 1) (c_str input) @ NUL # t"
proof (cases "length (c_str input) < n")
  case True
  then obtain m where m: "n = length (c_str input) + Suc m" using less_imp_Suc_add by force
  have b: "strncpy buf input n = c_str input @ replicate (Suc m) NUL @ drop n buf"
    by (simp add: strncpy_def m)
  have "(c_str input @ replicate (Suc m) NUL @ drop n buf) ! (length (c_str input) + m) = NUL"
    by (simp add: nth_append del: replicate_Suc)
  then have "strncpy buf input n ! (n - 1) = NUL" unfolding b by (simp add: m)
  then have "(strncpy buf input n)[n - 1 := NUL] = strncpy buf input n" using list_update_id [of "strncpy buf input n" "n - 1"] by simp
  moreover have "take (n - 1) (c_str input) = c_str input" by (simp add: m)
  ultimately show ?thesis unfolding b by simp
next
  case False
  then have "strncpy buf input n = take n (c_str input) @ drop n buf" by (simp add: strncpy_def)
  moreover have "take n (c_str input) = take (n - 1) (c_str input) @ [c_str input ! (n - 1)]"
    using take_Suc_conv_app_nth [of "n - 1" "c_str input"] False assms(1) by simp
  moreover have "length (take (n - 1) (c_str input)) = n - 1" using False by simp
  ultimately show ?thesis by (simp add: list_update_append)
qed

lemma cpymsg_fits:
  assumes "0 < n" "n \<le> length buf"
  shows "c_str (cpymsg B buf input n) = take (n - 1) (c_str input)" "length (cpymsg B buf input n) = length buf"
proof -
  show "c_str (cpymsg B buf input n) = take (n - 1) (c_str input)"
  proof (cases "have_strlcpy B")
    case True
    then show ?thesis using assms
      by (simp add: cpymsg_def strlcpy_def Let_def c_str_append_nul take_c_str_no_nul)
  next
    case False
    obtain t where "(strncpy buf input n)[n - 1 := NUL] = take (n - 1) (c_str input) @ NUL # t"
      using strncpy_terminated [OF assms] by blast
    then show ?thesis using False assms(1) by (simp add: cpymsg_def Let_def c_str_append_nul take_c_str_no_nul)
  qed
  show "length (cpymsg B buf input n) = length buf"
    using assms by (simp add: cpymsg_def Let_def strlcpy_length strncpy_length)
qed

text \<open>
  Where the system's functions keep to the buffer, so does the wrapper: the message it answers is shorter
  than the length it was given, whatever the code the system answers.
\<close>

definition keeps_buffer :: "(int \<Rightarrow> string \<Rightarrow> nat \<Rightarrow> int \<times> string) \<Rightarrow> bool" where
  "keeps_buffer f \<longleftrightarrow> (\<forall>err b n. length (snd (f err b n)) = length b \<and>
     (fst (f err b n) = 0 \<longrightarrow> 0 < n \<longrightarrow> n \<le> length b \<longrightarrow> length (c_str (snd (f err b n))) < n))"

lemma cpymsg_shorter: "0 < n \<Longrightarrow> n \<le> length buf \<Longrightarrow> length (c_str (cpymsg B buf m n)) < n"
  by (simp add: cpymsg_fits)

lemma kept_buffer:
  "keeps_buffer f \<Longrightarrow> f err b n = (r, b') \<Longrightarrow> length b' = length b"
  "keeps_buffer f \<Longrightarrow> f err b n = (0, b') \<Longrightarrow> 0 < n \<Longrightarrow> n \<le> length b \<Longrightarrow> length (c_str b') < n"
  unfolding keeps_buffer_def by (metis snd_conv, metis fst_conv snd_conv)

lemma strerror_wrapper_fits:
  assumes "0 < n" "n \<le> length b" "\<not> have_strerror_r_gnu B" "keeps_buffer (strerror_s S)" "keeps_buffer (strerror_r_sus S)"
  shows "length (fst (strerror_wrapper B S err (Some b) n)) < n"
proof -
  obtain r b' where s: "strerror_s S err b n = (r, b')" by (cases "strerror_s S err b n")
  obtain r' b'' where u: "strerror_r_sus S err b n = (r', b'')" by (cases "strerror_r_sus S err b n")
  have "length b' = length b" "length b'' = length b"
    using kept_buffer(1) [OF assms(4) s] kept_buffer(1) [OF assms(5) u] by simp_all
  moreover have "r = 0 \<Longrightarrow> length (c_str b') < n" "r' = 0 \<Longrightarrow> length (c_str b'') < n"
    using kept_buffer(2) [OF assms(4)] kept_buffer(2) [OF assms(5)] s u assms(1,2) by blast+
  ultimately show ?thesis
    using assms(1-3) s u by (simp add: strerror_wrapper_def Let_def cpymsg_shorter)
qed

lemma pause_of_nothing: "s \<le> 0 \<Longrightarrow> sleep_seconds B S s w = (Inr (), w)"
  by (simp add: sleep_seconds_def)

lemma interrupted_pause_ends:
  "os_select S s w = (Some EINTR, w') \<Longrightarrow> 0 < s \<Longrightarrow> \<not> have_sleep B \<Longrightarrow> sleep_seconds B S s w = (Inr (), w')"
  by (simp add: sleep_seconds_def)

lemma safety_matches_build:
  "have_safe_strerror (describe_thread_safety B p) \<and> safe_libpq (describe_thread_safety B p) \<and>
   safe_result_copy (describe_thread_safety B p) \<longleftrightarrow>
   safety_description (describe_thread_safety B p) = safety_description (describe_thread_safety
     (B\<lparr>have_strerror_r := True, have_shared_ptr := True\<rparr>) True)"
  by (auto simp: describe_thread_safety_def Let_def nl_def)

end
