(* ===== verification/Session.thy ===== *)
theory Session
  imports Transaction_Facts Largeobject_Facts Binarystring
begin

text \<open>
  The operations of \<^verbatim>\<open>connection_base.cxx\<close>, \<^verbatim>\<open>transaction_base.cxx\<close> and \<^verbatim>\<open>row.cxx\<close> that are written in terms of
  the others, the streams over fields of \<^verbatim>\<open>field.hxx\<close>, and the small containers of \<^verbatim>\<open>util.hxx\<close>.
\<close>

section \<open>Connections\<close>

text \<open>\<^verbatim>\<open>PQencryptPassword\<close> is a parameter; the result is used without a test for a null pointer.\<close>

definition encrypt_password :: "(string \<Rightarrow> string \<Rightarrow> string option) \<Rightarrow> string \<Rightarrow> string \<Rightarrow> exn + string" where
  "encrypt_password crypt user password =
     (case crypt (c_str password) (c_str user) of None \<Rightarrow> Inl undefined_behaviour | Some p \<Rightarrow> Inr (c_str p))"

definition server_version :: "('w, 'z) conn_scheme \<Rightarrow> int" where
  "server_version s = m_serverversion s"

definition get_verbosity :: "('w, 'z) conn_scheme \<Rightarrow> int" where
  "get_verbosity s = m_verbosity s"

definition prepare_unnamed :: "string \<Rightarrow> ('w, 'z, unit) cprog" where
  "prepare_unnamed text = prepare [] text"

definition prepare_now :: "'w env \<Rightarrow> string \<Rightarrow> ('w, 'z, unit) cprog" where
  "prepare_now env nm = register_prepared env nm"

definition wait_read :: "'w env \<Rightarrow> ('w, 'z, unit) cprog" where
  "wait_read env = bnd (gets m_Conn) (\<lambda>c. wait_read_handle env c None)"

definition wait_read_for :: "'w env \<Rightarrow> int \<Rightarrow> int \<Rightarrow> ('w, 'z, unit) cprog" where
  "wait_read_for env seconds microseconds =
     bnd (gets m_Conn) (\<lambda>c. wait_read_handle env c (Some (seconds, microseconds)))"

definition wait_write :: "'w env \<Rightarrow> ('w, 'z, unit) cprog" where
  "wait_write env = bnd (gets m_Conn) (\<lambda>c. wait_write_handle env c)"

definition await_any_notification :: "'w env \<Rightarrow> ('w, 'z, int) cprog" where
  "await_any_notification env =
     seq (activate env)
       (bnd (get_notifs env) (\<lambda>notifs. if notifs = 0 then seq (wait_read env) (get_notifs env) else ret notifs))"

definition esc_text :: "'w env \<Rightarrow> string \<Rightarrow> ('w, 'z, string) cprog" where
  "esc_text env str = esc env (c_str str)"

definition unesc_raw :: "'w env \<Rightarrow> string \<Rightarrow> ('w, 'z, string) cprog" where
  "unesc_raw env t = ret (PQunescapeBytea env (c_str t))"

text \<open>What a binary string in the store holds, quoted as a \<open>bytea\<close> literal.\<close>

definition quote_binary :: "'w env \<Rightarrow> bstr \<Rightarrow> string pstore \<Rightarrow> ('w, 'z, string) cprog" where
  "quote_binary env b st = (case binarystring_str b st of (Inl e, _) \<Rightarrow> throw e | (Inr t, _) \<Rightarrow> quote_raw env t)"

section \<open>Transactions\<close>

definition tx_esc_raw :: "'w env \<Rightarrow> string \<Rightarrow> ('w, 'z, string) tprog" where
  "tx_esc_raw env str = esc_raw env str"

definition tx_quote_raw :: "'w env \<Rightarrow> string \<Rightarrow> ('w, 'z, string) tprog" where
  "tx_quote_raw env str = quote_raw env str"

definition tx_ReadCopyLine :: "'w env \<Rightarrow> ('w, 'z, string option) tprog" where
  "tx_ReadCopyLine env = ReadCopyLine env"

definition tx_WriteCopyLine :: "'w env \<Rightarrow> string \<Rightarrow> ('w, 'z, unit) tprog" where
  "tx_WriteCopyLine env l = WriteCopyLine env l"

definition tx_EndCopyWrite :: "'w env \<Rightarrow> ('w, 'z, unit) tprog" where
  "tx_EndCopyWrite env = EndCopyWrite env"

text \<open>Statements under construction: where they will run, their text, and the parameters so far.\<close>

datatype invocation = Prepared (statement_name: string) (so_far: statement_parameters)
  | Parameterized (query_text: string) (so_far: statement_parameters)

definition prepared_invocation :: "string \<Rightarrow> invocation" where
  "prepared_invocation statement = Prepared statement no_parameters"

definition parameterized_invocation :: "string \<Rightarrow> invocation" where
  "parameterized_invocation query = Parameterized query no_parameters"

definition tx_parameterized :: "string \<Rightarrow> ('w, 'z, invocation) tprog" where
  "tx_parameterized query = ret (parameterized_invocation query)"

section \<open>Rows\<close>

definition row_nth_int :: "row \<Rightarrow> int \<Rightarrow> field" where
  "row_nth_int r i = row_nth r (of_int i)"

definition row_nth_name :: "row \<Rightarrow> string \<Rightarrow> exn + field" where
  "row_nth_name r f = row_at_name r f"

definition row_nth_string :: "row \<Rightarrow> string \<Rightarrow> exn + field" where
  "row_nth_string r f = row_nth_name r (c_str f)"

definition row_at_int :: "row \<Rightarrow> int \<Rightarrow> exn + field" where
  "row_at_int r i = row_at r (of_int i)"

definition row_at_string :: "row \<Rightarrow> string \<Rightarrow> exn + field" where
  "row_at_string r f = row_at_name r (c_str f)"

section \<open>Streams over fields\<close>

text \<open>The get area is the field's own buffer; there is no put area.\<close>

record fieldbuf =
  fb_area :: string
  fb_at :: nat

definition fieldbuf_initialize :: "field \<Rightarrow> int \<times> fieldbuf" where
  "fieldbuf_initialize F = (convert int_t (int (field_size F)), \<lparr>fb_area = take (field_size F) (field_c_str F), fb_at = 0\<rparr>)"

definition fieldbuf_new :: "field \<Rightarrow> fieldbuf" where
  "fieldbuf_new F = snd (fieldbuf_initialize F)"

definition fieldbuf_sync :: "fieldbuf \<Rightarrow> int" where
  "fieldbuf_sync b = EoF"

definition fieldbuf_seekoff :: "int \<Rightarrow> fieldbuf \<Rightarrow> int" where
  "fieldbuf_seekoff off b = EoF"

definition fieldbuf_seekpos :: "int \<Rightarrow> fieldbuf \<Rightarrow> int" where
  "fieldbuf_seekpos p b = EoF"

definition fieldbuf_overflow :: "int \<Rightarrow> fieldbuf \<Rightarrow> int" where
  "fieldbuf_overflow c b = EoF"

definition fieldbuf_underflow :: "fieldbuf \<Rightarrow> int" where
  "fieldbuf_underflow b = EoF"

definition fieldstream_new :: "field \<Rightarrow> fieldbuf" where
  "fieldstream_new F = fieldbuf_new F"

text \<open>The standard library's part, as for large objects.\<close>

definition field_sbumpc :: "fieldbuf \<Rightarrow> int \<times> fieldbuf" where
  "field_sbumpc b =
     (if fb_at b < length (fb_area b) then (to_int_type (fb_area b ! fb_at b), b\<lparr>fb_at := Suc (fb_at b)\<rparr>)
      else (fieldbuf_underflow b, b))"

fun field_sgetn :: "nat \<Rightarrow> fieldbuf \<Rightarrow> string \<times> fieldbuf" where
  "field_sgetn 0 b = ([], b)"
| "field_sgetn (Suc n) b =
     (case field_sbumpc b of (r, b') \<Rightarrow>
        if r = EoF then ([], b') else (case field_sgetn n b' of (cs, b'') \<Rightarrow> (char_of r # cs, b'')))"

section \<open>Arrays and lists\<close>

text \<open>A \<^verbatim>\<open>scoped_array\<close> owns what it points to; the arrays that are there are a map from addresses.\<close>

type_synonym arrays = "nat \<rightharpoonup> string"

definition scoped_new :: "nat option \<Rightarrow> nat option" where
  "scoped_new t = t"

definition delete_array :: "nat option \<Rightarrow> arrays \<Rightarrow> arrays" where
  "delete_array p st = (case p of None \<Rightarrow> st | Some a \<Rightarrow> st(a := None))"

definition scoped_delete :: "nat option \<Rightarrow> arrays \<Rightarrow> arrays" where
  "scoped_delete p st = delete_array p st"

definition scoped_assign :: "nat option \<Rightarrow> nat option \<Rightarrow> arrays \<Rightarrow> nat option \<times> arrays" where
  "scoped_assign p t st = (if t \<noteq> p then (t, delete_array p st) else (p, st))"

definition items_add :: "'a list \<Rightarrow> 'a \<Rightarrow> 'a list" where
  "items_add xs t = xs @ [t]"

text \<open>The constructors take up to five elements.\<close>

definition items_new :: "'a list \<Rightarrow> 'a list" where
  "items_new ts = foldl items_add [] ts"

section \<open>What they do\<close>

text \<open>A named statement is sent to the backend once; the unnamed one every time it is used.\<close>

lemma registered_statement_not_sent:
  assumes "is_open env s" "0 < rounds env" "3 \<le> protocol_version env s" "omap_get nm (m_prepared s) = Some p" "registered p"
  shows "register_prepared env nm s = (Inr (), s)"
  using assms activate_open [OF assms(1,2)]
  by (simp add: register_prepared_def seq_def bnd_def cond_def find_prepared_def gets_def skip_def ret_def)

text \<open>A field stream gives the value of its field and then ends.\<close>

lemma field_sgetn_rest:
  "fst (field_sgetn n b) = take n (drop (fb_at b) (fb_area b)) \<and>
   (length (fb_area b) - fb_at b < n \<longrightarrow> field_sbumpc (snd (field_sgetn n b)) = (EoF, snd (field_sgetn n b)))"
proof (induction n arbitrary: b)
  case (Suc n)
  show ?case
  proof (cases "fb_at b < length (fb_area b)")
    case True
    let ?c = "fb_area b ! fb_at b"
    have "to_int_type ?c \<noteq> EoF" using to_int_type_range [of ?c] by (simp add: EoF_def)
    moreover have "char_of (to_int_type ?c) = ?c" by (simp add: to_int_type_def)
    ultimately show ?thesis
      using Suc.IH [of "b\<lparr>fb_at := Suc (fb_at b)\<rparr>"] True Cons_nth_drop_Suc [OF True, symmetric]
      by (auto simp: field_sbumpc_def split_beta)
  next
    case False
    then show ?thesis by (simp add: field_sbumpc_def fieldbuf_underflow_def split_beta)
  qed
qed simp

lemma fieldstream_reads_value:
  assumes "field_size F \<le> length (field_c_str F)" "field_size F < n"
  shows "fst (field_sgetn n (fieldstream_new F)) = take (field_size F) (field_c_str F)"
    "fst (field_sbumpc (snd (field_sgetn n (fieldstream_new F)))) = EoF"
  using field_sgetn_rest [of n "fieldstream_new F"] assms
  by (simp_all add: fieldstream_new_def fieldbuf_new_def fieldbuf_initialize_def)

text \<open>What was given to a \<^verbatim>\<open>scoped_array\<close>, each array once, is gone after it, and nothing else.\<close>

fun scoped_life :: "nat option \<Rightarrow> nat list \<Rightarrow> arrays \<Rightarrow> arrays" where
  "scoped_life p [] st = scoped_delete p st"
| "scoped_life p (a # as) st = (case scoped_assign p (Some a) st of (q, st') \<Rightarrow> scoped_life q as st')"

lemma scoped_array_frees:
  assumes "distinct as" "\<forall>a \<in> set as. p \<noteq> Some a"
  shows "scoped_life p as st = st |` (- (set as \<union> set_option p))"
  using assms
proof (induction as arbitrary: p st)
  case Nil
  show ?case by (cases p) (auto simp: scoped_delete_def delete_array_def restrict_map_def fun_eq_iff)
next
  case (Cons a as)
  have "scoped_life p (a # as) st = scoped_life (Some a) as (delete_array p st)"
    using Cons.prems(2) by (auto simp: scoped_assign_def)
  also have "\<dots> = delete_array p st |` (- (set as \<union> {a}))" using Cons.IH [of "Some a"] Cons.prems by auto
  also have "\<dots> = st |` (- (set (a # as) \<union> set_option p))"
    by (cases p) (auto simp: delete_array_def restrict_map_def fun_eq_iff)
  finally show ?case .
qed

lemma items_in_order: "items_new ts = ts"
proof -
  have "foldl items_add xs ts = xs @ ts" for xs by (induction ts arbitrary: xs) (simp_all add: items_add_def)
  then show ?thesis by (simp add: items_new_def)
qed

text \<open>A value survives escaping when libpq's two functions are inverse, as they are documented to be.\<close>

lemma raw_escape_roundtrip:
  assumes "is_open env s" "0 < rounds env" "PQescapeByteaConn env (m_Conn s) t (world s) = Some b" "CHR 0x00 \<notin> set b"
    "PQunescapeBytea env b = t"
  shows "bnd (esc_raw env t) (unesc_raw env) s = (Inr t, s)"
proof -
  have "c_str b = b" using assms(4) by (auto simp: c_str_def takeWhile_eq_all_conv)
  then show ?thesis
    using assms(3,5) activate_open [OF assms(1,2)] by (simp add: esc_raw_def unesc_raw_def bnd_def seq_def gets_def ret_def)
qed

end
