(* ===== verification/Spec2Isabelle.thy ===== *)
theory Spec2Isabelle
  imports Robust Nested_Spec Cursor_Facts Pipeline_Replay Icursor_Facts Largeobject_Facts Transactor Tablestream_Facts Binarystring Traits Osutil Session
begin

text \<open>
  A model of libpqxx, the C++ client library for PostgreSQL, and of what makes it correct.

  The library is a layer over libpq. A \<^verbatim>\<open>connection_base\<close> (\<^verbatim>\<open>src/connection_base.cxx\<close>) owns a libpq
  connection, which its policy (\<^verbatim>\<open>src/connection.cxx\<close>) opens, and re-opens when it breaks; it sends
  queries, delivers notices and notifications, and remembers prepared statements and variables.
  At most one transaction is registered on a connection. A transaction (\<^verbatim>\<open>src/transaction_base.cxx\<close>)
  is a state machine whose steps are filled in by the concrete classes: plain transactions,
  nontransactions, subtransactions, and robust transactions, which find out after a lost
  connection what became of their commit. Streams, cursors and pipelines work inside a transaction.
  Queries return a \<^verbatim>\<open>result\<close>, a shared table of text fields; \<^verbatim>\<open>src/strconv.cxx\<close> converts the texts.
  Table streams and pipelines are the \<^verbatim>\<open>transactionfocus\<close> of their transaction, which refuses other queries
  and commits while one is open. A transactor is the code of one transaction, which \<^verbatim>\<open>perform\<close> repeats.

  \<^bold>\<open>How a program is modelled.\<close> A member function is a state transformer with exceptions
  (\<open>prog\<close> of theory Prelude): it returns a value or a thrown exception, and the state it
  reached either way. \<open>seq\<close>, \<open>bnd\<close>, \<open>cond\<close>, \<open>catch_class\<close> are sequencing, tests and \<^verbatim>\<open>try\<close> blocks;
  \<open>with_cleanup\<close> runs a destructor. Exceptions are values of \<open>exn\<close>, and \<open>derives_from\<close> is the
  subclass relation of \<^verbatim>\<open>except.hxx\<close>, so a handler catches what the C++ handler catches. Three
  classes of \<open>exn\<close> stand for runs without a meaning: undefined behaviour, program termination,
  and a loop that used up its fuel; no handler catches those.

  An object is a record of its data members, an object that holds a reference to another one
  extends its record: \<open>conn\<close> is extended by \<open>tx\<close>, and \<open>tx\<close> by \<open>robust\<close>, \<open>curs\<close>, \<open>lobj\<close>, \<open>perf\<close> and \<open>focus\<close>,
  which in turn \<open>pipe\<close> and \<open>tstream\<close> extend. Objects that point to each other (iterators on a cursor stream,
  shared pointers) live in a store, a map from addresses. libpq, the server, the operating system and the application's callbacks are the parameter \<open>env\<close> of theory
  Libpq: functions on a state \<open>'w\<close> the model never looks into.

  \<^bold>\<open>Theories.\<close>
  \<^item> Prelude: programs, and the two relations the proofs use, \<open>keeps\<close> (a predicate is preserved,
    also on a throw) and \<open>frame\<close> (a part of the state is not changed), with their rules in the
    collections \<open>keeps_intros\<close> and \<open>frame_intros\<close>.
  \<^item> Except: \<^verbatim>\<open>except.hxx\<close>, \<^verbatim>\<open>except.cxx\<close>.
  \<^item> Strconv: \<^verbatim>\<open>strconv.cxx\<close>; integers are \<open>int\<close>s with the conversions to their width written out.
  \<^item> Util: \<^verbatim>\<open>util.cxx\<close>: the ring of owners behind shared results, the slot for one object that a
    connection has for its transaction and a transaction for its stream, \<open>separated_list\<close>.
  \<^item> Osutil: the rest of \<^verbatim>\<open>util.cxx\<close>: thread-safety report, pauses, error texts in a buffer.
  \<^item> Copy_Codec: the text format of COPY lines in \<^verbatim>\<open>tablewriter.cxx\<close> and \<^verbatim>\<open>tablereader.cxx\<close>.
  \<^item> Result, Row: \<^verbatim>\<open>result.cxx\<close>, \<^verbatim>\<open>row.cxx\<close>, \<^verbatim>\<open>field.cxx\<close>, SQLSTATE codes, iterators on machine words.
  \<^item> Traits: the conversions of \<^verbatim>\<open>strconv.hxx\<close> for every type with string traits, and those of a field.
  \<^item> Ordmap, Libpq: ordered maps as association lists; the parameter.
  \<^item> Connection, Connection_Facts: \<^verbatim>\<open>connection_base.cxx\<close>, \<^verbatim>\<open>connection.cxx\<close>, \<^verbatim>\<open>errorhandler.cxx\<close>,
    \<^verbatim>\<open>notification.cxx\<close>; then the frame lemmas of every operation and the properties.
  \<^item> Transaction, Transaction_Facts: \<^verbatim>\<open>transaction_base.cxx\<close>, \<^verbatim>\<open>dbtransaction.cxx\<close>, \<^verbatim>\<open>transaction.cxx\<close>,
    \<^verbatim>\<open>nontransaction.cxx\<close>, \<^verbatim>\<open>subtransaction.cxx\<close>, \<^verbatim>\<open>statement_parameters.cxx\<close>, \<^verbatim>\<open>prepared_statement.cxx\<close>.
  \<^item> Nested: the subtransactions of one connection with the transactions around them, as a list of objects, innermost
    first. Savepoints: what PostgreSQL documents of savepoints, and nested transactions as programs mean them.
    Nested_Facts, Nested_Spec: the objects, over such a backend, behave like these; single calls and whole programs.
  \<^item> Robust: \<^verbatim>\<open>robusttransaction.cxx\<close>.
  \<^item> Transactor: the retry loop of \<^verbatim>\<open>transactor.hxx\<close>, over any transaction class and any transactor.
  \<^item> Cursor, Cursor_Facts: the SQL cursor and the stateless cursor of \<^verbatim>\<open>cursor.cxx\<close>.
  \<^item> Icursor, Icursor_Links, Icursor_Facts: its \<^verbatim>\<open>icursorstream\<close> and \<^verbatim>\<open>icursor_iterator\<close>; the links of the list
    of iterators; what an iterator shows.
  \<^item> Focus: \<^verbatim>\<open>transactionfocus\<close>, the base class of the streams that follow.
  \<^item> Pipeline, Pipeline_Facts, Pipeline_Spec, Pipeline_Replay: \<^verbatim>\<open>pipeline.cxx\<close>; its invariant over a server
    that takes every batch; the specification it implements; the replay of a rejected batch.
  \<^item> Tablestream, Tablestream_Facts: \<^verbatim>\<open>tablestream.cxx\<close>, \<^verbatim>\<open>tablereader.cxx\<close>, \<^verbatim>\<open>tablewriter.cxx\<close> as streams
    of lines, from construction to the error handling of their destructors.
  \<^item> Largeobject, Largeobject_Facts: \<^verbatim>\<open>largeobject.cxx\<close> and the stream buffer of \<^verbatim>\<open>largeobject.hxx\<close>.
  \<^item> Palloc, Binarystring: the reference-counted pointer \<^verbatim>\<open>PQAlloc\<close> of \<^verbatim>\<open>util.hxx\<close> on the ring of theory Util,
    and \<^verbatim>\<open>binarystring.cxx\<close> on it.
  \<^item> Session: what is written in terms of the rest: waiting, unnamed statements, escaping overloads, forwarders of
    transactions, streams over fields (\<^verbatim>\<open>field.hxx\<close>), \<^verbatim>\<open>scoped_array\<close> and \<^verbatim>\<open>items\<close> (\<^verbatim>\<open>util.hxx\<close>).

  \<^bold>\<open>Interfaces.\<close> \<open>exclusive_slot\<close> (Util) is the contract of the slot, \<open>ordered_map\<close> (Ordmap) that
  of \<^verbatim>\<open>std::map\<close>, \<open>wrapping_iterator\<close> (Row) what the iterators of results and rows share,
  \<open>faithful_traits\<close> (Traits) what conversions need of the traits of a type,
  \<open>transaction_hooks\<close> (Transaction_Facts) what \<^verbatim>\<open>transaction_base\<close> expects of the virtual functions,
  \<open>transaction_class\<close> (Transactor), which extends it, what \<^verbatim>\<open>perform\<close> expects of the constructor too,
  \<open>nested_transaction\<close> (Nested_Facts) what a backend transaction and a subtransaction share towards a backend, and
  \<open>shared_pointers\<close> (Palloc) what the owners of shared memory rely on;
  each is interpreted on the definitions that provide it.

  \<^bold>\<open>What is shown.\<close> Conversions are exact inverses and stay in range, except where the code does
  not check; equal results are equal tables; failed statements raise the documented classes. On a
  connection: queries run once when answered, a connection that must not be replaced is not,
  notifications arrive once, in order, and never inside a transaction. Every transaction class
  stays on the documented life cycle under any sequence of calls, with exact outcomes for commits
  and aborts; the record of a robust transaction decides. Over a backend with savepoints
  subtransactions are nested transactions from their first query on, and one that is not committed leaves nothing of
  its work behind. A transactor commits once, is never repeated when the outcome is in doubt, and succeeds when one of its attempts can. The place a cursor object
  believes in is the place of the backend's cursor, ranges of rows are returned as asked, and
  each iterator on a cursor stream shows the block at its own place. A pipeline refines a map from query
  numbers to answers, answers every query, and finds the failing query of a rejected batch. Table streams
  always give the focus back, drain what they leave unread, never lose the failure of a copy, and tuples survive
  the trip. What is put into a large object's stream is in the object after a sync, and is read back. Shared
  memory is freed once and only after its last owner; binary strings are values.
  Some theorems state where the code departs from its documentation or its intention.

  \<^bold>\<open>Bounds and fuel.\<close> Loops that end on their own are recursions on their data. The loops whose
  end depends on the server (connection polling, draining results and lines, waiting notifications) run
  for at most \<open>rounds env\<close> rounds and then end as \<open>Diverged\<close>; the properties assume enough
  rounds for the case at hand and say so (one more than the queue of notifications or the lines that are left,
  one for a query). The wait for an old backend is bounded by the code itself, at twenty, \<^verbatim>\<open>perform\<close> by its argument.

  \<^bold>\<open>The backend.\<close> Where a property depends on what the server does with a command, its documented behaviour
  is a named predicate on the environment (\<open>savepoint_server\<close>, \<open>answers_in_order\<close>), which a concrete environment meets in the witness.

  \<^bold>\<open>Not modelled.\<close> Tracing, the pauses between the polls of a robust transaction, the fallbacks for a
  failed allocation, floating point formats (a parameter of the conversions), the formatting
  layer of the standard streams over large objects and fields, \<^verbatim>\<open>shared_ptr\<close> in place of \<^verbatim>\<open>PQAlloc\<close>. The call gates, the
  configuration and the forwarding overloads of the headers have no behaviour of their own. Concurrent use of
  one connection by several threads is excluded by the library's documentation.
\<close>

end
